(* ===== verification/Prelude.thy ===== *)
theory Prelude
  imports Main "HOL-Library.Word" "HOL-Library.List_Lexorder"
begin

text \<open>
  Shared vocabulary of the development: the machine types of the C++ sources, the named
  collections of simplification rules that carry the component proofs, and generic facts on
  lists, bits and signed words.

  An unsigned integer of \<open>w\<close> bits is a \<open>w word\<close>; a signed one is the same word read with
  \<open>sint\<close>, so that addition and subtraction wrap exactly where the two's complement
  representation does. A byte span or byte vector is a list of 8-bit words. A \<open>std::size_t\<close>
  that counts the elements of a container is a \<open>nat\<close>; arithmetic on such counts that could
  leave the 64-bit range is written with \<open>size_wrap\<close>.
\<close>

unbundle bit_operations_syntax

type_synonym byte = "8 word"
type_synonym u16 = "16 word"
type_synonym u32 = "32 word"
type_synonym u64 = "64 word"
type_synonym i32 = "32 word"
type_synonym i64 = "64 word"

abbreviation size_limit :: nat where
  "size_limit \<equiv> 2 ^ 64"

definition size_wrap :: "nat \<Rightarrow> nat" where
  "size_wrap n = n mod size_limit"

named_theorems reader_simps \<open>equations of the byte reader on a reader positioned at a known input\<close>
named_theorems wire_simps \<open>byte layout of the protocol values\<close>
named_theorems word_bounds \<open>ranges of machine integers\<close>

subsection \<open>Counts that wrap at 64 bits\<close>

lemma size_wrap_small [simp]: "n < size_limit \<Longrightarrow> size_wrap n = n"
  by (simp add: size_wrap_def)

lemma size_wrap_less [word_bounds]: "size_wrap n < size_limit"
  by (simp add: size_wrap_def)

lemma size_wrap_add_left [simp]: "size_wrap (size_wrap m + n) = size_wrap (m + n)"
  by (simp add: size_wrap_def mod_add_left_eq)

lemma size_wrap_add_right [simp]: "size_wrap (m + size_wrap n) = size_wrap (m + n)"
  by (simp add: size_wrap_def mod_add_right_eq)

lemma size_wrap_mult_left [simp]: "size_wrap (size_wrap m * n) = size_wrap (m * n)"
  by (simp add: size_wrap_def mod_mult_left_eq)

subsection \<open>Signed words\<close>

lemma sint_plus_exact:
  fixes a b :: "'a::len word"
  assumes "- (2 ^ (LENGTH('a) - 1)) \<le> sint a + sint b"
    and "sint a + sint b < 2 ^ (LENGTH('a) - 1)"
  shows "sint (a + b) = sint a + sint b"
  using assms by (simp add: sint_word_add signed_take_bit_int_eq_self)

lemma sint_minus_exact:
  fixes a b :: "'a::len word"
  assumes "- (2 ^ (LENGTH('a) - 1)) \<le> sint a - sint b"
    and "sint a - sint b < 2 ^ (LENGTH('a) - 1)"
  shows "sint (a - b) = sint a - sint b"
  using assms by (simp add: sint_word_ariths(2) signed_take_bit_int_eq_self)

lemma sint_inject: "sint a = sint b \<longleftrightarrow> a = b"
  by (auto intro: signed_word_eqI)

lemma sint64_upper [word_bounds]: "sint (a :: i64) < 2 ^ 63"
  using sint_lt [of a] by simp

lemma sint64_lower [word_bounds]: "- (2 ^ 63) \<le> sint (a :: i64)"
  using sint_ge [of a] by simp

lemma sint32_upper [word_bounds]: "sint (a :: i32) < 2 ^ 31"
  using sint_lt [of a] by simp

lemma sint32_lower [word_bounds]: "- (2 ^ 31) \<le> sint (a :: i32)"
  using sint_ge [of a] by simp

lemma unat_less_exp: "2 ^ LENGTH('a) = m \<Longrightarrow> unat (a :: 'a::len word) < m"
  by (metis unsigned_less)

lemma unat32_upper [word_bounds]: "unat (a :: u32) < 2 ^ 32"
  by (rule unat_less_exp) simp

lemma unat64_upper [word_bounds]: "unat (a :: u64) < 2 ^ 64"
  by (rule unat_less_exp) simp

lemma unat8_upper [word_bounds]: "unat (a :: byte) < 256"
  by (rule unat_less_exp) simp

lemma unat_of_nat_small: "n < 2 ^ LENGTH('a) \<Longrightarrow> unat (of_nat n :: 'a::len word) = n"
  by (simp add: unat_of_nat take_bit_nat_eq_self)

lemma unat_of_nat64 [simp]: "n < size_limit \<Longrightarrow> unat (of_nat n :: u64) = n"
  by (simp add: unat_of_nat_small)

subsection \<open>Shifts, casts and bit fields\<close>

lemma unat_push_bit_small:
  "unat b * 2 ^ k < 2 ^ LENGTH('a) \<Longrightarrow> unat (push_bit k b :: 'a::len word) = 2 ^ k * unat b"
  unfolding unsigned_push_bit_eq by (simp add: push_bit_eq_mult take_bit_nat_eq_self mult.commute)

lemma nat_and_shift: "(x :: nat) < 2 ^ k \<Longrightarrow> x AND push_bit k y = 0"
proof (rule bit_eqI)
  fix n assume "x < 2 ^ k"
  then have "bit x n \<longleftrightarrow> bit (take_bit k x) n" by (simp add: take_bit_nat_eq_self)
  then show "bit (x AND push_bit k y) n = bit (0 :: nat) n"
    by (auto simp: bit_and_iff bit_push_bit_iff bit_take_bit_iff)
qed

lemma unat_or_push:
  fixes a b :: "'a::len word"
  assumes "unat a < 2 ^ k" and "unat b * 2 ^ k < 2 ^ LENGTH('a)"
  shows "unat (a OR push_bit k b) = unat a + 2 ^ k * unat b"
proof -
  have "unat a AND 2 ^ k * unat b = 0"
    using nat_and_shift [OF assms(1), of "unat b"] by (simp add: push_bit_eq_mult mult.commute)
  then show ?thesis
    unfolding unsigned_or_eq unat_push_bit_small [OF assms(2)] by (rule disjunctive_add_eq_or [symmetric])
qed

lemma unat_drop_bit: "unat (drop_bit k a :: 'a::len word) = unat a div 2 ^ k"
  unfolding unsigned_drop_bit_eq by (simp add: drop_bit_eq_div take_bit_nat_eq_self unsigned_less)

lemma unat_ucast_up: "LENGTH('a::len) \<le> LENGTH('b::len) \<Longrightarrow> unat (ucast (a :: 'a word) :: 'b word) = unat a"
  by (simp add: unsigned_ucast_eq take_bit_nat_eq_self order_less_le_trans [OF unsigned_less])

lemma sint_ucast_time: "sint (ucast (t :: u32) :: i64) = int (unat t)"
proof -
  have "unat (ucast t :: i64) = unat t" by (rule unat_ucast_up) simp
  then have e: "uint (ucast t :: i64) = int (unat t)" by (simp only: uint_nat)
  have "unat t < 2 ^ 63" using unat32_upper [of t] by simp
  then have "int (unat t) < int (2 ^ 63)" by (simp only: of_nat_less_iff)
  then have "int (unat t) < 2 ^ (LENGTH(64) - Suc 0)" by simp
  moreover have "- (2 ^ (LENGTH(64) - Suc 0)) \<le> int (unat t)"
    by (rule order_trans [of _ 0]) simp_all
  ultimately show ?thesis
    unfolding sint_uint e by (intro signed_take_bit_int_eq_self)
qed

lemma sint_word_of_int_small:
  "- (2 ^ 63) \<le> k \<Longrightarrow> k < 2 ^ 63 \<Longrightarrow> sint (word_of_int k :: i64) = k"
  by (simp add: sint_sbintrunc' signed_take_bit_int_eq_self)

lemma unat_nonneg: "0 \<le> sint (w :: i64) \<Longrightarrow> int (unat w) = sint w"
  using uint_sint [of w] sint64_upper [of w] by (simp add: take_bit_int_eq_self)


lemma sint_scast_32: "sint (scast (h :: i32) :: i64) = sint h"
  using sint32_lower [of h] sint32_upper [of h]
  by (simp add: signed_scast_eq signed_take_bit_int_eq_self)

subsection \<open>Lists\<close>

lemma drop_eq_append_take:
  assumes "drop n xs = ys @ zs"
  shows "take (length ys) (drop n xs) = ys" and "drop (n + length ys) xs = zs"
proof -
  show "take (length ys) (drop n xs) = ys" using assms by simp
  have "drop (n + length ys) xs = drop (length ys) (drop n xs)"
    by (simp add: add.commute)
  then show "drop (n + length ys) xs = zs" using assms by simp
qed

lemma drop_append_length_le:
  assumes "drop n xs = ys @ zs" and "n \<le> length xs"
  shows "n + length ys \<le> length xs"
proof -
  have "length xs - n = length ys + length zs"
    using arg_cong [OF assms(1), of length] by simp
  then show ?thesis using assms(2) by simp
qed

lemma length_concat_map_ge:
  assumes "\<And>x. x \<in> set xs \<Longrightarrow> m \<le> length (f x)"
  shows "m * length xs \<le> length (concat (map f xs))"
  using assms
proof (induction xs)
  case (Cons x xs)
  then have "m \<le> length (f x)" and "m * length xs \<le> length (concat (map f xs))"
    by simp_all
  then show ?case by simp
qed simp

end
