(* ===== verification/Protocol_Types.thy ===== *)
theory Protocol_Types
  imports Prelude
begin

text \<open>
  The protocol values of \<^verbatim>\<open>src/src/bitcoin/protocol\<close>: hash identifiers
  (\<^verbatim>\<open>hash.h\<close>), amounts (\<^verbatim>\<open>amount.h\<close>), scripts (\<^verbatim>\<open>script.h\<close>),
  transactions (\<^verbatim>\<open>transaction.h\<close>), headers (\<^verbatim>\<open>block_header.h\<close>), blocks
  (\<^verbatim>\<open>block.h\<close>) and parse results (\<^verbatim>\<open>result.h\<close>).

  A hash identifier is a 32-byte array in the source. Here it is a byte list, and the array
  length is the well-formedness predicate \<open>hash_ok\<close>; the predicates \<open>tx_ok\<close>,
  \<open>header_ok\<close> and \<open>block_ok\<close> collect what the C++ types guarantee of every value:
  hashes of 32 bytes, containers shorter than \<open>2 ^ 64\<close>.
\<close>

subsection \<open>Hash identifiers\<close>

type_synonym hash256 = "byte list"
type_synonym txid = "byte list"
type_synonym wtxid = "byte list"
type_synonym block_hash = "byte list"

definition null_hash :: "byte list" where
  "null_hash = replicate 32 0"

definition hash_bool :: "byte list \<Rightarrow> bool" where
  "hash_bool h \<longleftrightarrow> h \<noteq> null_hash"

definition hash_ok :: "byte list \<Rightarrow> bool" where
  "hash_ok h \<longleftrightarrow> length h = 32"

lemma hash_ok_null [simp]: "hash_ok null_hash"
  by (simp add: hash_ok_def null_hash_def)

subsection \<open>Amounts, scripts, outpoints\<close>

type_synonym amount = i64
type_synonym script = "byte list"
type_synonym witness_item = "byte list"

abbreviation satoshis :: "amount \<Rightarrow> int" where
  "satoshis a \<equiv> sint a"

datatype outpoint = Outpoint (op_txid: txid) (op_index: u32)

definition outpoint_null :: outpoint where
  "outpoint_null = Outpoint null_hash 0xffffffff"

definition is_null :: "outpoint \<Rightarrow> bool" where
  "is_null p \<longleftrightarrow> p = outpoint_null"

text \<open>The defaulted three-way comparison compares the members in declaration order.\<close>

instantiation outpoint :: linorder
begin

definition less_eq_outpoint :: "outpoint \<Rightarrow> outpoint \<Rightarrow> bool" where
  "less_eq_outpoint a b \<longleftrightarrow>
     op_txid a < op_txid b \<or> op_txid a = op_txid b \<and> op_index a \<le> op_index b"

definition less_outpoint :: "outpoint \<Rightarrow> outpoint \<Rightarrow> bool" where
  "less_outpoint a b \<longleftrightarrow>
     op_txid a < op_txid b \<or> op_txid a = op_txid b \<and> op_index a < op_index b"

instance
  by standard
    (auto simp: less_eq_outpoint_def less_outpoint_def not_less intro: outpoint.expand)

end

subsection \<open>Transactions\<close>

record tx_input =
  previous_output :: outpoint
  input_script :: script
  input_sequence :: u32
  input_witness :: "witness_item list"

record tx_output =
  output_value :: amount
  output_script :: script

record transaction =
  tx_version :: i32
  tx_inputs :: "tx_input list"
  tx_outputs :: "tx_output list"
  tx_locktime :: u32

definition empty_transaction :: transaction where
  "empty_transaction = \<lparr>tx_version = 0, tx_inputs = [], tx_outputs = [], tx_locktime = 0\<rparr>"

subsection \<open>Headers and blocks\<close>

type_synonym block_time = u32

record block_header =
  hdr_version :: i32
  previous_block_hash :: block_hash
  hdr_merkle_root :: hash256
  hdr_time :: block_time
  hdr_bits :: u32
  hdr_nonce :: u32

record block =
  blk_header :: block_header
  blk_transactions :: "transaction list"

definition default_block_header :: block_header where
  "default_block_header =
     \<lparr>hdr_version = 0, previous_block_hash = null_hash, hdr_merkle_root = null_hash,
      hdr_time = 0, hdr_bits = 0, hdr_nonce = 0\<rparr>"

definition default_block :: block where
  "default_block = \<lparr>blk_header = default_block_header, blk_transactions = []\<rparr>"

subsection \<open>What the C++ types guarantee of every value\<close>

definition bytes_ok :: "byte list \<Rightarrow> bool" where
  "bytes_ok bs \<longleftrightarrow> length bs < size_limit"

definition input_ok :: "tx_input \<Rightarrow> bool" where
  "input_ok i \<longleftrightarrow> hash_ok (op_txid (previous_output i)) \<and> bytes_ok (input_script i) \<and>
     length (input_witness i) < size_limit \<and> (\<forall>w\<in>set (input_witness i). bytes_ok w)"

definition output_ok :: "tx_output \<Rightarrow> bool" where
  "output_ok out \<longleftrightarrow> bytes_ok (output_script out)"

definition tx_ok :: "transaction \<Rightarrow> bool" where
  "tx_ok tx \<longleftrightarrow> length (tx_inputs tx) < size_limit \<and> length (tx_outputs tx) < size_limit \<and>
     (\<forall>i\<in>set (tx_inputs tx). input_ok i) \<and> (\<forall>out\<in>set (tx_outputs tx). output_ok out)"

definition header_ok :: "block_header \<Rightarrow> bool" where
  "header_ok h \<longleftrightarrow> hash_ok (previous_block_hash h) \<and> hash_ok (hdr_merkle_root h)"

definition block_ok :: "block \<Rightarrow> bool" where
  "block_ok b \<longleftrightarrow> header_ok (blk_header b) \<and> length (blk_transactions b) < size_limit \<and>
     (\<forall>tx\<in>set (blk_transactions b). tx_ok tx)"

subsection \<open>Parse results\<close>

datatype parse_failure_code =
    truncated
  | trailing_data
  | non_canonical_compact_size
  | compact_size_overflow
  | invalid_witness_marker

datatype malformed_parse = Malformed_parse (mp_code: parse_failure_code) (mp_offset: nat)

datatype 'a parse_result = parsed 'a | malformed malformed_parse

end
