(* ===== verification/Validation_Results.thy ===== *)
theory Validation_Results
  imports Protocol_Types
begin

text \<open>
  The vocabulary of the validation library: the inventory of consensus rules
  (\<^verbatim>\<open>validation/rules.h\<close>), decisions, operation errors and the exception boundaries
  (\<^verbatim>\<open>validation/result.h\<close>), and the contexts a caller supplies
  (\<^verbatim>\<open>validation/context.h\<close>).

  A C++ call that may throw is a value of type \<open>call\<close>; the two boundary functions are the only
  places where a thrown exception becomes an operation error.
\<close>

subsection \<open>Rules\<close>

datatype validation_rule_id =
    h01_previous_hash_parent
  | h02_proof_of_work
  | h03_difficulty_transition
  | h04_median_time_past
  | h05_future_time
  | h06_retired_version
  | h07_timewarp
  | l01_block_non_empty
  | l02_merkle_root
  | l03_merkle_mutation
  | l04_original_block_size
  | l05_coinbase_position
  | l06_legacy_sigops
  | l07_transaction_inputs_non_empty
  | l08_transaction_outputs_non_empty
  | l09_transaction_size
  | l10_output_value_non_negative
  | l11_output_value_range
  | l12_unique_inputs
  | l13_coinbase_script_size
  | l14_non_coinbase_prevout
  | c01_transaction_finality
  | c02_pre_segwit_no_witness
  | c03_block_weight
  | c04_coinbase_height
  | c05_witness_commitment_presence
  | c06_witness_nonce_presence
  | c07_witness_merkle_commitment
  | s01_bip30_duplicate_unspent
  | s02_prevouts_unspent
  | s03_sigop_cost
  | s04_coinbase_subsidy
  | s05_outputs_do_not_exceed_inputs
  | s06_input_value_and_fee_range
  | s07_scripts_validate
  | s08_sequence_locks
  | s09_coinbase_maturity

datatype validation_rule_descriptor =
  Rule_descriptor (rule_id: validation_rule_id) (rule_code: string) (rule_statement: string)

definition validation_rule_inventory :: "validation_rule_descriptor list" where
  "validation_rule_inventory =
    [Rule_descriptor h01_previous_hash_parent ''H01''
       ''previous hash references supplied parent or null genesis parent'',
     Rule_descriptor h02_proof_of_work ''H02''
       ''proof of work satisfies target'',
     Rule_descriptor h03_difficulty_transition ''H03''
       ''target satisfies difficulty transition'',
     Rule_descriptor h04_median_time_past ''H04''
       ''timestamp is greater than median time past'',
     Rule_descriptor h05_future_time ''H05''
       ''timestamp is not too far after validation time'',
     Rule_descriptor h06_retired_version ''H06''
       ''version is not below active minimum version'',
     Rule_descriptor h07_timewarp ''H07''
       ''timewarp constraints hold at enforced adjustment boundaries'',
     Rule_descriptor l01_block_non_empty ''L01''
       ''block contains at least one transaction'',
     Rule_descriptor l02_merkle_root ''L02''
       ''merkle root matches transactions'',
     Rule_descriptor l03_merkle_mutation ''L03''
       ''merkle mutation is rejected where consensus requires it'',
     Rule_descriptor l04_original_block_size ''L04''
       ''original block size is within limit'',
     Rule_descriptor l05_coinbase_position ''L05''
       ''first transaction is the only coinbase'',
     Rule_descriptor l06_legacy_sigops ''L06''
       ''legacy sigops are within limit'',
     Rule_descriptor l07_transaction_inputs_non_empty ''L07''
       ''transaction has inputs'',
     Rule_descriptor l08_transaction_outputs_non_empty ''L08''
       ''transaction has outputs'',
     Rule_descriptor l09_transaction_size ''L09''
       ''transaction stripped and full sizes are within limits'',
     Rule_descriptor l10_output_value_non_negative ''L10''
       ''outputs are non-negative'',
     Rule_descriptor l11_output_value_range ''L11''
       ''outputs sum within money range'',
     Rule_descriptor l12_unique_inputs ''L12''
       ''transaction inputs are unique'',
     Rule_descriptor l13_coinbase_script_size ''L13''
       ''coinbase script size is valid'',
     Rule_descriptor l14_non_coinbase_prevout ''L14''
       ''non-coinbase prevouts are non-null'',
     Rule_descriptor c01_transaction_finality ''C01''
       ''transactions are final'',
     Rule_descriptor c02_pre_segwit_no_witness ''C02''
       ''pre-SegWit block has no witness data'',
     Rule_descriptor c03_block_weight ''C03''
       ''block weight is within limit'',
     Rule_descriptor c04_coinbase_height ''C04''
       ''coinbase height commitment is valid'',
     Rule_descriptor c05_witness_commitment_presence ''C05''
       ''witness commitment presence is valid'',
     Rule_descriptor c06_witness_nonce_presence ''C06''
       ''witness nonce presence is valid'',
     Rule_descriptor c07_witness_merkle_commitment ''C07''
       ''witness merkle commitment is valid'',
     Rule_descriptor s01_bip30_duplicate_unspent ''S01''
       ''BIP30 duplicate unspent outpoints are rejected'',
     Rule_descriptor s02_prevouts_unspent ''S02''
       ''prevouts exist and are unspent'',
     Rule_descriptor s03_sigop_cost ''S03''
       ''total sigop cost is within limit'',
     Rule_descriptor s04_coinbase_subsidy ''S04''
       ''coinbase subsidy is not excessive'',
     Rule_descriptor s05_outputs_do_not_exceed_inputs ''S05''
       ''outputs do not exceed inputs'',
     Rule_descriptor s06_input_value_and_fee_range ''S06''
       ''input values and fees remain within money range'',
     Rule_descriptor s07_scripts_validate ''S07''
       ''scripts validate'',
     Rule_descriptor s08_sequence_locks ''S08''
       ''sequence locks are satisfied'',
     Rule_descriptor s09_coinbase_maturity ''S09''
       ''coinbase maturity is satisfied'']"

fun find_rule_in ::
  "validation_rule_descriptor list \<Rightarrow> validation_rule_id \<Rightarrow> validation_rule_descriptor option" where
  "find_rule_in [] i = None"
| "find_rule_in (rule # rules) i = (if rule_id rule = i then Some rule else find_rule_in rules i)"

definition find_validation_rule :: "validation_rule_id \<Rightarrow> validation_rule_descriptor option" where
  "find_validation_rule i = find_rule_in validation_rule_inventory i"

definition validation_rule_code :: "validation_rule_id \<Rightarrow> string" where
  "validation_rule_code i =
     (case find_validation_rule i of Some rule \<Rightarrow> rule_code rule | None \<Rightarrow> [])"

lemma find_rule_in_Some: "find_rule_in rules i = Some rule \<Longrightarrow> rule \<in> set rules \<and> rule_id rule = i"
  by (induction rules) (auto split: if_splits)

lemma find_rule_in_total: "i \<in> rule_id ` set rules \<Longrightarrow> \<exists>rule. find_rule_in rules i = Some rule"
  by (induction rules) auto

lemma inventory_ids: "map rule_id validation_rule_inventory =
    [h01_previous_hash_parent, h02_proof_of_work, h03_difficulty_transition,
     h04_median_time_past, h05_future_time, h06_retired_version, h07_timewarp,
     l01_block_non_empty, l02_merkle_root, l03_merkle_mutation, l04_original_block_size,
     l05_coinbase_position, l06_legacy_sigops, l07_transaction_inputs_non_empty,
     l08_transaction_outputs_non_empty, l09_transaction_size, l10_output_value_non_negative,
     l11_output_value_range, l12_unique_inputs, l13_coinbase_script_size,
     l14_non_coinbase_prevout, c01_transaction_finality, c02_pre_segwit_no_witness,
     c03_block_weight, c04_coinbase_height, c05_witness_commitment_presence,
     c06_witness_nonce_presence, c07_witness_merkle_commitment, s01_bip30_duplicate_unspent,
     s02_prevouts_unspent, s03_sigop_cost, s04_coinbase_subsidy,
     s05_outputs_do_not_exceed_inputs, s06_input_value_and_fee_range, s07_scripts_validate,
     s08_sequence_locks, s09_coinbase_maturity]"
  by (simp add: validation_rule_inventory_def)

lemma inventory_complete: "i \<in> rule_id ` set validation_rule_inventory"
  unfolding set_map [symmetric] inventory_ids by (cases i) simp_all

lemma inventory_codes_distinct: "distinct (map rule_code validation_rule_inventory)"
  by code_simp

lemma find_validation_rule_total:
  "\<exists>rule. find_validation_rule i = Some rule \<and> rule_id rule = i \<and> rule \<in> set validation_rule_inventory"
  using find_rule_in_total [OF inventory_complete] find_rule_in_Some
  by (metis find_validation_rule_def)

lemma validation_rule_code_inject: "validation_rule_code i = validation_rule_code j \<longleftrightarrow> i = j"
proof
  assume eq: "validation_rule_code i = validation_rule_code j"
  obtain a b where a: "find_validation_rule i = Some a" "rule_id a = i" "a \<in> set validation_rule_inventory"
    and b: "find_validation_rule j = Some b" "rule_id b = j" "b \<in> set validation_rule_inventory"
    using find_validation_rule_total by metis
  from eq a b have "rule_code a = rule_code b" by (simp add: validation_rule_code_def)
  with a(3) b(3) have "a = b" using inventory_codes_distinct by (metis distinct_map inj_onD)
  with a b show "i = j" by simp
qed simp

subsection \<open>Decisions, errors, results\<close>

datatype validation_rejection_code = rule_violation

datatype validation_rejection =
  Rejection (rej_code: validation_rejection_code) (rej_rule: validation_rule_id) (rej_reason: string)

datatype 'a validation_decision = decision_valid 'a | decision_invalid validation_rejection

fun accepted :: "'a validation_decision \<Rightarrow> bool" where
  "accepted (decision_valid facts) = True"
| "accepted (decision_invalid rejection) = False"

datatype operation_error_code =
    resource_exhaustion
  | data_unavailable
  | io_read
  | io_write
  | seek
  | storage_corruption
  | malformed_stored_data
  | interruption
  | callback_failure
  | invariant_violation
  | unsupported_operation
  | internal_bug

datatype operation_error = Operation_error (err_code: operation_error_code) (err_reason: string)

datatype 'a operation_result = op_ok 'a | op_failed operation_error

type_synonym 'a verify_result = "'a validation_decision operation_result"

text \<open>What a C++ call does: return, run out of memory, or throw another exception.\<close>

datatype 'a call = Return 'a | BadAlloc | Throw

definition operation_exception_boundary ::
  "'a operation_result call \<Rightarrow> string \<Rightarrow> operation_error_code \<Rightarrow> string \<Rightarrow> 'a operation_result" where
  "operation_exception_boundary function resource_reason unexpected_code unexpected_reason =
     (case function of
        Return r \<Rightarrow> r
      | BadAlloc \<Rightarrow> op_failed (Operation_error resource_exhaustion resource_reason)
      | Throw \<Rightarrow> op_failed (Operation_error unexpected_code unexpected_reason))"

definition verify_exception_boundary ::
  "'a verify_result call \<Rightarrow> string \<Rightarrow> operation_error_code \<Rightarrow> string \<Rightarrow> 'a verify_result" where
  "verify_exception_boundary function resource_reason unexpected_code unexpected_reason =
     (case function of
        Return r \<Rightarrow> r
      | BadAlloc \<Rightarrow> op_failed (Operation_error resource_exhaustion resource_reason)
      | Throw \<Rightarrow> op_failed (Operation_error unexpected_code unexpected_reason))"

lemma verify_exception_boundary_Return [simp]: "verify_exception_boundary (Return r) a b c = r"
  by (simp add: verify_exception_boundary_def)

text \<open>A decision is reached only by a call that returned it.\<close>

lemma verify_exception_boundary_ok:
  "verify_exception_boundary f a b c = op_ok d \<longleftrightarrow> f = Return (op_ok d)"
  by (cases f) (simp_all add: verify_exception_boundary_def)

text \<open>
  The early-return idiom of every composite rule: an error and a rejection are passed on, and only
  the facts of an accepted stage reach the next one.
\<close>

definition verify_bind :: "'a verify_result \<Rightarrow> ('a \<Rightarrow> 'b verify_result) \<Rightarrow> 'b verify_result" where
  "verify_bind result next_stage =
     (case result of
        op_failed e \<Rightarrow> op_failed e
      | op_ok (decision_invalid r) \<Rightarrow> op_ok (decision_invalid r)
      | op_ok (decision_valid facts) \<Rightarrow> next_stage facts)"

lemma verify_bind_simps [simp]:
  "verify_bind (op_failed e) f = op_failed e"
  "verify_bind (op_ok (decision_invalid r)) f = op_ok (decision_invalid r)"
  "verify_bind (op_ok (decision_valid x)) f = f x"
  by (simp_all add: verify_bind_def)

lemma verify_bind_valid:
  "verify_bind r f = op_ok (decision_valid y) \<longleftrightarrow>
     (\<exists>x. r = op_ok (decision_valid x) \<and> f x = op_ok (decision_valid y))"
  by (simp add: verify_bind_def split: operation_result.splits validation_decision.splits)

lemma verify_bind_invalid:
  "verify_bind r f = op_ok (decision_invalid j) \<longleftrightarrow>
     r = op_ok (decision_invalid j) \<or> (\<exists>x. r = op_ok (decision_valid x) \<and> f x = op_ok (decision_invalid j))"
  by (auto simp: verify_bind_def split: operation_result.splits validation_decision.splits)

subsection \<open>Contexts\<close>

type_synonym block_height = i32
type_synonym median_time_past = i64
type_synonym validation_time = i64
type_synonym target_bits = u32
type_synonym proof_of_work_limit = "byte list"
type_synonym verification_flags = u64

definition p2sh_mask :: verification_flags where "p2sh_mask = push_bit 0 1"
definition dersig_mask :: verification_flags where "dersig_mask = push_bit 2 1"
definition nulldummy_mask :: verification_flags where "nulldummy_mask = push_bit 4 1"
definition checklocktimeverify_mask :: verification_flags where
  "checklocktimeverify_mask = push_bit 9 1"
definition checksequenceverify_mask :: verification_flags where
  "checksequenceverify_mask = push_bit 10 1"
definition witness_mask :: verification_flags where "witness_mask = push_bit 11 1"
definition taproot_mask :: verification_flags where "taproot_mask = push_bit 17 1"

definition known_mask :: verification_flags where
  "known_mask = p2sh_mask OR dersig_mask OR nulldummy_mask OR checklocktimeverify_mask OR
     checksequenceverify_mask OR witness_mask OR taproot_mask"

definition flags_known :: "u64 \<Rightarrow> bool" where
  "flags_known m \<longleftrightarrow> m AND NOT known_mask = 0"

definition flags_from_mask :: "u64 \<Rightarrow> verification_flags option" where
  "flags_from_mask m = (if \<not> flags_known m then None else Some m)"

definition flags_contains :: "verification_flags \<Rightarrow> verification_flags \<Rightarrow> bool" where
  "flags_contains m flags \<longleftrightarrow> m AND flags = flags"

record consensus_params =
  pow_limit :: proof_of_work_limit
  target_spacing :: i64
  target_timespan :: i64
  max_timewarp :: i64
  allow_min_difficulty_blocks :: bool
  no_retargeting :: bool
  enforce_bip94 :: bool
  minimum_block_version :: i32

record header_context =
  hc_height :: block_height
  hc_previous_median_time_past :: median_time_past
  has_parent :: bool
  parent_hash :: block_hash
  parent_time :: block_time
  parent_target :: target_bits
  has_first_difficulty_period_block :: bool
  first_difficulty_period_block_time :: block_time
  first_difficulty_period_block_target :: target_bits
  has_last_non_min_difficulty_block :: bool
  last_non_min_difficulty_block_target :: target_bits

definition witness_scale_factor :: nat where
  "witness_scale_factor = 4"

record transaction_limits =
  max_money :: amount
  max_stripped_weight :: nat

definition default_transaction_limits :: transaction_limits where
  "default_transaction_limits = \<lparr>max_money = 2100000000000000, max_stripped_weight = 4000000\<rparr>"

record transaction_finality_context =
  fc_limits :: transaction_limits
  fc_height :: block_height
  fc_timestamp :: block_time

type_synonym locktime_flags = u32

definition verify_sequence :: "locktime_flags \<Rightarrow> bool" where
  "verify_sequence m \<longleftrightarrow> m AND 1 \<noteq> 0"

record spend_context =
  sc_height :: block_height
  sc_previous_median_time_past :: median_time_past
  sc_limits :: transaction_limits
  sc_locktime :: locktime_flags
  coinbase_maturity :: i32

end
