(* ===== verification/Endian.thy ===== *)
theory Endian
  imports Prelude
begin

text \<open>
  Little-endian conversion between machine integers and bytes
  (\<^verbatim>\<open>src/src/bitcoin/protocol/detail/endian.h\<close>), with the two round trips that the codec
  rests on. The C++ templates are polymorphic in the unsigned type; here they are polymorphic
  in the word length.
\<close>

fun read_little_endian_loop :: "nat \<Rightarrow> byte list \<Rightarrow> 'a::len word \<Rightarrow> 'a word" where
  "read_little_endian_loop i [] v = v"
| "read_little_endian_loop i (b # bs) v =
     read_little_endian_loop (Suc i) bs (v OR push_bit (8 * i) (ucast b))"

definition read_little_endian :: "byte list \<Rightarrow> 'a::len word" where
  "read_little_endian bs = read_little_endian_loop 0 bs 0"

definition write_little_endian :: "'a::len word \<Rightarrow> nat \<Rightarrow> byte list" where
  "write_little_endian v n = map (\<lambda>i. ucast (drop_bit (8 * i) v AND 0xff)) [0..<n]"

lemma bit_read_little_endian_loop:
  "bit (read_little_endian_loop i bs v :: 'a::len word) k \<longleftrightarrow>
     bit v k \<or>
     8 * i \<le> k \<and> k < 8 * (i + length bs) \<and> k < LENGTH('a) \<and>
     bit (bs ! (k div 8 - i)) (k mod 8)"
proof (induction i bs v rule: read_little_endian_loop.induct)
  case (1 i v)
  then show ?case by auto
next
  case (2 i b bs v)
  have byte: "bit (push_bit (8 * i) (ucast b) :: 'a word) k \<longleftrightarrow>
      8 * i \<le> k \<and> k < 8 * Suc i \<and> k < LENGTH('a) \<and> bit b (k - 8 * i)"
    using bit_imp_le_length [of b "k - 8 * i"] bit_imp_le_length [of _ k]
    by (auto simp: bit_push_bit_iff bit_ucast_iff)
  consider "k < 8 * i" | "8 * i \<le> k" "k < 8 * Suc i" | "8 * Suc i \<le> k"
    by linarith
  then show ?case
  proof cases
    case 1
    then show ?thesis using byte by (auto simp: 2 bit_or_iff)
  next
    case 2
    then have "k div 8 = i" by (intro div_nat_eqI) simp_all
    moreover have "k mod 8 = k - 8 * i"
      using 2 \<open>k div 8 = i\<close> by (simp add: modulo_nat_def mult.commute)
    ultimately show ?thesis
      using 2 byte "2.IH" by (auto simp: bit_or_iff)
  next
    case 3
    then have "Suc i \<le> k div 8" by (simp add: less_eq_div_iff_mult_less_eq)
    then have "k div 8 - i = Suc (k div 8 - Suc i)" by linarith
    then show ?thesis using 3 byte by (auto simp: 2 bit_or_iff)
  qed
qed

lemma bit_read_little_endian:
  "bit (read_little_endian bs :: 'a::len word) k \<longleftrightarrow>
     k < 8 * length bs \<and> k < LENGTH('a) \<and> bit (bs ! (k div 8)) (k mod 8)"
  by (simp add: read_little_endian_def bit_read_little_endian_loop)

lemma length_write_little_endian [simp]: "length (write_little_endian v n) = n"
  by (simp add: write_little_endian_def)

lemma bit_byte_mask: "bit (ucast (w AND 0xff) :: byte) k \<longleftrightarrow> k < 8 \<and> bit (w :: 'a::len word) k"
proof -
  have "(0xff :: 'a word) = mask 8"
    by (simp add: mask_eq_exp_minus_1)
  then have "ucast (w AND 0xff) = (ucast (w AND mask 8) :: byte)"
    by simp
  moreover have "bit (ucast (w AND mask 8) :: byte) k \<longleftrightarrow> k < 8 \<and> bit w k"
    by (auto simp: bit_ucast_iff bit_and_iff bit_mask_iff dest: bit_imp_le_length)
  ultimately show ?thesis by simp
qed

lemma bit_write_little_endian:
  assumes "i < n"
  shows "bit (write_little_endian v n ! i) k \<longleftrightarrow> k < 8 \<and> bit (v :: 'a::len word) (8 * i + k)"
  using assms by (simp add: write_little_endian_def bit_byte_mask bit_drop_bit_eq)

theorem read_write_little_endian:
  assumes "8 * n = LENGTH('a)"
  shows "read_little_endian (write_little_endian v n) = (v :: 'a::len word)"
proof (rule bit_word_eqI)
  fix k assume "k < LENGTH('a)"
  then have "k div 8 < n" using assms by linarith
  moreover have "8 * (k div 8) + k mod 8 = k" by simp
  ultimately show "bit (read_little_endian (write_little_endian v n) :: 'a word) k = bit v k"
    using \<open>k < LENGTH('a)\<close> assms by (simp add: bit_read_little_endian bit_write_little_endian)
qed

theorem write_read_little_endian:
  assumes "8 * length bs = LENGTH('a)"
  shows "write_little_endian (read_little_endian bs :: 'a::len word) (length bs) = bs"
proof (rule nth_equalityI)
  fix i assume "i < length (write_little_endian (read_little_endian bs :: 'a word) (length bs))"
  then have i: "i < length bs" by simp
  show "write_little_endian (read_little_endian bs :: 'a word) (length bs) ! i = bs ! i"
  proof (rule bit_word_eqI)
    fix k assume "k < LENGTH(8)"
    then have "k < 8" by simp
    then have "(8 * i + k) div 8 = i" "(8 * i + k) mod 8 = k" "8 * i + k < LENGTH('a)"
      using i assms by simp_all
    then show "bit (write_little_endian (read_little_endian bs :: 'a word) (length bs) ! i) k
      = bit (bs ! i) k"
      using i \<open>k < 8\<close> assms by (simp add: bit_write_little_endian bit_read_little_endian)
  qed
qed simp

end
