(* ===== verification/Byte_Reader.thy ===== *)
theory Byte_Reader
  imports Protocol_Types Endian
begin

text \<open>
  The cursor over a byte span that every parser uses
  (\<^verbatim>\<open>detail/byte_reader.h\<close>), the compact-size integer
  (\<^verbatim>\<open>detail/compact_size.h\<close>) and the small readers of \<^verbatim>\<open>codec.cpp\<close>. The
  reader is a record and each operation returns the value read and the new reader; after the
  first failure the reader keeps that failure and reads nothing.

  The locale \<open>wire_format\<close> is the contract between a reader function and the byte layout of
  the values it reads: it reads back what the layout writes, and what it accepts is what the
  layout writes. The lemmas on counted sequences are proved once in it, and every reader of the
  codec is an interpretation.
\<close>

subsection \<open>The reader\<close>

record byte_reader =
  m_bytes :: "byte list"
  m_offset :: nat
  m_ok :: bool
  m_failure :: malformed_parse

definition make_reader :: "byte list \<Rightarrow> byte_reader" where
  "make_reader raw =
     \<lparr>m_bytes = raw, m_offset = 0, m_ok = True, m_failure = Malformed_parse truncated 0\<rparr>"

definition remaining :: "byte_reader \<Rightarrow> nat" where
  "remaining r = length (m_bytes r) - m_offset r"

definition reader_empty :: "byte_reader \<Rightarrow> bool" where
  "reader_empty r \<longleftrightarrow> m_offset r = length (m_bytes r)"

definition peek :: "byte_reader \<Rightarrow> byte" where
  "peek r = (if m_offset r < length (m_bytes r) then m_bytes r ! m_offset r else 0)"

definition fail :: "parse_failure_code \<Rightarrow> byte_reader \<Rightarrow> byte_reader" where
  "fail code r =
     (if m_ok r then r\<lparr>m_ok := False, m_failure := Malformed_parse code (m_offset r)\<rparr> else r)"

definition read_bytes :: "nat \<Rightarrow> byte_reader \<Rightarrow> byte list \<times> byte_reader" where
  "read_bytes n r =
     (if \<not> m_ok r then ([], r)
      else if n > length (m_bytes r) - m_offset r then ([], fail truncated r)
      else (take n (drop (m_offset r) (m_bytes r)), r\<lparr>m_offset := m_offset r + n\<rparr>))"

subsection \<open>Compact sizes\<close>

definition read_compact_size :: "byte_reader \<Rightarrow> u64 \<times> byte_reader" where
  "read_compact_size r0 =
     (case read_bytes 1 r0 of (first_span, r1) \<Rightarrow>
        if \<not> m_ok r1 then (0, r1)
        else if hd first_span < 253 then (ucast (hd first_span), r1)
        else if hd first_span = 253 then
          (case read_bytes 2 r1 of (bs, r2) \<Rightarrow>
             if \<not> m_ok r2 then (0, r2)
             else if (read_little_endian bs :: u16) < 253
               then (0, fail non_canonical_compact_size r2)
             else (ucast (read_little_endian bs :: u16), r2))
        else if hd first_span = 254 then
          (case read_bytes 4 r1 of (bs, r2) \<Rightarrow>
             if \<not> m_ok r2 then (0, r2)
             else if (read_little_endian bs :: u32) \<le> 0xffff
               then (0, fail non_canonical_compact_size r2)
             else (ucast (read_little_endian bs :: u32), r2))
        else
          (case read_bytes 8 r1 of (bs, r2) \<Rightarrow>
             if \<not> m_ok r2 then (0, r2)
             else if (read_little_endian bs :: u64) \<le> 0xffffffff
               then (0, fail non_canonical_compact_size r2)
             else (read_little_endian bs, r2)))"

definition compact_size_size :: "u64 \<Rightarrow> nat" where
  "compact_size_size v =
     (if v < 253 then 1 else if v \<le> 0xffff then 3 else if v \<le> 0xffffffff then 5 else 9)"

subsection \<open>Small readers of the codec\<close>

definition read_little :: "nat \<Rightarrow> byte_reader \<Rightarrow> 'a::len word \<times> byte_reader" where
  "read_little n r =
     (case read_bytes n r of (bs, r1) \<Rightarrow>
        if \<not> m_ok r1 then (0, r1) else (read_little_endian bs, r1))"

definition fits_size :: "u64 \<Rightarrow> bool" where
  "fits_size v \<longleftrightarrow> v \<le> 0xffffffffffffffff"

definition require_count_fits_remaining :: "u64 \<Rightarrow> nat \<Rightarrow> byte_reader \<Rightarrow> bool \<times> byte_reader" where
  "require_count_fits_remaining count minimum_item_bytes r =
     (if \<not> fits_size count then (False, fail compact_size_overflow r)
      else if minimum_item_bytes > 0 \<and> unat count > remaining r div minimum_item_bytes
        then (False, fail truncated r)
      else (True, r))"

definition read_hash_bytes :: "byte_reader \<Rightarrow> byte list \<times> byte_reader" where
  "read_hash_bytes r =
     (case read_bytes 32 r of (source, r1) \<Rightarrow> (if m_ok r1 then source else null_hash, r1))"

definition read_script :: "byte_reader \<Rightarrow> script \<times> byte_reader" where
  "read_script r =
     (case read_compact_size r of (len, r1) \<Rightarrow>
        if \<not> m_ok r1 then ([], r1)
        else if \<not> fits_size len then ([], fail compact_size_overflow r1)
        else read_bytes (unat len) r1)"

text \<open>
  The counted loops of the codec:
  \<^verbatim>\<open>for (i = 0; i < count && reader.ok(); ++i) items.push_back(read(reader))\<close>.
\<close>

fun read_items ::
  "(byte_reader \<Rightarrow> 'a \<times> byte_reader) \<Rightarrow> nat \<Rightarrow> byte_reader \<Rightarrow> 'a list \<times> byte_reader" where
  "read_items dec 0 r = ([], r)"
| "read_items dec (Suc n) r =
     (if m_ok r then
        (case dec r of (x, r1) \<Rightarrow> case read_items dec n r1 of (xs, r2) \<Rightarrow> (x # xs, r2))
      else ([], r))"

lemma fits_size_True [simp]: "fits_size v"
  using unat64_upper [of v] by (simp add: fits_size_def word_le_nat_alt)

subsection \<open>Readers positioned at a known input\<close>

definition reader_wf :: "byte_reader \<Rightarrow> bool" where
  "reader_wf r \<longleftrightarrow> m_offset r \<le> length (m_bytes r) \<and> mp_offset (m_failure r) \<le> length (m_bytes r)"

definition unread :: "byte_reader \<Rightarrow> byte list" where
  "unread r = drop (m_offset r) (m_bytes r)"

definition advance :: "nat \<Rightarrow> byte_reader \<Rightarrow> byte_reader" where
  "advance n r = r\<lparr>m_offset := m_offset r + n\<rparr>"

lemma advance_simps [simp]:
  "m_bytes (advance n r) = m_bytes r" "m_offset (advance n r) = m_offset r + n"
  "m_ok (advance n r) = m_ok r" "m_failure (advance n r) = m_failure r"
  "advance n (advance m r) = advance (m + n) r" "advance 0 r = r"
  by (simp_all add: advance_def add.assoc)

lemma fail_simps [simp]:
  "\<not> m_ok (fail c r)" "m_bytes (fail c r) = m_bytes r" "m_offset (fail c r) = m_offset r"
  by (simp_all add: fail_def)

lemma reader_wf_fail [simp]: "reader_wf r \<Longrightarrow> reader_wf (fail c r)"
  by (simp add: reader_wf_def fail_def)

lemma unread_advance:
  assumes "unread r = xs @ ys" and "length xs = n"
  shows "unread (advance n r) = ys"
  using assms drop_eq_append_take(2) [of "m_offset r" "m_bytes r" xs ys] by (simp add: unread_def)

lemma reader_wf_advance:
  assumes "unread r = xs @ ys" and "length xs = n" and "reader_wf r"
  shows "reader_wf (advance n r)"
  using assms drop_append_length_le [of "m_offset r" "m_bytes r" xs ys]
  by (simp add: reader_wf_def unread_def)

lemma remaining_unread: "remaining r = length (unread r)"
  by (simp add: remaining_def unread_def)

lemma reader_empty_unread: "reader_wf r \<Longrightarrow> reader_empty r \<longleftrightarrow> unread r = []"
  by (auto simp: reader_empty_def unread_def reader_wf_def)

lemma peek_unread: "unread r = x # xs \<Longrightarrow> peek r = x"
  by (metis (no_types, lifting) drop_eq_Nil2 hd_drop_conv_nth leI list.distinct(1) list.sel(1)
      peek_def unread_def)

subsection \<open>The contract between a reader and a byte layout\<close>

locale wire_format =
  fixes dec :: "byte_reader \<Rightarrow> 'a \<times> byte_reader"
    and enc :: "'a \<Rightarrow> byte list"
    and good :: "'a \<Rightarrow> bool"
  assumes complete:
      "m_ok r \<Longrightarrow> reader_wf r \<Longrightarrow> unread r = enc x @ rest \<Longrightarrow> good x \<Longrightarrow>
       dec r = (x, advance (length (enc x)) r)"
    and sound:
      "dec r = (x, r') \<Longrightarrow> m_ok r' \<Longrightarrow> reader_wf r \<Longrightarrow>
       good x \<and> (\<exists>rest. unread r = enc x @ rest) \<and> r' = advance (length (enc x)) r"
    and sticky: "\<not> m_ok r \<Longrightarrow> \<not> m_ok (snd (dec r))"
    and keeps: "reader_wf r \<Longrightarrow> reader_wf (snd (dec r)) \<and> m_bytes (snd (dec r)) = m_bytes r"
begin

lemma read_ok: "dec r = (x, r') \<Longrightarrow> m_ok r' \<Longrightarrow> m_ok r"
  using sticky [of r] by auto

lemma sound_rest:
  assumes "dec r = (x, r')" and "m_ok r'" and "reader_wf r"
  shows "good x" and "unread r = enc x @ unread r'" and "r' = advance (length (enc x)) r"
    and "reader_wf r'"
proof -
  from sound [OF assms] obtain rest where g: "good x" and u: "unread r = enc x @ rest"
    and r': "r' = advance (length (enc x)) r" by blast
  show "good x" by (rule g)
  show "r' = advance (length (enc x)) r" by (rule r')
  have "unread r' = rest" using r' unread_advance [OF u refl] by simp
  with u show "unread r = enc x @ unread r'" by simp
  show "reader_wf r'" using r' reader_wf_advance [OF u refl assms(3)] by simp
qed

lemma injective:
  assumes "good x" and "good y" and "enc x = enc y"
  shows "x = y"
proof -
  have r: "m_ok (make_reader (enc x))" "reader_wf (make_reader (enc x))"
    "unread (make_reader (enc x)) = enc x @ []"
    by (simp_all add: make_reader_def reader_wf_def unread_def)
  from complete [OF r assms(1)] complete [OF r(1,2) _ assms(2), of "[]"] assms(3) r(3)
  show ?thesis by simp
qed

end

end
