(* ===== verification/Wire_Formats.thy ===== *)
theory Wire_Formats
  imports Byte_Reader
begin

text \<open>
  Composition of wire formats: sequencing, early return after a failure, a change of
  representation, counted repetition and the check that a count fits the bytes that remain.
  With these the reader of each protocol value is shown to meet the \<open>wire_format\<close> contract by
  naming its parts; the base cases are the raw byte read and the compact size.
\<close>

subsection \<open>Composition\<close>

lemma wire_format_map:
  assumes "wire_format dec enc good" and "\<And>x. good x \<Longrightarrow> good' (f x) \<and> enc' (f x) = enc x"
    and "\<And>y. good' y \<Longrightarrow> good (g y) \<and> f (g y) = y"
  shows "wire_format (\<lambda>r. case dec r of (x, r1) \<Rightarrow> (f x, r1)) enc' good'"
proof -
  note c = wire_format.complete [OF assms(1)] and s = wire_format.sound [OF assms(1)]
    and t = wire_format.sticky [OF assms(1)] and k = wire_format.keeps [OF assms(1)]
  show ?thesis
  proof
    fix r y rest
    assume "m_ok r" "reader_wf r" "unread r = enc' y @ rest" "good' y"
    moreover from this have "enc' y = enc (g y)" using assms(2,3) by metis
    ultimately show "(case dec r of (x, r1) \<Rightarrow> (f x, r1)) = (y, advance (length (enc' y)) r)"
      using c [of r "g y" rest] assms(3) by simp
  next
    fix r y r'
    assume d: "(case dec r of (x, r1) \<Rightarrow> (f x, r1)) = (y, r')" "m_ok r'" "reader_wf r"
    then obtain x where x: "dec r = (x, r')" "y = f x" by (auto split: prod.splits)
    from s [OF x(1) d(2,3)] x(2) assms(2)
    show "good' y \<and> (\<exists>rest. unread r = enc' y @ rest) \<and> r' = advance (length (enc' y)) r" by auto
  qed (use t k in \<open>simp_all add: case_prod_beta\<close>)
qed

lemma wire_format_guard:
  assumes "wire_format dec enc good"
  shows "wire_format (\<lambda>r. if \<not> m_ok r then (d, r) else dec r) enc good"
proof
  fix r x r'
  assume a: "(if \<not> m_ok r then (d, r) else dec r) = (x, r')" "m_ok r'" "reader_wf r"
  then have "dec r = (x, r')" by (auto split: if_splits)
  from wire_format.sound [OF assms this a(2,3)]
  show "good x \<and> (\<exists>rest. unread r = enc x @ rest) \<and> r' = advance (length (enc x)) r" .
qed (use wire_format.complete [OF assms] wire_format.keeps [OF assms] in auto)

text \<open>Sequencing, where the second reader only has to read values whose key the first accepts.\<close>

lemma wire_format_bind_good:
  assumes "wire_format dec1 enc1 good1"
    and "\<And>n. good1 n \<Longrightarrow> wire_format (dec2 n) enc2 (\<lambda>y. good2 y \<and> key y = n)"
    and "\<And>n. wire_format (dec2 n) (enc3 n) (good3 n)"
  shows "wire_format (\<lambda>r. case dec1 r of (n, r1) \<Rightarrow> dec2 n r1)
    (\<lambda>y. enc1 (key y) @ enc2 y) (\<lambda>y. good1 (key y) \<and> good2 y)"
proof
  fix r y rest
  assume a: "m_ok r" "reader_wf r" "unread r = (enc1 (key y) @ enc2 y) @ rest"
    "good1 (key y) \<and> good2 y"
  let ?r1 = "advance (length (enc1 (key y))) r"
  have u: "unread r = enc1 (key y) @ (enc2 y @ rest)" using a(3) by simp
  have "dec1 r = (key y, ?r1)" using wire_format.complete [OF assms(1) a(1,2) u] a(4) by simp
  moreover have "dec2 (key y) ?r1 = (y, advance (length (enc2 y)) ?r1)"
    using wire_format.complete [OF assms(2), of "key y" ?r1 y rest]
      unread_advance [OF u refl] reader_wf_advance [OF u refl a(2)] a(1,4) by simp
  ultimately show "(case dec1 r of (n, r1) \<Rightarrow> dec2 n r1)
      = (y, advance (length (enc1 (key y) @ enc2 y)) r)" by simp
next
  fix r y r'
  assume a: "(case dec1 r of (n, r1) \<Rightarrow> dec2 n r1) = (y, r')" "m_ok r'" "reader_wf r"
  obtain n r1 where d: "dec1 r = (n, r1)" by fastforce
  with a(1) have d2: "dec2 n r1 = (y, r')" by simp
  have ok1: "m_ok r1" using wire_format.read_ok [OF assms(3) d2 a(2)] .
  note s1 = wire_format.sound_rest [OF assms(1) d ok1 a(3)]
  note s2 = wire_format.sound_rest [OF assms(2) [OF s1(1)] d2 a(2) s1(4)]
  show "(good1 (key y) \<and> good2 y) \<and> (\<exists>rest. unread r = (enc1 (key y) @ enc2 y) @ rest) \<and>
      r' = advance (length (enc1 (key y) @ enc2 y)) r"
    using s1 s2 by auto
next
  fix r :: byte_reader assume "\<not> m_ok r"
  then have "\<not> m_ok (snd (dec1 r))" by (rule wire_format.sticky [OF assms(1)])
  then show "\<not> m_ok (snd (case dec1 r of (n, r1) \<Rightarrow> dec2 n r1))"
    using wire_format.sticky [OF assms(3)] by (simp add: case_prod_beta)
next
  fix r :: byte_reader assume "reader_wf r"
  then have "reader_wf (snd (dec1 r)) \<and> m_bytes (snd (dec1 r)) = m_bytes r"
    by (rule wire_format.keeps [OF assms(1)])
  then show "reader_wf (snd (case dec1 r of (n, r1) \<Rightarrow> dec2 n r1)) \<and>
      m_bytes (snd (case dec1 r of (n, r1) \<Rightarrow> dec2 n r1)) = m_bytes r"
    using wire_format.keeps [OF assms(3)] by (simp add: case_prod_beta)
qed

lemma wire_format_bind:
  assumes "wire_format dec1 enc1 good1"
    and "\<And>n. wire_format (dec2 n) enc2 (\<lambda>y. good2 y \<and> key y = n)"
  shows "wire_format (\<lambda>r. case dec1 r of (n, r1) \<Rightarrow> dec2 n r1)
    (\<lambda>y. enc1 (key y) @ enc2 y) (\<lambda>y. good1 (key y) \<and> good2 y)"
  by (rule wire_format_bind_good [OF assms(1) assms(2) assms(2)])

lemma wire_format_pair:
  assumes "wire_format dec1 enc1 good1" and "wire_format dec2 enc2 good2"
  shows "wire_format (\<lambda>r. case dec1 r of (x, r1) \<Rightarrow> case dec2 r1 of (y, r2) \<Rightarrow> ((x, y), r2))
    (\<lambda>(x, y). enc1 x @ enc2 y) (\<lambda>(x, y). good1 x \<and> good2 y)"
proof -
  have "wire_format (\<lambda>r. case dec2 r of (y, r2) \<Rightarrow> ((x, y), r2))
      (\<lambda>p. enc2 (snd p)) (\<lambda>p. good2 (snd p) \<and> fst p = x)" for x
    by (rule wire_format_map [OF assms(2), where g = snd]) auto
  from wire_format_bind [OF assms(1) this] show ?thesis
    by (simp add: case_prod_beta')
qed

lemma wire_format_items_n:
  assumes "wire_format dec enc good"
  shows "wire_format (read_items dec n) (\<lambda>xs. concat (map enc xs))
    (\<lambda>xs. length xs = n \<and> (\<forall>x\<in>set xs. good x))"
proof (induction n)
  case 0
  show ?case by unfold_locales auto
next
  case (Suc n)
  have step: "read_items dec (Suc n) = (\<lambda>r. if \<not> m_ok r then ([], r) else
      (case (case dec r of (x, r1) \<Rightarrow> case read_items dec n r1 of (xs, r2) \<Rightarrow> ((x, xs), r2)) of
         (p, r2) \<Rightarrow> (fst p # snd p, r2)))"
    by (rule ext) (simp split: prod.splits)
  show ?case
    unfolding step
    by (rule wire_format_guard,
        rule wire_format_map [OF wire_format_pair [OF assms Suc], where g = "\<lambda>xs. (hd xs, tl xs)"])
      (auto simp: length_Suc_conv)
qed

lemma wire_format_require:
  assumes "wire_format dec enc good"
    and "\<And>x. good x \<Longrightarrow> m * unat c \<le> length (enc x)"
  shows "wire_format (\<lambda>r. case require_count_fits_remaining c m r of
      (b, r1) \<Rightarrow> if \<not> b then (d, r1) else dec r1) enc good"
proof
  fix r x rest
  assume a: "m_ok r" "reader_wf r" "unread r = enc x @ rest" "good x"
  have "m * unat c \<le> length (unread r)" using assms(2) [OF a(4)] a(3) by simp
  then have "m > 0 \<Longrightarrow> unat c \<le> length (unread r) div m"
    by (simp add: less_eq_div_iff_mult_less_eq mult.commute)
  then have "require_count_fits_remaining c m r = (True, r)"
    by (auto simp: require_count_fits_remaining_def remaining_unread)
  then show "(case require_count_fits_remaining c m r of (b, r1) \<Rightarrow> if \<not> b then (d, r1) else dec r1)
      = (x, advance (length (enc x)) r)"
    using wire_format.complete [OF assms(1) a] by simp
next
  fix r x r'
  assume a: "(case require_count_fits_remaining c m r of (b, r1) \<Rightarrow> if \<not> b then (d, r1) else dec r1)
      = (x, r')" "m_ok r'" "reader_wf r"
  then have "dec r = (x, r')"
    by (auto simp: require_count_fits_remaining_def split: if_splits)
  from wire_format.sound [OF assms(1) this a(2,3)]
  show "good x \<and> (\<exists>rest. unread r = enc x @ rest) \<and> r' = advance (length (enc x)) r" .
qed (use wire_format.sticky [OF assms(1)] wire_format.keeps [OF assms(1)] in
      \<open>auto simp: require_count_fits_remaining_def\<close>)

lemma wire_format_check:
  assumes "wire_format dec enc good"
    and "\<And>x. good x \<Longrightarrow> \<not> bad x \<Longrightarrow> good' (f x) \<and> enc' (f x) = enc x"
    and "\<And>y. good' y \<Longrightarrow> good (g y) \<and> \<not> bad (g y) \<and> f (g y) = y"
  shows "wire_format (\<lambda>r. case dec r of (x, r1) \<Rightarrow>
      if \<not> m_ok r1 then (d, r1) else if bad x then (d', fail code r1) else (f x, r1)) enc' good'"
    (is "wire_format ?dec enc' good'")
proof
  fix r y rest
  assume a: "m_ok r" "reader_wf r" "unread r = enc' y @ rest" "good' y"
  note g = assms(3) [OF a(4)]
  then have e: "enc' y = enc (g y)" using assms(2) by metis
  with a(3) have "unread r = enc (g y) @ rest" by simp
  from wire_format.complete [OF assms(1) a(1,2) this] g a(1)
  show "?dec r = (y, advance (length (enc' y)) r)" by (simp add: e)
next
  fix r y r'
  assume a: "?dec r = (y, r')" "m_ok r'" "reader_wf r"
  obtain x r1 where d: "dec r = (x, r1)" by fastforce
  with a have r1: "r1 = r'" "\<not> bad x" "y = f x" by (auto split: if_splits)
  from wire_format.sound [OF assms(1) d [unfolded r1] a(2,3)] assms(2) [of x] r1
  show "good' y \<and> (\<exists>rest. unread r = enc' y @ rest) \<and> r' = advance (length (enc' y)) r" by auto
next
  fix r :: byte_reader assume "\<not> m_ok r"
  then show "\<not> m_ok (snd (?dec r))"
    using wire_format.sticky [OF assms(1)] by (simp add: case_prod_beta)
next
  fix r :: byte_reader assume "reader_wf r"
  then show "reader_wf (snd (?dec r)) \<and> m_bytes (snd (?dec r)) = m_bytes r"
    using wire_format.keeps [OF assms(1)] by (simp add: case_prod_beta)
qed

subsection \<open>Base formats\<close>

interpretation raw_bytes: wire_format "read_bytes n" "\<lambda>bs. bs" "\<lambda>bs. length bs = n" for n
proof
  fix r x rest
  assume a: "m_ok r" "reader_wf r" "unread r = x @ rest" "length x = n"
  have "n \<le> length (m_bytes r) - m_offset r"
    using arg_cong [OF a(3), of length] a(4) by (simp add: unread_def)
  moreover have "take n (drop (m_offset r) (m_bytes r)) = x"
    using a(3,4) by (simp add: unread_def)
  ultimately show "read_bytes n r = (x, advance (length x) r)"
    using a(1,4) by (simp add: read_bytes_def advance_def)
next
  fix r x r'
  assume a: "read_bytes n r = (x, r')" "m_ok r'" "reader_wf r"
  then have "x = take n (unread r)" "r' = advance n r" "n \<le> length (unread r)"
    by (auto simp: read_bytes_def advance_def unread_def split: if_splits)
  then show "length x = n \<and> (\<exists>rest. unread r = x @ rest) \<and> r' = advance (length x) r"
    by (auto intro: exI [of _ "drop n (unread r)"])
qed (auto simp: read_bytes_def reader_wf_def fail_def)

lemma read_little_format:
  assumes "8 * n = LENGTH('a)"
  shows "wire_format (read_little n) (\<lambda>v :: 'a::len word. write_little_endian v n) (\<lambda>_. True)"
proof -
  have eq: "read_little n = (\<lambda>r. case read_bytes n r of (x, r1) \<Rightarrow>
      if \<not> m_ok r1 then (0 :: 'a word, r1) else if False then (0, fail truncated r1)
      else (read_little_endian x, r1))"
    by (rule ext) (simp add: read_little_def split: prod.splits)
  show ?thesis
    unfolding eq
    by (rule wire_format_check [OF raw_bytes.wire_format_axioms,
          where g = "\<lambda>v. write_little_endian v n"])
      (use assms in \<open>auto simp: read_write_little_endian write_read_little_endian\<close>)
qed

interpretation little16: wire_format "read_little 2" "\<lambda>v :: u16. write_little_endian v 2" "\<lambda>_. True"
  by (rule read_little_format) simp

interpretation little32: wire_format "read_little 4" "\<lambda>v :: u32. write_little_endian v 4" "\<lambda>_. True"
  by (rule read_little_format) simp

interpretation little64: wire_format "read_little 8" "\<lambda>v :: u64. write_little_endian v 8" "\<lambda>_. True"
  by (rule read_little_format) simp

interpretation hash_bytes: wire_format read_hash_bytes "\<lambda>h. h" hash_ok
proof -
  have eq: "read_hash_bytes = (\<lambda>r. case read_bytes 32 r of (x, r1) \<Rightarrow>
      if \<not> m_ok r1 then (null_hash, r1) else if False then (null_hash, fail truncated r1)
      else (x, r1))"
    by (rule ext) (simp add: read_hash_bytes_def split: prod.splits)
  show "wire_format read_hash_bytes (\<lambda>h. h) hash_ok"
    unfolding eq
    by (rule wire_format_check [OF raw_bytes.wire_format_axioms, where g = "\<lambda>h. h"])
      (auto simp: hash_ok_def)
qed

subsection \<open>Compact sizes\<close>

text \<open>The layout that \<open>write_compact_size\<close> of the codec produces.\<close>

definition compact_size_bytes :: "u64 \<Rightarrow> byte list" where
  "compact_size_bytes v =
     (if v < 253 then [ucast v]
      else if v \<le> 0xffff then 253 # write_little_endian (ucast v :: u16) 2
      else if v \<le> 0xffffffff then 254 # write_little_endian (ucast v :: u32) 4
      else 255 # write_little_endian v 8)"

lemma unat_ucast_small:
  "unat (v :: 'a::len word) < 2 ^ LENGTH('b) \<Longrightarrow> unat (ucast v :: 'b::len word) = unat v"
  by (simp add: unsigned_ucast_eq take_bit_nat_eq_self)

lemma ucast_ucast_small:
  "unat (v :: 'a::len word) < 2 ^ LENGTH('b) \<Longrightarrow> ucast (ucast v :: 'b::len word) = v"
  by (rule word_unat_eq_iff [THEN iffD2], subst unat_ucast_small)
    (simp_all add: unat_ucast_small unsigned_less)

lemma compact_size_bytes_byte:
  assumes "unat v < 253"
  shows "compact_size_bytes v = [ucast v]" and "unat (ucast v :: byte) = unat v"
  using assms by (simp_all add: compact_size_bytes_def word_less_nat_alt unat_ucast_small)

lemma compact_size_bytes_16:
  "253 \<le> unat v \<Longrightarrow> unat v < 2 ^ 16 \<Longrightarrow>
     compact_size_bytes v = 253 # write_little_endian (ucast v :: u16) 2"
  by (simp add: compact_size_bytes_def word_less_nat_alt word_le_nat_alt)

lemma compact_size_bytes_32:
  "2 ^ 16 \<le> unat v \<Longrightarrow> unat v < 2 ^ 32 \<Longrightarrow>
     compact_size_bytes v = 254 # write_little_endian (ucast v :: u32) 4"
  by (simp add: compact_size_bytes_def word_less_nat_alt word_le_nat_alt)

lemma compact_size_bytes_64:
  "2 ^ 32 \<le> unat v \<Longrightarrow> compact_size_bytes v = 255 # write_little_endian v 8"
  by (simp add: compact_size_bytes_def word_less_nat_alt word_le_nat_alt)

lemmas compact_size_bytes_ranges =
  compact_size_bytes_byte(1) compact_size_bytes_16 compact_size_bytes_32 compact_size_bytes_64

lemma compact_size_ranges:
  obtains (byte) "unat (v :: u64) < 253" | (two) "253 \<le> unat v" "unat v < 2 ^ 16"
    | (four) "2 ^ 16 \<le> unat v" "unat v < 2 ^ 32" | (eight) "2 ^ 32 \<le> unat v"
  by linarith

lemma compact_size_first:
  assumes "hd (compact_size_bytes v) = b"
  shows "b < 253 \<Longrightarrow> unat v < 253" and "b = 253 \<Longrightarrow> 253 \<le> unat v \<and> unat v < 2 ^ 16"
    and "b = 254 \<Longrightarrow> 2 ^ 16 \<le> unat v \<and> unat v < 2 ^ 32" and "b = 255 \<Longrightarrow> 2 ^ 32 \<le> unat v"
proof -
  have big: "unat v < 253 \<Longrightarrow> unat b < 253"
    using assms compact_size_bytes_byte [of v] by simp
  have "unat (253 :: byte) = 253" "unat (254 :: byte) = 254" "unat (255 :: byte) = 255" by simp_all
  with big show "b < 253 \<Longrightarrow> unat v < 253" "b = 253 \<Longrightarrow> 253 \<le> unat v \<and> unat v < 2 ^ 16"
    "b = 254 \<Longrightarrow> 2 ^ 16 \<le> unat v \<and> unat v < 2 ^ 32" "b = 255 \<Longrightarrow> 2 ^ 32 \<le> unat v"
    using assms by (cases v rule: compact_size_ranges;
        auto simp: compact_size_bytes_ranges word_less_nat_alt)+
qed

lemma byte_format: "wire_format (\<lambda>r. case read_bytes 1 r of (bs, r1) \<Rightarrow> (hd bs, r1)) (\<lambda>b. [b]) (\<lambda>_. True)"
  by (rule wire_format_map [OF raw_bytes.wire_format_axioms, where g = "\<lambda>b. [b]"])
    (auto simp: length_Suc_conv)

text \<open>What follows the first byte of a compact size, by the value of that byte.\<close>

definition compact_size_tail :: "byte \<Rightarrow> byte_reader \<Rightarrow> u64 \<times> byte_reader" where
  "compact_size_tail b r1 =
     (if \<not> m_ok r1 then (0, r1)
      else if b < 253 then (ucast b, r1)
      else if b = 253 then
        (case read_bytes 2 r1 of (bs, r2) \<Rightarrow>
           if \<not> m_ok r2 then (0, r2)
           else if (read_little_endian bs :: u16) < 253 then (0, fail non_canonical_compact_size r2)
           else (ucast (read_little_endian bs :: u16), r2))
      else if b = 254 then
        (case read_bytes 4 r1 of (bs, r2) \<Rightarrow>
           if \<not> m_ok r2 then (0, r2)
           else if (read_little_endian bs :: u32) \<le> 0xffff then (0, fail non_canonical_compact_size r2)
           else (ucast (read_little_endian bs :: u32), r2))
      else
        (case read_bytes 8 r1 of (bs, r2) \<Rightarrow>
           if \<not> m_ok r2 then (0, r2)
           else if (read_little_endian bs :: u64) \<le> 0xffffffff
             then (0, fail non_canonical_compact_size r2)
           else (read_little_endian bs, r2)))"

lemma byte_above_254: "\<not> b < 253 \<Longrightarrow> b \<noteq> 253 \<Longrightarrow> b \<noteq> 254 \<Longrightarrow> b = (255 :: byte)"
  using unat8_upper [of b] by (simp add: word_less_nat_alt word_unat_eq_iff)

lemma compact_size_wide_format:
  assumes width: "8 * n = LENGTH('a)" "LENGTH('a) \<le> 64"
    and bad: "\<And>w :: 'a::len word. bad w \<longleftrightarrow> unat w < lo"
    and enc: "\<And>v. lo \<le> unat v \<Longrightarrow> unat v < 2 ^ LENGTH('a) \<Longrightarrow>
      tl (compact_size_bytes v) = write_little_endian (ucast v :: 'a word) n"
  shows "wire_format (\<lambda>r. case read_bytes n r of (bs, r1) \<Rightarrow>
      if \<not> m_ok r1 then (0, r1)
      else if bad (read_little_endian bs :: 'a word) then (0, fail non_canonical_compact_size r1)
      else (ucast (read_little_endian bs :: 'a word), r1))
    (\<lambda>v. tl (compact_size_bytes v)) (\<lambda>v. lo \<le> unat v \<and> unat v < 2 ^ LENGTH('a))"
proof (rule wire_format_check [OF raw_bytes.wire_format_axioms,
      where g = "\<lambda>v. write_little_endian (ucast v :: 'a word) n"])
  fix bs :: "byte list"
  let ?w = "read_little_endian bs :: 'a word"
  assume "length bs = n" and "\<not> bad ?w"
  have "(2 :: nat) ^ LENGTH('a) \<le> 2 ^ 64" using width(2) by (intro power_increasing) simp_all
  then have "unat ?w < 2 ^ 64" using unsigned_less [of ?w] by (metis order_less_le_trans)
  then have "unat (ucast ?w :: u64) = unat ?w" and "ucast (ucast ?w :: u64) = ?w"
    by (simp_all add: unat_ucast_small ucast_ucast_small)
  moreover have "write_little_endian ?w n = bs"
    using write_read_little_endian [of bs, where 'a = 'a] width(1) \<open>length bs = n\<close> by simp
  ultimately
  show "(lo \<le> unat (ucast ?w :: u64) \<and> unat (ucast ?w :: u64) < 2 ^ LENGTH('a)) \<and>
      tl (compact_size_bytes (ucast ?w)) = bs"
    using \<open>\<not> bad ?w\<close> enc [of "ucast ?w"] by (simp add: bad unsigned_less)
next
  fix v :: u64 assume "lo \<le> unat v \<and> unat v < 2 ^ LENGTH('a)"
  then show "length (write_little_endian (ucast v :: 'a word) n) = n \<and>
      \<not> bad (read_little_endian (write_little_endian (ucast v :: 'a word) n) :: 'a word) \<and>
      ucast (read_little_endian (write_little_endian (ucast v :: 'a word) n) :: 'a word) = v"
    using width(1) by (simp add: bad read_write_little_endian unat_ucast_small ucast_ucast_small)
qed

lemma compact_size_byte_format:
  assumes "b < 253"
  shows "wire_format (\<lambda>r. (ucast b, r)) (\<lambda>v. tl (compact_size_bytes v))
    (\<lambda>v. hd (compact_size_bytes v) = b)"
proof -
  have b: "unat (ucast b :: u64) < 253" "ucast (ucast b :: u64) = b"
    using assms unat8_upper [of b]
    by (simp_all add: word_less_nat_alt unat_ucast_small ucast_ucast_small)
  then have e: "compact_size_bytes (ucast b) = [b]"
    using compact_size_bytes_byte(1) [of "ucast b"] by simp
  have "hd (compact_size_bytes v) = b \<longleftrightarrow> v = ucast b" for v
  proof
    assume "hd (compact_size_bytes v) = b"
    then have "unat v < 253" "compact_size_bytes v = [ucast v]" "ucast v = b"
      using compact_size_first(1) [of v b] assms compact_size_bytes_byte(1) [of v] by auto
    then show "v = ucast b" using ucast_ucast_small [of v, where 'b = 8] by auto
  qed (simp add: e)
  then show ?thesis by unfold_locales (auto simp: e)
qed

lemma compact_size_tail_format:
  "wire_format (compact_size_tail b) (\<lambda>v. tl (compact_size_bytes v))
     (\<lambda>v. hd (compact_size_bytes v) = b)"
proof -
  consider "b < 253" | "b = 253" | "b = 254" | "b = 255" using byte_above_254 by blast
  then show ?thesis
  proof cases
    case 1
    then have "compact_size_tail b = (\<lambda>r. if \<not> m_ok r then (0, r) else (ucast b, r))"
      by (auto simp: compact_size_tail_def)
    with wire_format_guard [OF compact_size_byte_format [OF 1]] show ?thesis by simp
  next
    case 2
    then have "(hd (compact_size_bytes v) = b) \<longleftrightarrow> 253 \<le> unat v \<and> unat v < 2 ^ LENGTH(16)" for v
      using compact_size_first(2) [of v b] compact_size_bytes_16 [of v] by auto
    moreover have "compact_size_tail b = (\<lambda>r. if \<not> m_ok r then (0, r) else
        case read_bytes 2 r of (bs, r1) \<Rightarrow> if \<not> m_ok r1 then (0, r1)
        else if (read_little_endian bs :: u16) < 253 then (0, fail non_canonical_compact_size r1)
        else (ucast (read_little_endian bs :: u16), r1))"
      using 2 by (auto simp: compact_size_tail_def)
    ultimately show ?thesis
      using wire_format_guard [OF compact_size_wide_format [where 'a = 16 and n = 2 and
            lo = 253 and bad = "\<lambda>w. w < 253"], where d = 0]
      by (simp add: word_less_nat_alt compact_size_bytes_16)
  next
    case 3
    then have "(hd (compact_size_bytes v) = b) \<longleftrightarrow> 2 ^ 16 \<le> unat v \<and> unat v < 2 ^ LENGTH(32)" for v
      using compact_size_first(3) [of v b] compact_size_bytes_32 [of v] by auto
    moreover have "compact_size_tail b = (\<lambda>r. if \<not> m_ok r then (0, r) else
        case read_bytes 4 r of (bs, r1) \<Rightarrow> if \<not> m_ok r1 then (0, r1)
        else if (read_little_endian bs :: u32) \<le> 0xffff then (0, fail non_canonical_compact_size r1)
        else (ucast (read_little_endian bs :: u32), r1))"
      using 3 by (auto simp: compact_size_tail_def)
    ultimately show ?thesis
      using wire_format_guard [OF compact_size_wide_format [where 'a = 32 and n = 4 and
            lo = "2 ^ 16" and bad = "\<lambda>w. w \<le> 0xffff"], where d = 0]
      by (simp add: word_le_nat_alt compact_size_bytes_32 less_Suc_eq_le [symmetric])
  next
    case 4
    then have "(hd (compact_size_bytes v) = b) \<longleftrightarrow> 2 ^ 32 \<le> unat v \<and> unat v < 2 ^ LENGTH(64)" for v
      using compact_size_first(4) [of v b] compact_size_bytes_64 [of v] unat64_upper [of v] by auto
    moreover have "compact_size_tail b = (\<lambda>r. if \<not> m_ok r then (0, r) else
        case read_bytes 8 r of (bs, r1) \<Rightarrow> if \<not> m_ok r1 then (0, r1)
        else if (read_little_endian bs :: u64) \<le> 0xffffffff then (0, fail non_canonical_compact_size r1)
        else (ucast (read_little_endian bs :: u64), r1))"
      using 4 by (intro ext) (simp add: compact_size_tail_def split: prod.splits)
    ultimately show ?thesis
      using wire_format_guard [OF compact_size_wide_format [where 'a = 64 and n = 8 and
            lo = "2 ^ 32" and bad = "\<lambda>w. w \<le> 0xffffffff"], where d = 0]
      by (simp add: word_le_nat_alt compact_size_bytes_64 less_Suc_eq_le [symmetric])
  qed
qed

interpretation compact_size: wire_format read_compact_size compact_size_bytes "\<lambda>_. True"
proof -
  have nonempty: "compact_size_bytes v \<noteq> []" for v by (simp add: compact_size_bytes_def)
  have eq: "read_compact_size = (\<lambda>r. case (case read_bytes 1 r of (bs, r1) \<Rightarrow> (hd bs, r1)) of
      (b, r1) \<Rightarrow> compact_size_tail b r1)"
    by (rule ext) (simp add: read_compact_size_def compact_size_tail_def split: prod.splits)
  have "wire_format (\<lambda>r. case (case read_bytes 1 r of (bs, r1) \<Rightarrow> (hd bs, r1)) of
      (b, r1) \<Rightarrow> compact_size_tail b r1)
    (\<lambda>v. [hd (compact_size_bytes v)] @ tl (compact_size_bytes v)) (\<lambda>v. True \<and> True)"
    by (rule wire_format_bind [OF byte_format]) (simp add: compact_size_tail_format)
  then show "wire_format read_compact_size compact_size_bytes (\<lambda>_. True)"
    using nonempty by (simp add: eq)
qed

lemma length_compact_size_bytes: "length (compact_size_bytes v) = compact_size_size v"
  by (simp add: compact_size_bytes_def compact_size_size_def)

lemma compact_size_size_pos: "1 \<le> compact_size_size v"
  by (simp add: compact_size_size_def)

subsection \<open>Length-prefixed byte strings\<close>

definition var_bytes :: "byte list \<Rightarrow> byte list" where
  "var_bytes bs = compact_size_bytes (of_nat (length bs)) @ bs"

lemma length_var_bytes_ge: "1 \<le> length (var_bytes bs)"
  using compact_size_size_pos by (simp add: var_bytes_def length_compact_size_bytes trans_le_add1)

lemma count64_iff:
  "m < size_limit \<and> of_nat m = (n :: u64) \<longleftrightarrow> m = unat n"
proof
  assume "m = unat n"
  then show "m < size_limit \<and> of_nat m = n" using unat64_upper [of n] by simp
qed auto

interpretation script_bytes: wire_format read_script var_bytes bytes_ok
proof -
  have eq: "read_script = (\<lambda>r. case read_compact_size r of (n, r1) \<Rightarrow>
      (\<lambda>r. if \<not> m_ok r then ([], r) else read_bytes (unat n) r) r1)"
    by (rule ext) (simp add: read_script_def split: prod.splits)
  have tail: "wire_format (\<lambda>r. if \<not> m_ok r then ([], r) else read_bytes (unat n) r) (\<lambda>bs. bs)
      (\<lambda>bs. bytes_ok bs \<and> of_nat (length bs) = n)" for n :: u64
  proof -
    have "(bytes_ok bs \<and> of_nat (length bs) = n) \<longleftrightarrow> length bs = unat n" for bs
      unfolding bytes_ok_def by (rule count64_iff)
    then show ?thesis using wire_format_guard [OF raw_bytes.wire_format_axioms] by simp
  qed
  from wire_format_bind [OF compact_size.wire_format_axioms tail]
  show "wire_format read_script var_bytes bytes_ok" by (simp add: eq var_bytes_def [abs_def])
qed

end
