(* ===== verification/Sha256.thy ===== *)
theory Sha256
  imports Prelude
begin

text \<open>
  The SHA-256 hasher of \<^verbatim>\<open>src/src/crypto/sha256.cpp\<close> in its portable form: the round
  function, the compression of 64-byte chunks, and the class \<open>CSHA256\<close> that buffers a stream
  of writes. The definitions are free of local bindings so that they evaluate by rewriting.

  The source unrolls the 64 rounds and renames the eight registers from call to call instead of
  moving them; \<open>Round\<close> returns the registers in the order the next call names them. The sixteen
  schedule variables \<open>w0\<close> to \<open>w15\<close>, updated in place from round 16 on, are a list that
  \<open>slide\<close> rotates by one.

  Main results: the schedule ring computes the rounds over the full 64-word schedule
  (\<open>transform_block_schedule\<close>), and the buffered hasher computes the hash of the concatenation of
  everything written to it, however the writes were cut (\<open>sha256_stream\<close>). That this hash is the
  one of the standard is the subject of \<open>Sha256_Fips\<close>.
\<close>

subsection \<open>Big-endian words\<close>

definition ReadBE32 :: "byte list \<Rightarrow> u32" where
  "ReadBE32 bs =
     push_bit 24 (ucast (bs ! 0)) OR push_bit 16 (ucast (bs ! 1)) OR
     push_bit 8 (ucast (bs ! 2)) OR ucast (bs ! 3)"

definition WriteBE32 :: "u32 \<Rightarrow> byte list" where
  "WriteBE32 x = [ucast (drop_bit 24 x), ucast (drop_bit 16 x), ucast (drop_bit 8 x), ucast x]"

definition WriteBE64 :: "u64 \<Rightarrow> byte list" where
  "WriteBE64 x =
     [ucast (drop_bit 56 x), ucast (drop_bit 48 x), ucast (drop_bit 40 x), ucast (drop_bit 32 x),
      ucast (drop_bit 24 x), ucast (drop_bit 16 x), ucast (drop_bit 8 x), ucast x]"

subsection \<open>The round function\<close>

type_synonym sha_regs = "u32 \<times> u32 \<times> u32 \<times> u32 \<times> u32 \<times> u32 \<times> u32 \<times> u32"

definition Ch :: "u32 \<Rightarrow> u32 \<Rightarrow> u32 \<Rightarrow> u32" where
  "Ch x y z = z XOR (x AND (y XOR z))"

definition Maj :: "u32 \<Rightarrow> u32 \<Rightarrow> u32 \<Rightarrow> u32" where
  "Maj x y z = (x AND y) OR (z AND (x OR y))"

definition Sigma0 :: "u32 \<Rightarrow> u32" where
  "Sigma0 x = (drop_bit 2 x OR push_bit 30 x) XOR (drop_bit 13 x OR push_bit 19 x) XOR
     (drop_bit 22 x OR push_bit 10 x)"

definition Sigma1 :: "u32 \<Rightarrow> u32" where
  "Sigma1 x = (drop_bit 6 x OR push_bit 26 x) XOR (drop_bit 11 x OR push_bit 21 x) XOR
     (drop_bit 25 x OR push_bit 7 x)"

definition sigma0 :: "u32 \<Rightarrow> u32" where
  "sigma0 x = (drop_bit 7 x OR push_bit 25 x) XOR (drop_bit 18 x OR push_bit 14 x) XOR drop_bit 3 x"

definition sigma1 :: "u32 \<Rightarrow> u32" where
  "sigma1 x = (drop_bit 17 x OR push_bit 15 x) XOR (drop_bit 19 x OR push_bit 13 x) XOR drop_bit 10 x"

definition Round_update :: "sha_regs \<Rightarrow> u32 \<Rightarrow> u32 \<Rightarrow> sha_regs" where
  "Round_update s t1 t2 =
     (case s of (a, b, c, d, e, f, g, h) \<Rightarrow> (t1 + t2, a, b, c, d + t1, e, f, g))"

definition Round :: "sha_regs \<Rightarrow> u32 \<Rightarrow> sha_regs" where
  "Round s k =
     (case s of (a, b, c, d, e, f, g, h) \<Rightarrow>
        Round_update s (h + Sigma1 e + Ch e f g + k) (Sigma0 a + Maj a b c))"

definition Initialize :: sha_regs where
  "Initialize = (0x6a09e667, 0xbb67ae85, 0x3c6ef372, 0xa54ff53a,
     0x510e527f, 0x9b05688c, 0x1f83d9ab, 0x5be0cd19)"

subsection \<open>Compression of one chunk\<close>

text \<open>
  The round constants of \<open>Transform\<close>, which FIPS 180-4 fixes. A row is eight rounds, after which the
  registers are back in their original order.
\<close>

definition K_first :: "u32 list" where
  "K_first = concat
     [[0x428a2f98, 0x71374491, 0xb5c0fbcf, 0xe9b5dba5, 0x3956c25b, 0x59f111f1, 0x923f82a4, 0xab1c5ed5],
      [0xd807aa98, 0x12835b01, 0x243185be, 0x550c7dc3, 0x72be5d74, 0x80deb1fe, 0x9bdc06a7, 0xc19bf174]]"

definition K_later :: "u32 list" where
  "K_later = concat
     [[0xe49b69c1, 0xefbe4786, 0x0fc19dc6, 0x240ca1cc, 0x2de92c6f, 0x4a7484aa, 0x5cb0a9dc, 0x76f988da],
      [0x983e5152, 0xa831c66d, 0xb00327c8, 0xbf597fc7, 0xc6e00bf3, 0xd5a79147, 0x06ca6351, 0x14292967],
      [0x27b70a85, 0x2e1b2138, 0x4d2c6dfc, 0x53380d13, 0x650a7354, 0x766a0abb, 0x81c2c92e, 0x92722c85],
      [0xa2bfe8a1, 0xa81a664b, 0xc24b8b70, 0xc76c51a3, 0xd192e819, 0xd6990624, 0xf40e3585, 0x106aa070],
      [0x19a4c116, 0x1e376c08, 0x2748774c, 0x34b0bcb5, 0x391c0cb3, 0x4ed8aa4a, 0x5b9cca4f, 0x682e6ff3],
      [0x748f82ee, 0x78a5636f, 0x84c87814, 0x8cc70208, 0x90befffa, 0xa4506ceb, 0xbef9a3f7, 0xc67178f2]]"

definition chunk_words :: "byte list \<Rightarrow> u32 list" where
  "chunk_words chunk = map (\<lambda>i. ReadBE32 (drop (4 * i) chunk)) [0..<16]"

fun rounds :: "u32 list \<Rightarrow> u32 list \<Rightarrow> sha_regs \<Rightarrow> sha_regs" where
  "rounds (k # ks) (w # ws) s = rounds ks ws (Round s (k + w))"
| "rounds ks ws s = s"

definition slide :: "u32 list \<Rightarrow> u32 list" where
  "slide ws = tl ws @ [hd ws + (sigma1 (ws ! 14) + ws ! 9 + sigma0 (ws ! 1))]"

definition ring_step ::
  "(u32 list \<Rightarrow> sha_regs \<Rightarrow> sha_regs) \<Rightarrow> u32 \<Rightarrow> u32 list \<Rightarrow> sha_regs \<Rightarrow> sha_regs" where
  "ring_step later k ws s = later ws (Round s (k + last ws))"

primrec ring_rounds :: "u32 list \<Rightarrow> u32 list \<Rightarrow> sha_regs \<Rightarrow> sha_regs" where
  "ring_rounds [] ws s = s"
| "ring_rounds (k # ks) ws s = ring_step (ring_rounds ks) k (slide ws) s"

definition add_regs :: "sha_regs \<Rightarrow> sha_regs \<Rightarrow> sha_regs" where
  "add_regs s t =
     (case s of (a, b, c, d, e, f, g, h) \<Rightarrow> case t of (a', b', c', d', e', f', g', h') \<Rightarrow>
        (a + a', b + b', c + c', d + d', e + e', f + f', g + g', h + h'))"

definition Transform_chunk :: "sha_regs \<Rightarrow> byte list \<Rightarrow> sha_regs" where
  "Transform_chunk s chunk =
     add_regs s (ring_rounds K_later (chunk_words chunk) (rounds K_first (chunk_words chunk) s))"

fun Transform :: "sha_regs \<Rightarrow> byte list \<Rightarrow> nat \<Rightarrow> sha_regs" where
  "Transform s chunk 0 = s"
| "Transform s chunk (Suc blocks) = Transform (Transform_chunk s (take 64 chunk)) (drop 64 chunk) blocks"

subsection \<open>The hasher\<close>

record csha256 =
  sha_s :: sha_regs
  sha_buf :: "byte list"
  sha_bytes :: u64

text \<open>The constructor leaves the buffer uninitialised: its content is an argument.\<close>

definition CSHA256 :: "byte list \<Rightarrow> csha256" where
  "CSHA256 garbage = \<lparr>sha_s = Initialize, sha_buf = garbage, sha_bytes = 0\<rparr>"

definition memcpy_at :: "byte list \<Rightarrow> nat \<Rightarrow> byte list \<Rightarrow> byte list" where
  "memcpy_at buf at data = take at buf @ data @ drop (at + length data) buf"

text \<open>The three stages of \<open>Write\<close>: complete a partial chunk, compress whole chunks, keep the rest.\<close>

definition Write_fill :: "csha256 \<Rightarrow> byte list \<Rightarrow> nat \<Rightarrow> csha256 \<times> byte list \<times> nat" where
  "Write_fill c data bufsize =
     (if bufsize \<noteq> 0 \<and> bufsize + length data \<ge> 64 then
        (c\<lparr>sha_buf := memcpy_at (sha_buf c) bufsize (take (64 - bufsize) data),
           sha_bytes := sha_bytes c + of_nat (64 - bufsize),
           sha_s := Transform (sha_s c) (memcpy_at (sha_buf c) bufsize (take (64 - bufsize) data)) 1\<rparr>,
         drop (64 - bufsize) data, 0)
      else (c, data, bufsize))"

definition Write_blocks :: "csha256 \<Rightarrow> byte list \<Rightarrow> csha256 \<times> byte list" where
  "Write_blocks c data =
     (if length data \<ge> 64 then
        (c\<lparr>sha_s := Transform (sha_s c) data (length data div 64),
           sha_bytes := sha_bytes c + of_nat (64 * (length data div 64))\<rparr>,
         drop (64 * (length data div 64)) data)
      else (c, data))"

definition Write_rest :: "csha256 \<Rightarrow> byte list \<Rightarrow> nat \<Rightarrow> csha256" where
  "Write_rest c data bufsize =
     (if length data > 0 then
        c\<lparr>sha_buf := memcpy_at (sha_buf c) bufsize data,
          sha_bytes := sha_bytes c + of_nat (length data)\<rparr>
      else c)"

definition sha_Write :: "csha256 \<Rightarrow> byte list \<Rightarrow> csha256" where
  "sha_Write c data =
     (case Write_fill c data (unat (sha_bytes c) mod 64) of (c1, data1, bufsize) \<Rightarrow>
        case Write_blocks c1 data1 of (c2, data2) \<Rightarrow> Write_rest c2 data2 bufsize)"

definition pad_bytes :: "byte list" where
  "pad_bytes = 0x80 # replicate 63 0"

definition output_regs :: "sha_regs \<Rightarrow> byte list" where
  "output_regs s =
     (case s of (a, b, c, d, e, f, g, h) \<Rightarrow>
        WriteBE32 a @ WriteBE32 b @ WriteBE32 c @ WriteBE32 d @
        WriteBE32 e @ WriteBE32 f @ WriteBE32 g @ WriteBE32 h)"

definition Finalize_state :: "csha256 \<Rightarrow> csha256" where
  "Finalize_state c =
     sha_Write (sha_Write c (take (1 + (119 - unat (sha_bytes c) mod 64) mod 64) pad_bytes))
       (WriteBE64 (push_bit 3 (sha_bytes c)))"

definition Finalize :: "csha256 \<Rightarrow> byte list" where
  "Finalize c = output_regs (sha_s (Finalize_state c))"

definition Reset :: "csha256 \<Rightarrow> csha256" where
  "Reset c = c\<lparr>sha_bytes := 0, sha_s := Initialize\<rparr>"

subsection \<open>The full schedule and the hash of a padded message\<close>

primrec word_schedule :: "nat \<Rightarrow> u32 list \<Rightarrow> u32 list" where
  "word_schedule 0 W = W"
| "word_schedule (Suc n) W =
     word_schedule n (W @ [sigma1 (W ! (length W - 2)) + W ! (length W - 7) +
       sigma0 (W ! (length W - 15)) + W ! (length W - 16)])"

definition schedule_chunk :: "sha_regs \<Rightarrow> byte list \<Rightarrow> sha_regs" where
  "schedule_chunk s chunk = add_regs s (rounds (K_first @ K_later) (word_schedule 48 (chunk_words chunk)) s)"

definition padding :: "byte list \<Rightarrow> byte list" where
  "padding xs = 0x80 # replicate ((119 - length xs mod 64) mod 64) 0 @
     WriteBE64 (push_bit 3 (of_nat (length xs)))"

definition sha256 :: "byte list \<Rightarrow> byte list" where
  "sha256 xs = output_regs (Transform Initialize (xs @ padding xs) (length (xs @ padding xs) div 64))"

definition double_sha256 :: "byte list \<Rightarrow> byte list" where
  "double_sha256 xs = sha256 (sha256 xs)"

subsection \<open>The schedule ring computes the full schedule\<close>

lemma length_chunk_words [simp]: "length (chunk_words chunk) = 16"
  by (simp add: chunk_words_def)

lemma length_K [simp]: "length K_first = 16" "length K_later = 48"
  by (simp_all add: K_first_def K_later_def)

lemma rounds_append:
  "length ks = length ws \<Longrightarrow> rounds (ks @ ks') (ws @ ws') s = rounds ks' ws' (rounds ks ws s)"
  by (induction ks ws arbitrary: s rule: list_induct2) auto

lemma word_schedule_prefix:
  "\<exists>V. word_schedule n W = W @ V \<and> length V = n"
proof (induction n arbitrary: W)
  case (Suc n)
  let ?w = "sigma1 (W ! (length W - 2)) + W ! (length W - 7) +
       sigma0 (W ! (length W - 15)) + W ! (length W - 16)"
  from Suc [of "W @ [?w]"] obtain V where "word_schedule n (W @ [?w]) = (W @ [?w]) @ V" "length V = n"
    by blast
  then show ?case by (intro exI [of _ "?w # V"]) simp
qed simp

lemma slide_last:
  assumes "16 \<le> length W"
  shows "slide (drop (length W - 16) W) =
    drop (length W - 15) (W @ [sigma1 (W ! (length W - 2)) + W ! (length W - 7) +
       sigma0 (W ! (length W - 15)) + W ! (length W - 16)])"
proof -
  have "hd (drop (length W - 16) W) = W ! (length W - 16)"
    using assms by (simp add: hd_drop_conv_nth)
  moreover have "Suc (length W - 16) = length W - 15" using assms by arith
  then have "tl (drop (length W - 16) W) = drop (length W - 15) W"
    by (simp add: tl_drop drop_Suc [symmetric])
  moreover have "length W - 16 + 14 = length W - 2" "length W - 16 + 9 = length W - 7"
    "length W - 16 + 1 = length W - 15"
    using assms by arith+
  ultimately show ?thesis
    using assms by (simp add: slide_def add.commute add.left_commute)
qed

lemma ring_rounds_schedule:
  assumes "16 \<le> length W"
  shows "ring_rounds ks (drop (length W - 16) W) s =
    rounds ks (drop (length W) (word_schedule (length ks) W)) s"
  using assms
proof (induction ks arbitrary: W s)
  case (Cons k ks)
  let ?w = "sigma1 (W ! (length W - 2)) + W ! (length W - 7) +
       sigma0 (W ! (length W - 15)) + W ! (length W - 16)"
  obtain V where V: "word_schedule (length ks) (W @ [?w]) = (W @ [?w]) @ V"
    using word_schedule_prefix by blast
  have "ring_rounds (k # ks) (drop (length W - 16) W) s =
      ring_rounds ks (drop (length (W @ [?w]) - 16) (W @ [?w])) (Round s (k + ?w))"
    using Cons.prems by (simp add: ring_step_def slide_last)
  also have "\<dots> = rounds ks V (Round s (k + ?w))"
    using Cons.prems V by (subst Cons.IH) simp_all
  finally show ?case using V by simp
qed simp

theorem transform_block_schedule: "Transform_chunk s chunk = schedule_chunk s chunk"
proof -
  let ?W = "chunk_words chunk"
  obtain V where V: "word_schedule 48 ?W = ?W @ V" using word_schedule_prefix by blast
  have "ring_rounds K_later ?W (rounds K_first ?W s) = rounds K_later V (rounds K_first ?W s)"
    using ring_rounds_schedule [of ?W K_later] V by simp
  then show ?thesis
    using V by (simp add: Transform_chunk_def schedule_chunk_def rounds_append)
qed

subsection \<open>The buffered hasher and the stream it has consumed\<close>

definition sha_written :: "csha256 \<Rightarrow> byte list \<Rightarrow> bool" where
  "sha_written c xs \<longleftrightarrow>
     length (sha_buf c) = 64 \<and> sha_bytes c = of_nat (length xs) \<and>
     take (length xs mod 64) (sha_buf c) = drop (64 * (length xs div 64)) xs \<and>
     sha_s c = Transform Initialize xs (length xs div 64)"

lemma Transform_append:
  "64 * n \<le> length xs \<Longrightarrow> Transform s (xs @ ys) n = Transform s xs n"
  by (induction n arbitrary: s xs) simp_all

lemma Transform_add:
  "Transform s xs (m + n) = Transform (Transform s xs m) (drop (64 * m) xs) n"
  by (induction m arbitrary: s xs) (simp_all add: add.commute)

lemma unat_of_nat_mod64: "unat (of_nat n :: u64) mod 64 = n mod 64"
proof -
  have "unat (of_nat n :: u64) = n mod 2 ^ 64"
    by (simp add: unat_of_nat take_bit_eq_mod)
  moreover have "(64 :: nat) dvd 2 ^ 64" by simp
  ultimately show ?thesis by (simp only: mod_mod_cancel)
qed

lemma sha_written_new: "length garbage = 64 \<Longrightarrow> sha_written (CSHA256 garbage) []"
  by (simp add: sha_written_def CSHA256_def)

lemma sha_written_reset: "sha_written c xs \<Longrightarrow> sha_written (Reset c) []"
  by (simp add: sha_written_def Reset_def)

lemma sha_bufsize: "sha_written c xs \<Longrightarrow> unat (sha_bytes c) mod 64 = length xs mod 64"
  by (simp add: sha_written_def unat_of_nat_mod64)

text \<open>The same predicate with the stream as \<open>n\<close> whole chunks and \<open>m\<close> buffered bytes.\<close>

lemma sha_writtenI:
  assumes "length xs = 64 * n + m" and "m < 64" and "length (sha_buf c) = 64"
    and "sha_bytes c = of_nat (64 * n + m)" and "take m (sha_buf c) = drop (64 * n) xs"
    and "sha_s c = Transform Initialize xs n"
  shows "sha_written c xs"
  using assms by (simp add: sha_written_def)

lemma sha_writtenE:
  assumes "sha_written c xs"
  obtains n where "length xs = 64 * n + length xs mod 64" and "length (sha_buf c) = 64"
    and "sha_bytes c = of_nat (64 * n + length xs mod 64)"
    and "take (length xs mod 64) (sha_buf c) = drop (64 * n) xs"
    and "sha_s c = Transform Initialize xs n"
proof
  show "length xs = 64 * (length xs div 64) + length xs mod 64" by simp
qed (use assms in \<open>simp_all add: sha_written_def\<close>)

lemma Write_fill_written:
  assumes w: "sha_written c xs" and b: "length xs mod 64 = b"
    and fill: "b \<noteq> 0" "64 \<le> b + length ys"
  obtains c' where "Write_fill c ys b = (c', drop (64 - b) ys, 0)"
    and "sha_written c' (xs @ take (64 - b) ys)"
proof -
  from w obtain n where n: "length xs = 64 * n + b" "length (sha_buf c) = 64"
    "sha_bytes c = of_nat (64 * n + b)" "take b (sha_buf c) = drop (64 * n) xs"
    "sha_s c = Transform Initialize xs n"
    unfolding b [symmetric] by (rule sha_writtenE)
  have lt: "b < 64" using b by auto
  let ?buf = "memcpy_at (sha_buf c) b (take (64 - b) ys)"
  let ?c = "c\<lparr>sha_buf := ?buf, sha_bytes := sha_bytes c + of_nat (64 - b),
      sha_s := Transform (sha_s c) ?buf 1\<rparr>"
  have buf: "?buf = drop (64 * n) (xs @ take (64 - b) ys)"
    using n(1,2,4) lt fill by (simp add: memcpy_at_def)
  have "sha_written ?c (xs @ take (64 - b) ys)"
  proof (rule sha_writtenI)
    show "length (xs @ take (64 - b) ys) = 64 * (n + 1) + 0" using n(1) lt fill by simp
    have "sha_bytes c + of_nat (64 - b) = of_nat ((64 * n + b) + (64 - b))"
      unfolding n(3) by (simp only: of_nat_add)
    also have "(64 * n + b) + (64 - b) = 64 * (n + 1) + 0" using lt by simp
    finally show "sha_bytes ?c = of_nat (64 * (n + 1) + 0)" by simp
    show "length (sha_buf ?c) = 64" using n(2) lt fill by (simp add: memcpy_at_def)
    show "take 0 (sha_buf ?c) = drop (64 * (n + 1)) (xs @ take (64 - b) ys)"
      using n(1) lt fill by simp
    show "sha_s ?c = Transform Initialize (xs @ take (64 - b) ys) (n + 1)"
      unfolding Transform_add using n(1,5) buf by (simp add: Transform_append)
  qed simp
  then show ?thesis using that fill by (simp add: Write_fill_def)
qed

lemma Write_blocks_written:
  assumes w: "sha_written c xs" and z: "length xs mod 64 = 0"
  obtains c' where "Write_blocks c ys = (c', drop (64 * (length ys div 64)) ys)"
    and "sha_written c' (xs @ take (64 * (length ys div 64)) ys)"
proof (cases "64 \<le> length ys")
  case True
  from w obtain n where n: "length xs = 64 * n + 0" "length (sha_buf c) = 64"
    "sha_bytes c = of_nat (64 * n + 0)" "take 0 (sha_buf c) = drop (64 * n) xs"
    "sha_s c = Transform Initialize xs n"
    unfolding z [symmetric] by (rule sha_writtenE)
  define m where "m = length ys div 64"
  have m: "64 * m \<le> length ys" by (simp add: m_def)
  let ?c = "c\<lparr>sha_s := Transform (sha_s c) ys m, sha_bytes := sha_bytes c + of_nat (64 * m)\<rparr>"
  have "sha_written ?c (xs @ take (64 * m) ys)"
  proof (rule sha_writtenI)
    show "length (xs @ take (64 * m) ys) = 64 * (n + m) + 0" using n(1) m by simp
    show "sha_bytes ?c = of_nat (64 * (n + m) + 0)" using n(3) by simp
    show "take 0 (sha_buf ?c) = drop (64 * (n + m)) (xs @ take (64 * m) ys)"
      using n(1) m by simp
    have "Transform (sha_s c) (take (64 * m) ys @ drop (64 * m) ys) m
        = Transform (sha_s c) (take (64 * m) ys) m"
      using m by (intro Transform_append) simp
    then show "sha_s ?c = Transform Initialize (xs @ take (64 * m) ys) (n + m)"
      unfolding Transform_add using n(1,5) by (simp add: Transform_append)
  qed (simp_all add: n(2))
  then show ?thesis using that True by (simp add: Write_blocks_def m_def)
next
  case False
  then show ?thesis using that w by (simp add: Write_blocks_def)
qed

lemma Write_rest_written:
  assumes w: "sha_written c xs" and b: "length xs mod 64 = b" and short: "b + length ys < 64"
  shows "sha_written (Write_rest c ys b) (xs @ ys)"
proof (cases "ys = []")
  case False
  from w obtain n where n: "length xs = 64 * n + b" "length (sha_buf c) = 64"
    "sha_bytes c = of_nat (64 * n + b)" "take b (sha_buf c) = drop (64 * n) xs"
    "sha_s c = Transform Initialize xs n"
    unfolding b [symmetric] by (rule sha_writtenE)
  show ?thesis
    by (rule sha_writtenI [of _ n "b + length ys"])
      (use False n short in \<open>simp_all add: Write_rest_def memcpy_at_def Transform_append\<close>)
qed (use w in \<open>simp add: Write_rest_def\<close>)

lemma mod_fill: "0 < (k::nat) \<Longrightarrow> (n + (k - n mod k)) mod k = 0"
  by (metis add_diff_inverse_nat mod_add_left_eq mod_less_divisor mod_self not_less_iff_gr_or_eq)

text \<open>However the stream is cut into writes, the hasher has consumed their concatenation.\<close>

theorem sha_Write_written:
  assumes "sha_written c xs"
  shows "sha_written (sha_Write c ys) (xs @ ys)"
proof -
  let ?b = "length xs mod 64"
  have finish: "sha_written (case Write_blocks c1 zs of (c2, rest) \<Rightarrow> Write_rest c2 rest 0) (us @ zs)"
    if "sha_written c1 us" "length us mod 64 = 0" for c1 us zs
  proof -
    from Write_blocks_written [OF that, of zs] obtain c2 where
      c2: "Write_blocks c1 zs = (c2, drop (64 * (length zs div 64)) zs)"
      "sha_written c2 (us @ take (64 * (length zs div 64)) zs)" by blast
    have "length (us @ take (64 * (length zs div 64)) zs) mod 64 = 0"
      using that(2) by (auto simp: mod_eq_0_iff_dvd)
    from Write_rest_written [OF c2(2) this, of "drop (64 * (length zs div 64)) zs"]
    show ?thesis by (simp add: c2(1) minus_mult_div_eq_mod)
  qed
  consider (fill) "?b \<noteq> 0" "64 \<le> ?b + length ys" | (empty) "?b = 0" | (short) "?b \<noteq> 0" "?b + length ys < 64"
    by linarith
  then show ?thesis
  proof cases
    case fill
    from Write_fill_written [OF assms refl fill] obtain c1 where
      c1: "Write_fill c ys ?b = (c1, drop (64 - ?b) ys, 0)" "sha_written c1 (xs @ take (64 - ?b) ys)"
      by blast
    have "length (xs @ take (64 - ?b) ys) mod 64 = 0"
      using fill mod_fill [of 64 "length xs"] by simp
    from finish [OF c1(2) this, of "drop (64 - ?b) ys"] show ?thesis
      by (simp add: sha_Write_def sha_bufsize [OF assms] c1(1))
  next
    case empty
    with finish [OF assms] show ?thesis
      by (simp add: sha_Write_def sha_bufsize [OF assms] Write_fill_def)
  next
    case short
    with Write_rest_written [OF assms refl short(2)] show ?thesis
      by (simp add: sha_Write_def sha_bufsize [OF assms] Write_fill_def Write_blocks_def)
  qed
qed

theorem sha256_stream: "sha_written c xs \<Longrightarrow> Finalize c = sha256 xs"
proof -
  assume w: "sha_written c xs"
  let ?pad = "take (1 + (119 - length xs mod 64) mod 64) pad_bytes"
  have "?pad = 0x80 # replicate ((119 - length xs mod 64) mod 64) 0"
    by (simp add: pad_bytes_def min_def)
  moreover from sha_Write_written [OF sha_Write_written [OF w]]
  have "sha_written (Finalize_state c) ((xs @ ?pad) @ WriteBE64 (push_bit 3 (sha_bytes c)))"
    by (simp add: Finalize_state_def sha_bufsize [OF w])
  ultimately have "sha_written (Finalize_state c) (xs @ padding xs)"
    using w by (simp add: padding_def sha_written_def [of c])
  then show ?thesis by (simp add: Finalize_def sha256_def sha_written_def)
qed

lemma length_output_regs [simp]: "length (output_regs s) = 32"
  by (simp add: output_regs_def WriteBE32_def split: prod.splits)

lemma length_sha256 [simp]: "length (sha256 xs) = 32"
  by (simp add: sha256_def)

lemma length_double_sha256 [simp]: "length (double_sha256 xs) = 32"
  by (simp add: double_sha256_def)

text \<open>The padded message is a whole number of chunks, so every byte of it is compressed.\<close>

lemma mod_pad: "r < 64 \<Longrightarrow> ((64 * q + r) + (9 + (119 - r) mod 64)) mod 64 = (0::nat)"
proof -
  assume "r < 64"
  then have "(r + 9) + (119 - r) = 128" by simp
  moreover have "((r + 9) + (119 - r) mod 64) mod 64 = ((r + 9) + (119 - r)) mod 64"
    by (rule mod_add_right_eq)
  ultimately have "(r + (9 + (119 - r) mod 64)) mod 64 = 0"
    by (simp only: add.assoc) simp
  then show ?thesis by (simp only: add.assoc mod_mult_self4)
qed

lemma padded_length: "64 dvd length (xs @ padding xs)"
proof -
  have "length (xs @ padding xs)
      = (64 * (length xs div 64) + length xs mod 64) + (9 + (119 - length xs mod 64) mod 64)"
    by (simp add: padding_def WriteBE64_def)
  also have "\<dots> mod 64 = 0" by (rule mod_pad) simp
  finally show ?thesis by (rule mod_0_imp_dvd)
qed

end
