(* ===== verification/Codec_Write.thy ===== *)
theory Codec_Write
  imports Wire_Formats Sha256
begin

text \<open>
  The writing half of \<^verbatim>\<open>codec.cpp\<close>. The source serializes into a \<open>byte_sink_ref\<close>,
  and the same code feeds three sinks: a byte vector, a counter (\<open>counting_sink\<close>, for the size
  functions) and a hasher (\<open>double_sha256_sink\<close>, for the identifiers). Here a serializer takes the
  sink's \<open>write\<close> as its first argument and the sink's state as its last.

  The locale \<open>byte_sink\<close> is what a sink promises: \<open>written s xs\<close> relates a sink state to the
  bytes it has received. In it the serializers are shown to emit exactly the byte layouts
  \<open>transaction_bytes\<close>, \<open>header_bytes\<close> and \<open>block_bytes\<close>, and the three sinks interpret it.
\<close>

subsection \<open>Writing values into a sink\<close>

definition write_bytes :: "('s \<Rightarrow> byte list \<Rightarrow> 's) \<Rightarrow> byte list \<Rightarrow> 's \<Rightarrow> 's" where
  "write_bytes put bytes sink = put sink bytes"

definition write_byte :: "('s \<Rightarrow> byte list \<Rightarrow> 's) \<Rightarrow> byte \<Rightarrow> 's \<Rightarrow> 's" where
  "write_byte put b sink = put sink [b]"

definition write_little :: "('s \<Rightarrow> byte list \<Rightarrow> 's) \<Rightarrow> nat \<Rightarrow> 'a::len word \<Rightarrow> 's \<Rightarrow> 's" where
  "write_little put n v sink = write_bytes put (write_little_endian v n) sink"

definition write_compact_size :: "('s \<Rightarrow> byte list \<Rightarrow> 's) \<Rightarrow> u64 \<Rightarrow> 's \<Rightarrow> 's" where
  "write_compact_size put v sink =
     (if v < 253 then write_byte put (ucast v) sink
      else if v \<le> 0xffff then write_little put 2 (ucast v :: u16) (write_byte put 253 sink)
      else if v \<le> 0xffffffff then write_little put 4 (ucast v :: u32) (write_byte put 254 sink)
      else write_little put 8 v (write_byte put 255 sink))"

definition write_script :: "('s \<Rightarrow> byte list \<Rightarrow> 's) \<Rightarrow> script \<Rightarrow> 's \<Rightarrow> 's" where
  "write_script put bs sink =
     write_bytes put bs (write_compact_size put (of_nat (length bs)) sink)"

definition write_input :: "('s \<Rightarrow> byte list \<Rightarrow> 's) \<Rightarrow> tx_input \<Rightarrow> 's \<Rightarrow> 's" where
  "write_input put i sink =
     write_little put 4 (input_sequence i)
       (write_script put (input_script i)
         (write_little put 4 (op_index (previous_output i))
           (write_bytes put (op_txid (previous_output i)) sink)))"

definition write_output :: "('s \<Rightarrow> byte list \<Rightarrow> 's) \<Rightarrow> tx_output \<Rightarrow> 's \<Rightarrow> 's" where
  "write_output put out sink =
     write_script put (output_script out) (write_little put 8 (output_value out) sink)"

definition write_witness :: "('s \<Rightarrow> byte list \<Rightarrow> 's) \<Rightarrow> tx_input \<Rightarrow> 's \<Rightarrow> 's" where
  "write_witness put i sink =
     fold (write_script put) (input_witness i)
       (write_compact_size put (of_nat (length (input_witness i))) sink)"

definition has_witness :: "transaction \<Rightarrow> bool" where
  "has_witness tx \<longleftrightarrow> list_ex (\<lambda>i. input_witness i \<noteq> []) (tx_inputs tx)"

definition serialize_transaction ::
  "('s \<Rightarrow> byte list \<Rightarrow> 's) \<Rightarrow> bool \<Rightarrow> transaction \<Rightarrow> 's \<Rightarrow> 's" where
  "serialize_transaction put include_witness tx sink0 =
     (let sink1 = write_little put 4 (tx_version tx) sink0;
          writing_witness = include_witness \<and> has_witness tx \<and> tx_inputs tx \<noteq> [];
          sink2 = (if writing_witness then write_byte put 1 (write_byte put 0 sink1) else sink1);
          sink3 = write_compact_size put (of_nat (length (tx_inputs tx))) sink2;
          sink4 = fold (write_input put) (tx_inputs tx) sink3;
          sink5 = write_compact_size put (of_nat (length (tx_outputs tx))) sink4;
          sink6 = fold (write_output put) (tx_outputs tx) sink5;
          sink7 = (if writing_witness then fold (write_witness put) (tx_inputs tx) sink6 else sink6)
      in write_little put 4 (tx_locktime tx) sink7)"

definition serialize_header :: "('s \<Rightarrow> byte list \<Rightarrow> 's) \<Rightarrow> block_header \<Rightarrow> 's \<Rightarrow> 's" where
  "serialize_header put h sink =
     write_little put 4 (hdr_nonce h)
       (write_little put 4 (hdr_bits h)
         (write_little put 4 (hdr_time h)
           (write_bytes put (hdr_merkle_root h)
             (write_bytes put (previous_block_hash h)
               (write_little put 4 (hdr_version h) sink)))))"

definition serialize_block :: "('s \<Rightarrow> byte list \<Rightarrow> 's) \<Rightarrow> block \<Rightarrow> 's \<Rightarrow> 's" where
  "serialize_block put b sink =
     fold (serialize_transaction put True) (blk_transactions b)
       (write_compact_size put (of_nat (length (blk_transactions b)))
         (serialize_header put (blk_header b) sink))"

definition serialize_stripped :: "('s \<Rightarrow> byte list \<Rightarrow> 's) \<Rightarrow> block \<Rightarrow> 's \<Rightarrow> 's" where
  "serialize_stripped put b sink =
     fold (serialize_transaction put False) (blk_transactions b)
       (write_compact_size put (of_nat (length (blk_transactions b)))
         (serialize_header put (blk_header b) sink))"

subsection \<open>The sinks\<close>

definition append_sink_write :: "byte list \<Rightarrow> byte list \<Rightarrow> byte list" where
  "append_sink_write sink bytes = sink @ bytes"

definition counting_sink_write :: "nat \<Rightarrow> byte list \<Rightarrow> nat" where
  "counting_sink_write n bytes = size_wrap (n + length bytes)"

text \<open>
  The hasher's constructor leaves its buffer uninitialised: the content of the two buffers an identifier
  is computed with is an argument. The identifiers below fix some content, and \<open>id_any_buffer\<close> shows that
  it does not matter.
\<close>

definition double_sha256_sink :: "byte list \<Rightarrow> csha256" where
  "double_sha256_sink garbage = CSHA256 garbage"

definition double_sha256_sink_write :: "csha256 \<Rightarrow> byte list \<Rightarrow> csha256" where
  "double_sha256_sink_write writer bytes = sha_Write writer bytes"

definition double_sha256_sink_finish :: "byte list \<Rightarrow> csha256 \<Rightarrow> hash256" where
  "double_sha256_sink_finish garbage writer = Finalize (sha_Write (CSHA256 garbage) (Finalize writer))"

definition hash_writer_double_sha256 :: "byte list \<Rightarrow> hash256" where
  "hash_writer_double_sha256 bytes =
     Finalize (sha_Write (CSHA256 (replicate 64 0)) (Finalize (sha_Write (CSHA256 (replicate 64 0)) bytes)))"

subsection \<open>Sizes and identifiers\<close>

definition serialized_size :: "transaction \<Rightarrow> nat" where
  "serialized_size tx = serialize_transaction counting_sink_write True tx 0"

definition stripped_serialized_size :: "transaction \<Rightarrow> nat" where
  "stripped_serialized_size tx = serialize_transaction counting_sink_write False tx 0"

definition header_serialized_size :: "block_header \<Rightarrow> nat" where
  "header_serialized_size h = 80"

definition block_serialized_size :: "block \<Rightarrow> nat" where
  "block_serialized_size b = serialize_block counting_sink_write b 0"

definition block_stripped_serialized_size :: "block \<Rightarrow> nat" where
  "block_stripped_serialized_size b = serialize_stripped counting_sink_write b 0"

definition weight :: "block \<Rightarrow> nat" where
  "weight b = size_wrap (size_wrap (block_stripped_serialized_size b * 3) + block_serialized_size b)"

definition transaction_id_with :: "byte list \<Rightarrow> byte list \<Rightarrow> transaction \<Rightarrow> txid" where
  "transaction_id_with garbage garbage' tx = double_sha256_sink_finish garbage'
     (serialize_transaction double_sha256_sink_write False tx (double_sha256_sink garbage))"

definition witness_id_with :: "byte list \<Rightarrow> byte list \<Rightarrow> transaction \<Rightarrow> wtxid" where
  "witness_id_with garbage garbage' tx = double_sha256_sink_finish garbage'
     (serialize_transaction double_sha256_sink_write True tx (double_sha256_sink garbage))"

definition header_hash_with :: "byte list \<Rightarrow> byte list \<Rightarrow> block_header \<Rightarrow> block_hash" where
  "header_hash_with garbage garbage' h = double_sha256_sink_finish garbage'
     (serialize_header double_sha256_sink_write h (double_sha256_sink garbage))"

definition transaction_id :: "transaction \<Rightarrow> txid" where
  "transaction_id = transaction_id_with (replicate 64 0) (replicate 64 0)"

definition witness_id :: "transaction \<Rightarrow> wtxid" where
  "witness_id = witness_id_with (replicate 64 0) (replicate 64 0)"

definition header_hash :: "block_header \<Rightarrow> block_hash" where
  "header_hash = header_hash_with (replicate 64 0) (replicate 64 0)"

definition block_hash_of :: "block \<Rightarrow> block_hash" where
  "block_hash_of b = header_hash (blk_header b)"

subsection \<open>The byte layouts\<close>

definition input_bytes :: "tx_input \<Rightarrow> byte list" where
  "input_bytes i = op_txid (previous_output i) @ write_little_endian (op_index (previous_output i)) 4 @
     var_bytes (input_script i) @ write_little_endian (input_sequence i) 4"

definition output_bytes :: "tx_output \<Rightarrow> byte list" where
  "output_bytes out = write_little_endian (output_value out) 8 @ var_bytes (output_script out)"

definition vector_bytes :: "('a \<Rightarrow> byte list) \<Rightarrow> 'a list \<Rightarrow> byte list" where
  "vector_bytes enc xs = compact_size_bytes (of_nat (length xs)) @ concat (map enc xs)"

definition witness_bytes :: "tx_input \<Rightarrow> byte list" where
  "witness_bytes i = vector_bytes var_bytes (input_witness i)"

definition transaction_bytes :: "bool \<Rightarrow> transaction \<Rightarrow> byte list" where
  "transaction_bytes include_witness tx =
     write_little_endian (tx_version tx) 4 @
     (if include_witness \<and> has_witness tx then [0, 1] else []) @
     vector_bytes input_bytes (tx_inputs tx) @
     vector_bytes output_bytes (tx_outputs tx) @
     (if include_witness \<and> has_witness tx then concat (map witness_bytes (tx_inputs tx)) else []) @
     write_little_endian (tx_locktime tx) 4"

definition header_bytes :: "block_header \<Rightarrow> byte list" where
  "header_bytes h = write_little_endian (hdr_version h) 4 @ previous_block_hash h @ hdr_merkle_root h @
     write_little_endian (hdr_time h) 4 @ write_little_endian (hdr_bits h) 4 @
     write_little_endian (hdr_nonce h) 4"

definition block_bytes :: "bool \<Rightarrow> block \<Rightarrow> byte list" where
  "block_bytes include_witness b =
     header_bytes (blk_header b) @ vector_bytes (transaction_bytes include_witness) (blk_transactions b)"

lemma has_witness_inputs: "has_witness tx \<Longrightarrow> tx_inputs tx \<noteq> []"
  by (auto simp: has_witness_def)

subsection \<open>What a sink promises\<close>

locale byte_sink =
  fixes put :: "'s \<Rightarrow> byte list \<Rightarrow> 's"
    and written :: "'s \<Rightarrow> byte list \<Rightarrow> bool"
  assumes written_write: "written s xs \<Longrightarrow> written (put s ys) (xs @ ys)"
begin

lemma written_fold:
  assumes "\<And>x s ys. written s ys \<Longrightarrow> written (f x s) (ys @ enc x)" and "written s ys"
  shows "written (fold f xs s) (ys @ concat (map enc xs))"
  using assms(2)
proof (induction xs arbitrary: s ys)
  case (Cons x xs)
  from Cons.IH [OF assms(1) [OF Cons.prems]] show ?case by simp
qed simp

lemma written_bytes: "written s xs \<Longrightarrow> written (write_bytes put bs s) (xs @ bs)"
  by (simp add: write_bytes_def written_write)

lemma written_byte: "written s xs \<Longrightarrow> written (write_byte put b s) (xs @ [b])"
  by (simp add: write_byte_def written_write)

lemma written_little: "written s xs \<Longrightarrow> written (write_little put n v s) (xs @ write_little_endian v n)"
  by (simp add: write_little_def written_bytes)

lemma written_tagged:
  "written s xs \<Longrightarrow>
     written (write_little put n v (write_byte put b s)) (xs @ b # write_little_endian v n)"
  using written_little [OF written_byte, of s xs] by simp

lemma written_compact_size:
  "written s xs \<Longrightarrow> written (write_compact_size put v s) (xs @ compact_size_bytes v)"
  by (simp add: write_compact_size_def compact_size_bytes_def written_byte written_tagged)

lemma written_script: "written s xs \<Longrightarrow> written (write_script put bs s) (xs @ var_bytes bs)"
  using written_bytes [OF written_compact_size] by (simp add: write_script_def var_bytes_def)

lemma written_vector:
  assumes "\<And>x s ys. written s ys \<Longrightarrow> written (f x s) (ys @ enc x)" and "written s ys"
  shows "written (fold f xs (write_compact_size put (of_nat (length xs)) s)) (ys @ vector_bytes enc xs)"
  using written_fold [where f = f and enc = enc, OF assms(1) written_compact_size [OF assms(2)]]
  by (simp add: vector_bytes_def)

lemma written_input: "written s xs \<Longrightarrow> written (write_input put i s) (xs @ input_bytes i)"
  using written_little [OF written_script [OF written_little [OF written_bytes]]]
  by (simp add: write_input_def input_bytes_def)

lemma written_output: "written s xs \<Longrightarrow> written (write_output put i s) (xs @ output_bytes i)"
  using written_script [OF written_little] by (simp add: write_output_def output_bytes_def)

lemma written_witness: "written s xs \<Longrightarrow> written (write_witness put i s) (xs @ witness_bytes i)"
  using written_vector [OF written_script] by (simp add: write_witness_def witness_bytes_def)

lemma written_inputs:
  "written s ys \<Longrightarrow> written (fold (write_input put) xs (write_compact_size put (of_nat (length xs)) s))
     (ys @ vector_bytes input_bytes xs)"
  by (rule written_vector [OF written_input])

lemma written_outputs:
  "written s ys \<Longrightarrow> written (fold (write_output put) xs (write_compact_size put (of_nat (length xs)) s))
     (ys @ vector_bytes output_bytes xs)"
  by (rule written_vector [OF written_output])

lemma written_witnesses:
  "written s ys \<Longrightarrow> written (fold (write_witness put) xs s) (ys @ concat (map witness_bytes xs))"
  by (rule written_fold [OF written_witness])

lemma written_transaction:
  assumes "written s xs"
  shows "written (serialize_transaction put w tx s) (xs @ transaction_bytes w tx)"
proof (cases "w \<and> has_witness tx")
  case True
  with written_little [OF written_witnesses [OF written_outputs [OF written_inputs [OF
      written_byte [OF written_byte [OF written_little [OF assms]]]]]]]
  show ?thesis
    by (simp add: serialize_transaction_def transaction_bytes_def Let_def has_witness_inputs)
next
  case False
  then have stripped: "(w \<and> has_witness tx \<and> tx_inputs tx \<noteq> []) = False" "(w \<and> has_witness tx) = False"
    by blast+
  from written_little [OF written_outputs [OF written_inputs [OF written_little [OF assms]]]]
  show ?thesis
    unfolding serialize_transaction_def transaction_bytes_def Let_def stripped by simp
qed

lemma written_header: "written s xs \<Longrightarrow> written (serialize_header put h s) (xs @ header_bytes h)"
  using written_little [OF written_little [OF written_little [OF written_bytes [OF
      written_bytes [OF written_little]]]]]
  by (simp add: serialize_header_def header_bytes_def)

lemma written_block: "written s xs \<Longrightarrow> written (serialize_block put b s) (xs @ block_bytes True b)"
  using written_vector [OF written_transaction written_header]
  by (simp add: serialize_block_def block_bytes_def)

lemma written_stripped: "written s xs \<Longrightarrow> written (serialize_stripped put b s) (xs @ block_bytes False b)"
  using written_vector [OF written_transaction written_header]
  by (simp add: serialize_stripped_def block_bytes_def)

end

interpretation vector_sink: byte_sink append_sink_write "\<lambda>s xs. s = xs"
  by unfold_locales (simp add: append_sink_write_def)

interpretation counter: byte_sink counting_sink_write "\<lambda>n xs. n = size_wrap (length xs)"
  by unfold_locales (simp add: counting_sink_write_def)

interpretation hasher: byte_sink double_sha256_sink_write sha_written
  by unfold_locales (simp add: double_sha256_sink_write_def sha_Write_written)

subsection \<open>What the sizes and identifiers are\<close>

lemma serialize_transaction_vector:
  "serialize_transaction append_sink_write w tx s = s @ transaction_bytes w tx"
  using vector_sink.written_transaction [OF refl] .

lemma serialize_header_vector: "serialize_header append_sink_write h s = s @ header_bytes h"
  using vector_sink.written_header [OF refl] .

lemma serialize_block_vector: "serialize_block append_sink_write b s = s @ block_bytes True b"
  using vector_sink.written_block [OF refl] .

lemma counter_start: "0 = size_wrap (length ([] :: byte list))"
  by simp

lemma serialized_size_bytes: "serialized_size tx = size_wrap (length (transaction_bytes True tx))"
  using counter.written_transaction [OF counter_start] by (simp add: serialized_size_def)

lemma stripped_serialized_size_bytes:
  "stripped_serialized_size tx = size_wrap (length (transaction_bytes False tx))"
  using counter.written_transaction [OF counter_start] by (simp add: stripped_serialized_size_def)

lemma block_serialized_size_bytes:
  "block_serialized_size b = size_wrap (length (block_bytes True b))"
  using counter.written_block [OF counter_start] by (simp add: block_serialized_size_def)

lemma block_stripped_serialized_size_bytes:
  "block_stripped_serialized_size b = size_wrap (length (block_bytes False b))"
  using counter.written_stripped [OF counter_start] by (simp add: block_stripped_serialized_size_def)

lemma header_serialized_size_bytes: "header_ok h \<Longrightarrow> header_serialized_size h = length (header_bytes h)"
  by (simp add: header_serialized_size_def header_bytes_def header_ok_def hash_ok_def)

lemma weight_bytes:
  "weight b = size_wrap (3 * length (block_bytes False b) + length (block_bytes True b))"
  by (simp add: weight_def block_serialized_size_bytes block_stripped_serialized_size_bytes
      size_wrap_def mod_simps mult.commute)

lemma sha_written_sink: "length garbage = 64 \<Longrightarrow> sha_written (double_sha256_sink garbage) []"
  by (simp add: double_sha256_sink_def sha_written_new)

lemma hash_sink_any_buffer:
  assumes "length garbage = 64"
  shows "Finalize (sha_Write (CSHA256 garbage) xs) = sha256 xs"
  using sha256_stream [OF sha_Write_written [OF sha_written_new [OF assms]]] by simp

lemma double_sha256_sink_finish_written:
  "sha_written writer xs \<Longrightarrow> length garbage = 64 \<Longrightarrow> double_sha256_sink_finish garbage writer = double_sha256 xs"
  by (simp add: double_sha256_sink_finish_def hash_sink_any_buffer sha256_stream double_sha256_def)

lemma hash_writer_double_sha256_eq: "hash_writer_double_sha256 xs = double_sha256 xs"
  by (simp add: hash_writer_double_sha256_def hash_sink_any_buffer double_sha256_def)

theorem id_any_buffer:
  assumes "length garbage = 64" and "length garbage' = 64"
  shows "transaction_id_with garbage garbage' tx = double_sha256 (transaction_bytes False tx)"
    and "witness_id_with garbage garbage' tx = double_sha256 (transaction_bytes True tx)"
    and "header_hash_with garbage garbage' h = double_sha256 (header_bytes h)"
  using double_sha256_sink_finish_written [OF hasher.written_transaction [OF sha_written_sink [OF assms(1)]] assms(2)]
    double_sha256_sink_finish_written [OF hasher.written_header [OF sha_written_sink [OF assms(1)]] assms(2)]
  by (simp_all add: transaction_id_with_def witness_id_with_def header_hash_with_def)

lemma transaction_id_bytes: "transaction_id tx = double_sha256 (transaction_bytes False tx)"
  by (simp add: transaction_id_def id_any_buffer)

lemma witness_id_bytes: "witness_id tx = double_sha256 (transaction_bytes True tx)"
  by (simp add: witness_id_def id_any_buffer)

lemma header_hash_bytes: "header_hash h = double_sha256 (header_bytes h)"
  by (simp add: header_hash_def id_any_buffer)

lemma hash_ok_ids [simp]: "hash_ok (transaction_id tx)" "hash_ok (witness_id tx)" "hash_ok (header_hash h)"
  by (simp_all add: hash_ok_def transaction_id_bytes witness_id_bytes header_hash_bytes)

end
