(* ===== verification/Codec_Read.thy ===== *)
theory Codec_Read
  imports Codec_Write
begin

text \<open>
  The reading half of \<^verbatim>\<open>codec.cpp\<close>: \<open>read_transaction\<close>, \<open>read_block_header\<close>,
  \<open>read_block\<close> and the exact parsers built on them. Every early return of the source is a branch;
  a branch taken after a failure returns the default-constructed value.

  Each reader is shown to meet the \<open>wire_format\<close> contract with the layouts of
  \<open>Codec_Write\<close>. The transaction reader looks one byte ahead to tell a witness marker from an
  empty input vector, so it is a wire format only for transactions that do not combine an empty
  input vector with outputs (\<open>tx_wire_ok\<close>).
\<close>

subsection \<open>Readers\<close>

definition read_input_parts :: "byte_reader \<Rightarrow> tx_input \<times> byte_reader" where
  "read_input_parts r =
     (case read_hash_bytes r of (h, r1) \<Rightarrow>
      case read_little 4 r1 of (index, r2) \<Rightarrow>
      case read_script r2 of (script_sig, r3) \<Rightarrow>
      case read_little 4 r3 of (sequence, r4) \<Rightarrow>
        (\<lparr>previous_output = Outpoint h index, input_script = script_sig,
          input_sequence = sequence, input_witness = []\<rparr>, r4))"

definition read_output :: "byte_reader \<Rightarrow> tx_output \<times> byte_reader" where
  "read_output r =
     (case read_little 8 r of (v, r1) \<Rightarrow>
      case read_script r1 of (locking_script, r2) \<Rightarrow>
        (\<lparr>output_value = v, output_script = locking_script\<rparr>, r2))"

text \<open>
  The item loop of \<open>read_witness\<close>: it breaks when a size cannot be read, and otherwise appends
  what the read of the item's bytes returns.
\<close>

fun read_witness_items :: "nat \<Rightarrow> byte_reader \<Rightarrow> witness_item list \<times> byte_reader" where
  "read_witness_items 0 r = ([], r)"
| "read_witness_items (Suc n) r =
     (if \<not> m_ok r then ([], r)
      else (case read_compact_size r of (len, r1) \<Rightarrow>
        if \<not> m_ok r1 then ([], r1)
        else if \<not> fits_size len then ([], fail compact_size_overflow r1)
        else (case read_bytes (unat len) r1 of (item, r2) \<Rightarrow>
          case read_witness_items n r2 of (items, r3) \<Rightarrow> (item # items, r3))))"

definition read_witness :: "byte_reader \<Rightarrow> witness_item list \<times> byte_reader" where
  "read_witness r =
     (case read_compact_size r of (count, r1) \<Rightarrow>
        if \<not> m_ok r1 then ([], r1)
        else (case require_count_fits_remaining count 1 r1 of (fits, r2) \<Rightarrow>
          if \<not> fits then ([], r2) else read_witness_items (unat count) r2))"

text \<open>The witness loop over the inputs; it stops at the first failure.\<close>

fun read_witnesses :: "tx_input list \<Rightarrow> bool \<Rightarrow> byte_reader \<Rightarrow> (tx_input list \<times> bool) \<times> byte_reader" where
  "read_witnesses [] has_witness_data r = (([], has_witness_data), r)"
| "read_witnesses (i # parts) has_witness_data r =
     (case read_witness r of (w, r1) \<Rightarrow>
        if \<not> m_ok r1
        then ((i\<lparr>input_witness := w\<rparr> # parts, has_witness_data \<or> w \<noteq> []), r1)
        else (case read_witnesses parts (has_witness_data \<or> w \<noteq> []) r1 of ((inputs, has), r2) \<Rightarrow>
          ((i\<lparr>input_witness := w\<rparr> # inputs, has), r2)))"

definition read_locktime ::
  "i32 \<Rightarrow> tx_input list \<Rightarrow> tx_output list \<Rightarrow> byte_reader \<Rightarrow> transaction \<times> byte_reader" where
  "read_locktime version inputs outputs r =
     (case read_little 4 r of (locktime, r1) \<Rightarrow>
        if \<not> m_ok r1 then (empty_transaction, r1)
        else (\<lparr>tx_version = version, tx_inputs = inputs, tx_outputs = outputs,
               tx_locktime = locktime\<rparr>, r1))"

definition read_witness_section ::
  "bool \<Rightarrow> tx_input list \<Rightarrow> byte_reader \<Rightarrow> tx_input list \<times> byte_reader" where
  "read_witness_section with_witness parts r =
     (if with_witness then
        (case read_witnesses parts False r of ((inputs, has_witness_data), r1) \<Rightarrow>
           (inputs, if \<not> has_witness_data \<and> m_ok r1 then fail invalid_witness_marker r1 else r1))
      else (parts, r))"

text \<open>Outputs, witnesses and locktime, after the inputs have been read.\<close>

definition read_after_inputs ::
  "i32 \<Rightarrow> bool \<Rightarrow> tx_input list \<Rightarrow> byte_reader \<Rightarrow> transaction \<times> byte_reader" where
  "read_after_inputs version with_witness parts r =
     (case read_compact_size r of (output_count, r1) \<Rightarrow>
        if \<not> m_ok r1 then (empty_transaction, r1)
        else (case require_count_fits_remaining output_count 9 r1 of (fits, r2) \<Rightarrow>
          if \<not> fits then (empty_transaction, r2)
          else (case read_items read_output (unat output_count) r2 of (outputs, r3) \<Rightarrow>
            case read_witness_section with_witness parts r3 of (inputs, r4) \<Rightarrow>
              read_locktime version inputs outputs r4)))"

definition read_transaction_body ::
  "i32 \<Rightarrow> bool \<Rightarrow> u64 \<Rightarrow> byte_reader \<Rightarrow> transaction \<times> byte_reader" where
  "read_transaction_body version with_witness input_count r =
     (if \<not> m_ok r then (empty_transaction, r)
      else (case require_count_fits_remaining input_count 41 r of (fits, r1) \<Rightarrow>
        if \<not> fits then (empty_transaction, r1)
        else (case read_items read_input_parts (unat input_count) r1 of (parts, r2) \<Rightarrow>
          read_after_inputs version with_witness parts r2)))"

definition read_transaction :: "byte_reader \<Rightarrow> transaction \<times> byte_reader" where
  "read_transaction r =
     (case read_little 4 r of (version, r1) \<Rightarrow>
      case read_compact_size r1 of (first_input_count, r2) \<Rightarrow>
        if \<not> m_ok r2 then (empty_transaction, r2)
        else if first_input_count = 0 \<and> \<not> reader_empty r2 \<and> peek r2 \<noteq> 0 then
          (case read_bytes 1 r2 of (flag_bytes, r3) \<Rightarrow>
             if hd flag_bytes AND 1 = 0 \<or> hd flag_bytes AND NOT 1 \<noteq> 0
             then (empty_transaction, fail invalid_witness_marker r3)
             else (case read_compact_size r3 of (input_count, r4) \<Rightarrow>
               read_transaction_body version True input_count
                 (if input_count = 0 \<and> m_ok r4 then fail invalid_witness_marker r4 else r4)))
        else read_transaction_body version False first_input_count r2)"

definition read_block_header :: "byte_reader \<Rightarrow> block_header \<times> byte_reader" where
  "read_block_header r =
     (case read_little 4 r of (version, r1) \<Rightarrow>
      case read_hash_bytes r1 of (previous, r2) \<Rightarrow>
      case read_hash_bytes r2 of (merkle, r3) \<Rightarrow>
      case read_little 4 r3 of (timestamp, r4) \<Rightarrow>
      case read_little 4 r4 of (bits, r5) \<Rightarrow>
      case read_little 4 r5 of (nonce, r6) \<Rightarrow>
        (\<lparr>hdr_version = version, previous_block_hash = previous, hdr_merkle_root = merkle,
          hdr_time = timestamp, hdr_bits = bits, hdr_nonce = nonce\<rparr>, r6))"

definition read_block :: "byte_reader \<Rightarrow> block \<times> byte_reader" where
  "read_block r =
     (case read_block_header r of (header, r1) \<Rightarrow>
      case read_compact_size r1 of (transaction_count, r2) \<Rightarrow>
        if \<not> m_ok r2 then (default_block, r2)
        else (case require_count_fits_remaining transaction_count 10 r2 of (fits, r3) \<Rightarrow>
          if \<not> fits then (default_block, r3)
          else (case read_items read_transaction (unat transaction_count) r3 of (txs, r4) \<Rightarrow>
            (\<lparr>blk_header = header, blk_transactions = txs\<rparr>, r4))))"

subsection \<open>Exact parsers\<close>

definition parse_exact :: "byte list \<Rightarrow> (byte_reader \<Rightarrow> 'a \<times> byte_reader) \<Rightarrow> 'a parse_result" where
  "parse_exact raw read =
     (case read (make_reader raw) of (v, r) \<Rightarrow>
        if \<not> m_ok r then malformed (m_failure r)
        else if \<not> reader_empty r then malformed (Malformed_parse trailing_data (m_offset r))
        else parsed v)"

definition parse_transaction :: "byte list \<Rightarrow> transaction parse_result" where
  "parse_transaction raw = parse_exact raw read_transaction"

definition parse_block_header :: "byte list \<Rightarrow> block_header parse_result" where
  "parse_block_header raw = parse_exact raw read_block_header"

definition parse_block :: "byte list \<Rightarrow> block parse_result" where
  "parse_block raw = parse_exact raw read_block"

subsection \<open>Transactions with an unambiguous encoding\<close>

definition tx_wire_ok :: "transaction \<Rightarrow> bool" where
  "tx_wire_ok tx \<longleftrightarrow> tx_ok tx \<and> (tx_inputs tx = [] \<longrightarrow> tx_outputs tx = [])"

definition block_wire_ok :: "block \<Rightarrow> bool" where
  "block_wire_ok b \<longleftrightarrow> header_ok (blk_header b) \<and> length (blk_transactions b) < size_limit \<and>
     list_all tx_wire_ok (blk_transactions b)"

subsection \<open>Counted vectors and equivalent readers\<close>

lemma wire_format_cong:
  assumes "wire_format dec enc good" and "\<And>r. snd (dec' r) = snd (dec r)"
    and "\<And>r. m_ok (snd (dec r)) \<Longrightarrow> fst (dec' r) = fst (dec r)"
  shows "wire_format dec' enc good"
proof
  fix r x rest
  assume "m_ok r" "reader_wf r" "unread r = enc x @ rest" "good x"
  from this wire_format.complete [OF assms(1) this]
  show "dec' r = (x, advance (length (enc x)) r)"
    using assms(2,3) [of r] by (simp add: prod_eq_iff)
next
  fix r x r'
  assume a: "dec' r = (x, r')" "m_ok r'" "reader_wf r"
  then have "dec r = (x, r')" using assms(2,3) [of r] by (simp add: prod_eq_iff)
  from wire_format.sound [OF assms(1) this a(2,3)]
  show "good x \<and> (\<exists>rest. unread r = enc x @ rest) \<and> r' = advance (length (enc x)) r" .
qed (use assms(2) wire_format.sticky [OF assms(1)] wire_format.keeps [OF assms(1)] in simp_all)

lemma wire_format_relayout:
  assumes "wire_format dec enc good" and "\<And>x. good' x = good x" and "\<And>x. good x \<Longrightarrow> enc' x = enc x"
  shows "wire_format dec enc' good'"
proof -
  have "wire_format (\<lambda>r. case dec r of (x, r1) \<Rightarrow> (x, r1)) enc' good'"
    by (rule wire_format_map [OF assms(1), where g = "\<lambda>x. x"]) (simp_all add: assms(2,3))
  then show ?thesis by simp
qed

lemma wire_format_vector:
  assumes items: "\<And>n. wire_format (items n) (\<lambda>xs. concat (map enc xs))
      (\<lambda>xs. length xs = n \<and> (\<forall>x\<in>set xs. good x))"
    and minimum: "\<And>x. good x \<Longrightarrow> m \<le> length (enc x)"
  shows "wire_format (\<lambda>r. case read_compact_size r of (c, r1) \<Rightarrow>
      if \<not> m_ok r1 then (d, r1)
      else (case require_count_fits_remaining c m r1 of (fits, r2) \<Rightarrow>
        if \<not> fits then (d, r2) else items (unat c) r2))
    (vector_bytes enc) (\<lambda>xs. length xs < size_limit \<and> (\<forall>x\<in>set xs. good x))"
proof -
  have tail: "wire_format (\<lambda>r1. if \<not> m_ok r1 then (d, r1)
      else (case require_count_fits_remaining c m r1 of (fits, r2) \<Rightarrow>
        if \<not> fits then (d, r2) else items (unat c) r2)) (\<lambda>xs. concat (map enc xs))
      (\<lambda>xs. (length xs < size_limit \<and> (\<forall>x\<in>set xs. good x)) \<and> of_nat (length xs) = c)" for c
  proof -
    have good: "((length xs < size_limit \<and> (\<forall>x\<in>set xs. good x)) \<and> of_nat (length xs) = c)
        \<longleftrightarrow> (length xs = unat c \<and> (\<forall>x\<in>set xs. good x))" for xs
      using count64_iff [of "length xs" c] by blast
    have "m * unat c \<le> length (concat (map enc xs))"
      if "length xs = unat c \<and> (\<forall>x\<in>set xs. good x)" for xs
      using length_concat_map_ge [of xs m enc] that minimum by simp
    then show ?thesis
      unfolding good by (intro wire_format_guard wire_format_require items)
  qed
  from wire_format_bind [OF compact_size.wire_format_axioms tail] show ?thesis
    by (simp add: vector_bytes_def [abs_def])
qed

subsection \<open>Inputs and outputs\<close>

lemma length_input_bytes_ge: "input_ok i \<Longrightarrow> 41 \<le> length (input_bytes i)"
  using length_var_bytes_ge [of "input_script i"]
  by (simp add: input_bytes_def input_ok_def hash_ok_def)

lemma length_output_bytes_ge: "9 \<le> length (output_bytes out)"
  using length_var_bytes_ge [of "output_script out"] by (simp add: output_bytes_def)

interpretation input_parts: wire_format read_input_parts input_bytes
  "\<lambda>i. input_ok i \<and> input_witness i = []"
proof -
  note parts = wire_format_pair [OF hash_bytes.wire_format_axioms wire_format_pair [OF
      little32.wire_format_axioms wire_format_pair [OF script_bytes.wire_format_axioms
      little32.wire_format_axioms]]]
  let ?f = "\<lambda>(h, index, s, q). \<lparr>previous_output = Outpoint h index, input_script = s,
      input_sequence = q, input_witness = []\<rparr>"
  have eq: "read_input_parts = (\<lambda>r. case (case read_hash_bytes r of (h, r1) \<Rightarrow>
      case (case read_little 4 r1 of (index, r2) \<Rightarrow> case (case read_script r2 of (s, r3) \<Rightarrow>
        case read_little 4 r3 of (q, r4) \<Rightarrow> ((s, q), r4)) of (y, r2) \<Rightarrow> ((index, y), r2)) of
        (y, r2) \<Rightarrow> ((h, y), r2)) of (x, r1) \<Rightarrow> (?f x, r1))"
    by (rule ext) (simp add: read_input_parts_def split: prod.splits)
  show "wire_format read_input_parts input_bytes (\<lambda>i. input_ok i \<and> input_witness i = [])"
    unfolding eq
    by (rule wire_format_map [OF parts, where
        g = "\<lambda>i. (op_txid (previous_output i), op_index (previous_output i), input_script i, input_sequence i)"])
      (auto simp: input_ok_def input_bytes_def)
qed

interpretation output_parts: wire_format read_output output_bytes output_ok
proof -
  let ?f = "\<lambda>(v, s). \<lparr>output_value = v, output_script = s\<rparr>"
  have eq: "read_output = (\<lambda>r. case (case read_little 8 r of (v, r1) \<Rightarrow>
      case read_script r1 of (s, r2) \<Rightarrow> ((v, s), r2)) of (x, r1) \<Rightarrow> (?f x, r1))"
    by (rule ext) (simp add: read_output_def split: prod.splits)
  show "wire_format read_output output_bytes output_ok"
    unfolding eq
    by (rule wire_format_map [OF wire_format_pair [OF little64.wire_format_axioms
        script_bytes.wire_format_axioms], where g = "\<lambda>out. (output_value out, output_script out)"])
      (auto simp: output_ok_def output_bytes_def)
qed

subsection \<open>Witnesses\<close>

lemma read_bytes_failed [simp]: "\<not> m_ok r \<Longrightarrow> read_bytes n r = ([], r)"
  by (simp add: read_bytes_def)

lemma read_compact_size_failed [simp]: "\<not> m_ok r \<Longrightarrow> read_compact_size r = (0, r)"
  by (simp add: read_compact_size_def)

lemma read_items_failed [simp]: "\<not> m_ok r \<Longrightarrow> read_items dec n r = ([], r)"
  by (cases n) simp_all

lemma read_witness_failed [simp]: "\<not> m_ok r \<Longrightarrow> read_witness r = ([], r)"
  by (simp add: read_witness_def)

lemma read_witnesses_failed: "read_witnesses parts has r = (p, r') \<Longrightarrow> \<not> m_ok r \<Longrightarrow> r' = r"
  by (cases parts) auto

lemma read_locktime_failed [simp]: "\<not> m_ok r \<Longrightarrow> read_locktime v ins outs r = (empty_transaction, r)"
  by (simp add: read_locktime_def read_little_def)

lemma read_witness_section_failed [simp]: "\<not> m_ok r \<Longrightarrow> snd (read_witness_section w parts r) = r"
  by (auto simp: read_witness_section_def split: prod.splits dest: read_witnesses_failed)

lemma read_witness_items_script:
  "snd (read_witness_items n r) = snd (read_items read_script n r) \<and>
   (m_ok (snd (read_items read_script n r)) \<longrightarrow>
      fst (read_witness_items n r) = fst (read_items read_script n r))"
proof (induction n arbitrary: r)
  case (Suc n)
  obtain len r1 where c: "read_compact_size r = (len, r1)" by (cases "read_compact_size r")
  obtain item r2 where b: "read_bytes (unat len) r1 = (item, r2)" by (cases "read_bytes (unat len) r1")
  show ?case using Suc [of r2] c b by (simp add: read_script_def case_prod_beta)
qed simp

lemma read_witness_items_format:
  "wire_format (read_witness_items n) (\<lambda>xs. concat (map var_bytes xs))
     (\<lambda>xs. length xs = n \<and> (\<forall>x\<in>set xs. bytes_ok x))"
  by (rule wire_format_cong [OF wire_format_items_n [OF script_bytes.wire_format_axioms]])
    (use read_witness_items_script in blast)+

definition witness_ok :: "witness_item list \<Rightarrow> bool" where
  "witness_ok ws \<longleftrightarrow> length ws < size_limit \<and> (\<forall>w\<in>set ws. bytes_ok w)"

interpretation witness_items: wire_format read_witness "vector_bytes var_bytes" witness_ok
proof -
  show "wire_format read_witness (vector_bytes var_bytes) witness_ok"
    unfolding witness_ok_def read_witness_def
    by (rule wire_format_vector [OF read_witness_items_format length_var_bytes_ge])
qed

definition strip_input :: "tx_input \<Rightarrow> tx_input" where
  "strip_input i = i\<lparr>input_witness := []\<rparr>"

lemma strip_input_eq_iff:
  "strip_input i = strip_input j \<longleftrightarrow> i = j\<lparr>input_witness := input_witness i\<rparr>"
  by (cases i; cases j) (auto simp: strip_input_def)

lemma strip_input_simps [simp]:
  "input_witness (strip_input i) = []" "input_bytes (strip_input i) = input_bytes i"
  "strip_input (i\<lparr>input_witness := w\<rparr>) = strip_input i" "strip_input (strip_input i) = strip_input i"
  by (simp_all add: strip_input_def input_bytes_def)

lemma strip_input_id: "input_witness i = [] \<Longrightarrow> strip_input i = i"
  by (simp add: strip_input_def)

lemma read_witnesses_format:
  "wire_format (read_witnesses parts has) (\<lambda>(ins, has'). concat (map witness_bytes ins))
     (\<lambda>(ins, has'). map strip_input ins = map strip_input parts \<and>
        (\<forall>i\<in>set ins. witness_ok (input_witness i)) \<and>
        has' = (has \<or> list_ex (\<lambda>i. input_witness i \<noteq> []) ins))"
proof (induction parts arbitrary: has)
  case Nil
  show ?case by unfold_locales auto
next
  case (Cons i parts)
  let ?tail = "\<lambda>w r. case read_witnesses parts (has \<or> w \<noteq> []) r of
      (p, r2) \<Rightarrow> ((i\<lparr>input_witness := w\<rparr> # fst p, snd p), r2)"
  let ?good = "\<lambda>p. map strip_input (fst p) = map strip_input (i # parts) \<and>
      (\<forall>j\<in>set (tl (fst p)). witness_ok (input_witness j)) \<and>
      snd p = (has \<or> list_ex (\<lambda>j. input_witness j \<noteq> []) (fst p))"
  let ?key = "\<lambda>p :: tx_input list \<times> bool. input_witness (hd (fst p))"
  have tail: "wire_format (?tail w) (\<lambda>p. concat (map witness_bytes (tl (fst p))))
      (\<lambda>p. ?good p \<and> ?key p = w)" for w
    by (rule wire_format_map [OF Cons, where g = "\<lambda>p. (tl (fst p), snd p)"])
      (auto simp: strip_input_eq_iff map_eq_Cons_conv)
  note joined = wire_format_bind [OF witness_items.wire_format_axioms tail]
  have "wire_format (read_witnesses (i # parts) has)
      (\<lambda>p. vector_bytes var_bytes (?key p) @ concat (map witness_bytes (tl (fst p))))
      (\<lambda>p. witness_ok (?key p) \<and> ?good p)"
    by (rule wire_format_cong [OF joined]) (auto split: prod.splits dest: read_witnesses_failed)
  then show ?case
    by (rule wire_format_relayout) (auto simp: witness_bytes_def [abs_def] map_eq_Cons_conv)
qed

lemma read_witness_section_format:
  "wire_format (read_witness_section ww parts)
     (\<lambda>ins. if ww then concat (map witness_bytes ins) else [])
     (\<lambda>ins. if ww then map strip_input ins = map strip_input parts \<and>
         (\<forall>i\<in>set ins. witness_ok (input_witness i)) \<and> list_ex (\<lambda>i. input_witness i \<noteq> []) ins
       else ins = parts)"
proof (cases ww)
  case True
  have "wire_format (\<lambda>r. case read_witnesses parts False r of (p, r1) \<Rightarrow>
      if \<not> m_ok r1 then ([], r1) else if \<not> snd p then ([], fail invalid_witness_marker r1)
      else (fst p, r1)) (\<lambda>ins. concat (map witness_bytes ins))
     (\<lambda>ins. map strip_input ins = map strip_input parts \<and>
         (\<forall>i\<in>set ins. witness_ok (input_witness i)) \<and> list_ex (\<lambda>i. input_witness i \<noteq> []) ins)"
    by (rule wire_format_check [OF read_witnesses_format, where g = "\<lambda>ins. (ins, True)"]) auto
  then have "wire_format (read_witness_section ww parts) (\<lambda>ins. concat (map witness_bytes ins))
     (\<lambda>ins. map strip_input ins = map strip_input parts \<and>
         (\<forall>i\<in>set ins. witness_ok (input_witness i)) \<and> list_ex (\<lambda>i. input_witness i \<noteq> []) ins)"
    by (rule wire_format_cong) (auto simp: read_witness_section_def True split: prod.splits)
  then show ?thesis using True by simp
next
  case False
  have eq: "read_witness_section False parts = (\<lambda>r. (parts, r))"
    by (rule ext) (simp add: read_witness_section_def)
  show ?thesis using False by (simp add: eq) (unfold_locales; auto)
qed

subsection \<open>Transactions\<close>

lemma read_locktime_format:
  "wire_format (read_locktime v ins outs) (\<lambda>tx. write_little_endian (tx_locktime tx) 4)
     (\<lambda>tx. (tx_version tx = v \<and> tx_outputs tx = outs) \<and> tx_inputs tx = ins)"
proof -
  have eq: "read_locktime v ins outs = (\<lambda>r. case read_little 4 r of (x, r1) \<Rightarrow>
      if \<not> m_ok r1 then (empty_transaction, r1)
      else if False then (empty_transaction, fail truncated r1)
      else (\<lparr>tx_version = v, tx_inputs = ins, tx_outputs = outs, tx_locktime = x\<rparr>, r1))"
    by (rule ext) (simp add: read_locktime_def split: prod.splits)
  show ?thesis
    unfolding eq by (rule wire_format_check [OF little32.wire_format_axioms, where g = tx_locktime]) auto
qed

definition inputs_match :: "bool \<Rightarrow> tx_input list \<Rightarrow> tx_input list \<Rightarrow> bool" where
  "inputs_match ww parts ins \<longleftrightarrow>
     (if ww then map strip_input ins = map strip_input parts \<and>
        (\<forall>i\<in>set ins. witness_ok (input_witness i)) \<and> list_ex (\<lambda>i. input_witness i \<noteq> []) ins
      else ins = parts)"

definition after_inputs_bytes :: "bool \<Rightarrow> transaction \<Rightarrow> byte list" where
  "after_inputs_bytes ww tx = vector_bytes output_bytes (tx_outputs tx) @
     (if ww then concat (map witness_bytes (tx_inputs tx)) else []) @
     write_little_endian (tx_locktime tx) 4"

lemma read_after_inputs_format:
  "wire_format (read_after_inputs v ww parts) (after_inputs_bytes ww)
     (\<lambda>tx. tx_version tx = v \<and> length (tx_outputs tx) < size_limit \<and>
        (\<forall>out\<in>set (tx_outputs tx). output_ok out) \<and> inputs_match ww parts (tx_inputs tx))"
proof -
  note outputs = wire_format_vector [OF wire_format_items_n [OF output_parts.wire_format_axioms]
      length_output_bytes_ge, where d = "[]"]
  have tail: "wire_format (\<lambda>r. case read_witness_section ww parts r of (ins, r1) \<Rightarrow> read_locktime v ins outs r1)
      (\<lambda>tx. (if ww then concat (map witness_bytes (tx_inputs tx)) else []) @
         write_little_endian (tx_locktime tx) 4)
      (\<lambda>tx. (tx_version tx = v \<and> inputs_match ww parts (tx_inputs tx)) \<and> tx_outputs tx = outs)" for outs
    by (rule wire_format_relayout [OF wire_format_bind [OF read_witness_section_format
        read_locktime_format]]) (auto simp: inputs_match_def)
  note joined = wire_format_bind [OF outputs tail]
  have "wire_format (read_after_inputs v ww parts)
      (\<lambda>tx. vector_bytes output_bytes (tx_outputs tx) @
         (if ww then concat (map witness_bytes (tx_inputs tx)) else []) @
         write_little_endian (tx_locktime tx) 4)
      (\<lambda>tx. (length (tx_outputs tx) < size_limit \<and> (\<forall>out\<in>set (tx_outputs tx). output_ok out)) \<and>
         tx_version tx = v \<and> inputs_match ww parts (tx_inputs tx))"
    by (rule wire_format_cong [OF joined])
      (auto simp: read_after_inputs_def case_prod_beta require_count_fits_remaining_def)
  then show ?thesis
    by (rule wire_format_relayout) (auto simp: after_inputs_bytes_def)
qed

lemma inputs_ok_strip:
  "(\<forall>i\<in>set ins. input_ok (strip_input i)) \<and> (\<forall>i\<in>set ins. witness_ok (input_witness i)) \<longleftrightarrow>
     (\<forall>i\<in>set ins. input_ok i)"
  by (auto simp: input_ok_def strip_input_def witness_ok_def)

lemma inputs_match_stripped:
  assumes "\<forall>i\<in>set parts. input_witness i = []"
  shows "inputs_match ww parts ins \<longleftrightarrow>
    map strip_input ins = parts \<and> (\<forall>i\<in>set ins. witness_ok (input_witness i)) \<and>
    ww = list_ex (\<lambda>i. input_witness i \<noteq> []) ins"
proof -
  have parts: "map strip_input parts = parts" using assms by (simp add: strip_input_id map_idI)
  have plain: "map strip_input ins = ins" if "\<not> list_ex (\<lambda>i. input_witness i \<noteq> []) ins"
    using that by (simp add: list_ex_iff strip_input_id map_idI)
  show ?thesis
  proof (cases ww)
    case True
    then show ?thesis by (auto simp: inputs_match_def parts)
  next
    case False
    then show ?thesis
      using assms plain by (auto simp: inputs_match_def parts list_ex_iff witness_ok_def)
  qed
qed

definition body_bytes :: "bool \<Rightarrow> transaction \<Rightarrow> byte list" where
  "body_bytes ww tx = concat (map input_bytes (tx_inputs tx)) @ after_inputs_bytes ww tx"

lemma read_transaction_body_format:
  "wire_format (read_transaction_body v ww n) (body_bytes ww)
     (\<lambda>tx. tx_version tx = v \<and> tx_ok tx \<and> length (tx_inputs tx) = unat n \<and> ww = has_witness tx)"
proof -
  let ?key = "\<lambda>tx. map strip_input (tx_inputs tx)"
  let ?good1 = "\<lambda>parts. length parts = unat n \<and> (\<forall>i\<in>set parts. input_ok i \<and> input_witness i = [])"
  let ?good2 = "\<lambda>tx. tx_version tx = v \<and> length (tx_outputs tx) < size_limit \<and>
        (\<forall>out\<in>set (tx_outputs tx). output_ok out) \<and>
        (\<forall>i\<in>set (tx_inputs tx). witness_ok (input_witness i)) \<and> ww = has_witness tx"
  have tail: "wire_format (read_after_inputs v ww parts) (after_inputs_bytes ww)
      (\<lambda>tx. ?good2 tx \<and> ?key tx = parts)" if "?good1 parts" for parts
    by (rule wire_format_relayout [OF read_after_inputs_format])
      (use that in \<open>auto simp: inputs_match_stripped has_witness_def\<close>)
  have joined: "wire_format (\<lambda>r. case read_items read_input_parts (unat n) r of (parts, r1) \<Rightarrow>
      read_after_inputs v ww parts r1) (\<lambda>tx. concat (map input_bytes (?key tx)) @ after_inputs_bytes ww tx)
      (\<lambda>tx. ?good1 (?key tx) \<and> ?good2 tx)"
    by (rule wire_format_bind_good [OF wire_format_items_n [OF input_parts.wire_format_axioms]
        _ read_after_inputs_format]) (rule tail)
  have good: "(?good1 (?key tx) \<and> ?good2 tx) =
      (tx_version tx = v \<and> tx_ok tx \<and> length (tx_inputs tx) = unat n \<and> ww = has_witness tx)" for tx
    using unat64_upper [of n] by (auto simp: tx_ok_def inputs_ok_strip [symmetric])
  have layout: "body_bytes ww tx = concat (map input_bytes (?key tx)) @ after_inputs_bytes ww tx" for tx
    by (simp add: body_bytes_def comp_def)
  have body: "wire_format (\<lambda>r. case read_items read_input_parts (unat n) r of (parts, r1) \<Rightarrow>
      read_after_inputs v ww parts r1) (body_bytes ww)
     (\<lambda>tx. tx_version tx = v \<and> tx_ok tx \<and> length (tx_inputs tx) = unat n \<and> ww = has_witness tx)"
    by (rule wire_format_relayout [OF joined]) (rule good [symmetric], rule layout)
  have minimum: "41 * unat n \<le> length (body_bytes ww tx)"
    if "tx_version tx = v \<and> tx_ok tx \<and> length (tx_inputs tx) = unat n \<and> ww = has_witness tx" for tx
    using length_concat_map_ge [of "tx_inputs tx" 41 input_bytes] that length_input_bytes_ge
    by (simp add: body_bytes_def tx_ok_def trans_le_add1)
  show ?thesis
    unfolding read_transaction_body_def [abs_def]
    by (intro wire_format_guard wire_format_require body minimum)
qed

lemma transaction_bytes_split:
  "transaction_bytes True tx = write_little_endian (tx_version tx) 4 @
     (if has_witness tx then [0, 1] else []) @
     compact_size_bytes (of_nat (length (tx_inputs tx))) @ body_bytes (has_witness tx) tx"
  by (simp add: transaction_bytes_def body_bytes_def after_inputs_bytes_def vector_bytes_def)

lemma compact_size_bytes_0 [simp]: "compact_size_bytes 0 = [0]"
  by (simp add: compact_size_bytes_def)

lemma compact_size_bytes_nonempty: "compact_size_bytes v \<noteq> []"
  using compact_size_size_pos [of v] length_compact_size_bytes [of v] by auto

lemma compact_size_bytes_hd_0: "hd (compact_size_bytes v) = 0 \<longleftrightarrow> v = 0"
proof
  assume "hd (compact_size_bytes v) = 0"
  from compact_size_first(1) [OF this] have "unat v < 253" by simp
  from compact_size_bytes_byte [OF this] \<open>hd (compact_size_bytes v) = 0\<close> have "unat v = 0" by simp
  then show "v = 0" by (simp add: unat_eq_zero)
qed simp

lemma witness_flag_iff: "\<not> (b AND 1 = 0 \<or> b AND NOT 1 \<noteq> 0) \<longleftrightarrow> b = (1 :: byte)"
proof
  assume "\<not> (b AND 1 = 0 \<or> b AND NOT 1 \<noteq> 0)"
  then have "b AND 1 \<noteq> 0" "b AND NOT 1 = 0" by auto
  moreover have "b = (b AND 1) OR (b AND NOT 1)" by (simp flip: bit.conj_disj_distrib)
  ultimately have "b = b AND 1" by simp
  with \<open>b AND 1 \<noteq> 0\<close> show "b = 1" by (simp add: and_one_eq mod_2_eq_odd split: if_splits)
qed simp

text \<open>A one-byte lookahead decides between two readers.\<close>

lemma wire_format_peek:
  assumes f1: "wire_format d1 e1 g1" and f2: "wire_format d2 e2 g2"
    and s1: "\<And>x. g1 x \<Longrightarrow> sel x \<and> e1 x \<noteq> [] \<and> hd (e1 x) \<noteq> 0"
    and s2: "\<And>x. g2 x \<Longrightarrow> \<not> sel x \<and> e2 x \<noteq> []"
  shows "wire_format (\<lambda>r. if \<not> reader_empty r \<and> peek r \<noteq> 0 then d1 r else d2 r)
    (\<lambda>x. if sel x then e1 x else e2 x)
    (\<lambda>x. if sel x then g1 x else g2 x \<and> hd (e2 x) = 0)"
proof
  have look: "(\<not> reader_empty r \<and> peek r \<noteq> 0) = (hd bs \<noteq> 0)"
    if "reader_wf r" "unread r = bs @ rest" "bs \<noteq> []" for r bs rest
    using that peek_unread [of r "hd bs" "tl bs @ rest"] by (auto simp: reader_empty_unread)
  {
    fix r x rest
    assume a: "m_ok r" "reader_wf r" "unread r = (if sel x then e1 x else e2 x) @ rest"
      "if sel x then g1 x else g2 x \<and> hd (e2 x) = 0"
    show "(if \<not> reader_empty r \<and> peek r \<noteq> 0 then d1 r else d2 r)
        = (x, advance (length (if sel x then e1 x else e2 x)) r)"
    proof (cases "sel x")
      case True
      with a s1 have "\<not> reader_empty r \<and> peek r \<noteq> 0" by (subst look) auto
      then show ?thesis using wire_format.complete [OF f1 a(1,2)] a True by simp
    next
      case False
      with a s2 have "\<not> (\<not> reader_empty r \<and> peek r \<noteq> 0)" by (subst look) auto
      then show ?thesis using wire_format.complete [OF f2 a(1,2)] a False by auto
    qed
  }
  fix r x r'
  assume a: "(if \<not> reader_empty r \<and> peek r \<noteq> 0 then d1 r else d2 r) = (x, r')" "m_ok r'" "reader_wf r"
  show "(if sel x then g1 x else g2 x \<and> hd (e2 x) = 0) \<and>
      (\<exists>rest. unread r = (if sel x then e1 x else e2 x) @ rest) \<and>
      r' = advance (length (if sel x then e1 x else e2 x)) r"
  proof (cases "\<not> reader_empty r \<and> peek r \<noteq> 0")
    case True
    with a(1) have "d1 r = (x, r')" by simp
    from wire_format.sound [OF f1 this a(2,3)] s1 [of x] show ?thesis by simp
  next
    case False
    with a(1) have "d2 r = (x, r')" by (auto split: if_splits)
    note s = wire_format.sound_rest [OF f2 this a(2,3)]
    with s2 have "hd (e2 x) = 0" using look [OF a(3) s(2)] False by blast
    with s s2 [of x] show ?thesis by auto
  qed
qed (use wire_format.sticky [OF f1] wire_format.sticky [OF f2] wire_format.keeps [OF f1]
    wire_format.keeps [OF f2] in auto)

lemma witness_flag_format:
  "wire_format (\<lambda>r. case read_bytes 1 r of (bs, r1) \<Rightarrow>
      if \<not> m_ok r1 then ((), r1)
      else if hd bs AND 1 = 0 \<or> hd bs AND NOT 1 \<noteq> 0 then ((), fail invalid_witness_marker r1)
      else ((), r1)) (\<lambda>_. [1]) (\<lambda>_. True)"
  by (rule wire_format_check [OF raw_bytes.wire_format_axioms, where g = "\<lambda>_. [1]"])
    (auto simp: length_Suc_conv witness_flag_iff [simplified])

lemma nonzero_count_format:
  "wire_format (\<lambda>r. case read_compact_size r of (k, r1) \<Rightarrow>
      if \<not> m_ok r1 then (0, r1) else if k = 0 then (0, fail invalid_witness_marker r1) else (k, r1))
    compact_size_bytes (\<lambda>k. k \<noteq> 0)"
  by (rule wire_format_check [OF compact_size.wire_format_axioms, where g = "\<lambda>k. k"]) auto

lemma read_transaction_body_failed [simp]:
  "\<not> m_ok r \<Longrightarrow> read_transaction_body v ww n r = (empty_transaction, r)"
  by (simp add: read_transaction_body_def)

definition witness_reader :: "i32 \<Rightarrow> byte_reader \<Rightarrow> transaction \<times> byte_reader" where
  "witness_reader v r =
     (case read_bytes 1 r of (flag_bytes, r3) \<Rightarrow>
        if \<not> m_ok r3 then (empty_transaction, r3)
        else if hd flag_bytes AND 1 = 0 \<or> hd flag_bytes AND NOT 1 \<noteq> 0
        then (empty_transaction, fail invalid_witness_marker r3)
        else (case read_compact_size r3 of (input_count, r4) \<Rightarrow>
          read_transaction_body v True input_count
            (if input_count = 0 \<and> m_ok r4 then fail invalid_witness_marker r4 else r4)))"

lemma body_count_iff:
  "(tx_version tx = v \<and> tx_ok tx \<and> length (tx_inputs tx) = unat n \<and> ww = has_witness tx) =
     ((tx_version tx = v \<and> tx_ok tx \<and> ww = has_witness tx) \<and> of_nat (length (tx_inputs tx)) = (n :: u64))"
  using count64_iff [of "length (tx_inputs tx)" n] by (auto simp: tx_ok_def)

lemma witness_reader_format:
  "wire_format (witness_reader v)
     (\<lambda>tx. 1 # compact_size_bytes (of_nat (length (tx_inputs tx))) @ body_bytes True tx)
     (\<lambda>tx. tx_version tx = v \<and> tx_ok tx \<and> has_witness tx)"
proof -
  note counted = wire_format_bind [OF nonzero_count_format
      read_transaction_body_format [of v True, unfolded body_count_iff]]
  have "wire_format (\<lambda>r. case (case read_compact_size r of (k, r1) \<Rightarrow>
      if \<not> m_ok r1 then (0, r1) else if k = 0 then (0, fail invalid_witness_marker r1) else (k, r1)) of
        (n, r1) \<Rightarrow> read_transaction_body v True n r1)
     (\<lambda>tx. compact_size_bytes (of_nat (length (tx_inputs tx))) @ body_bytes True tx)
     (\<lambda>tx. (tx_version tx = v \<and> tx_ok tx \<and> has_witness tx) \<and> () = u)" for u
    by (rule wire_format_relayout [OF counted])
      (use has_witness_inputs in \<open>auto simp: word_unat_eq_iff tx_ok_def\<close>)
  note flagged = wire_format_bind [OF witness_flag_format this]
  show ?thesis
    by (rule wire_format_relayout [OF wire_format_cong [OF flagged]])
      (auto simp: witness_reader_def case_prod_beta)
qed

lemma wire_format_cong_wf:
  assumes "wire_format dec enc good" and "\<And>r. reader_wf r \<Longrightarrow> dec' r = dec r"
    and "\<And>r. \<not> m_ok r \<Longrightarrow> \<not> m_ok (snd (dec' r))"
  shows "wire_format dec' enc good"
proof
  fix r x r'
  assume a: "dec' r = (x, r')" "m_ok r'" "reader_wf r"
  then have "dec r = (x, r')" using assms(2) by simp
  from wire_format.sound [OF assms(1) this a(2,3)]
  show "good x \<and> (\<exists>rest. unread r = enc x @ rest) \<and> r' = advance (length (enc x)) r" .
qed (use assms(2,3) wire_format.complete [OF assms(1)] wire_format.keeps [OF assms(1)] in simp_all)

definition first_count :: "transaction \<Rightarrow> u64" where
  "first_count tx = (if has_witness tx then 0 else of_nat (length (tx_inputs tx)))"

definition after_count_bytes :: "transaction \<Rightarrow> byte list" where
  "after_count_bytes tx =
     (if has_witness tx then 1 # compact_size_bytes (of_nat (length (tx_inputs tx))) @ body_bytes True tx
      else body_bytes False tx)"

definition after_count :: "i32 \<Rightarrow> u64 \<Rightarrow> byte_reader \<Rightarrow> transaction \<times> byte_reader" where
  "after_count v n r =
     (if \<not> m_ok r then (empty_transaction, r)
      else if n = 0 \<and> \<not> reader_empty r \<and> peek r \<noteq> 0 then witness_reader v r
      else read_transaction_body v False n r)"

lemma body_bytes_nonempty: "body_bytes ww tx \<noteq> []"
  using compact_size_bytes_nonempty
  by (simp add: body_bytes_def after_inputs_bytes_def vector_bytes_def)

lemma of_nat_length_0: "length xs < size_limit \<Longrightarrow> of_nat (length xs) = (0 :: u64) \<longleftrightarrow> xs = []"
  using unat_of_nat64 [of "length xs"] by (auto simp: word_unat_eq_iff)

lemma hd_body_bytes_no_inputs:
  "tx_inputs tx = [] \<Longrightarrow> tx_ok tx \<Longrightarrow> hd (body_bytes ww tx) = 0 \<longleftrightarrow> tx_outputs tx = []"
  by (simp add: body_bytes_def after_inputs_bytes_def vector_bytes_def compact_size_bytes_nonempty
      compact_size_bytes_hd_0 tx_ok_def of_nat_length_0)

lemma no_inputs_no_witness: "tx_inputs tx = [] \<Longrightarrow> \<not> has_witness tx"
  using has_witness_inputs by blast

lemma after_count_format:
  "wire_format (after_count v n) after_count_bytes
     (\<lambda>tx. (tx_version tx = v \<and> tx_wire_ok tx) \<and> first_count tx = n)"
proof (cases "n = 0")
  case True
  let ?plain = "\<lambda>tx. tx_version tx = v \<and> tx_ok tx \<and> length (tx_inputs tx) = unat (0 :: u64) \<and>
      False = has_witness tx"
  have choice: "wire_format (\<lambda>r. if \<not> reader_empty r \<and> peek r \<noteq> 0 then witness_reader v r
      else read_transaction_body v False 0 r)
      (\<lambda>tx. if has_witness tx
        then 1 # compact_size_bytes (of_nat (length (tx_inputs tx))) @ body_bytes True tx
        else body_bytes False tx)
      (\<lambda>tx. if has_witness tx then tx_version tx = v \<and> tx_ok tx \<and> has_witness tx
        else ?plain tx \<and> hd (body_bytes False tx) = 0)"
    by (rule wire_format_peek [OF witness_reader_format read_transaction_body_format])
      (auto simp: body_bytes_nonempty)
  have inputs: "tx_ok tx \<Longrightarrow> length (tx_inputs tx) < size_limit" for tx by (simp add: tx_ok_def)
  have "wire_format (after_count v 0) after_count_bytes
      (\<lambda>tx. (tx_version tx = v \<and> tx_wire_ok tx) \<and> first_count tx = 0)"
    unfolding after_count_def [abs_def] simp_thms
    by (rule wire_format_guard, rule wire_format_relayout [OF choice])
      (auto simp: after_count_bytes_def tx_wire_ok_def first_count_def hd_body_bytes_no_inputs
        of_nat_length_0 [OF inputs] no_inputs_no_witness has_witness_inputs)
  then show ?thesis using True by simp
next
  case False
  then have eq: "after_count v n = read_transaction_body v False n"
    by (intro ext) (simp add: after_count_def)
  show ?thesis
    unfolding eq
    by (rule wire_format_relayout [OF read_transaction_body_format [of v False n, unfolded body_count_iff]])
      (use False in \<open>auto simp: after_count_bytes_def tx_wire_ok_def first_count_def\<close>)
qed

interpretation tx_format: wire_format read_transaction "transaction_bytes True" tx_wire_ok
proof -
  have tail: "wire_format (\<lambda>r. case read_compact_size r of (n, r1) \<Rightarrow> after_count v n r1)
      (\<lambda>tx. compact_size_bytes (first_count tx) @ after_count_bytes tx)
      (\<lambda>tx. tx_wire_ok tx \<and> tx_version tx = v)" for v
    by (rule wire_format_relayout [OF wire_format_bind [OF compact_size.wire_format_axioms
        after_count_format]]) auto
  note joined = wire_format_bind [OF little32.wire_format_axioms tail]
  have "wire_format read_transaction
      (\<lambda>tx. write_little_endian (tx_version tx) 4 @ compact_size_bytes (first_count tx) @ after_count_bytes tx)
      (\<lambda>tx. True \<and> tx_wire_ok tx)"
  proof (rule wire_format_cong_wf [OF joined])
    fix r assume wf: "reader_wf r"
    obtain v r1 where v: "read_little 4 r = (v :: u32, r1)" by (cases "read_little 4 r :: u32 \<times> _")
    obtain n r2 where n: "read_compact_size r1 = (n, r2)" by (cases "read_compact_size r1")
    have wf2: "reader_wf r2"
      using little32.keeps [OF wf] compact_size.keeps v n by (metis snd_conv)
    have "m_ok (snd (read_bytes 1 r2))" if "m_ok r2" "\<not> reader_empty r2"
      using that wf2 by (auto simp: read_bytes_def reader_empty_def reader_wf_def)
    then show "read_transaction r = (case read_little 4 r of (n, r1) \<Rightarrow>
        case read_compact_size r1 of (na, r1) \<Rightarrow> after_count n na r1)"
      by (auto simp: read_transaction_def after_count_def witness_reader_def v n split: prod.splits)
  next
    fix r :: byte_reader assume "\<not> m_ok r"
    then show "\<not> m_ok (snd (read_transaction r))"
      by (simp add: read_transaction_def read_little_def)
  qed
  then show "wire_format read_transaction (transaction_bytes True) tx_wire_ok"
    by (rule wire_format_relayout)
      (auto simp: transaction_bytes_split first_count_def after_count_bytes_def)
qed

subsection \<open>Headers and blocks\<close>

interpretation header_format: wire_format read_block_header header_bytes header_ok
proof -
  note parts = wire_format_pair [OF little32.wire_format_axioms wire_format_pair [OF
      hash_bytes.wire_format_axioms wire_format_pair [OF hash_bytes.wire_format_axioms
      wire_format_pair [OF little32.wire_format_axioms wire_format_pair [OF
      little32.wire_format_axioms little32.wire_format_axioms]]]]]
  let ?f = "\<lambda>(v, p, m, t, b, n). \<lparr>hdr_version = v, previous_block_hash = p, hdr_merkle_root = m,
      hdr_time = t, hdr_bits = b, hdr_nonce = n\<rparr>"
  let ?g = "\<lambda>h. (hdr_version h, previous_block_hash h, hdr_merkle_root h, hdr_time h, hdr_bits h, hdr_nonce h)"
  have "wire_format (\<lambda>r. case (case read_little 4 r of (v, r1) \<Rightarrow>
      case (case read_hash_bytes r1 of (p, r2) \<Rightarrow>
      case (case read_hash_bytes r2 of (m, r3) \<Rightarrow>
      case (case read_little 4 r3 of (t, r4) \<Rightarrow>
      case (case read_little 4 r4 of (b, r5) \<Rightarrow>
      case read_little 4 r5 of (n, r6) \<Rightarrow> ((b, n), r6)) of (y, r2) \<Rightarrow> ((t, y), r2)) of
        (y, r2) \<Rightarrow> ((m, y), r2)) of (y, r2) \<Rightarrow> ((p, y), r2)) of (y, r2) \<Rightarrow> ((v, y), r2)) of
        (x, r1) \<Rightarrow> (?f x, r1)) header_bytes header_ok"
    by (rule wire_format_map [OF parts, where g = ?g]) (auto simp: header_ok_def header_bytes_def)
  moreover have "read_block_header = (\<lambda>r. case (case read_little 4 r of (v, r1) \<Rightarrow>
      case (case read_hash_bytes r1 of (p, r2) \<Rightarrow>
      case (case read_hash_bytes r2 of (m, r3) \<Rightarrow>
      case (case read_little 4 r3 of (t, r4) \<Rightarrow>
      case (case read_little 4 r4 of (b, r5) \<Rightarrow>
      case read_little 4 r5 of (n, r6) \<Rightarrow> ((b, n), r6)) of (y, r2) \<Rightarrow> ((t, y), r2)) of
        (y, r2) \<Rightarrow> ((m, y), r2)) of (y, r2) \<Rightarrow> ((p, y), r2)) of (y, r2) \<Rightarrow> ((v, y), r2)) of
        (x, r1) \<Rightarrow> (?f x, r1))"
    by (rule ext) (simp add: read_block_header_def case_prod_beta)
  ultimately show "wire_format read_block_header header_bytes header_ok" by simp
qed

lemma length_transaction_bytes_ge: "10 \<le> length (transaction_bytes w tx)"
proof -
  have "1 \<le> length (vector_bytes enc xs)" for enc :: "'a \<Rightarrow> byte list" and xs
    using compact_size_size_pos by (simp add: vector_bytes_def length_compact_size_bytes trans_le_add1)
  from add_mono [OF this [of input_bytes "tx_inputs tx"] this [of output_bytes "tx_outputs tx"]]
  show ?thesis by (simp add: transaction_bytes_def)
qed

interpretation block_format: wire_format read_block "block_bytes True" block_wire_ok
proof -
  note txs = wire_format_vector [OF wire_format_items_n [OF tx_format.wire_format_axioms]
      length_transaction_bytes_ge, where d = "[]"]
  note joined = wire_format_map [OF wire_format_pair [OF header_format.wire_format_axioms txs],
      where f = "\<lambda>(h, ts). \<lparr>blk_header = h, blk_transactions = ts\<rparr>"
        and g = "\<lambda>b. (blk_header b, blk_transactions b)"
        and enc' = "block_bytes True" and good' = block_wire_ok]
  show "wire_format read_block (block_bytes True) block_wire_ok"
    by (rule wire_format_cong [OF joined])
      (auto simp: read_block_def block_bytes_def block_wire_ok_def list_all_iff case_prod_beta
        require_count_fits_remaining_def)
qed

subsection \<open>Exact parsing\<close>

lemma make_reader_simps [simp]:
  "m_ok (make_reader raw)" "reader_wf (make_reader raw)" "unread (make_reader raw) = raw"
  "m_bytes (make_reader raw) = raw" "m_offset (make_reader raw) = 0"
  by (simp_all add: make_reader_def reader_wf_def unread_def)

context wire_format
begin

lemma parse_exact_iff: "parse_exact raw dec = parsed x \<longleftrightarrow> good x \<and> raw = enc x"
proof
  assume p: "parse_exact raw dec = parsed x"
  obtain y r where d: "dec (make_reader raw) = (y, r)" by fastforce
  with p have r: "m_ok r" "reader_empty r" and y: "y = x"
    by (auto simp: parse_exact_def split: if_splits)
  note s = sound_rest [OF d r(1)]
  from s(4) r(2) have "unread r = []" by (simp add: reader_empty_unread)
  with s(1,2) y show "good x \<and> raw = enc x" by simp
next
  assume "good x \<and> raw = enc x"
  then show "parse_exact raw dec = parsed x"
    using complete [of "make_reader raw" x "[]"] by (simp add: parse_exact_def reader_empty_def)
qed

lemma parse_exact_failure_offset:
  "parse_exact raw dec = malformed m \<Longrightarrow> mp_offset m \<le> length raw"
  using keeps [OF make_reader_simps(2), of raw]
  by (auto simp: parse_exact_def reader_wf_def case_prod_beta split: if_splits)

end

lemma length_stripped_bytes_le: "length (transaction_bytes False tx) \<le> length (transaction_bytes True tx)"
  by (simp add: transaction_bytes_def)

lemma length_block_stripped_le: "length (block_bytes False b) \<le> length (block_bytes True b)"
proof -
  have "length (concat (map (transaction_bytes False) txs)) \<le> length (concat (map (transaction_bytes True) txs))"
    for txs
    by (induction txs) (simp_all add: add_mono length_stripped_bytes_le)
  then show ?thesis by (simp add: block_bytes_def vector_bytes_def)
qed

end
