(* ===== verification/Tx_Validation.thy ===== *)
theory Tx_Validation
  imports Validation_Results Codec_Read
begin

text \<open>
  Context-free transaction rules and locktime finality
  (\<^verbatim>\<open>validation/transaction.cpp\<close>, \<^verbatim>\<open>validation/transaction.h\<close>).

  Amounts are 64-bit words compared as signed integers. The theorem \<open>tx_intrinsic_accepts\<close>
  characterises acceptance over the integers: in particular the running output sum never wraps,
  and the sort-and-scan duplicate test is distinctness of the spent outpoints.
\<close>

subsection \<open>Rules\<close>

datatype transaction_kind = ordinary | coinbase

record transaction_facts =
  tf_id :: txid
  tf_witness_id :: wtxid
  tf_output_value :: amount
  tf_kind :: transaction_kind
  tf_stripped_weight :: nat

definition tx_reject :: "validation_rule_id \<Rightarrow> string \<Rightarrow> validation_rejection" where
  "tx_reject i reason = Rejection rule_violation i reason"

definition tx_invalid :: "validation_rule_id \<Rightarrow> string \<Rightarrow> transaction_facts verify_result" where
  "tx_invalid i reason = op_ok (decision_invalid (tx_reject i reason))"

definition is_coinbase :: "transaction \<Rightarrow> bool" where
  "is_coinbase tx \<longleftrightarrow> length (tx_inputs tx) = 1 \<and> is_null (previous_output (hd (tx_inputs tx)))"

fun adjacent_find :: "'a list \<Rightarrow> bool" where
  "adjacent_find (x # y # rest) = (x = y \<or> adjacent_find (y # rest))"
| "adjacent_find xs = False"

definition has_duplicate_inputs :: "transaction \<Rightarrow> bool" where
  "has_duplicate_inputs tx = adjacent_find (sort (map previous_output (tx_inputs tx)))"

definition coinbase_script_size_valid :: "transaction \<Rightarrow> bool" where
  "coinbase_script_size_valid tx \<longleftrightarrow>
     2 \<le> length (input_script (hd (tx_inputs tx))) \<and> length (input_script (hd (tx_inputs tx))) \<le> 100"

definition stripped_weight_exceeds_limit :: "nat \<Rightarrow> nat \<Rightarrow> bool" where
  "stripped_weight_exceeds_limit stripped_size limit \<longleftrightarrow> stripped_size > limit div witness_scale_factor"

definition stripped_weight :: "nat \<Rightarrow> nat" where
  "stripped_weight stripped_size = size_wrap (stripped_size * witness_scale_factor)"

definition locktime_threshold :: u32 where "locktime_threshold = 500000000"
definition sequence_final :: u32 where "sequence_final = 0xffffffff"

definition final_under_locktime :: "transaction \<Rightarrow> transaction_finality_context \<Rightarrow> bool" where
  "final_under_locktime tx context \<longleftrightarrow>
     tx_locktime tx = 0 \<or>
     (ucast (tx_locktime tx) :: i64) <s
       (if tx_locktime tx < locktime_threshold then scast (fc_height context)
        else ucast (fc_timestamp context)) \<or>
     list_all (\<lambda>input. input_sequence input = sequence_final) (tx_inputs tx)"

text \<open>The output loop: the first rule broken, or the sum.\<close>

fun output_sum_loop ::
  "amount \<Rightarrow> tx_output list \<Rightarrow> i64 \<Rightarrow> transaction_facts verify_result + i64" where
  "output_sum_loop limit [] output_sum = Inr output_sum"
| "output_sum_loop limit (out # outs) output_sum =
     (if output_value out <s 0 then
        Inl (tx_invalid l10_output_value_non_negative ''transaction output value is negative'')
      else if limit <s output_value out then
        Inl (tx_invalid l11_output_value_range ''transaction output value exceeds maximum money'')
      else if limit - output_value out <s output_sum then
        Inl (tx_invalid l11_output_value_range ''transaction output sum exceeds maximum money'')
      else output_sum_loop limit outs (output_sum + output_value out))"

definition tx_input_rules :: "transaction \<Rightarrow> amount \<Rightarrow> nat \<Rightarrow> transaction_facts verify_result" where
  "tx_input_rules tx output_sum stripped_size =
     (if has_duplicate_inputs tx then
        tx_invalid l12_unique_inputs ''transaction contains duplicate inputs''
      else if is_coinbase tx \<and> \<not> coinbase_script_size_valid tx then
        tx_invalid l13_coinbase_script_size ''coinbase script size is outside consensus range''
      else if \<not> is_coinbase tx \<and> list_ex (\<lambda>input. is_null (previous_output input)) (tx_inputs tx) then
        tx_invalid l14_non_coinbase_prevout ''non-coinbase transaction spends null prevout''
      else op_ok (decision_valid
        \<lparr>tf_id = transaction_id tx, tf_witness_id = witness_id tx, tf_output_value = output_sum,
         tf_kind = (if is_coinbase tx then coinbase else ordinary),
         tf_stripped_weight = stripped_weight stripped_size\<rparr>))"

definition tx_intrinsic_rules :: "transaction \<Rightarrow> transaction_limits \<Rightarrow> transaction_facts verify_result" where
  "tx_intrinsic_rules tx limits =
     (if tx_inputs tx = [] then
        tx_invalid l07_transaction_inputs_non_empty ''transaction has no inputs''
      else if tx_outputs tx = [] then
        tx_invalid l08_transaction_outputs_non_empty ''transaction has no outputs''
      else if stripped_weight_exceeds_limit (stripped_serialized_size tx) (max_stripped_weight limits) then
        tx_invalid l09_transaction_size ''transaction stripped size exceeds maximum weight''
      else (case output_sum_loop (max_money limits) (tx_outputs tx) 0 of
          Inl rejected \<Rightarrow> rejected
        | Inr output_sum \<Rightarrow> tx_input_rules tx output_sum (stripped_serialized_size tx)))"

definition assess_transaction_intrinsic ::
  "transaction \<Rightarrow> transaction_limits \<Rightarrow> transaction_facts verify_result" where
  "assess_transaction_intrinsic tx limits =
     verify_exception_boundary (Return (tx_intrinsic_rules tx limits))
       ''transaction validation exhausted resources'' internal_bug
       ''transaction validation threw an exception''"

definition assess_transaction_finality ::
  "transaction \<Rightarrow> transaction_finality_context \<Rightarrow> transaction_facts verify_result" where
  "assess_transaction_finality tx context =
     verify_exception_boundary (Return
       (verify_bind (assess_transaction_intrinsic tx (fc_limits context)) (\<lambda>facts.
          if \<not> final_under_locktime tx context
          then tx_invalid c01_transaction_finality ''transaction locktime is not final''
          else op_ok (decision_valid facts))))
       ''transaction finality validation exhausted resources'' internal_bug
       ''transaction finality validation threw an exception''"

definition verify_transaction :: "transaction \<Rightarrow> transaction_facts verify_result" where
  "verify_transaction tx = assess_transaction_intrinsic tx default_transaction_limits"

subsection \<open>Sort and scan finds duplicates\<close>

lemma sorted_adjacent_find: "sorted xs \<Longrightarrow> adjacent_find xs \<longleftrightarrow> \<not> distinct xs"
proof (induction xs rule: adjacent_find.induct)
  case (1 x y rest)
  have "x \<in> set rest \<Longrightarrow> x = y" using 1(2) by (auto intro: order.antisym)
  with 1 show ?case by auto
qed auto

lemma has_duplicate_inputs_iff:
  "has_duplicate_inputs tx \<longleftrightarrow> \<not> distinct (map previous_output (tx_inputs tx))"
  by (simp add: has_duplicate_inputs_def sorted_adjacent_find)

subsection \<open>The output sum\<close>

definition outputs_total :: "tx_output list \<Rightarrow> int" where
  "outputs_total outs = (\<Sum>out\<leftarrow>outs. sint (output_value out))"

lemma outputs_total_simps [simp]:
  "outputs_total [] = 0" "outputs_total (out # outs) = sint (output_value out) + outputs_total outs"
  by (simp_all add: outputs_total_def)

definition outputs_non_negative :: "tx_output list \<Rightarrow> bool" where
  "outputs_non_negative outs \<longleftrightarrow> list_all (\<lambda>out. 0 \<le> sint (output_value out)) outs"

lemma outputs_total_nonneg: "outputs_non_negative outs \<Longrightarrow> 0 \<le> outputs_total outs"
  by (induction outs) (simp_all add: outputs_non_negative_def)

lemma output_sum_loop_result:
  assumes "0 \<le> sint acc" and "sint acc \<le> sint limit"
  shows "output_sum_loop limit outs acc = Inr t \<longleftrightarrow>
    outputs_non_negative outs \<and> sint acc + outputs_total outs \<le> sint limit \<and>
    sint t = sint acc + outputs_total outs"
  using assms
proof (induction outs arbitrary: acc)
  case Nil
  then show ?case by (auto simp: outputs_non_negative_def sint_inject)
next
  case (Cons out outs)
  let ?v = "sint (output_value out)"
  show ?case
  proof (cases "0 \<le> ?v \<and> ?v \<le> sint limit \<and> sint acc + ?v \<le> sint limit")
    case True
    have sub: "sint (limit - output_value out) = sint limit - ?v"
      using True sint64_upper [of limit] by (intro sint_minus_exact) simp_all
    have add: "sint (acc + output_value out) = sint acc + ?v"
      using True Cons.prems sint64_upper [of limit] by (intro sint_plus_exact) simp_all
    from Cons.IH [of "acc + output_value out"] True Cons.prems show ?thesis
      by (simp add: word_sless_alt sub add outputs_non_negative_def add.assoc)
  next
    case False
    have "limit - output_value out <s acc" if "0 \<le> ?v" "?v \<le> sint limit"
    proof -
      have "sint (limit - output_value out) = sint limit - ?v"
        using that sint64_upper [of limit] by (intro sint_minus_exact) simp_all
      then show ?thesis using False that by (simp add: word_sless_alt)
    qed
    then have "output_sum_loop limit (out # outs) acc \<noteq> Inr t"
      by (auto simp: word_sless_alt)
    moreover have "\<not> (outputs_non_negative (out # outs) \<and> sint acc + outputs_total (out # outs) \<le> sint limit)"
      using False Cons.prems outputs_total_nonneg [of outs] by (auto simp: outputs_non_negative_def)
    ultimately show ?thesis by blast
  qed
qed

subsection \<open>Acceptance\<close>

definition tx_intrinsic_ok :: "transaction \<Rightarrow> transaction_limits \<Rightarrow> bool" where
  "tx_intrinsic_ok tx limits \<longleftrightarrow>
     tx_inputs tx \<noteq> [] \<and> tx_outputs tx \<noteq> [] \<and>
     stripped_serialized_size tx \<le> max_stripped_weight limits div 4 \<and>
     outputs_non_negative (tx_outputs tx) \<and> outputs_total (tx_outputs tx) \<le> sint (max_money limits) \<and>
     distinct (map previous_output (tx_inputs tx)) \<and>
     (if is_coinbase tx then coinbase_script_size_valid tx
      else list_all (\<lambda>i. previous_output i \<noteq> outpoint_null) (tx_inputs tx))"

definition tx_facts_of :: "transaction \<Rightarrow> transaction_facts \<Rightarrow> bool" where
  "tx_facts_of tx facts \<longleftrightarrow>
     tf_id facts = double_sha256 (transaction_bytes False tx) \<and>
     tf_witness_id facts = double_sha256 (transaction_bytes True tx) \<and>
     sint (tf_output_value facts) = outputs_total (tx_outputs tx) \<and>
     (tf_kind facts = coinbase \<longleftrightarrow> is_coinbase tx) \<and>
     tf_stripped_weight facts = stripped_weight (stripped_serialized_size tx)"

lemma tx_invalid_neq [simp]: "tx_invalid i reason \<noteq> op_ok (decision_valid facts)"
  by (simp add: tx_invalid_def)

lemma output_sum_loop_Inl: "output_sum_loop limit outs acc = Inl r \<Longrightarrow> \<exists>i reason. r = tx_invalid i reason"
  by (induction limit outs acc rule: output_sum_loop.induct) (auto split: if_splits)

lemma tx_input_rules_valid:
  "tx_input_rules tx t n = op_ok (decision_valid facts) \<longleftrightarrow>
     distinct (map previous_output (tx_inputs tx)) \<and>
     (if is_coinbase tx then coinbase_script_size_valid tx
      else list_all (\<lambda>i. previous_output i \<noteq> outpoint_null) (tx_inputs tx)) \<and>
     facts = \<lparr>tf_id = transaction_id tx, tf_witness_id = witness_id tx, tf_output_value = t,
       tf_kind = (if is_coinbase tx then coinbase else ordinary), tf_stripped_weight = stripped_weight n\<rparr>"
  by (auto simp: tx_input_rules_def has_duplicate_inputs_iff list_ex_iff list_all_iff is_null_def)

lemma transaction_kind_if [simp]: "(if b then coinbase else ordinary) = coinbase \<longleftrightarrow> b"
  by simp

theorem tx_intrinsic_accepts:
  "assess_transaction_intrinsic tx limits = op_ok (decision_valid facts) \<longleftrightarrow>
     tx_intrinsic_ok tx limits \<and> tx_facts_of tx facts"
proof -
  have size: "stripped_weight_exceeds_limit n m \<longleftrightarrow> \<not> n \<le> m div 4" for n m
    by (simp add: stripped_weight_exceeds_limit_def witness_scale_factor_def not_le)
  show ?thesis
  proof (cases "output_sum_loop (max_money limits) (tx_outputs tx) 0")
    case (Inl r)
    then have "\<not> (outputs_non_negative (tx_outputs tx) \<and> outputs_total (tx_outputs tx) \<le> sint (max_money limits))"
      if "0 \<le> sint (max_money limits)"
      using output_sum_loop_result [of 0 "max_money limits" "tx_outputs tx"
          "word_of_int (outputs_total (tx_outputs tx))"] that
        outputs_total_nonneg [of "tx_outputs tx"] sint64_upper [of "max_money limits"]
      by (auto simp: sint_sbintrunc' signed_take_bit_int_eq_self)
    moreover have "\<not> (outputs_non_negative (tx_outputs tx) \<and> outputs_total (tx_outputs tx) \<le> sint (max_money limits))"
      if "sint (max_money limits) < 0"
      using that outputs_total_nonneg [of "tx_outputs tx"] by auto
    ultimately show ?thesis
      using Inl output_sum_loop_Inl [OF Inl]
      by (cases "0 \<le> sint (max_money limits)")
        (auto simp: assess_transaction_intrinsic_def tx_intrinsic_rules_def tx_intrinsic_ok_def)
  next
    case (Inr t)
    have "0 \<le> sint (max_money limits)" if "tx_outputs tx \<noteq> []"
      using Inr that by (cases "tx_outputs tx") (auto simp: word_sless_alt split: if_splits)
    then have sum: "outputs_non_negative (tx_outputs tx) \<and> outputs_total (tx_outputs tx) \<le> sint (max_money limits) \<and>
        sint t = outputs_total (tx_outputs tx)" if "tx_outputs tx \<noteq> []"
      using output_sum_loop_result [of 0 "max_money limits" "tx_outputs tx" t] Inr that by simp
    have facts: "facts = \<lparr>tf_id = transaction_id tx, tf_witness_id = witness_id tx, tf_output_value = t,
         tf_kind = (if is_coinbase tx then coinbase else ordinary),
         tf_stripped_weight = stripped_weight (stripped_serialized_size tx)\<rparr> \<longleftrightarrow> tx_facts_of tx facts"
      if "tx_outputs tx \<noteq> []"
    proof -
      have "outputs_total (tx_outputs tx) = sint t" using sum [OF that] by simp
      then show ?thesis
        by (cases facts; cases "tf_kind facts")
          (auto simp: tx_facts_of_def transaction_id_bytes witness_id_bytes sint_inject)
    qed
    show ?thesis
      using sum facts Inr
      by (auto simp: assess_transaction_intrinsic_def tx_intrinsic_rules_def tx_intrinsic_ok_def
          tx_input_rules_valid size)
  qed
qed

lemma tx_facts_exist:
  assumes "tx_intrinsic_ok tx limits"
  shows "\<exists>facts. tx_facts_of tx facts"
proof -
  have "0 \<le> outputs_total (tx_outputs tx)" "outputs_total (tx_outputs tx) \<le> sint (max_money limits)"
    using assms outputs_total_nonneg by (auto simp: tx_intrinsic_ok_def)
  then have "sint (word_of_int (outputs_total (tx_outputs tx)) :: i64) = outputs_total (tx_outputs tx)"
    using sint64_upper [of "max_money limits"] by (simp add: sint_sbintrunc' signed_take_bit_int_eq_self)
  then have "tx_facts_of tx \<lparr>tf_id = double_sha256 (transaction_bytes False tx),
      tf_witness_id = double_sha256 (transaction_bytes True tx),
      tf_output_value = word_of_int (outputs_total (tx_outputs tx)),
      tf_kind = (if is_coinbase tx then coinbase else ordinary),
      tf_stripped_weight = stripped_weight (stripped_serialized_size tx)\<rparr>"
    by (simp add: tx_facts_of_def)
  then show ?thesis by blast
qed

theorem tx_finality_accepts:
  "assess_transaction_finality tx context = op_ok (decision_valid facts) \<longleftrightarrow>
     tx_intrinsic_ok tx (fc_limits context) \<and> tx_facts_of tx facts \<and> final_under_locktime tx context"
  unfolding tx_intrinsic_accepts [symmetric] conj_assoc [symmetric] assess_transaction_finality_def
  by (auto simp: verify_bind_valid)

end
