(* ===== verification/Spend_Validation.thy ===== *)
theory Spend_Validation
  imports Tx_Validation
begin

text \<open>
  Spend rules: coin lookups (\<^verbatim>\<open>protocol/coin_index.h\<close>, \<^verbatim>\<open>validation/spend.h\<close>) and the checks
  on the coins found (\<^verbatim>\<open>validation/spend.cpp\<close>): maturity, money range, outputs not exceeding
  inputs, and relative locktimes.

  A coin source is supplied by the caller. It is a function that returns, runs out of memory or
  throws; the two overloads of \<open>lookup_coin\<close> are the two constructors of \<open>coin_source\<close>.
\<close>

subsection \<open>Coins and lookups\<close>

record coin =
  coin_output :: tx_output
  coin_height :: block_height
  coin_coinbase :: bool
  coin_previous_mtp :: median_time_past

datatype coin_lookup_failure =
    failure_unavailable
  | failure_malformed_stored_data
  | failure_interrupted
  | failure_io

datatype coin_lookup_state =
    state_found
  | state_missing
  | state_spent
  | state_unavailable
  | state_malformed_stored_data
  | state_interrupted
  | state_io_failure

fun state_for :: "coin_lookup_failure \<Rightarrow> coin_lookup_state" where
  "state_for failure_unavailable = state_unavailable"
| "state_for failure_malformed_stored_data = state_malformed_stored_data"
| "state_for failure_interrupted = state_interrupted"
| "state_for failure_io = state_io_failure"

definition is_failure :: "coin_lookup_state \<Rightarrow> bool" where
  "is_failure state \<longleftrightarrow> state = state_unavailable \<or> state = state_malformed_stored_data \<or>
     state = state_interrupted \<or> state = state_io_failure"

datatype coin_lookup_result =
    lookup_found coin
  | lookup_missing
  | lookup_spent
  | lookup_failed coin_lookup_failure string

fun lookup_state :: "coin_lookup_result \<Rightarrow> coin_lookup_state" where
  "lookup_state (lookup_found c) = state_found"
| "lookup_state lookup_missing = state_missing"
| "lookup_state lookup_spent = state_spent"
| "lookup_state (lookup_failed f reason) = state_for f"

fun coin_lookup_error :: "coin_lookup_failure \<Rightarrow> operation_error" where
  "coin_lookup_error failure_unavailable =
     Operation_error data_unavailable ''coin lookup data is unavailable''"
| "coin_lookup_error failure_malformed_stored_data =
     Operation_error malformed_stored_data ''stored coin data is malformed''"
| "coin_lookup_error failure_interrupted = Operation_error interruption ''coin lookup interrupted''"
| "coin_lookup_error failure_io = Operation_error io_read ''coin lookup read failed''"

datatype coin_source =
    Pure_index "outpoint \<Rightarrow> coin option call"
  | Fallible_source "outpoint \<Rightarrow> coin_lookup_result call"

definition coin_lookup_boundary :: "coin option operation_result call \<Rightarrow> coin option operation_result" where
  "coin_lookup_boundary function =
     (case function of
        Return r \<Rightarrow> r
      | BadAlloc \<Rightarrow> op_failed (Operation_error resource_exhaustion ''coin index lookup exhausted resources'')
      | Throw \<Rightarrow> op_failed (Operation_error callback_failure ''coin index lookup threw an exception''))"

definition lookup_answer :: "coin_lookup_result \<Rightarrow> coin option operation_result" where
  "lookup_answer lookup =
     (case lookup of
        lookup_found c \<Rightarrow> op_ok (Some c)
      | lookup_missing \<Rightarrow> op_ok None
      | lookup_spent \<Rightarrow> op_ok None
      | lookup_failed f reason \<Rightarrow> op_failed (coin_lookup_error f))"

definition map_call :: "('a \<Rightarrow> 'b) \<Rightarrow> 'a call \<Rightarrow> 'b call" where
  "map_call f c = (case c of Return x \<Rightarrow> Return (f x) | BadAlloc \<Rightarrow> BadAlloc | Throw \<Rightarrow> Throw)"

fun lookup_coin :: "coin_source \<Rightarrow> outpoint \<Rightarrow> coin option operation_result" where
  "lookup_coin (Pure_index index) point = coin_lookup_boundary (map_call op_ok (index point))"
| "lookup_coin (Fallible_source index) point = coin_lookup_boundary (map_call lookup_answer (index point))"

type_synonym coin_lookup_callback = "outpoint \<Rightarrow> coin option operation_result"

fun lookup_inputs_loop :: "coin_lookup_callback \<Rightarrow> tx_input list \<Rightarrow> coin list verify_result" where
  "lookup_inputs_loop lookup [] = op_ok (decision_valid [])"
| "lookup_inputs_loop lookup (input # inputs) =
     (case lookup (previous_output input) of
        op_failed e \<Rightarrow> op_failed e
      | op_ok None \<Rightarrow> op_ok (decision_invalid (Rejection rule_violation s02_prevouts_unspent
          ''transaction input prevout is not present''))
      | op_ok (Some c) \<Rightarrow>
          (case lookup_inputs_loop lookup inputs of
             op_ok (decision_valid cs) \<Rightarrow> op_ok (decision_valid (c # cs))
           | other \<Rightarrow> other))"

definition lookup_input_coins :: "transaction \<Rightarrow> coin_source \<Rightarrow> coin list verify_result" where
  "lookup_input_coins tx index =
     operation_exception_boundary (Return (lookup_inputs_loop (lookup_coin index) (tx_inputs tx)))
       ''input coin lookup exhausted resources'' internal_bug ''input coin lookup threw an exception''"

subsection \<open>Spend rules\<close>

record spend_facts =
  sf_input_value :: amount
  sf_output_value :: amount
  sf_fee :: amount

definition spend_invalid :: "validation_rule_id \<Rightarrow> string \<Rightarrow> spend_facts verify_result" where
  "spend_invalid i reason = op_ok (decision_invalid (Rejection rule_violation i reason))"

definition money_range :: "i64 \<Rightarrow> amount \<Rightarrow> bool" where
  "money_range v limit \<longleftrightarrow> 0 \<le>s v \<and> v \<le>s limit"

definition sequence_disable_flag :: u32 where "sequence_disable_flag = push_bit 31 1"
definition sequence_type_flag :: u32 where "sequence_type_flag = push_bit 22 1"
definition sequence_locktime_mask :: u32 where "sequence_locktime_mask = 0x0000ffff"

definition i64_maximum :: "i64 \<Rightarrow> i64 \<Rightarrow> i64" where
  "i64_maximum a b = (if a <s b then b else a)"

text \<open>The loop over inputs and their coins; the accumulators are the minimum height and time.\<close>

fun sequence_lock_loop :: "(tx_input \<times> coin) list \<Rightarrow> i64 \<Rightarrow> i64 \<Rightarrow> i64 \<times> i64" where
  "sequence_lock_loop [] minimum_height minimum_time = (minimum_height, minimum_time)"
| "sequence_lock_loop ((input, input_coin) # rest) minimum_height minimum_time =
     (if input_sequence input AND sequence_disable_flag \<noteq> 0 then
        sequence_lock_loop rest minimum_height minimum_time
      else if input_sequence input AND sequence_type_flag \<noteq> 0 then
        sequence_lock_loop rest minimum_height
          (i64_maximum minimum_time (coin_previous_mtp input_coin +
             push_bit 9 (ucast (input_sequence input AND sequence_locktime_mask)) - 1))
      else
        sequence_lock_loop rest
          (i64_maximum minimum_height (scast (coin_height input_coin) +
             ucast (input_sequence input AND sequence_locktime_mask) - 1)) minimum_time)"

definition sequence_locks_satisfied :: "transaction \<Rightarrow> spend_context \<Rightarrow> coin list \<Rightarrow> bool" where
  "sequence_locks_satisfied tx context input_coins \<longleftrightarrow>
     \<not> verify_sequence (sc_locktime context) \<or> tx_version tx <s 2 \<or>
     (case sequence_lock_loop (zip (tx_inputs tx) input_coins) (- 1) (- 1) of
        (minimum_height, minimum_time) \<Rightarrow>
          minimum_height <s scast (sc_height context) \<and>
          minimum_time <s sc_previous_median_time_past context)"

fun input_sum_loop :: "spend_context \<Rightarrow> coin list \<Rightarrow> i64 \<Rightarrow> spend_facts verify_result + i64" where
  "input_sum_loop context [] input_sum = Inr input_sum"
| "input_sum_loop context (input_coin # coins) input_sum =
     (if coin_coinbase input_coin \<and>
         (scast (sc_height context) - scast (coin_height input_coin) :: i64)
           <s scast (coinbase_maturity context) then
        Inl (spend_invalid s09_coinbase_maturity ''coinbase input is not mature'')
      else if \<not> money_range (output_value (coin_output input_coin)) (max_money (sc_limits context)) then
        Inl (spend_invalid s06_input_value_and_fee_range ''transaction input value is outside money range'')
      else if max_money (sc_limits context) - output_value (coin_output input_coin) <s input_sum then
        Inl (spend_invalid s06_input_value_and_fee_range ''transaction input sum exceeds maximum money'')
      else input_sum_loop context coins (input_sum + output_value (coin_output input_coin)))"

definition assess_transaction_spends_with_coins ::
  "transaction \<Rightarrow> transaction_facts \<Rightarrow> spend_context \<Rightarrow> coin list \<Rightarrow> spend_facts verify_result" where
  "assess_transaction_spends_with_coins tx tx_facts context input_coins =
     (if length input_coins \<noteq> length (tx_inputs tx) then
        op_failed (Operation_error invariant_violation ''input coin count does not match transaction inputs'')
      else (case input_sum_loop context input_coins 0 of
          Inl rejected \<Rightarrow> rejected
        | Inr input_sum \<Rightarrow>
            if input_sum <s tf_output_value tx_facts then
              spend_invalid s05_outputs_do_not_exceed_inputs ''transaction outputs exceed inputs''
            else if \<not> money_range (input_sum - tf_output_value tx_facts) (max_money (sc_limits context)) then
              spend_invalid s06_input_value_and_fee_range ''transaction fee is outside money range''
            else if \<not> sequence_locks_satisfied tx context input_coins then
              spend_invalid s08_sequence_locks ''transaction sequence locks are not satisfied''
            else op_ok (decision_valid
              \<lparr>sf_input_value = input_sum, sf_output_value = tf_output_value tx_facts,
               sf_fee = input_sum - tf_output_value tx_facts\<rparr>)))"

definition verify_no_transaction_spends :: "transaction_facts \<Rightarrow> spend_facts verify_result" where
  "verify_no_transaction_spends tx_facts =
     op_ok (decision_valid \<lparr>sf_input_value = 0, sf_output_value = tf_output_value tx_facts, sf_fee = 0\<rparr>)"

definition assess_transaction_spends ::
  "transaction \<Rightarrow> spend_context \<Rightarrow> coin_source \<Rightarrow> spend_facts verify_result" where
  "assess_transaction_spends tx context index =
     verify_exception_boundary (Return
       (verify_bind (assess_transaction_intrinsic tx (sc_limits context)) (\<lambda>tx_facts.
          if tf_kind tx_facts = coinbase then verify_no_transaction_spends tx_facts
          else verify_bind (lookup_input_coins tx index)
            (assess_transaction_spends_with_coins tx tx_facts context))))
       ''transaction spend validation exhausted resources'' internal_bug
       ''transaction spend validation threw an exception''"

subsection \<open>Lookups\<close>

lemma lookup_inputs_loop_valid:
  "lookup_inputs_loop lookup inputs = op_ok (decision_valid cs) \<longleftrightarrow>
     map (\<lambda>i. lookup (previous_output i)) inputs = map (\<lambda>c. op_ok (Some c)) cs"
proof (induction inputs arbitrary: cs)
  case (Cons i inputs)
  have "lookup_inputs_loop lookup (i # inputs) = op_ok (decision_valid cs) \<longleftrightarrow>
      (\<exists>c cs'. cs = c # cs' \<and> lookup (previous_output i) = op_ok (Some c) \<and>
         lookup_inputs_loop lookup inputs = op_ok (decision_valid cs'))"
    by (auto split: operation_result.splits option.splits validation_decision.splits)
  then show ?case unfolding Cons by (auto simp: Cons_eq_map_conv)
qed auto

lemma lookup_input_coins_valid:
  "lookup_input_coins tx index = op_ok (decision_valid cs) \<longleftrightarrow>
     map (\<lambda>i. lookup_coin index (previous_output i)) (tx_inputs tx) = map (\<lambda>c. op_ok (Some c)) cs"
  by (simp add: lookup_input_coins_def operation_exception_boundary_def lookup_inputs_loop_valid)

lemma lookup_coin_found:
  "lookup_coin (Pure_index index) p = op_ok (Some c) \<longleftrightarrow> index p = Return (Some c)"
  "lookup_coin (Fallible_source source) p = op_ok (Some c) \<longleftrightarrow> source p = Return (lookup_found c)"
  by (auto simp: coin_lookup_boundary_def map_call_def lookup_answer_def
      split: call.splits coin_lookup_result.splits)

subsection \<open>The input sum\<close>

definition coins_total :: "coin list \<Rightarrow> int" where
  "coins_total cs = (\<Sum>c\<leftarrow>cs. sint (output_value (coin_output c)))"

lemma coins_total_simps [simp]:
  "coins_total [] = 0" "coins_total (c # cs) = sint (output_value (coin_output c)) + coins_total cs"
  by (simp_all add: coins_total_def)

definition coin_spendable :: "spend_context \<Rightarrow> coin \<Rightarrow> bool" where
  "coin_spendable ctx c \<longleftrightarrow> 0 \<le> sint (output_value (coin_output c)) \<and>
     (coin_coinbase c \<longrightarrow>
        sint (coinbase_maturity ctx) \<le> sint (sc_height ctx) - sint (coin_height c))"

lemma coins_total_nonneg: "list_all (coin_spendable ctx) cs \<Longrightarrow> 0 \<le> coins_total cs"
  by (induction cs) (auto simp: coin_spendable_def)

lemma sint_depth: "sint (scast (h :: i32) - scast (c :: i32) :: i64) = sint h - sint c"
  using sint_minus_exact [of "scast h :: i64" "scast c"]
    sint32_lower [of h] sint32_upper [of h] sint32_lower [of c] sint32_upper [of c]
  by (simp add: sint_scast_32)

lemma money_range_iff: "money_range v limit \<longleftrightarrow> 0 \<le> sint v \<and> sint v \<le> sint limit"
  by (simp add: money_range_def word_sle_eq)

lemma input_sum_loop_result:
  assumes "0 \<le> sint acc" and "sint acc \<le> sint (max_money (sc_limits ctx)) \<or> acc = 0 \<and> coins = []"
  shows "input_sum_loop ctx coins acc = Inr t \<longleftrightarrow>
    list_all (coin_spendable ctx) coins \<and>
    (coins \<noteq> [] \<longrightarrow> sint acc + coins_total coins \<le> sint (max_money (sc_limits ctx))) \<and>
    sint t = sint acc + coins_total coins"
  using assms
proof (induction coins arbitrary: acc)
  case Nil
  then show ?case by (auto simp: sint_inject)
next
  case (Cons c coins)
  let ?v = "sint (output_value (coin_output c))" and ?max = "sint (max_money (sc_limits ctx))"
  have acc: "sint acc \<le> ?max" using Cons.prems(2) by simp
  have sub: "sint (max_money (sc_limits ctx) - output_value (coin_output c)) = ?max - ?v"
    if "0 \<le> ?v" "?v \<le> ?max"
    using that sint64_upper [of "max_money (sc_limits ctx)"] by (intro sint_minus_exact) simp_all
  show ?case
  proof (cases "coin_spendable ctx c \<and> ?v \<le> ?max \<and> sint acc + ?v \<le> ?max")
    case True
    then have v: "0 \<le> ?v" by (simp add: coin_spendable_def)
    have add: "sint (acc + output_value (coin_output c)) = sint acc + ?v"
      using True v Cons.prems(1) sint64_upper [of "max_money (sc_limits ctx)"]
      by (intro sint_plus_exact) simp_all
    have step: "input_sum_loop ctx (c # coins) acc
        = input_sum_loop ctx coins (acc + output_value (coin_output c))"
      using True v sub by (auto simp: sint_depth sint_scast_32 money_range_iff word_sless_alt coin_spendable_def)
    show ?thesis
      unfolding step using Cons.IH [of "acc + output_value (coin_output c)"] True v Cons.prems(1)
      by (cases "coins = []") (simp_all add: add add.assoc)
  next
    case False
    have "input_sum_loop ctx (c # coins) acc \<noteq> Inr t"
      using False sub by (auto simp: sint_depth sint_scast_32 money_range_iff word_sless_alt coin_spendable_def)
    moreover have "\<not> (list_all (coin_spendable ctx) (c # coins) \<and> sint acc + coins_total (c # coins) \<le> ?max)"
      using False Cons.prems(1) coins_total_nonneg [of ctx coins] by (auto simp: coin_spendable_def)
    ultimately show ?thesis by (metis list.distinct(1))
  qed
qed

lemma input_sum_loop_Inl: "input_sum_loop ctx coins acc = Inl r \<Longrightarrow> \<exists>i reason. r = spend_invalid i reason"
  by (induction ctx coins acc rule: input_sum_loop.induct) (auto split: if_splits)

lemma spend_invalid_neq [simp]: "spend_invalid i reason \<noteq> op_ok (decision_valid facts)"
  by (simp add: spend_invalid_def)


definition spend_facts_of :: "transaction_facts \<Rightarrow> coin list \<Rightarrow> spend_facts \<Rightarrow> bool" where
  "spend_facts_of tx_facts cs sf \<longleftrightarrow>
     sint (sf_input_value sf) = coins_total cs \<and> sf_output_value sf = tf_output_value tx_facts \<and>
     sint (sf_fee sf) = coins_total cs - sint (tf_output_value tx_facts)"

definition spend_ok :: "transaction \<Rightarrow> transaction_facts \<Rightarrow> spend_context \<Rightarrow> coin list \<Rightarrow> bool" where
  "spend_ok tx tx_facts ctx cs \<longleftrightarrow>
     length cs = length (tx_inputs tx) \<and> list_all (coin_spendable ctx) cs \<and>
     coins_total cs \<le> sint (max_money (sc_limits ctx)) \<and>
     sint (tf_output_value tx_facts) \<le> coins_total cs \<and>
     sequence_locks_satisfied tx ctx cs"

theorem spend_with_coins_accepts:
  assumes out: "0 \<le> sint (tf_output_value tx_facts)"
  shows "assess_transaction_spends_with_coins tx tx_facts ctx cs = op_ok (decision_valid sf) \<longleftrightarrow>
    spend_ok tx tx_facts ctx cs \<and> spend_facts_of tx_facts cs sf"
proof (cases "length cs = length (tx_inputs tx)")
  case len: True
  let ?max = "sint (max_money (sc_limits ctx))" and ?out = "tf_output_value tx_facts"
  show ?thesis
  proof (cases "input_sum_loop ctx cs 0")
    case (Inl r)
    have "\<not> spend_ok tx tx_facts ctx cs"
    proof
      assume ok: "spend_ok tx tx_facts ctx cs"
      then have tot: "0 \<le> coins_total cs" "coins_total cs \<le> ?max"
        using coins_total_nonneg [of ctx cs] by (auto simp: spend_ok_def)
      have "sint (word_of_int (coins_total cs) :: i64) = coins_total cs"
        using tot sint64_upper [of "max_money (sc_limits ctx)"]
        by (simp add: sint_sbintrunc' signed_take_bit_int_eq_self)
      then have "input_sum_loop ctx cs 0 = Inr (word_of_int (coins_total cs))"
        using ok tot by (subst input_sum_loop_result) (auto simp: spend_ok_def)
      with Inl show False by simp
    qed
    then show ?thesis
      using Inl input_sum_loop_Inl [OF Inl] len by (auto simp: assess_transaction_spends_with_coins_def)
  next
    case (Inr t)
    have max: "0 \<le> ?max" if "cs \<noteq> []"
      using Inr that by (cases cs) (auto simp: money_range_iff split: if_splits)
    then have sum: "list_all (coin_spendable ctx) cs" "cs \<noteq> [] \<Longrightarrow> coins_total cs \<le> ?max"
      "sint t = coins_total cs"
      using input_sum_loop_result [of 0 ctx cs t] Inr by (cases "cs = []"; simp)+
    have nonneg: "0 \<le> coins_total cs" by (rule coins_total_nonneg [OF sum(1)])
    have fee: "sint (t - ?out) = coins_total cs - sint ?out"
      using out nonneg sint64_upper [of t] sint64_upper [of ?out] sum(3)
      by (subst sint_minus_exact) simp_all
    have range: "sint ?out \<le> coins_total cs \<and> money_range (t - ?out) (max_money (sc_limits ctx)) \<longleftrightarrow>
        sint ?out \<le> coins_total cs \<and> coins_total cs \<le> ?max"
      using sum(2) out fee by (cases "cs = []") (auto simp: money_range_iff)
    have facts: "sf = \<lparr>sf_input_value = t, sf_output_value = ?out, sf_fee = t - ?out\<rparr> \<longleftrightarrow>
        spend_facts_of tx_facts cs sf"
      by (cases sf) (auto simp: spend_facts_of_def sum(3) [symmetric] fee [unfolded sum(3) [symmetric], symmetric]
          sint_inject)
    have "assess_transaction_spends_with_coins tx tx_facts ctx cs = op_ok (decision_valid sf) \<longleftrightarrow>
        (sint ?out \<le> coins_total cs \<and> money_range (t - ?out) (max_money (sc_limits ctx))) \<and>
        sequence_locks_satisfied tx ctx cs \<and>
        sf = \<lparr>sf_input_value = t, sf_output_value = ?out, sf_fee = t - ?out\<rparr>"
      using len Inr sum(3) by (auto simp: assess_transaction_spends_with_coins_def word_sless_alt not_less)
    then show ?thesis unfolding range facts spend_ok_def using len sum(1) by blast
  qed
qed (simp add: assess_transaction_spends_with_coins_def spend_ok_def)

theorem spends_accept:
  "assess_transaction_spends tx ctx index = op_ok (decision_valid sf) \<longleftrightarrow>
     tx_intrinsic_ok tx (sc_limits ctx) \<and>
     (\<exists>tx_facts. tx_facts_of tx tx_facts \<and>
       (if is_coinbase tx
        then sf = \<lparr>sf_input_value = 0, sf_output_value = tf_output_value tx_facts, sf_fee = 0\<rparr>
        else \<exists>cs. map (\<lambda>i. lookup_coin index (previous_output i)) (tx_inputs tx) = map (\<lambda>c. op_ok (Some c)) cs \<and>
          spend_ok tx tx_facts ctx cs \<and> spend_facts_of tx_facts cs sf))"
  (is "?lhs \<longleftrightarrow> ?rhs")
proof -
  have step: "?lhs \<longleftrightarrow> (\<exists>tx_facts. assess_transaction_intrinsic tx (sc_limits ctx) = op_ok (decision_valid tx_facts) \<and>
      (if tf_kind tx_facts = coinbase then verify_no_transaction_spends tx_facts = op_ok (decision_valid sf)
       else \<exists>cs. lookup_input_coins tx index = op_ok (decision_valid cs) \<and>
         assess_transaction_spends_with_coins tx tx_facts ctx cs = op_ok (decision_valid sf)))"
    by (auto simp: assess_transaction_spends_def verify_bind_valid)
  have out: "0 \<le> sint (tf_output_value tx_facts)"
    if "tx_intrinsic_ok tx (sc_limits ctx)" "tx_facts_of tx tx_facts" for tx_facts
    using that outputs_total_nonneg by (simp add: tx_intrinsic_ok_def tx_facts_of_def)
  have stage: "(if tf_kind tx_facts = coinbase then verify_no_transaction_spends tx_facts = op_ok (decision_valid sf)
       else \<exists>cs. lookup_input_coins tx index = op_ok (decision_valid cs) \<and>
         assess_transaction_spends_with_coins tx tx_facts ctx cs = op_ok (decision_valid sf)) =
      (if is_coinbase tx
        then sf = \<lparr>sf_input_value = 0, sf_output_value = tf_output_value tx_facts, sf_fee = 0\<rparr>
        else \<exists>cs. map (\<lambda>i. lookup_coin index (previous_output i)) (tx_inputs tx) = map (\<lambda>c. op_ok (Some c)) cs \<and>
          spend_ok tx tx_facts ctx cs \<and> spend_facts_of tx_facts cs sf)"
    if "tx_intrinsic_ok tx (sc_limits ctx)" "tx_facts_of tx tx_facts" for tx_facts
  proof -
    have "tf_kind tx_facts = coinbase \<longleftrightarrow> is_coinbase tx" using that(2) by (simp add: tx_facts_of_def)
    then show ?thesis
      unfolding lookup_input_coins_valid spend_with_coins_accepts [OF out [OF that]]
      by (auto simp: verify_no_transaction_spends_def)
  qed
  show ?thesis unfolding step tx_intrinsic_accepts using stage by blast
qed


subsection \<open>Relative locktimes\<close>

definition relative_lock :: "tx_input \<Rightarrow> int" where
  "relative_lock i = int (unat (input_sequence i AND sequence_locktime_mask))"

definition lock_disabled :: "tx_input \<Rightarrow> bool" where
  "lock_disabled i \<longleftrightarrow> input_sequence i AND sequence_disable_flag \<noteq> 0"

definition lock_by_time :: "tx_input \<Rightarrow> bool" where
  "lock_by_time i \<longleftrightarrow> input_sequence i AND sequence_type_flag \<noteq> 0"

definition lock_expired :: "spend_context \<Rightarrow> tx_input \<times> coin \<Rightarrow> bool" where
  "lock_expired ctx = (\<lambda>(i, c).
     lock_disabled i \<or>
     (if lock_by_time i
      then sint (coin_previous_mtp c) + 512 * relative_lock i \<le> sint (sc_previous_median_time_past ctx)
      else sint (coin_height c) + relative_lock i \<le> sint (sc_height ctx)))"

lemma relative_lock_range: "0 \<le> relative_lock i" "relative_lock i < 65536"
proof -
  have "input_sequence i AND sequence_locktime_mask = take_bit 16 (input_sequence i)"
    by (simp add: sequence_locktime_mask_def take_bit_eq_mask mask_eq_exp_minus_1)
  then have "unat (input_sequence i AND sequence_locktime_mask) = take_bit 16 (unat (input_sequence i))"
    by (simp only: unsigned_take_bit_eq)
  then have "unat (input_sequence i AND sequence_locktime_mask) < 65536"
    by (simp add: take_bit_eq_mod)
  then show "relative_lock i < 65536" unfolding relative_lock_def by linarith
  show "0 \<le> relative_lock i" unfolding relative_lock_def by linarith
qed

lemma sint_relative_lock:
  "sint (ucast (input_sequence i AND sequence_locktime_mask) :: i64) = relative_lock i"
  by (simp only: sint_ucast_time relative_lock_def)

lemma sint_relative_time:
  "sint (push_bit 9 (ucast (input_sequence i AND sequence_locktime_mask)) :: i64) = 512 * relative_lock i"
proof -
  have "push_bit 9 (ucast (input_sequence i AND sequence_locktime_mask)) =
      512 * (ucast (input_sequence i AND sequence_locktime_mask) :: i64)"
    by (simp add: push_bit_eq_mult mult.commute)
  then show ?thesis
    using relative_lock_range [of i]
    by (simp add: sint_word_ariths sint_relative_lock signed_take_bit_int_eq_self)
qed

lemma sint_i64_maximum: "sint (i64_maximum a b) = max (sint a) (sint b)"
  by (simp add: i64_maximum_def word_sless_alt)

lemma sint_lock_height:
  "sint (scast (coin_height c) + ucast (input_sequence i AND sequence_locktime_mask) - 1 :: i64)
     = sint (coin_height c) + relative_lock i - 1"
proof -
  note b = sint32_lower [of "coin_height c"] sint32_upper [of "coin_height c"] relative_lock_range [of i]
  have "sint (scast (coin_height c) + ucast (input_sequence i AND sequence_locktime_mask) :: i64)
      = sint (coin_height c) + relative_lock i"
    using b by (subst sint_plus_exact) (simp_all add: sint_scast_32 sint_relative_lock)
  then show ?thesis using b by (subst sint_minus_exact) simp_all
qed

lemma sint_lock_time:
  assumes "0 \<le> sint (coin_previous_mtp c)" and "sint (coin_previous_mtp c) < 2 ^ 62"
  shows "sint (coin_previous_mtp c + push_bit 9 (ucast (input_sequence i AND sequence_locktime_mask)) - 1)
     = sint (coin_previous_mtp c) + 512 * relative_lock i - 1"
proof -
  note b = assms relative_lock_range [of i]
  have "sint (coin_previous_mtp c + push_bit 9 (ucast (input_sequence i AND sequence_locktime_mask)))
      = sint (coin_previous_mtp c) + 512 * relative_lock i"
    using b by (subst sint_plus_exact) (simp_all add: sint_relative_time)
  then show ?thesis using b by (subst sint_minus_exact) simp_all
qed

lemma sequence_lock_loop_result:
  assumes "\<forall>(i, c)\<in>set pairs. 0 \<le> sint (coin_previous_mtp c) \<and> sint (coin_previous_mtp c) < 2 ^ 62"
  shows "(case sequence_lock_loop pairs mh mt of (h, t) \<Rightarrow>
      sint h < sint (sc_height ctx) \<and> sint t < sint (sc_previous_median_time_past ctx)) \<longleftrightarrow>
    sint mh < sint (sc_height ctx) \<and> sint mt < sint (sc_previous_median_time_past ctx) \<and>
    list_all (lock_expired ctx) pairs"
  using assms
proof (induction pairs arbitrary: mh mt)
  case (Cons p pairs)
  obtain i c where p: "p = (i, c)" by fastforce
  with Cons.prems have b: "0 \<le> sint (coin_previous_mtp c)" "sint (coin_previous_mtp c) < 2 ^ 62" by auto
  show ?case
    using Cons.IH Cons.prems
    by (auto simp: p lock_expired_def lock_disabled_def lock_by_time_def sint_i64_maximum
        sint_lock_height sint_lock_time [OF b])
qed simp

theorem sequence_locks_satisfied_iff:
  assumes "\<forall>c\<in>set cs. 0 \<le> sint (coin_previous_mtp c) \<and> sint (coin_previous_mtp c) < 2 ^ 62"
    and "0 \<le> sint (sc_height ctx)" and "0 \<le> sint (sc_previous_median_time_past ctx)"
  shows "sequence_locks_satisfied tx ctx cs \<longleftrightarrow>
    \<not> verify_sequence (sc_locktime ctx) \<or> sint (tx_version tx) < 2 \<or>
    list_all (lock_expired ctx) (zip (tx_inputs tx) cs)"
proof -
  have "\<forall>(i, c)\<in>set (zip (tx_inputs tx) cs). 0 \<le> sint (coin_previous_mtp c) \<and> sint (coin_previous_mtp c) < 2 ^ 62"
    using assms(1) by (auto dest: set_zip_rightD)
  from sequence_lock_loop_result [OF this, where mh = "- 1" and mt = "- 1" and ctx = ctx] assms(2,3) show ?thesis
    by (simp add: sequence_locks_satisfied_def word_sless_alt sint_scast_32)
qed

lemma lookup_inputs_first_failure:
  assumes "\<forall>j\<in>set found. \<exists>c. lookup (previous_output j) = op_ok (Some c)"
    and "\<nexists>c. lookup (previous_output i) = op_ok (Some c)"
  shows "lookup_inputs_loop lookup (found @ i # rest) =
    (case lookup (previous_output i) of
       op_failed e \<Rightarrow> op_failed e
     | op_ok _ \<Rightarrow> op_ok (decision_invalid (Rejection rule_violation s02_prevouts_unspent
         ''transaction input prevout is not present'')))"
  using assms
proof (induction found)
  case Nil
  then show ?case by (auto split: operation_result.splits option.splits)
next
  case (Cons j found)
  then obtain c where "lookup (previous_output j) = op_ok (Some c)" by auto
  with Cons show ?case by (auto split: operation_result.splits)
qed

lemma spends_first_failure:
  assumes "tx_intrinsic_ok tx (sc_limits ctx)" and "\<not> is_coinbase tx" and "tx_inputs tx = found @ i # rest"
    and "\<forall>j\<in>set found. \<exists>c. lookup_coin coins (previous_output j) = op_ok (Some c)"
    and "\<nexists>c. lookup_coin coins (previous_output i) = op_ok (Some c)"
  shows "assess_transaction_spends tx ctx coins =
    (case lookup_coin coins (previous_output i) of
       op_failed e \<Rightarrow> op_failed e
     | op_ok _ \<Rightarrow> op_ok (decision_invalid (Rejection rule_violation s02_prevouts_unspent
         ''transaction input prevout is not present'')))"
proof -
  from tx_facts_exist [OF assms(1)] obtain tf where tf: "tx_facts_of tx tf" by blast
  then have "assess_transaction_intrinsic tx (sc_limits ctx) = op_ok (decision_valid tf)"
    using assms(1) by (simp add: tx_intrinsic_accepts)
  moreover have "tf_kind tf \<noteq> coinbase" using tf assms(2) by (simp add: tx_facts_of_def)
  ultimately show ?thesis
    unfolding assess_transaction_spends_def lookup_input_coins_def
    using lookup_inputs_first_failure [OF assms(4,5), of rest] assms(3)
    by (simp add: operation_exception_boundary_def split: operation_result.splits)
qed

end
