(* ===== verification/Script_Flags.thy ===== *)
theory Script_Flags
  imports Prelude
begin

text \<open>
  The script verification flags: the enumeration of \<^verbatim>\<open>script/interpreter.h\<close> and the flag set of
  \<^verbatim>\<open>script/verify_flags.h\<close>, a 64-bit word with one bit for each name.
\<close>

type_synonym script_verify_flags = u64

datatype script_verify_flag_name =
    SCRIPT_VERIFY_P2SH
  | SCRIPT_VERIFY_STRICTENC
  | SCRIPT_VERIFY_DERSIG
  | SCRIPT_VERIFY_LOW_S
  | SCRIPT_VERIFY_NULLDUMMY
  | SCRIPT_VERIFY_SIGPUSHONLY
  | SCRIPT_VERIFY_MINIMALDATA
  | SCRIPT_VERIFY_DISCOURAGE_UPGRADABLE_NOPS
  | SCRIPT_VERIFY_CLEANSTACK
  | SCRIPT_VERIFY_CHECKLOCKTIMEVERIFY
  | SCRIPT_VERIFY_CHECKSEQUENCEVERIFY
  | SCRIPT_VERIFY_WITNESS
  | SCRIPT_VERIFY_DISCOURAGE_UPGRADABLE_WITNESS_PROGRAM
  | SCRIPT_VERIFY_MINIMALIF
  | SCRIPT_VERIFY_NULLFAIL
  | SCRIPT_VERIFY_WITNESS_PUBKEYTYPE
  | SCRIPT_VERIFY_CONST_SCRIPTCODE
  | SCRIPT_VERIFY_TAPROOT
  | SCRIPT_VERIFY_DISCOURAGE_UPGRADABLE_TAPROOT_VERSION
  | SCRIPT_VERIFY_DISCOURAGE_OP_SUCCESS
  | SCRIPT_VERIFY_DISCOURAGE_UPGRADABLE_PUBKEYTYPE

text \<open>The values of the enumeration are the positions of its names.\<close>

fun flag_position :: "script_verify_flag_name \<Rightarrow> nat" where
  "flag_position SCRIPT_VERIFY_P2SH = 0"
| "flag_position SCRIPT_VERIFY_STRICTENC = 1"
| "flag_position SCRIPT_VERIFY_DERSIG = 2"
| "flag_position SCRIPT_VERIFY_LOW_S = 3"
| "flag_position SCRIPT_VERIFY_NULLDUMMY = 4"
| "flag_position SCRIPT_VERIFY_SIGPUSHONLY = 5"
| "flag_position SCRIPT_VERIFY_MINIMALDATA = 6"
| "flag_position SCRIPT_VERIFY_DISCOURAGE_UPGRADABLE_NOPS = 7"
| "flag_position SCRIPT_VERIFY_CLEANSTACK = 8"
| "flag_position SCRIPT_VERIFY_CHECKLOCKTIMEVERIFY = 9"
| "flag_position SCRIPT_VERIFY_CHECKSEQUENCEVERIFY = 10"
| "flag_position SCRIPT_VERIFY_WITNESS = 11"
| "flag_position SCRIPT_VERIFY_DISCOURAGE_UPGRADABLE_WITNESS_PROGRAM = 12"
| "flag_position SCRIPT_VERIFY_MINIMALIF = 13"
| "flag_position SCRIPT_VERIFY_NULLFAIL = 14"
| "flag_position SCRIPT_VERIFY_WITNESS_PUBKEYTYPE = 15"
| "flag_position SCRIPT_VERIFY_CONST_SCRIPTCODE = 16"
| "flag_position SCRIPT_VERIFY_TAPROOT = 17"
| "flag_position SCRIPT_VERIFY_DISCOURAGE_UPGRADABLE_TAPROOT_VERSION = 18"
| "flag_position SCRIPT_VERIFY_DISCOURAGE_OP_SUCCESS = 19"
| "flag_position SCRIPT_VERIFY_DISCOURAGE_UPGRADABLE_PUBKEYTYPE = 20"

definition script_flag :: "script_verify_flag_name \<Rightarrow> script_verify_flags" where
  "script_flag f = push_bit (flag_position f) 1"

text \<open>The test \<open>flags & f\<close>.\<close>

definition flag_set :: "script_verify_flags \<Rightarrow> script_verify_flag_name \<Rightarrow> bool" where
  "flag_set flags f \<longleftrightarrow> flags AND script_flag f \<noteq> 0"

lemma flag_position_less: "flag_position f < 21"
  by (cases f) simp_all

lemma flag_position_inject: "flag_position f = flag_position g \<longleftrightarrow> f = g"
  by (cases f; cases g) simp_all

lemma bit_script_flag: "bit (script_flag f) n \<longleftrightarrow> n = flag_position f"
  using flag_position_less [of f] by (auto simp: script_flag_def bit_simps)

theorem flag_set_bit: "flag_set flags f \<longleftrightarrow> bit flags (flag_position f)"
proof
  assume "flag_set flags f"
  then obtain n where "bit (flags AND script_flag f) n"
    by (metis flag_set_def bit_eq_iff bit_0_eq bot_apply bot_bool_def)
  then show "bit flags (flag_position f)" by (auto simp: bit_and_iff bit_script_flag)
next
  assume "bit flags (flag_position f)"
  then have "bit (flags AND script_flag f) (flag_position f)" by (simp add: bit_and_iff bit_script_flag)
  then show "flag_set flags f" by (auto simp: flag_set_def)
qed

lemma flag_set_or: "flag_set (a OR b) f \<longleftrightarrow> flag_set a f \<or> flag_set b f"
  by (simp add: flag_set_bit bit_or_iff)

lemma flag_set_script_flag [simp]: "flag_set (script_flag g) f \<longleftrightarrow> f = g"
  by (auto simp: flag_set_bit bit_script_flag flag_position_inject)

lemma flag_set_0 [simp]: "\<not> flag_set 0 f"
  by (simp add: flag_set_bit)

end
