(* ===== verification/Script_Validation.thy ===== *)
theory Script_Validation
  imports Spend_Validation Script_Flags
begin

text \<open>
  Script checks of \<^verbatim>\<open>validation/script.cpp\<close> and \<^verbatim>\<open>validation/script.h\<close>: the conversion of a
  transaction and its spent outputs to the types of the script interpreter, the translation of the
  verification flags, the guards of \<open>verify_script\<close>, and the loop over the inputs of a transaction.

  The interpreter entry point \<open>VerifyScript\<close> is an argument of type \<open>script_interpreter\<close>. It gets
  everything the code hands to it: the two scripts, the witness, the flags, the transaction, the input
  index, the amount and the spent outputs that the signature checker is built from. It returns a
  verdict, runs out of memory or throws.
\<close>

subsection \<open>The interpreter's types\<close>

record core_outpoint =
  core_hash :: "byte list"
  core_n :: u32

record core_tx_in =
  core_prevout :: core_outpoint
  core_script_sig :: "byte list"
  core_sequence :: u32
  core_script_witness :: "byte list list"

record core_tx_out =
  core_value :: i64
  core_script_pub_key :: "byte list"

record core_transaction =
  core_version :: u32
  core_vin :: "core_tx_in list"
  core_vout :: "core_tx_out list"
  core_lock_time :: u32

type_synonym script_interpreter =
  "byte list \<Rightarrow> byte list \<Rightarrow> byte list list \<Rightarrow> script_verify_flags \<Rightarrow>
   core_transaction \<Rightarrow> u32 \<Rightarrow> i64 \<Rightarrow> core_tx_out list \<Rightarrow> bool call"

subsection \<open>Conversion\<close>

definition to_core_transaction_version :: "i32 \<Rightarrow> u32" where
  "to_core_transaction_version v = v"

definition to_core_outpoint :: "outpoint \<Rightarrow> core_outpoint" where
  "to_core_outpoint p = \<lparr>core_hash = op_txid p, core_n = op_index p\<rparr>"

definition to_core_tx_input :: "tx_input \<Rightarrow> core_tx_in" where
  "to_core_tx_input i =
     \<lparr>core_prevout = to_core_outpoint (previous_output i), core_script_sig = input_script i,
      core_sequence = input_sequence i, core_script_witness = input_witness i\<rparr>"

definition to_core_tx_output :: "tx_output \<Rightarrow> core_tx_out" where
  "to_core_tx_output out = \<lparr>core_value = output_value out, core_script_pub_key = output_script out\<rparr>"

definition to_core_transaction :: "transaction \<Rightarrow> core_transaction" where
  "to_core_transaction tx =
     \<lparr>core_version = to_core_transaction_version (tx_version tx),
      core_vin = map to_core_tx_input (tx_inputs tx), core_vout = map to_core_tx_output (tx_outputs tx),
      core_lock_time = tx_locktime tx\<rparr>"

definition to_core_spent_outputs :: "tx_output list \<Rightarrow> core_tx_out list" where
  "to_core_spent_outputs prevouts = map to_core_tx_output prevouts"

subsection \<open>Flags\<close>

definition flag_if :: "bool \<Rightarrow> script_verify_flags \<Rightarrow> script_verify_flags" where
  "flag_if b f = (if b then f else 0)"

definition to_core_flags :: "verification_flags \<Rightarrow> script_verify_flags" where
  "to_core_flags flags =
     flag_if (flags_contains flags p2sh_mask) (script_flag SCRIPT_VERIFY_P2SH) OR
     flag_if (flags_contains flags dersig_mask) (script_flag SCRIPT_VERIFY_DERSIG) OR
     flag_if (flags_contains flags nulldummy_mask) (script_flag SCRIPT_VERIFY_NULLDUMMY) OR
     flag_if (flags_contains flags checklocktimeverify_mask) (script_flag SCRIPT_VERIFY_CHECKLOCKTIMEVERIFY) OR
     flag_if (flags_contains flags checksequenceverify_mask) (script_flag SCRIPT_VERIFY_CHECKSEQUENCEVERIFY) OR
     flag_if (flags_contains flags witness_mask \<or> flags_contains flags taproot_mask)
       (script_flag SCRIPT_VERIFY_P2SH OR script_flag SCRIPT_VERIFY_WITNESS) OR
     flag_if (flags_contains flags taproot_mask) (script_flag SCRIPT_VERIFY_TAPROOT)"

subsection \<open>One script\<close>

datatype script_execution_result =
    script_valid
  | script_invalid string
  | script_failed operation_error

definition script_failure :: "operation_error_code \<Rightarrow> string \<Rightarrow> script_execution_result" where
  "script_failure code reason = script_failed (Operation_error code reason)"

definition script_rejected :: script_execution_result where
  "script_rejected = script_invalid ''script interpreter rejected the input''"

definition verify_script ::
  "script_interpreter \<Rightarrow> script \<Rightarrow> amount \<Rightarrow> transaction \<Rightarrow> nat \<Rightarrow> verification_flags \<Rightarrow>
   tx_output list \<Rightarrow> script_execution_result" where
  "verify_script VerifyScript previous_script spent_amount tx input_index flags prevouts =
     (if input_index \<ge> length (tx_inputs tx) then
        script_failure invariant_violation ''script input index is outside the transaction input range''
      else if length prevouts \<noteq> length (tx_inputs tx) then
        script_failure invariant_violation ''script prevout count does not match transaction input count''
      else if output_value (prevouts ! input_index) \<noteq> spent_amount \<or>
          output_script (prevouts ! input_index) \<noteq> previous_script then
        script_failure invariant_violation ''script prevout evidence does not match the input being verified''
      else if input_index > 2 ^ 32 - 1 then
        script_failure invariant_violation ''script input index exceeds the interpreter input range''
      else
        (let core_tx = to_core_transaction tx; input = core_vin core_tx ! input_index;
             previous_output = to_core_tx_output (prevouts ! input_index)
         in case VerifyScript (core_script_sig input) (core_script_pub_key previous_output)
                (core_script_witness input) (to_core_flags flags) core_tx (of_nat input_index)
                spent_amount (to_core_spent_outputs prevouts) of
              Return ok \<Rightarrow> if ok then script_valid else script_rejected
            | BadAlloc \<Rightarrow> script_failure resource_exhaustion ''script verification exhausted resources''
            | Throw \<Rightarrow> script_failure internal_bug ''script verification threw an exception''))"

subsection \<open>All scripts of a transaction\<close>

definition invalid_script :: "string \<Rightarrow> spend_facts verify_result" where
  "invalid_script reason = spend_invalid s07_scripts_validate reason"

definition previous_outputs :: "coin list \<Rightarrow> tx_output list" where
  "previous_outputs input_coins = map coin_output input_coins"

text \<open>The loop over input indices; \<open>spend_result\<close> is what is returned when every script is valid.\<close>

fun verify_scripts_loop ::
  "script_interpreter \<Rightarrow> transaction \<Rightarrow> verification_flags \<Rightarrow> tx_output list \<Rightarrow>
   spend_facts verify_result \<Rightarrow> nat list \<Rightarrow> spend_facts verify_result" where
  "verify_scripts_loop VerifyScript tx flags prevouts spend_result [] = spend_result"
| "verify_scripts_loop VerifyScript tx flags prevouts spend_result (input_index # rest) =
     (case verify_script VerifyScript (output_script (prevouts ! input_index))
         (output_value (prevouts ! input_index)) tx input_index flags prevouts of
        script_valid \<Rightarrow> verify_scripts_loop VerifyScript tx flags prevouts spend_result rest
      | script_invalid reason \<Rightarrow> invalid_script reason
      | script_failed e \<Rightarrow> op_failed e)"

definition verify_transaction_scripts ::
  "script_interpreter \<Rightarrow> transaction \<Rightarrow> spend_context \<Rightarrow> verification_flags \<Rightarrow> coin list \<Rightarrow>
   spend_facts verify_result" where
  "verify_transaction_scripts VerifyScript tx spend flags input_coins =
     verify_exception_boundary (Return
       (verify_bind (assess_transaction_intrinsic tx (sc_limits spend)) (\<lambda>tx_facts.
          if tf_kind tx_facts = coinbase then verify_no_transaction_spends tx_facts
          else verify_bind (assess_transaction_spends_with_coins tx tx_facts spend input_coins) (\<lambda>sf.
            verify_scripts_loop VerifyScript tx flags (previous_outputs input_coins)
              (op_ok (decision_valid sf)) [0..<length (tx_inputs tx)]))))
       ''transaction script validation exhausted resources'' internal_bug
       ''transaction script validation threw an exception''"

text \<open>The overload that looks the coins up first.\<close>

definition verify_transaction_scripts_from ::
  "script_interpreter \<Rightarrow> transaction \<Rightarrow> spend_context \<Rightarrow> verification_flags \<Rightarrow> coin_source \<Rightarrow>
   spend_facts verify_result" where
  "verify_transaction_scripts_from VerifyScript tx spend flags index =
     verify_exception_boundary (Return
       (verify_bind (assess_transaction_intrinsic tx (sc_limits spend)) (\<lambda>tx_facts.
          if tf_kind tx_facts = coinbase then verify_no_transaction_spends tx_facts
          else verify_bind (lookup_input_coins tx index)
            (verify_transaction_scripts VerifyScript tx spend flags))))
       ''transaction script validation exhausted resources'' internal_bug
       ''transaction script validation threw an exception''"

subsection \<open>What acceptance means\<close>

text \<open>The interpreter accepts input \<open>i\<close> of \<open>tx\<close> against the outputs it spends.\<close>

definition input_script_ok ::
  "script_interpreter \<Rightarrow> transaction \<Rightarrow> verification_flags \<Rightarrow> tx_output list \<Rightarrow> nat \<Rightarrow> bool" where
  "input_script_ok VerifyScript tx flags prevouts i \<longleftrightarrow>
     VerifyScript (input_script (tx_inputs tx ! i)) (output_script (prevouts ! i))
       (input_witness (tx_inputs tx ! i)) (to_core_flags flags) (to_core_transaction tx) (of_nat i)
       (output_value (prevouts ! i)) (to_core_spent_outputs prevouts) = Return True"

lemma verify_script_valid:
  "verify_script V ps am tx i flags prevouts = script_valid \<longleftrightarrow>
     i < length (tx_inputs tx) \<and> length prevouts = length (tx_inputs tx) \<and>
     output_value (prevouts ! i) = am \<and> output_script (prevouts ! i) = ps \<and> i < 2 ^ 32 \<and>
     input_script_ok V tx flags prevouts i"
  by (auto simp: verify_script_def script_failure_def script_rejected_def input_script_ok_def Let_def
      to_core_transaction_def to_core_tx_input_def to_core_tx_output_def split: call.splits)

lemma verify_scripts_loop_valid:
  "verify_scripts_loop V tx flags prevouts (op_ok (decision_valid sf)) is = op_ok (decision_valid sf') \<longleftrightarrow>
     sf' = sf \<and> (\<forall>i\<in>set is. verify_script V (output_script (prevouts ! i))
       (output_value (prevouts ! i)) tx i flags prevouts = script_valid)"
  by (induction "is") (auto simp: invalid_script_def spend_invalid_def split: script_execution_result.splits)

lemma tx_facts_coinbase: "tx_facts_of tx tf \<Longrightarrow> tf_kind tf = coinbase \<longleftrightarrow> is_coinbase tx"
  by (simp add: tx_facts_of_def)

theorem transaction_scripts_accept:
  "verify_transaction_scripts V tx spend flags cs = op_ok (decision_valid sf) \<longleftrightarrow>
     tx_intrinsic_ok tx (sc_limits spend) \<and>
     (\<exists>tf. tx_facts_of tx tf \<and>
       (if is_coinbase tx
        then sf = \<lparr>sf_input_value = 0, sf_output_value = tf_output_value tf, sf_fee = 0\<rparr>
        else assess_transaction_spends_with_coins tx tf spend cs = op_ok (decision_valid sf) \<and>
          (\<forall>i<length (tx_inputs tx). i < 2 ^ 32 \<and> input_script_ok V tx flags (map coin_output cs) i)))"
proof -
  have len: "length cs = length (tx_inputs tx)"
    if "assess_transaction_spends_with_coins tx tf spend cs = op_ok (decision_valid s)" for tf s
    using that by (auto simp: assess_transaction_spends_with_coins_def split: if_splits)
  have loop: "verify_scripts_loop V tx flags (map coin_output cs) (op_ok (decision_valid s))
      [0..<length (tx_inputs tx)] = op_ok (decision_valid sf) \<longleftrightarrow>
      sf = s \<and> (\<forall>i<length (tx_inputs tx). i < 2 ^ 32 \<and> input_script_ok V tx flags (map coin_output cs) i)"
    if "length cs = length (tx_inputs tx)" for s
    unfolding verify_scripts_loop_valid verify_script_valid using that by auto
  have steps: "verify_bind (assess_transaction_spends_with_coins tx tf spend cs)
      (\<lambda>s. verify_scripts_loop V tx flags (map coin_output cs) (op_ok (decision_valid s))
        [0..<length (tx_inputs tx)]) = op_ok (decision_valid sf) \<longleftrightarrow>
      assess_transaction_spends_with_coins tx tf spend cs = op_ok (decision_valid sf) \<and>
      (\<forall>i<length (tx_inputs tx). i < 2 ^ 32 \<and> input_script_ok V tx flags (map coin_output cs) i)" for tf
    unfolding verify_bind_valid
  proof safe
    fix s
    assume s: "assess_transaction_spends_with_coins tx tf spend cs = op_ok (decision_valid s)"
      and l: "verify_scripts_loop V tx flags (map coin_output cs) (op_ok (decision_valid s))
        [0..<length (tx_inputs tx)] = op_ok (decision_valid sf)"
    note ok = l [unfolded loop [OF len [OF s]]]
    from ok s show "assess_transaction_spends_with_coins tx tf spend cs = op_ok (decision_valid sf)" by simp
    fix i assume "i < length (tx_inputs tx)"
    with ok show "i < 2 ^ 32" "input_script_ok V tx flags (map coin_output cs) i" by blast+
  next
    assume s: "assess_transaction_spends_with_coins tx tf spend cs = op_ok (decision_valid sf)"
      and "\<forall>i<length (tx_inputs tx). i < 2 ^ 32 \<and> input_script_ok V tx flags (map coin_output cs) i"
    then have "verify_scripts_loop V tx flags (map coin_output cs) (op_ok (decision_valid sf))
        [0..<length (tx_inputs tx)] = op_ok (decision_valid sf)"
      unfolding loop [OF len [OF s]] by blast
    with s show "\<exists>s. assess_transaction_spends_with_coins tx tf spend cs = op_ok (decision_valid s) \<and>
      verify_scripts_loop V tx flags (map coin_output cs) (op_ok (decision_valid s))
        [0..<length (tx_inputs tx)] = op_ok (decision_valid sf)"
      by blast
  qed
  show ?thesis
    unfolding verify_transaction_scripts_def verify_exception_boundary_Return
      verify_bind_valid [of "assess_transaction_intrinsic tx (sc_limits spend)"]
      tx_intrinsic_accepts previous_outputs_def
    by (rule iffI; elim conjE exE; intro conjI exI)
      (auto simp: tx_facts_coinbase verify_no_transaction_spends_def steps split: if_splits)
qed

theorem taproot_implies_witness_and_p2sh:
  assumes "flags_contains flags taproot_mask"
  shows "flag_set (to_core_flags flags) SCRIPT_VERIFY_P2SH \<and> flag_set (to_core_flags flags) SCRIPT_VERIFY_WITNESS \<and>
    flag_set (to_core_flags flags) SCRIPT_VERIFY_TAPROOT"
  using assms by (simp add: to_core_flags_def flag_if_def flag_set_or)

text \<open>Only consensus flags are ever requested, and witness evaluation always with pay-to-script-hash.\<close>

lemma to_core_flags_set:
  "flag_set (to_core_flags flags) f \<longleftrightarrow>
     (case f of
        SCRIPT_VERIFY_P2SH \<Rightarrow> flags_contains flags p2sh_mask \<or> flags_contains flags witness_mask \<or> flags_contains flags taproot_mask
      | SCRIPT_VERIFY_DERSIG \<Rightarrow> flags_contains flags dersig_mask
      | SCRIPT_VERIFY_NULLDUMMY \<Rightarrow> flags_contains flags nulldummy_mask
      | SCRIPT_VERIFY_CHECKLOCKTIMEVERIFY \<Rightarrow> flags_contains flags checklocktimeverify_mask
      | SCRIPT_VERIFY_CHECKSEQUENCEVERIFY \<Rightarrow> flags_contains flags checksequenceverify_mask
      | SCRIPT_VERIFY_WITNESS \<Rightarrow> flags_contains flags witness_mask \<or> flags_contains flags taproot_mask
      | SCRIPT_VERIFY_TAPROOT \<Rightarrow> flags_contains flags taproot_mask
      | _ \<Rightarrow> False)"
  by (cases f) (auto simp: to_core_flags_def flag_if_def flag_set_or)

end
