(* ===== verification/Pow_Number.thy ===== *)
theory Pow_Number
  imports Endian Validation_Results
begin

text \<open>
  The 256-bit proof-of-work number of \<^verbatim>\<open>validation/header.cpp\<close> (class \<open>pow_number\<close>): eight
  32-bit limbs, least significant first, with the compact "bits" encoding, multiplication and
  division by a 64-bit number through 128-bit intermediates, and comparison.

  \<open>pow_val\<close> is the natural number that the limbs denote. Each operation is shown to compute the
  corresponding operation on naturals, including the cases where the machine arithmetic truncates.
\<close>

subsection \<open>Operations\<close>

type_synonym pow_number = "u32 list"

datatype strong_ordering = order_less | order_equal | order_greater

definition pow_zero_number :: pow_number where
  "pow_zero_number = replicate 8 0"

definition limb_from_bytes :: "byte list \<Rightarrow> nat \<Rightarrow> u32" where
  "limb_from_bytes bytes limb =
     fold (\<lambda>byte v. v OR push_bit (8 * byte) (ucast (bytes ! (limb * 4 + byte)))) [0..<4] 0"

definition from_bytes :: "byte list \<Rightarrow> pow_number" where
  "from_bytes bytes = map (limb_from_bytes bytes) [0..<8]"

definition compact_size_byte :: "u32 \<Rightarrow> nat" where
  "compact_size_byte compact = unat (ucast (drop_bit 24 compact) :: byte)"

definition compact_word :: "u32 \<Rightarrow> u32" where
  "compact_word compact = compact AND 0x007fffff"

definition from_compact :: "u32 \<Rightarrow> pow_number" where
  "from_compact compact =
     (let sz = compact_size_byte compact; word = compact_word compact in
      if sz \<le> 3 then pow_zero_number[0 := drop_bit (8 * (3 - sz)) word]
      else
        (let offset = sz - 3; limb = offset div 4; shift = (offset mod 4) * 8;
             r1 = (if limb < 8 then pow_zero_number[limb := pow_zero_number ! limb OR push_bit shift word]
                   else pow_zero_number)
         in if shift > 8 \<and> limb + 1 < 8
            then r1[limb + 1 := r1 ! (limb + 1) OR drop_bit (32 - shift) word] else r1))"

definition pow_is_zero :: "pow_number \<Rightarrow> bool" where
  "pow_is_zero n \<longleftrightarrow> list_all (\<lambda>limb. limb = 0) n"

definition byte_at :: "pow_number \<Rightarrow> nat \<Rightarrow> byte" where
  "byte_at n index = ucast (drop_bit (8 * (index mod 4)) (n ! (index div 4)) AND 0xff)"

fun byte_size_loop :: "pow_number \<Rightarrow> nat \<Rightarrow> nat" where
  "byte_size_loop n 0 = 0"
| "byte_size_loop n (Suc index) = (if byte_at n index \<noteq> 0 then Suc index else byte_size_loop n index)"

definition byte_size :: "pow_number \<Rightarrow> nat" where
  "byte_size n = byte_size_loop n 32"

definition compact_mantissa :: "pow_number \<Rightarrow> nat \<Rightarrow> u32" where
  "compact_mantissa n sz =
     (if sz \<le> 3
      then push_bit (8 * (3 - sz))
        (fold (\<lambda>index c. c OR push_bit (8 * index) (ucast (byte_at n index))) [0..<sz] 0)
      else ucast (byte_at n (sz - 3)) OR push_bit 8 (ucast (byte_at n (sz - 2))) OR
        push_bit 16 (ucast (byte_at n (sz - 1))))"

definition to_compact :: "pow_number \<Rightarrow> u32" where
  "to_compact n =
     (let sz = byte_size n; compact = compact_mantissa n sz in
      if compact AND 0x00800000 \<noteq> 0
      then drop_bit 8 compact OR push_bit 24 (of_nat (sz + 1))
      else compact OR push_bit 24 (of_nat sz))"

fun multiply_loop :: "pow_number \<Rightarrow> u64 \<Rightarrow> 128 word \<Rightarrow> pow_number \<times> 128 word" where
  "multiply_loop [] factor carry = ([], carry)"
| "multiply_loop (limb # limbs) factor carry =
     (case multiply_loop limbs factor (drop_bit 32 (ucast limb * ucast factor + carry)) of
        (limbs', carry') \<Rightarrow> (ucast (ucast limb * ucast factor + carry :: 128 word) # limbs', carry'))"

definition multiply :: "pow_number \<Rightarrow> u64 \<Rightarrow> bool \<times> pow_number" where
  "multiply n factor =
     (case multiply_loop n factor 0 of (limbs, carry) \<Rightarrow> (carry \<noteq> 0, limbs))"

text \<open>The division runs from the most significant limb: its list is the reversed limb array.\<close>

fun divide_loop :: "pow_number \<Rightarrow> u64 \<Rightarrow> 128 word \<Rightarrow> pow_number" where
  "divide_loop [] divisor remainder = []"
| "divide_loop (limb # limbs) divisor remainder =
     ucast ((push_bit 32 remainder OR ucast limb) div ucast divisor) #
     divide_loop limbs divisor ((push_bit 32 remainder OR ucast limb) mod ucast divisor)"

definition divide :: "pow_number \<Rightarrow> u64 \<Rightarrow> pow_number" where
  "divide n divisor = rev (divide_loop (rev n) divisor 0)"

definition pow_bytes :: "pow_number \<Rightarrow> byte list" where
  "pow_bytes n =
     concat (map (\<lambda>v. map (\<lambda>byte. ucast (drop_bit (8 * byte) v AND 0xff)) [0..<4]) n)"

fun pow_compare_loop :: "pow_number \<Rightarrow> pow_number \<Rightarrow> nat \<Rightarrow> strong_ordering" where
  "pow_compare_loop left right 0 = order_equal"
| "pow_compare_loop left right (Suc index) =
     (if left ! index \<noteq> right ! index
      then (if left ! index < right ! index then order_less else order_greater)
      else pow_compare_loop left right index)"

definition pow_compare :: "pow_number \<Rightarrow> pow_number \<Rightarrow> strong_ordering" where
  "pow_compare left right = pow_compare_loop left right 8"

definition pow_greater :: "pow_number \<Rightarrow> pow_number \<Rightarrow> bool" where
  "pow_greater left right \<longleftrightarrow> pow_compare left right = order_greater"

definition compact_negative :: "u32 \<Rightarrow> bool" where
  "compact_negative compact \<longleftrightarrow> compact AND 0x00800000 \<noteq> 0 \<and> compact AND 0x007fffff \<noteq> 0"

definition compact_overflows :: "u32 \<Rightarrow> bool" where
  "compact_overflows compact \<longleftrightarrow>
     (let sz = drop_bit 24 compact; word = compact AND 0x007fffff in
      word \<noteq> 0 \<and> (sz > 34 \<or> (word > 0xff \<and> sz > 33) \<or> (word > 0xffff \<and> sz > 32)))"

subsection \<open>The number the limbs denote\<close>

fun pow_val :: "pow_number \<Rightarrow> nat" where
  "pow_val [] = 0"
| "pow_val (limb # limbs) = unat limb + 2 ^ 32 * pow_val limbs"

fun bytes_val :: "byte list \<Rightarrow> nat" where
  "bytes_val [] = 0"
| "bytes_val (b # bs) = unat b + 256 * bytes_val bs"

definition pow_ok :: "pow_number \<Rightarrow> bool" where
  "pow_ok n \<longleftrightarrow> length n = 8"

lemma pow_val_append: "pow_val (xs @ ys) = pow_val xs + 2 ^ (32 * length xs) * pow_val ys"
  by (induction xs) (simp_all add: algebra_simps power_add)

lemma bytes_val_append: "bytes_val (xs @ ys) = bytes_val xs + 256 ^ length xs * bytes_val ys"
  by (induction xs) (simp_all add: algebra_simps)

lemma pow_val_less: "pow_val n < 2 ^ (32 * length n)"
proof (induction n)
  case (Cons l ls)
  have "unat l + 2 ^ 32 * pow_val ls < 2 ^ 32 + 2 ^ 32 * pow_val ls"
    using unat32_upper [of l] by simp
  also have "\<dots> = 2 ^ 32 * Suc (pow_val ls)" by simp
  also have "\<dots> \<le> 2 ^ 32 * 2 ^ (32 * length ls)" using Cons.IH by (intro mult_le_mono2) simp
  finally show ?case by (simp add: power_add)
qed simp

lemma bytes_val_less: "bytes_val bs < 256 ^ length bs"
proof (induction bs)
  case (Cons b bs)
  have "unat b + 256 * bytes_val bs < 256 + 256 * bytes_val bs" using unat8_upper [of b] by simp
  also have "\<dots> = 256 * Suc (bytes_val bs)" by simp
  also have "\<dots> \<le> 256 * 256 ^ length bs" using Cons.IH by (intro mult_le_mono2) simp
  finally show ?case by simp
qed simp

lemma pow_val_inject: "length m = length n \<Longrightarrow> pow_val m = pow_val n \<longleftrightarrow> m = n"
proof (induction m n rule: list_induct2)
  case (Cons a as b bs)
  have "unat a = unat b \<and> pow_val as = pow_val bs"
    if "unat a + 2 ^ 32 * pow_val as = unat b + 2 ^ 32 * pow_val bs"
    using arg_cong [OF that, of "\<lambda>x. x mod 2 ^ 32"] arg_cong [OF that, of "\<lambda>x. x div 2 ^ 32"]
      unat32_upper [of a] unat32_upper [of b] by simp
  then show ?case using Cons.IH by (auto simp: word_unat_eq_iff)
qed simp

lemma pow_val_zero: "pow_val n = 0 \<longleftrightarrow> pow_is_zero n"
  by (induction n) (auto simp: pow_is_zero_def unat_eq_zero)

lemma pow_val_update:
  "k < length n \<Longrightarrow> pow_val (n[k := x]) + 2 ^ (32 * k) * unat (n ! k) = pow_val n + 2 ^ (32 * k) * unat x"
proof (induction n arbitrary: k)
  case (Cons l ls)
  show ?case
  proof (cases k)
    case (Suc j)
    with Cons have "pow_val (ls[j := x]) + 2 ^ (32 * j) * unat (ls ! j) = pow_val ls + 2 ^ (32 * j) * unat x"
      by simp
    from arg_cong [OF this, of "\<lambda>t. 2 ^ 32 * t"] show ?thesis
      using Suc by (simp add: power_add algebra_simps)
  qed simp
qed simp

lemma pow_val_zero_number [simp]: "pow_val pow_zero_number = 0"
  by (simp add: pow_val_zero pow_is_zero_def pow_zero_number_def list_all_iff)

lemma pow_ok_zero_number [simp]: "pow_ok pow_zero_number" "length pow_zero_number = 8"
  by (simp_all add: pow_ok_def pow_zero_number_def)

subsection \<open>Word arithmetic\<close>

lemma unat_mul_add_128:
  fixes c :: "128 word"
  assumes "unat c < 2 ^ 64"
  shows "unat (ucast (l :: u32) * ucast (f :: u64) + c) = unat l * unat f + unat c"
proof -
  have a: "unat l * unat f \<le> (2 ^ 32 - 1) * (2 ^ 64 - 1)"
    using unat32_upper [of l] unat64_upper [of f] by (intro mult_le_mono) simp_all
  have "unat l * unat f + unat c < 2 ^ 128"
    using a assms by simp
  then show ?thesis
    unfolding unat_word_ariths by (simp add: unat_ucast_up)
qed

lemma unat_ucast_u32: "unat (ucast (a :: 'a::len word) :: u32) = unat a mod 2 ^ 32"
  by (simp add: unsigned_ucast_eq take_bit_eq_mod)

subsection \<open>Multiplication, division, comparison\<close>

lemma carry_step:
  fixes B K pm d n f p l c :: nat
  assumes "pm + K * d = n * f + p div B" and "p = l * f + c"
  shows "(p mod B + B * pm) + (B * K) * d = (l + B * n) * f + c"
proof -
  have "(p mod B + B * pm) + (B * K) * d = p mod B + B * (pm + K * d)" by (simp add: algebra_simps)
  also have "\<dots> = B * (n * f) + (p mod B + B * (p div B))" unfolding assms(1) by (simp add: algebra_simps)
  also have "\<dots> = B * (n * f) + p" by simp
  finally show ?thesis using assms(2) by (simp add: algebra_simps)
qed

lemma product_32_64: "unat (l :: u32) * unat (f :: u64) \<le> (2 ^ 32 - 1) * (2 ^ 64 - 1)"
  using unat32_upper [of l] unat64_upper [of f] by (intro mult_le_mono) simp_all

lemma pow_succ_32: "(2 :: nat) ^ (32 * Suc n) = 2 ^ 32 * 2 ^ (32 * n)"
  by (simp add: power_add)

lemma multiply_loop_val:
  assumes "unat c < 2 ^ 64" and "multiply_loop ls f c = (ls', c')"
  shows "pow_val ls' + 2 ^ (32 * length ls) * unat c' = pow_val ls * unat f + unat c
    \<and> length ls' = length ls"
  using assms
proof (induction ls arbitrary: c ls' c')
  case (Cons l ls)
  let ?p = "ucast l * ucast f + c :: 128 word"
  have p: "unat ?p = unat l * unat f + unat c" by (rule unat_mul_add_128 [OF Cons.prems(1)])
  have c: "unat (drop_bit 32 ?p) < 2 ^ 64"
    unfolding unat_drop_bit p using Cons.prems(1) product_32_64 [of l f]
    by (intro less_mult_imp_div_less) simp
  obtain ms d where m: "multiply_loop ls f (drop_bit 32 ?p) = (ms, d)" by fastforce
  with Cons.prems(2) have r: "ls' = ucast ?p # ms" "c' = d" by simp_all
  from Cons.IH [OF c m] have ih: "pow_val ms + 2 ^ (32 * length ls) * unat d
      = pow_val ls * unat f + unat ?p div 2 ^ 32" "length ms = length ls"
    unfolding unat_drop_bit by blast+
  have "length (l # ls) = Suc (length ls)" by simp
  with carry_step [OF ih(1) p] ih(2) show ?case
    unfolding r pow_val.simps unat_ucast_u32 by (simp only: pow_succ_32 list.size)
qed simp

theorem multiply_val:
  assumes "pow_ok n" and "multiply n f = (overflow, m)"
  shows "pow_ok m" and "overflow \<longleftrightarrow> 2 ^ 256 \<le> pow_val n * unat f"
    and "\<not> overflow \<Longrightarrow> pow_val m = pow_val n * unat f"
proof -
  obtain c where l: "multiply_loop n f 0 = (m, c)" and o: "overflow = (c \<noteq> 0)"
    using assms(2) by (auto simp: multiply_def split: prod.splits)
  have len: "length n = 8" using assms(1) by (simp add: pow_ok_def)
  have v: "pow_val m + 2 ^ 256 * unat c = pow_val n * unat f" and lm: "length m = 8"
    using multiply_loop_val [OF _ l] len by simp_all
  show "pow_ok m" using lm by (simp add: pow_ok_def)
  have small: "pow_val m < 2 ^ 256" using pow_val_less [of m] lm by simp
  show "overflow \<longleftrightarrow> 2 ^ 256 \<le> pow_val n * unat f"
  proof
    assume overflow
    then have "1 \<le> unat c" using o by (simp add: Suc_le_eq unat_gt_0)
    then have "2 ^ 256 * 1 \<le> 2 ^ 256 * unat c" by (intro mult_le_mono2)
    then show "2 ^ 256 \<le> pow_val n * unat f" using v by linarith
  next
    assume "2 ^ 256 \<le> pow_val n * unat f"
    then show overflow using v small o by (cases "c = 0") auto
  qed
  show "pow_val m = pow_val n * unat f" if "\<not> overflow" using v o that by simp
qed

fun be_val :: "pow_number \<Rightarrow> nat" where
  "be_val [] = 0"
| "be_val (limb # limbs) = 2 ^ (32 * length limbs) * unat limb + be_val limbs"

lemma be_val_rev: "be_val (rev n) = pow_val n"
proof -
  have "be_val (xs @ [x]) = 2 ^ 32 * be_val xs + unat x" for xs x
    by (induction xs) (simp_all add: power_add algebra_simps)
  then show ?thesis by (induction n) simp_all
qed

lemma length_divide_loop [simp]: "length (divide_loop ls d r) = length ls"
  by (induction ls arbitrary: r) simp_all

lemma long_division_step:
  fixes B K r l d n q :: nat
  assumes "0 < d" and "q * d + r' = K * ((B * r + l) mod d) + n"
  shows "(K * ((B * r + l) div d) + q) * d + r' = (K * B) * r + (K * l + n)"
proof -
  have "(K * ((B * r + l) div d) + q) * d + r'
      = K * ((B * r + l) div d * d) + (q * d + r')" by (simp add: algebra_simps)
  also have "\<dots> = K * ((B * r + l) div d * d + (B * r + l) mod d) + n"
    unfolding assms(2) by (simp only: distrib_left add.assoc)
  finally show ?thesis by (simp add: algebra_simps)
qed

lemma divide_loop_val:
  assumes "unat r < unat d"
  shows "\<exists>rest. be_val (divide_loop ls d r) * unat d + rest = 2 ^ (32 * length ls) * unat r + be_val ls
    \<and> rest < unat d"
  using assms
proof (induction ls arbitrary: r)
  case (Cons l ls)
  let ?cur = "push_bit 32 r OR ucast l :: 128 word"
  have d: "0 < unat d" "unat d < 2 ^ 64" using Cons.prems unat64_upper [of d] by simp_all
  have r: "unat r < 2 ^ 64" using Cons.prems d by simp
  have cur: "unat ?cur = 2 ^ 32 * unat r + unat l"
    using unat_or_push [of "ucast l :: 128 word" 32 r] unat32_upper [of l] r
    by (simp add: unat_ucast_up or.commute)
  have ud: "unat (ucast d :: 128 word) = unat d" by (simp add: unat_ucast_up)
  have q: "unat (?cur div ucast d) < 2 ^ 32"
  proof -
    have "2 ^ 32 * unat r + unat l < 2 ^ 32 * unat r + 2 ^ 32" using unat32_upper [of l] by simp
    also have "\<dots> = 2 ^ 32 * Suc (unat r)" by simp
    also have "\<dots> \<le> 2 ^ 32 * unat d" using Cons.prems by (intro mult_le_mono2) simp
    finally show ?thesis unfolding unat_div cur ud by (rule less_mult_imp_div_less)
  qed
  have m: "unat (?cur mod ucast d) = (2 ^ 32 * unat r + unat l) mod unat d"
    by (simp only: unat_mod cur ud)
  then have "unat (?cur mod ucast d) < unat d" using d(1) by simp
  from Cons.IH [OF this] obtain rest where
    ih: "be_val (divide_loop ls d (?cur mod ucast d)) * unat d + rest
      = 2 ^ (32 * length ls) * ((2 ^ 32 * unat r + unat l) mod unat d) + be_val ls" "rest < unat d"
    unfolding m by blast
  have qv: "unat (ucast (?cur div ucast d) :: u32) = (2 ^ 32 * unat r + unat l) div unat d"
    using q unfolding unat_ucast_u32 unat_div cur ud by (rule mod_less)
  have pw: "(2 :: nat) ^ (32 * length (l # ls)) = 2 ^ (32 * length ls) * 2 ^ 32"
    by (simp add: power_add)
  from long_division_step [OF d(1) ih(1)] ih(2) show ?case
    unfolding pw divide_loop.simps be_val.simps length_divide_loop qv by blast
qed simp

theorem divide_val:
  assumes "pow_ok n" and "d \<noteq> 0"
  shows "pow_ok (divide n d)" and "pow_val (divide n d) = pow_val n div unat d"
proof -
  show "pow_ok (divide n d)" using assms(1) by (simp add: pow_ok_def divide_def)
  have "unat (0 :: 128 word) < unat d" using assms(2) by (simp add: unat_gt_0)
  from divide_loop_val [OF this, of "rev n"] obtain rest where
    "be_val (divide_loop (rev n) d 0) * unat d + rest = pow_val n" "rest < unat d"
    by (auto simp: be_val_rev)
  moreover have "be_val (divide_loop (rev n) d 0) = pow_val (divide n d)"
    unfolding divide_def by (metis be_val_rev rev_rev_ident)
  ultimately show "pow_val (divide n d) = pow_val n div unat d"
    by (metis add.commute div_mult_self3 div_less add_0 less_zeroE gr_implies_not0 mult.commute)
qed

lemma pow_compare_loop_val:
  assumes "k \<le> length m" and "length m = length n"
  shows "pow_compare_loop m n k =
    (if pow_val (take k m) < pow_val (take k n) then order_less
     else if pow_val (take k m) = pow_val (take k n) then order_equal else order_greater)"
  using assms(1)
proof (induction k)
  case (Suc k)
  let ?a = "pow_val (take k m)" and ?b = "pow_val (take k n)" and ?K = "(2 :: nat) ^ (32 * k)"
  have t: "pow_val (take (Suc k) m) = ?a + ?K * unat (m ! k)"
    "pow_val (take (Suc k) n) = ?b + ?K * unat (n ! k)"
    using Suc.prems assms(2) by (simp_all add: take_Suc_conv_app_nth pow_val_append)
  have small: "?a < ?K" "?b < ?K"
    using pow_val_less [of "take k m"] pow_val_less [of "take k n"] Suc.prems assms(2) by simp_all
  have key: "x + ?K * i < y + ?K * j" if "i < j" "x < ?K" for x y i j
  proof -
    have "x + ?K * i < ?K * Suc i" using that(2) by simp
    also have "\<dots> \<le> ?K * j" using that(1) by (intro mult_le_mono2) simp
    finally show ?thesis by simp
  qed
  consider "m ! k = n ! k" | "unat (m ! k) < unat (n ! k)" | "unat (n ! k) < unat (m ! k)"
    using word_unat_eq_iff [of "m ! k" "n ! k"] by linarith
  then show ?case
  proof cases
    case 1
    then show ?thesis using Suc unfolding t by simp
  next
    case 2
    with key [OF 2 small(1), of ?b] show ?thesis unfolding t by (auto simp: word_less_nat_alt)
  next
    case 3
    with key [OF 3 small(2), of ?a] show ?thesis unfolding t by (auto simp: word_less_nat_alt)
  qed
qed simp

lemma pow_greater_val:
  "pow_ok m \<Longrightarrow> pow_ok n \<Longrightarrow> pow_greater m n \<longleftrightarrow> pow_val m > pow_val n"
  using pow_compare_loop_val [of 8 m n] by (auto simp: pow_greater_def pow_compare_def pow_ok_def)

subsection \<open>Bytes\<close>

lemma bytes_val_snoc: "bytes_val (map f [0..<Suc k]) = bytes_val (map f [0..<k]) + 256 ^ k * unat (f k)"
  by (simp add: bytes_val_append)

lemma pow_256: "(256 :: nat) ^ k = 2 ^ (8 * k)"
  by (simp add: power_mult)

lemma fold_bytes_val:
  assumes "k \<le> 4"
  shows "unat (fold (\<lambda>i v. v OR push_bit (8 * i) (ucast (f i) :: u32)) [0..<k] 0) = bytes_val (map f [0..<k])"
  using assms
proof (induction k)
  case (Suc k)
  let ?v = "fold (\<lambda>i v. v OR push_bit (8 * i) (ucast (f i) :: u32)) [0..<k] 0"
  have v: "unat ?v < 2 ^ (8 * k)"
    using Suc bytes_val_less [of "map f [0..<k]"] by (simp add: pow_256)
  have u: "unat (ucast (f k) :: u32) = unat (f k)" by (simp add: unat_ucast_up)
  have "unat (f k) * 2 ^ (8 * k) < 2 ^ 8 * 2 ^ (8 * k)" using unat8_upper [of "f k"] by simp
  also have "\<dots> = 2 ^ (8 * Suc k)" by (simp add: power_add)
  also have "\<dots> \<le> 2 ^ 32" using Suc.prems by (intro power_increasing) simp_all
  finally have "unat (?v OR push_bit (8 * k) (ucast (f k))) = unat ?v + 2 ^ (8 * k) * unat (f k)"
    using unat_or_push [OF v, of "ucast (f k)"] u by simp
  then show ?case using Suc unfolding bytes_val_snoc pow_256 by simp
qed simp

lemma limb_from_bytes_val:
  "4 * Suc limb \<le> length bytes \<Longrightarrow>
     unat (limb_from_bytes bytes limb) = bytes_val (take 4 (drop (4 * limb) bytes))"
proof -
  assume len: "4 * Suc limb \<le> length bytes"
  have "map (\<lambda>i. bytes ! (limb * 4 + i)) [0..<4] = take 4 (drop (4 * limb) bytes)"
    using len by (intro nth_equalityI) (simp_all add: mult.commute)
  then show ?thesis
    using fold_bytes_val [of 4 "\<lambda>i. bytes ! (limb * 4 + i)"] by (simp add: limb_from_bytes_def)
qed

lemma from_bytes_prefix_val:
  "4 * k \<le> length bytes \<Longrightarrow> pow_val (map (limb_from_bytes bytes) [0..<k]) = bytes_val (take (4 * k) bytes)"
proof (induction k)
  case (Suc k)
  have "take (4 * Suc k) bytes = take (4 * k) bytes @ take 4 (drop (4 * k) bytes)"
    using take_add [of "4 * k" 4 bytes] by (simp add: add.commute)
  moreover have "length (take (4 * k) bytes) = 4 * k" using Suc.prems by simp
  moreover have "(256 :: nat) ^ (4 * k) = 2 ^ (32 * k)" by (simp add: power_mult)
  ultimately show ?case
    using Suc by (simp add: pow_val_append bytes_val_append limb_from_bytes_val)
qed simp

theorem from_bytes_val:
  assumes "length bytes = 32"
  shows "pow_ok (from_bytes bytes)" and "pow_val (from_bytes bytes) = bytes_val bytes"
  using from_bytes_prefix_val [of 8 bytes] assms by (simp_all add: from_bytes_def pow_ok_def)

lemma pow_val_nth: "k < length n \<Longrightarrow> pow_val n div 2 ^ (32 * k) mod 2 ^ 32 = unat (n ! k)"
proof (induction n arbitrary: k)
  case (Cons l ls)
  show ?case
  proof (cases k)
    case 0
    then show ?thesis using unat32_upper [of l] by simp
  next
    case (Suc j)
    have "(unat l + 2 ^ 32 * pow_val ls) div (2 ^ 32 * 2 ^ (32 * j))
        = (unat l + 2 ^ 32 * pow_val ls) div 2 ^ 32 div 2 ^ (32 * j)" by (rule div_mult2_eq)
    also have "(unat l + 2 ^ 32 * pow_val ls) div 2 ^ 32 = pow_val ls" using unat32_upper [of l] by simp
    finally show ?thesis using Cons Suc unfolding Suc pow_succ_32 by simp
  qed
qed simp

lemma byte_of_limb: "8 * j + 8 \<le> 32 \<Longrightarrow> (x mod 2 ^ 32) div 2 ^ (8 * j) mod 256 = x div 2 ^ (8 * j) mod (256 :: nat)"
proof -
  assume j: "8 * j + 8 \<le> 32"
  have "take_bit 8 (drop_bit (8 * j) (take_bit 32 x)) = take_bit 8 (drop_bit (8 * j) x)"
    using j by (intro bit_eqI) (auto simp: bit_take_bit_iff bit_drop_bit_eq)
  then show ?thesis by (simp add: take_bit_eq_mod drop_bit_eq_div)
qed

lemma unat_low_byte: "unat (ucast (w AND 0xff) :: byte) = unat (w :: u32) mod 256"
proof -
  have "w AND 0xff = take_bit 8 w" by (simp add: take_bit_eq_mask mask_eq_exp_minus_1)
  then have "unat (ucast (w AND 0xff) :: byte) = take_bit 8 (take_bit 8 (unat w))"
    by (simp only: unsigned_ucast_eq unsigned_take_bit_eq) simp
  then show ?thesis by (simp add: take_bit_eq_mod)
qed

lemma byte_at_val:
  assumes "index < 4 * length n"
  shows "unat (byte_at n index) = pow_val n div 256 ^ index mod 256"
proof -
  let ?k = "index div 4" and ?j = "index mod 4"
  have k: "?k < length n" using assms by simp
  have "unat (byte_at n index) = (pow_val n div 2 ^ (32 * ?k) mod 2 ^ 32) div 2 ^ (8 * ?j) mod 256"
    unfolding byte_at_def unat_low_byte unat_drop_bit pow_val_nth [OF k] ..
  also have "\<dots> = pow_val n div 2 ^ (32 * ?k) div 2 ^ (8 * ?j) mod 256"
    by (rule byte_of_limb) simp
  also have "\<dots> = pow_val n div (2 ^ (32 * ?k) * 2 ^ (8 * ?j)) mod 256" by (simp only: div_mult2_eq)
  also have "(2 :: nat) ^ (32 * ?k) * 2 ^ (8 * ?j) = 2 ^ (8 * (4 * ?k + ?j))"
    by (simp only: power_add [symmetric] distrib_left mult.assoc [symmetric]) simp
  also have "\<dots> = 256 ^ index" by (simp add: pow_256)
  finally show ?thesis .
qed

lemma mod_256_Suc: "V mod 256 ^ Suc k = V mod 256 ^ k + 256 ^ k * (V div 256 ^ k mod (256 :: nat))"
  by (metis mod_mult2_eq add.commute power_Suc2)

lemma byte_at_bytes_val: "k \<le> 4 * length n \<Longrightarrow> bytes_val (map (byte_at n) [0..<k]) = pow_val n mod 256 ^ k"
proof (induction k)
  case (Suc k)
  then show ?case unfolding bytes_val_snoc mod_256_Suc using byte_at_val [of k n] by simp
qed simp

lemma pow_bytes_val:
  assumes "pow_ok n"
  shows "length (pow_bytes n) = 32" and "bytes_val (pow_bytes n) = pow_val n"
proof -
  obtain a b c d e f g h where n: "n = [a, b, c, d, e, f, g, h]"
    using assms by (auto simp: pow_ok_def length_Suc_conv eval_nat_numeral)
  have "pow_bytes n = map (byte_at n) [0..<32]" by (simp add: n pow_bytes_def byte_at_def upt_rec)
  moreover have "pow_val n < 256 ^ 32" using pow_val_less [of n] by (simp add: n)
  ultimately show "length (pow_bytes n) = 32" "bytes_val (pow_bytes n) = pow_val n"
    using byte_at_bytes_val [of 32 n] by (simp_all add: n)
qed

lemma byte_size_loop_val:
  assumes "k \<le> 4 * length n"
  shows "byte_size_loop n k \<le> k \<and> pow_val n mod 256 ^ k < 256 ^ byte_size_loop n k \<and>
    (0 < byte_size_loop n k \<longrightarrow> 256 ^ (byte_size_loop n k - 1) \<le> pow_val n mod 256 ^ k)"
  using assms
proof (induction k)
  case (Suc k)
  let ?b = "pow_val n div 256 ^ k mod 256"
  have b: "byte_at n k = 0 \<longleftrightarrow> ?b = 0"
    using byte_at_val [of k n] Suc.prems by (simp add: word_unat_eq_iff)
  show ?case
  proof (cases "?b = 0")
    case True
    then show ?thesis using Suc b mod_256_Suc [of "pow_val n" k] by simp
  next
    case False
    then have "256 ^ k * 1 \<le> 256 ^ k * ?b" by (intro mult_le_mono2) simp
    then have "256 ^ k \<le> pow_val n mod 256 ^ Suc k" unfolding mod_256_Suc by linarith
    moreover have "pow_val n mod 256 ^ Suc k < 256 ^ Suc k" by simp
    ultimately show ?thesis using False b by simp
  qed
qed simp

lemma byte_size_val:
  assumes "pow_ok n"
  shows "byte_size n \<le> 32" and "pow_val n < 256 ^ byte_size n"
    and "0 < byte_size n \<Longrightarrow> 256 ^ (byte_size n - 1) \<le> pow_val n"
proof -
  have len: "length n = 8" using assms by (simp add: pow_ok_def)
  have "pow_val n < 256 ^ 32" using pow_val_less [of n] len by simp
  then have m: "pow_val n mod 256 ^ 32 = pow_val n" by (rule mod_less)
  note l = byte_size_loop_val [of 32 n, unfolded m]
  show "byte_size n \<le> 32" "pow_val n < 256 ^ byte_size n"
    "0 < byte_size n \<Longrightarrow> 256 ^ (byte_size n - 1) \<le> pow_val n"
    using l len by (simp_all add: byte_size_def)
qed

subsection \<open>Decoding the compact form\<close>

lemma compact_word_val: "unat (compact_word c) = unat c mod 2 ^ 23"
proof -
  have "compact_word c = take_bit 23 c"
    by (simp add: compact_word_def take_bit_eq_mask mask_eq_exp_minus_1)
  then have "unat (compact_word c) = take_bit 23 (unat c)" by (simp only: unsigned_take_bit_eq)
  then show ?thesis by (simp add: take_bit_eq_mod)
qed

lemma compact_word_less: "unat (compact_word c) < 2 ^ 23"
  unfolding compact_word_val by simp

lemma compact_size_byte_val: "compact_size_byte c = unat c div 2 ^ 24"
proof -
  have "unat c div 2 ^ 24 < 2 ^ 8" using unat32_upper [of c] by (intro less_mult_imp_div_less) simp
  then show ?thesis
    unfolding compact_size_byte_def unsigned_ucast_eq unat_drop_bit by (simp add: take_bit_nat_eq_self)
qed

lemma compact_overflows_val:
  "compact_overflows c \<longleftrightarrow> (let s = compact_size_byte c; w = unat (compact_word c) in
     0 < w \<and> (34 < s \<or> (255 < w \<and> 33 < s) \<or> (65535 < w \<and> 32 < s)))"
  unfolding compact_overflows_def compact_word_def [symmetric] compact_size_byte_val Let_def
    word_less_nat_alt unat_drop_bit
  by (simp add: unat_gt_0 [symmetric])

lemma pow_zero_number_nth: "i < 8 \<Longrightarrow> pow_zero_number ! i = 0"
  by (simp add: pow_zero_number_def)

text \<open>A value shifted into two adjacent limbs.\<close>

lemma two_limb_val:
  fixes w :: u32
  assumes "k < 8" "shift < 32" and "k = 7 \<Longrightarrow> unat w * 2 ^ shift < 2 ^ 32"
    and fits: "shift \<le> 8 \<Longrightarrow> unat w * 2 ^ shift < 2 ^ 32"
  defines "r1 \<equiv> pow_zero_number[k := pow_zero_number ! k OR push_bit shift w]"
  shows "pow_val (if shift > 8 \<and> k + 1 < 8
      then r1[k + 1 := r1 ! (k + 1) OR drop_bit (32 - shift) w] else r1) = unat w * 2 ^ shift * 2 ^ (32 * k)"
proof -
  have lo: "unat (push_bit shift w) = unat w * 2 ^ shift mod 2 ^ 32"
    unfolding unsigned_push_bit_eq by (simp add: push_bit_eq_mult take_bit_eq_mod)
  have r1: "pow_val r1 = 2 ^ (32 * k) * (unat w * 2 ^ shift mod 2 ^ 32)"
    using pow_val_update [of k pow_zero_number "push_bit shift w"] assms(1) lo by (simp add: r1_def pow_zero_number_nth)
  show ?thesis
  proof (cases "shift > 8 \<and> k + 1 < 8")
    case True
    then have n: "r1 ! (k + 1) = 0" "length r1 = 8" using assms(1) by (simp_all add: r1_def pow_zero_number_nth)
    have "(2 :: nat) ^ 32 = 2 ^ (32 - shift) * 2 ^ shift" using assms(2) by (simp flip: power_add)
    then have hi: "unat (drop_bit (32 - shift) w) = unat w * 2 ^ shift div 2 ^ 32"
      unfolding unat_drop_bit by (simp only:) (rule div_mult_mult2 [symmetric], simp)
    have "pow_val (r1[k + 1 := drop_bit (32 - shift) w])
        = 2 ^ (32 * k) * (unat w * 2 ^ shift mod 2 ^ 32) + 2 ^ (32 * (k + 1)) * (unat w * 2 ^ shift div 2 ^ 32)"
      using pow_val_update [of "k + 1" r1 "drop_bit (32 - shift) w"] True n r1 hi by simp
    also have "\<dots> = 2 ^ (32 * k) * (2 ^ 32 * (unat w * 2 ^ shift div 2 ^ 32) + unat w * 2 ^ shift mod 2 ^ 32)"
      by (simp only: power_add distrib_left mult.assoc) simp
    finally show ?thesis using True n by (simp only: mult_div_mod_eq) (simp add: mult.commute)
  next
    case False
    then have "unat w * 2 ^ shift < 2 ^ 32" using assms by (cases "shift \<le> 8") auto
    with r1 have "pow_val r1 = unat w * 2 ^ shift * 2 ^ (32 * k)" by (simp add: mult.commute)
    then show ?thesis unfolding if_not_P [OF False] .
  qed
qed

theorem from_compact_val:
  assumes "\<not> compact_overflows c"
  shows "pow_val (from_compact c) =
    (if compact_size_byte c \<le> 3 then unat (compact_word c) div 256 ^ (3 - compact_size_byte c)
     else unat (compact_word c) * 256 ^ (compact_size_byte c - 3))"
proof (cases "compact_size_byte c \<le> 3")
  case True
  let ?x = "drop_bit (8 * (3 - compact_size_byte c)) (compact_word c)"
  have "pow_val (pow_zero_number[0 := ?x]) = unat ?x"
    using pow_val_update [of 0 pow_zero_number ?x] pow_zero_number_nth [of 0] by simp
  then show ?thesis using True by (simp add: from_compact_def Let_def unat_drop_bit pow_256)
next
  case False
  define off where "off = compact_size_byte c - 3"
  define w where "w = unat (compact_word c)"
  let ?k = "off div 4" and ?s = "off mod 4 * 8"
  have off: "256 ^ off = (2 :: nat) ^ ?s * 2 ^ (32 * ?k)"
  proof -
    have "8 * off = ?s + 32 * ?k" using mult_div_mod_eq [of 4 off] by linarith
    then show ?thesis by (simp only: pow_256 power_add)
  qed
  have w23: "w < 2 ^ 23" unfolding w_def by (rule compact_word_less)
  have ov: "w = 0 \<or> off \<le> 31 \<and> (w \<le> 255 \<or> off \<le> 30) \<and> (w \<le> 65535 \<or> off \<le> 29)"
    using assms False unfolding compact_overflows_val Let_def w_def [symmetric] off_def by auto
  have fc: "from_compact c = (let r1 = (if ?k < 8 then pow_zero_number[?k := pow_zero_number ! ?k OR
        push_bit ?s (compact_word c)] else pow_zero_number)
      in if ?s > 8 \<and> ?k + 1 < 8 then r1[?k + 1 := r1 ! (?k + 1) OR drop_bit (32 - ?s) (compact_word c)] else r1)"
    using False by (simp only: from_compact_def Let_def off_def if_False)
  have "pow_val (from_compact c) = w * 256 ^ off"
  proof (cases "?k < 8")
    case True
    have top: "w * 2 ^ ?s < 2 ^ 32" if "?k = 7"
    proof -
      have "off = 28 + off mod 4" using that mult_div_mod_eq [of 4 off] by simp
      then consider "w = 0" | "off mod 4 = 0" | "off mod 4 = 1" | "off mod 4 = 2" "w \<le> 65535"
        | "off mod 4 = 3" "w \<le> 255"
        using ov mod_less_divisor [of 4 off] by linarith
      then show ?thesis using w23 by cases auto
    qed
    have low: "w * 2 ^ ?s < 2 ^ 32" if "?s \<le> 8"
    proof -
      have "(2 :: nat) ^ ?s \<le> 2 ^ 8" using that by (intro power_increasing) simp_all
      then have "w * 2 ^ ?s \<le> w * 2 ^ 8" by (rule mult_le_mono2)
      also have "\<dots> < 2 ^ 32" using w23 by simp
      finally show ?thesis .
    qed
    have "?s < 32" using mod_less_divisor [of 4 off] by linarith
    from two_limb_val [of ?k ?s "compact_word c", OF True this, folded w_def, OF top low]
    show ?thesis
      unfolding fc Let_def if_P [OF True] off by (simp only: mult.assoc)
  next
    case False
    then have "w = 0" using ov by auto
    with False show ?thesis unfolding fc by simp
  qed
  then show ?thesis using False by (simp add: w_def off_def)
qed

lemma pow_ok_from_compact: "pow_ok (from_compact c)"
  by (simp add: from_compact_def Let_def pow_ok_def)



subsection \<open>The compact encoding\<close>

lemma three_bytes_val: "x mod 256 + 256 * (x div 256 mod 256) + 65536 * (x div 65536 mod 256) = x mod (16777216 :: nat)"
proof -
  have "x mod 16777216 = x mod (65536 * 256)" by simp
  also have "\<dots> = 65536 * (x div 65536 mod 256) + x mod 65536" by (rule mod_mult2_eq)
  also have "x mod 65536 = x mod (256 * 256)" by simp
  also have "\<dots> = 256 * (x div 256 mod 256) + x mod 256" by (rule mod_mult2_eq)
  finally show ?thesis by simp
qed

lemma unat_three_bytes:
  "unat (ucast (a :: byte) OR push_bit 8 (ucast (b :: byte)) OR push_bit 16 (ucast (c :: byte)) :: u32)
     = unat a + 256 * unat b + 65536 * unat c"
proof -
  have u: "unat (ucast x :: u32) = unat x" for x :: byte by (simp add: unat_ucast_up)
  have ab: "unat (ucast a OR push_bit 8 (ucast b) :: u32) = unat a + 2 ^ 8 * unat b"
    using unat_or_push [of "ucast a :: u32" 8 "ucast b"] unat8_upper [of a] unat8_upper [of b] u by simp
  then have "unat (ucast a OR push_bit 8 (ucast b) :: u32) < 2 ^ 16"
    using unat8_upper [of a] unat8_upper [of b] by simp
  from unat_or_push [OF this, of "ucast c"] ab u [of c] unat8_upper [of c]
  show ?thesis by (simp add: or.assoc)
qed

lemma compact_mantissa_val:
  assumes "pow_ok n"
  defines "s \<equiv> byte_size n"
  shows "unat (compact_mantissa n s) = (if s \<le> 3 then pow_val n * 256 ^ (3 - s) else pow_val n div 256 ^ (s - 3))"
    and "unat (compact_mantissa n s) < 2 ^ 24"
proof -
  have len: "length n = 8" using assms(1) by (simp add: pow_ok_def)
  note size = byte_size_val [OF assms(1), folded s_def]
  have v: "unat (compact_mantissa n s) = (if s \<le> 3 then pow_val n * 256 ^ (3 - s) else pow_val n div 256 ^ (s - 3))
    \<and> unat (compact_mantissa n s) < 2 ^ 24"
  proof (cases "s \<le> 3")
    case True
    let ?f = "fold (\<lambda>i c. c OR push_bit (8 * i) (ucast (byte_at n i) :: u32)) [0..<s] 0"
    have f: "unat ?f = pow_val n"
      using fold_bytes_val [of s "byte_at n"] byte_at_bytes_val [of s n] True size(2) len by simp
    have "pow_val n * 256 ^ (3 - s) < 256 ^ s * 256 ^ (3 - s)" using size(2) by (intro mult_less_mono1) simp_all
    also have "\<dots> = 2 ^ 24" using True by (simp flip: power_add)
    finally have less: "pow_val n * 256 ^ (3 - s) < 2 ^ 24" .
    then have "unat ?f * 2 ^ (8 * (3 - s)) < 2 ^ 32" unfolding f pow_256 by simp
    from unat_push_bit_small [of ?f "8 * (3 - s)"] this f less True show ?thesis
      by (simp add: compact_mantissa_def pow_256 mult.commute)
  next
    case False
    then have s: "s = Suc (Suc (Suc (s - 3)))" by simp
    let ?q = "pow_val n div 256 ^ (s - 3)"
    have b: "unat (byte_at n (s - 3)) = ?q mod 256" "unat (byte_at n (s - 2)) = ?q div 256 mod 256"
      "unat (byte_at n (s - 1)) = ?q div 65536 mod 256"
    proof -
      have e: "s - 2 = Suc (s - 3)" "s - 1 = Suc (Suc (s - 3))" using False by simp_all
      show "unat (byte_at n (s - 3)) = ?q mod 256"
        using byte_at_val [of "s - 3" n] len size(1) False by simp
      show "unat (byte_at n (s - 2)) = ?q div 256 mod 256"
      proof -
        have "(256 :: nat) ^ (s - 2) = 256 ^ (s - 3) * 256" using e by simp
        then show ?thesis
          using byte_at_val [of "s - 2" n] len size(1) False by (simp add: div_mult2_eq)
      qed
      have "(256 :: nat) ^ (s - 1) = 256 ^ (s - 3) * 65536" using e by simp
      then show "unat (byte_at n (s - 1)) = ?q div 65536 mod 256"
        using byte_at_val [of "s - 1" n] len size(1) False by (simp add: div_mult2_eq)
    qed
    have "?q < 16777216"
    proof (rule less_mult_imp_div_less)
      have "(256 :: nat) ^ s = 16777216 * 256 ^ (s - 3)" by (subst s) simp
      then show "pow_val n < 16777216 * 256 ^ (s - 3)" using size(2) by simp
    qed
    then have "?q mod 256 + 256 * (?q div 256 mod 256) + 65536 * (?q div 65536 mod 256) = ?q"
      unfolding three_bytes_val by simp
    then show ?thesis
      using \<open>?q < 16777216\<close> unfolding compact_mantissa_def if_not_P [OF False] unat_three_bytes b by simp
  qed
  then show "unat (compact_mantissa n s) = (if s \<le> 3 then pow_val n * 256 ^ (3 - s) else pow_val n div 256 ^ (s - 3))"
    "unat (compact_mantissa n s) < 2 ^ 24" by simp_all
qed


lemma sign_bit_val:
  assumes "unat c < 2 ^ 24"
  shows "(c :: u32) AND 0x00800000 \<noteq> 0 \<longleftrightarrow> 2 ^ 23 \<le> unat c"
proof -
  have "push_bit 23 1 = (0x00800000 :: u32)" by simp
  then have "c AND 0x00800000 \<noteq> 0 \<longleftrightarrow> bit c 23"
    using bit_iff_and_push_bit_not_eq_0 [of c 23] by simp
  also have "\<dots> \<longleftrightarrow> bit (unat c) 23" by (simp add: bit_unsigned_iff)
  also have "\<dots> \<longleftrightarrow> odd (unat c div 2 ^ 23)" by (rule bit_iff_odd)
  also have "\<dots> \<longleftrightarrow> 2 ^ 23 \<le> unat c"
  proof (cases "2 ^ 23 \<le> unat c")
    case True
    then have "unat c div 2 ^ 23 = 1" using assms by (intro div_nat_eqI) simp_all
    then show ?thesis using True by simp
  qed simp
  finally show ?thesis .
qed

text \<open>The size byte that \<open>to_compact\<close> stores: one more when the mantissa would set the sign bit.\<close>

definition compact_exponent :: "pow_number \<Rightarrow> nat" where
  "compact_exponent n =
     (if 2 ^ 23 \<le> unat (compact_mantissa n (byte_size n)) then byte_size n + 1 else byte_size n)"

lemma div_mul_shift: "x * 256 ^ a div 256 = (x :: nat) * 256 ^ (a - 1)" if "0 < a"
  using that by (cases a) simp_all

lemma to_compact_val:
  assumes "pow_ok n"
  defines "s \<equiv> compact_exponent n"
  shows "compact_size_byte (to_compact n) = s" and "s \<le> 33"
    and "unat (compact_word (to_compact n)) =
      (if s \<le> 3 then pow_val n * 256 ^ (3 - s) else pow_val n div 256 ^ (s - 3))"
    and "\<not> compact_negative (to_compact n)"
proof -
  define z where "z = byte_size n"
  define m where "m = compact_mantissa n z"
  note size = byte_size_val [OF assms(1), folded z_def]
  note mant = compact_mantissa_val [OF assms(1), folded z_def, folded m_def]
  have s: "s = (if 2 ^ 23 \<le> unat m then z + 1 else z)"
    by (simp add: s_def compact_exponent_def z_def m_def)
  then show s33: "s \<le> 33" using size(1) by auto
  define m' where "m' = (if 2 ^ 23 \<le> unat m then drop_bit 8 m else m)"
  have tc: "to_compact n = m' OR push_bit 24 (of_nat s)"
    using sign_bit_val [OF mant(2)] s
    by (auto simp: to_compact_def Let_def z_def [symmetric] m_def [symmetric] m'_def)
  have m23: "unat m' < 2 ^ 23"
  proof (cases "2 ^ 23 \<le> unat m")
    case True
    have "unat m div 2 ^ 8 < 2 ^ 23" using mant(2) by (intro less_mult_imp_div_less) simp
    then show ?thesis using True by (simp add: m'_def unat_drop_bit)
  qed (simp add: m'_def)
  have us: "unat (of_nat s :: u32) = s" using s33 by (simp add: unat_of_nat_small)
  have val: "unat (to_compact n) = unat m' + 2 ^ 24 * s"
    unfolding tc using unat_or_push [of m' 24 "of_nat s"] m23 s33 us by simp
  show "compact_size_byte (to_compact n) = s"
    unfolding compact_size_byte_val val using m23 by simp
  have word: "unat (compact_word (to_compact n)) = unat m'"
  proof -
    have "(unat m' + 2 ^ 24 * s) mod 2 ^ 23 = (unat m' + 2 ^ 23 * (2 * s)) mod 2 ^ 23" by simp
    also have "\<dots> = unat m' mod 2 ^ 23" by (rule mod_mult_self2)
    finally show ?thesis unfolding compact_word_val val using m23 by simp
  qed
  show "unat (compact_word (to_compact n)) =
      (if s \<le> 3 then pow_val n * 256 ^ (3 - s) else pow_val n div 256 ^ (s - 3))"
  proof (cases "2 ^ 23 \<le> unat m")
    case True
    then have z: "s = Suc z" and u: "unat m' = unat m div 256" by (simp_all add: s m'_def unat_drop_bit)
    consider "z \<le> 2" | "z = 3" | "3 < z" by linarith
    then show ?thesis
    proof cases
      case 1
      then show ?thesis unfolding word u mant(1) using z div_mul_shift [of "3 - z" "pow_val n"] by simp
    next
      case 2
      then show ?thesis unfolding word u mant(1) using z by simp
    next
      case 3
      then have "s - 3 = Suc (z - 3)" using z by simp
      then have "(256 :: nat) ^ (s - 3) = 256 ^ (z - 3) * 256" by simp
      then show ?thesis unfolding word u mant(1) using z 3 by (simp add: div_mult2_eq)
    qed
  next
    case False
    then have z: "s = z" and u: "unat m' = unat m" by (simp_all add: s m'_def)
    show ?thesis unfolding word u z by (rule mant(1))
  qed
  have "\<not> bit (to_compact n) 23"
  proof -
    have "unat (to_compact n) div 2 ^ 23 = 2 * s"
      unfolding val using m23 by (intro div_nat_eqI) simp_all
    then have "\<not> bit (unat (to_compact n)) 23" by (simp add: bit_iff_odd)
    then show ?thesis by (simp add: bit_unsigned_iff)
  qed
  then show "\<not> compact_negative (to_compact n)"
    using bit_iff_and_push_bit_not_eq_0 [of "to_compact n" 23] by (simp add: compact_negative_def)
qed

text \<open>
  Encoding then decoding rounds down to the bytes the mantissa keeps: exact below four bytes, and
  otherwise the number with its low \<open>s - 3\<close> bytes cleared.
\<close>

theorem compact_round_trip:
  assumes "pow_ok n"
  defines "s \<equiv> compact_exponent n"
  shows "\<not> compact_overflows (to_compact n)"
    and "pow_val (from_compact (to_compact n)) =
      (if s \<le> 3 then pow_val n else pow_val n div 256 ^ (s - 3) * 256 ^ (s - 3))"
proof -
  note enc = to_compact_val [OF assms(1), folded s_def]
  note size = byte_size_val [OF assms(1)]
  show ov: "\<not> compact_overflows (to_compact n)"
  proof -
    have "unat (compact_word (to_compact n)) \<le> 65535" if "32 < s"
    proof -
      have s33: "s = 33" using enc(2) that by simp
      have "pow_val n < 256 ^ 32" using assms(1) pow_val_less [of n] by (simp add: pow_ok_def)
      then have "pow_val n div 256 ^ 30 < 65536" by (intro less_mult_imp_div_less) simp
      then show ?thesis using enc(3) s33 by simp
    qed
    then show ?thesis using enc(1,2) by (auto simp: compact_overflows_val Let_def)
  qed
  show "pow_val (from_compact (to_compact n)) =
      (if s \<le> 3 then pow_val n else pow_val n div 256 ^ (s - 3) * 256 ^ (s - 3))"
    unfolding from_compact_val [OF ov] enc(1) using enc(3) by simp
qed

end
