(* ===== verification/Script_Scan.thy ===== *)
theory Script_Scan
  imports Spend_Validation Pow_Number
begin

text \<open>
  The script scanning helpers of \<^verbatim>\<open>validation/block.cpp\<close>: the opcode reader, signature
  operation counting, pay-to-script-hash and witness program recognition, the witness commitment
  search and the coinbase height prefix.

  The scanning loops advance an offset into the script. They are functions whose termination rests
  on \<open>read_opcode_progress\<close>: a successful read moves the offset forward and never past the end.
\<close>

subsection \<open>Opcodes\<close>

definition op_0 :: byte where "op_0 = 0x00"
definition op_pushdata1 :: byte where "op_pushdata1 = 0x4c"
definition op_pushdata2 :: byte where "op_pushdata2 = 0x4d"
definition op_pushdata4 :: byte where "op_pushdata4 = 0x4e"
definition op_1 :: byte where "op_1 = 0x51"
definition op_16 :: byte where "op_16 = 0x60"
definition op_hash160 :: byte where "op_hash160 = 0xa9"
definition op_equal :: byte where "op_equal = 0x87"
definition op_checksig :: byte where "op_checksig = 0xac"
definition op_checksigverify :: byte where "op_checksigverify = 0xad"
definition op_checkmultisig :: byte where "op_checkmultisig = 0xae"
definition op_checkmultisigverify :: byte where "op_checkmultisigverify = 0xaf"
definition witness_v0_keyhash_size :: nat where "witness_v0_keyhash_size = 20"
definition witness_v0_scripthash_size :: nat where "witness_v0_scripthash_size = 32"

lemmas opcode_defs = op_0_def op_pushdata1_def op_pushdata2_def op_pushdata4_def op_1_def op_16_def
  op_hash160_def op_equal_def op_checksig_def op_checksigverify_def op_checkmultisig_def
  op_checkmultisigverify_def

subsection \<open>Reading one opcode\<close>

definition read_little_push_size :: "byte list \<Rightarrow> nat \<Rightarrow> nat \<Rightarrow> nat" where
  "read_little_push_size bytes offset byte_count =
     unat (fold (\<lambda>index v. if offset + index < length bytes
         then v OR push_bit (8 * index) (ucast (bytes ! (offset + index))) else v)
       [0..<byte_count] (0 :: u64))"

record decoded_opcode =
  dec_opcode :: byte
  dec_data :: "byte list"

text \<open>The size field of a push: how many bytes it has, and the push size when it has none.\<close>

definition push_size_field :: "byte \<Rightarrow> (nat \<times> nat) option" where
  "push_size_field opcode =
     (if 1 \<le> opcode \<and> opcode \<le> 75 then Some (unat opcode, 0)
      else if opcode = op_pushdata1 then Some (0, 1)
      else if opcode = op_pushdata2 then Some (0, 2)
      else if opcode = op_pushdata4 then Some (0, 4)
      else None)"

definition read_push_data ::
  "byte list \<Rightarrow> byte \<Rightarrow> nat \<Rightarrow> nat \<Rightarrow> (nat \<times> decoded_opcode) option" where
  "read_push_data bytes opcode push_size offset =
     (if length bytes - offset < push_size then None
      else Some (offset + push_size,
        \<lparr>dec_opcode = opcode, dec_data = take push_size (drop offset bytes)\<rparr>))"

text \<open>\<open>None\<close> is a return of false; \<open>Some\<close> carries the new offset and the decoded opcode.\<close>

definition read_opcode :: "byte list \<Rightarrow> nat \<Rightarrow> (nat \<times> decoded_opcode) option" where
  "read_opcode bytes offset0 =
     (if offset0 \<ge> length bytes then None
      else (case push_size_field (bytes ! offset0) of
          None \<Rightarrow> Some (offset0 + 1, \<lparr>dec_opcode = bytes ! offset0, dec_data = []\<rparr>)
        | Some (push_size, size_bytes) \<Rightarrow>
            if size_bytes \<noteq> 0 then
              (if length bytes - (offset0 + 1) < size_bytes then None
               else read_push_data bytes (bytes ! offset0)
                 (read_little_push_size bytes (offset0 + 1) size_bytes) (offset0 + 1 + size_bytes))
            else read_push_data bytes (bytes ! offset0) push_size (offset0 + 1)))"

lemma read_push_data_Some:
  "read_push_data bytes opcode n off = Some (off', d) \<Longrightarrow> off \<le> length bytes \<Longrightarrow>
     off \<le> off' \<and> off' \<le> length bytes \<and> off' = off + length (dec_data d)"
  by (auto simp: read_push_data_def split: if_splits)

lemma read_opcode_progress:
  "read_opcode bytes off = Some (off', d) \<Longrightarrow> off < off' \<and> off' \<le> length bytes"
  using read_push_data_Some [of bytes "bytes ! off" _ _ off' d]
  by (auto simp: read_opcode_def split: if_splits option.splits dest!: read_push_data_Some)

subsection \<open>Signature operations\<close>

definition is_small_integer_opcode :: "byte \<Rightarrow> bool" where
  "is_small_integer_opcode opcode \<longleftrightarrow> op_1 \<le> opcode \<and> opcode \<le> op_16"

definition small_integer_value :: "byte \<Rightarrow> nat" where
  "small_integer_value opcode = unat opcode - 0x50"

definition sigop_weight :: "bool \<Rightarrow> byte \<Rightarrow> byte \<Rightarrow> nat" where
  "sigop_weight accurate last_opcode opcode =
     (if opcode = op_checksig \<or> opcode = op_checksigverify then 1
      else if opcode = op_checkmultisig \<or> opcode = op_checkmultisigverify then
        (if accurate \<and> is_small_integer_opcode last_opcode then small_integer_value last_opcode else 20)
      else 0)"

function sigop_loop :: "byte list \<Rightarrow> bool \<Rightarrow> nat \<Rightarrow> byte \<Rightarrow> nat \<Rightarrow> nat" where
  "sigop_loop bytes accurate offset last_opcode count =
     (if offset \<ge> length bytes then count
      else (case read_opcode bytes offset of
          None \<Rightarrow> count
        | Some (offset', decoded) \<Rightarrow>
            sigop_loop bytes accurate offset' (dec_opcode decoded)
              (size_wrap (count + sigop_weight accurate last_opcode (dec_opcode decoded)))))"
  by auto
termination
  by (relation "measure (\<lambda>(bytes, accurate, offset, last_opcode, count). length bytes - offset)")
    (auto dest: read_opcode_progress)

declare sigop_loop.simps [simp del]

definition sigop_count :: "byte list \<Rightarrow> bool \<Rightarrow> nat" where
  "sigop_count bytes accurate = sigop_loop bytes accurate 0 0xff 0"

definition legacy_sigop_count_script :: "script \<Rightarrow> nat" where
  "legacy_sigop_count_script bs = sigop_count bs False"

definition legacy_sigop_count :: "transaction \<Rightarrow> nat" where
  "legacy_sigop_count tx =
     fold (\<lambda>out count. size_wrap (count + legacy_sigop_count_script (output_script out))) (tx_outputs tx)
       (fold (\<lambda>input count. size_wrap (count + legacy_sigop_count_script (input_script input)))
         (tx_inputs tx) 0)"

definition is_pay_to_script_hash :: "script \<Rightarrow> bool" where
  "is_pay_to_script_hash bytes \<longleftrightarrow>
     length bytes = 23 \<and> bytes ! 0 = op_hash160 \<and> bytes ! 1 = 20 \<and> bytes ! 22 = op_equal"

text \<open>The last push of a push-only script; \<open>None\<close> when the script is not push only.\<close>

function last_pushed_loop :: "byte list \<Rightarrow> nat \<Rightarrow> byte list \<Rightarrow> byte list option" where
  "last_pushed_loop bytes offset last_push =
     (if offset \<ge> length bytes then Some last_push
      else (case read_opcode bytes offset of
          None \<Rightarrow> None
        | Some (offset', decoded) \<Rightarrow>
            if dec_opcode decoded > op_16 then None
            else last_pushed_loop bytes offset' (dec_data decoded)))"
  by auto
termination
  by (relation "measure (\<lambda>(bytes, offset, last_push). length bytes - offset)")
    (auto dest: read_opcode_progress)

declare last_pushed_loop.simps [simp del]

definition last_pushed_script :: "script \<Rightarrow> byte list option" where
  "last_pushed_script script_sig = last_pushed_loop script_sig 0 []"

definition p2sh_sigop_count :: "tx_input \<Rightarrow> coin \<Rightarrow> nat" where
  "p2sh_sigop_count input previous_coin =
     (if \<not> is_pay_to_script_hash (output_script (coin_output previous_coin)) then 0
      else (case last_pushed_script (input_script input) of
          None \<Rightarrow> 0
        | Some last_push \<Rightarrow> sigop_count last_push True))"

subsection \<open>Witness programs\<close>

definition witness_version :: "byte \<Rightarrow> nat" where
  "witness_version opcode = (if opcode = op_0 then 0 else small_integer_value opcode)"

definition parse_witness_program :: "byte list \<Rightarrow> (nat \<times> byte list) option" where
  "parse_witness_program bytes =
     (if length bytes < 4 \<or> length bytes > 42 then None
      else if bytes ! 0 \<noteq> op_0 \<and> \<not> is_small_integer_opcode (bytes ! 0) then None
      else if unat (bytes ! 1) + 2 \<noteq> length bytes then None
      else Some (witness_version (bytes ! 0), take (unat (bytes ! 1)) (drop 2 bytes)))"

definition program_sigop_count :: "(nat \<times> byte list) option \<Rightarrow> witness_item list \<Rightarrow> nat" where
  "program_sigop_count program witness =
     (case program of
        None \<Rightarrow> 0
      | Some (version, prog) \<Rightarrow>
          if version \<noteq> 0 then 0
          else if length prog = witness_v0_keyhash_size then 1
          else if length prog = witness_v0_scripthash_size \<and> witness \<noteq> []
          then sigop_count (last witness) True else 0)"

definition witness_sigop_count :: "tx_input \<Rightarrow> script \<Rightarrow> verification_flags \<Rightarrow> nat" where
  "witness_sigop_count input previous_script flags =
     (if \<not> flags_contains flags witness_mask then 0
      else if parse_witness_program previous_script \<noteq> None
      then program_sigop_count (parse_witness_program previous_script) (input_witness input)
      else if \<not> flags_contains flags p2sh_mask \<or> \<not> is_pay_to_script_hash previous_script then 0
      else (case last_pushed_script (input_script input) of
          None \<Rightarrow> 0
        | Some last_push \<Rightarrow>
            program_sigop_count (parse_witness_program last_push) (input_witness input)))"

definition transaction_sigop_cost :: "transaction \<Rightarrow> coin list \<Rightarrow> verification_flags \<Rightarrow> nat" where
  "transaction_sigop_cost tx input_coins flags =
     (if is_coinbase tx then size_wrap (legacy_sigop_count tx * witness_scale_factor)
      else fold (\<lambda>(input, previous_coin) sigop_cost.
          size_wrap (size_wrap (sigop_cost +
              (if flags_contains flags p2sh_mask
               then size_wrap (p2sh_sigop_count input previous_coin * witness_scale_factor) else 0)) +
            witness_sigop_count input (output_script (coin_output previous_coin)) flags))
        (zip (tx_inputs tx) input_coins)
        (size_wrap (legacy_sigop_count tx * witness_scale_factor)))"

subsection \<open>Witness commitment\<close>

definition has_witness_commitment_prefix :: "script \<Rightarrow> bool" where
  "has_witness_commitment_prefix bytes \<longleftrightarrow>
     length bytes \<ge> 38 \<and> bytes ! 0 = 0x6a \<and> bytes ! 1 = 0x24 \<and> bytes ! 2 = 0xaa \<and>
     bytes ! 3 = 0x21 \<and> bytes ! 4 = 0xa9 \<and> bytes ! 5 = 0xed"

text \<open>\<open>None\<close> is an absent commitment; otherwise the output index and the committed hash.\<close>

fun find_commitment_loop :: "nat \<Rightarrow> tx_output list \<Rightarrow> (u32 \<times> hash256) option \<Rightarrow> (u32 \<times> hash256) option" where
  "find_commitment_loop output_index [] result = result"
| "find_commitment_loop output_index (out # outs) result =
     find_commitment_loop (Suc output_index) outs
       (if has_witness_commitment_prefix (output_script out)
        then Some (of_nat output_index, take 32 (drop 6 (output_script out)))
        else result)"

definition find_witness_commitment :: "transaction \<Rightarrow> (u32 \<times> hash256) option" where
  "find_witness_commitment tx = find_commitment_loop 0 (tx_outputs tx) None"

subsection \<open>Coinbase height\<close>

function script_number_loop :: "u32 \<Rightarrow> byte list" where
  "script_number_loop n =
     (if n > 0 then ucast (n AND 0xff) # script_number_loop (drop_bit 8 n) else [])"
  by auto
termination
proof (relation "measure unat")
  fix n :: u32 assume "0 < n"
  then have "0 < unat n" by (simp add: word_less_nat_alt)
  then show "(drop_bit 8 n, n) \<in> measure unat" by (simp add: unat_drop_bit del: drop_bit_eq_div)
qed simp

declare script_number_loop.simps [simp del]

definition script_number :: "i32 \<Rightarrow> byte list" where
  "script_number v =
     (if v = 0 then []
      else (let result = script_number_loop v in
        if last result AND 0x80 \<noteq> 0 then result @ [0] else result))"

definition coinbase_height_prefix :: "block_height \<Rightarrow> byte list" where
  "coinbase_height_prefix height =
     (if height = 0 then [0]
      else if 1 \<le>s height \<and> height \<le>s 16 then [ucast (0x50 + height)]
      else of_nat (length (script_number height)) # script_number height)"

definition starts_with :: "byte list \<Rightarrow> byte list \<Rightarrow> bool" where
  "starts_with bytes prefix \<longleftrightarrow>
     length bytes \<ge> length prefix \<and> prefix = take (length prefix) bytes"

subsection \<open>Bounds\<close>

lemma size_wrap_le: "size_wrap n \<le> n"
  by (simp add: size_wrap_def)

lemma sigop_weight_le: "sigop_weight accurate last_opcode opcode \<le> 20"
proof -
  have "small_integer_value last_opcode \<le> 16" if "is_small_integer_opcode last_opcode"
    using that by (auto simp: is_small_integer_opcode_def small_integer_value_def opcode_defs word_le_nat_alt)
  then show ?thesis by (auto simp: sigop_weight_def)
qed

lemma sigop_loop_le: "sigop_loop bytes accurate off last_opcode count \<le> count + 20 * (length bytes - off)"
proof (induction bytes accurate off last_opcode count rule: sigop_loop.induct)
  case (1 bytes accurate off last_opcode count)
  show ?case
  proof (cases "off \<ge> length bytes \<or> read_opcode bytes off = None")
    case True
    then show ?thesis by (auto simp: sigop_loop.simps [of bytes accurate off])
  next
    case False
    then obtain off' d where r: "read_opcode bytes off = Some (off', d)" by auto
    let ?c = "size_wrap (count + sigop_weight accurate last_opcode (dec_opcode d))"
    have "sigop_loop bytes accurate off last_opcode count = sigop_loop bytes accurate off' (dec_opcode d) ?c"
      using False r by (simp add: sigop_loop.simps [of bytes accurate off])
    also have "\<dots> \<le> ?c + 20 * (length bytes - off')" using False r 1 by auto
    also have "\<dots> \<le> count + 20 * (length bytes - off)"
      using read_opcode_progress [OF r] sigop_weight_le [of accurate last_opcode "dec_opcode d"]
        size_wrap_le [of "count + sigop_weight accurate last_opcode (dec_opcode d)"]
      by linarith
    finally show ?thesis .
  qed
qed

theorem sigop_count_bound: "sigop_count bytes accurate \<le> 20 * length bytes"
  using sigop_loop_le [of bytes accurate 0 "0xff" 0] by (simp add: sigop_count_def)

lemma last_pushed_loop_bound:
  "last_pushed_loop bytes off acc = Some push \<Longrightarrow> push = acc \<or> length push \<le> length bytes"
proof (induction bytes off acc rule: last_pushed_loop.induct)
  case (1 bytes off acc)
  show ?case
  proof (cases "off \<ge> length bytes \<or> read_opcode bytes off = None")
    case True
    then show ?thesis
      using 1(2) by (auto simp: last_pushed_loop.simps [of bytes off] split: if_splits)
  next
    case False
    then obtain off' d where r: "read_opcode bytes off = Some (off', d)" by auto
    have d: "length (dec_data d) \<le> length bytes"
      using r by (auto simp: read_opcode_def read_push_data_def split: if_splits option.splits)
    show ?thesis
      using 1(1) [of "(off', d)" off' d] 1(2) False r d
      by (auto simp: last_pushed_loop.simps [of bytes off] split: if_splits)
  qed
qed

subsection \<open>The coinbase height prefix\<close>

lemma unat_drop_8: "unat (drop_bit 8 (n :: u32)) = unat n div 256"
  by (simp add: unat_drop_bit del: drop_bit_eq_div)

lemma script_number_loop_val: "bytes_val (script_number_loop n) = unat n"
proof (induction n rule: script_number_loop.induct)
  case (1 n)
  show ?case
  proof (cases "n > 0")
    case True
    then show ?thesis
      using 1 unat_low_byte [of n] unat_drop_8 [of n]
      by (simp add: script_number_loop.simps [of n] del: drop_bit_eq_div)
  next
    case False
    then have "n = 0" by (simp add: word_gt_0)
    then show ?thesis by (simp add: script_number_loop.simps [of 0])
  qed
qed

lemma script_number_loop_length: "0 < n \<Longrightarrow> script_number_loop n \<noteq> [] \<and> 256 ^ (length (script_number_loop n) - 1) \<le> unat n"
proof (induction n rule: script_number_loop.induct)
  case (1 n)
  show ?case
  proof (cases "drop_bit 8 n > 0")
    case True
    have "256 ^ (length (script_number_loop (drop_bit 8 n)) - 1) \<le> unat n div 256"
      using 1(1) [OF 1(2) True] unfolding unat_drop_8 by blast
    then have "256 * 256 ^ (length (script_number_loop (drop_bit 8 n)) - 1) \<le> unat n"
      by (simp add: less_eq_div_iff_mult_less_eq mult.commute)
    then show ?thesis
      using 1(2) 1(1) [OF 1(2) True]
      by (cases "script_number_loop (drop_bit 8 n)")
        (simp_all add: script_number_loop.simps [of n] del: drop_bit_eq_div)
  next
    case False
    then have "drop_bit 8 n = 0" using word_gt_0 [of "drop_bit 8 n"] by metis
    then show ?thesis
      using 1(2) by (simp add: script_number_loop.simps [of n] script_number_loop.simps [of 0] del: drop_bit_eq_div)
        (simp add: word_less_nat_alt Suc_le_eq)
  qed
qed

lemma length_script_number_loop: "length (script_number_loop n) \<le> 4"
proof (cases "0 < n")
  case True
  then have "256 ^ (length (script_number_loop n) - 1) \<le> unat n" using script_number_loop_length by blast
  then have "(256 :: nat) ^ (length (script_number_loop n) - 1) < 256 ^ 4" using unat32_upper [of n] by simp
  then have "length (script_number_loop n) - 1 < 4" by (rule power_less_imp_less_exp [rotated]) simp
  then show ?thesis by simp
next
  case False
  then show ?thesis by (simp add: script_number_loop.simps [of n])
qed

lemma script_number_val: "bytes_val (script_number v) = unat v"
  using script_number_loop_val [of v] by (auto simp: script_number_def Let_def bytes_val_append)

lemma length_script_number: "v \<noteq> 0 \<Longrightarrow> 1 \<le> length (script_number v) \<and> length (script_number v) \<le> 5"
  using script_number_loop_length [of v] length_script_number_loop [of v]
  by (cases "script_number_loop v") (auto simp: script_number_def Let_def word_gt_0)

lemma script_number_positive:
  "v \<noteq> 0 \<Longrightarrow> last (script_number v) AND 0x80 = 0"
  by (auto simp: script_number_def Let_def)


lemma unat_i32_nonneg: "0 \<le> sint (h :: i32) \<Longrightarrow> int (unat h) = sint h"
  using uint_sint [of h] sint32_upper [of h] by (simp add: take_bit_int_eq_self)

lemma coinbase_height_prefix_first:
  assumes "0 \<le> sint h"
  obtains (zero) "h = 0" "coinbase_height_prefix h = [0]"
    | (small) "1 \<le> unat h" "unat h \<le> 16" "\<exists>b. coinbase_height_prefix h = [b] \<and> unat b = 80 + unat h"
    | (large) "\<exists>b. coinbase_height_prefix h = b # script_number h \<and> unat b = length (script_number h) \<and>
        1 \<le> unat b \<and> unat b \<le> 5"
proof -
  have u: "int (unat h) = sint h" by (rule unat_i32_nonneg [OF assms])
  consider "h = 0" | "h \<noteq> 0" "unat h \<le> 16" | "h \<noteq> 0" "16 < unat h" by linarith
  then show ?thesis
  proof cases
    case 1
    then show ?thesis using zero by (simp add: coinbase_height_prefix_def)
  next
    case 2
    then have pos: "1 \<le> unat h" by (simp add: Suc_le_eq unat_gt_0)
    have "unat (0x50 + h) = 80 + unat h"
      using 2(2) by (simp add: unat_word_ariths)
    then have b: "unat (ucast (0x50 + h) :: byte) = 80 + unat h"
      using 2(2) by (simp add: unsigned_ucast_eq take_bit_nat_eq_self)
    have "1 \<le> sint h" "sint h \<le> 16" using pos 2(2) u by linarith+
    then have "1 \<le>s h" "h \<le>s 16" by (simp_all add: word_sle_eq)
    then have "coinbase_height_prefix h = [ucast (0x50 + h)]"
      using 2(1) by (simp add: coinbase_height_prefix_def)
    with b show ?thesis using small pos 2(2) by blast
  next
    case 3
    then have "16 < sint h" using u by linarith
    then have "\<not> h \<le>s 16" by (simp add: word_sle_eq)
    with 3 have "coinbase_height_prefix h = of_nat (length (script_number h)) # script_number h"
      by (simp add: coinbase_height_prefix_def)
    moreover have "unat (of_nat (length (script_number h)) :: byte) = length (script_number h)"
      using length_script_number [OF 3(1)] by (intro unat_of_nat_small) simp
    ultimately show ?thesis using large length_script_number [OF 3(1)] by auto
  qed
qed

lemma starts_with_append: "starts_with bytes p \<longleftrightarrow> (\<exists>rest. bytes = p @ rest)"
  by (auto simp: starts_with_def) (metis append_take_drop_id)

theorem coinbase_height_prefix_unique:
  assumes "0 \<le> sint h" and "0 \<le> sint k"
    and "starts_with bytes (coinbase_height_prefix h)" and "starts_with bytes (coinbase_height_prefix k)"
  shows "h = k"
proof -
  obtain r1 r2 where e: "coinbase_height_prefix h @ r1 = coinbase_height_prefix k @ r2"
    using assms(3,4) unfolding starts_with_append by metis
  then have hd: "hd (coinbase_height_prefix h @ r1) = hd (coinbase_height_prefix k @ r2)" by (rule arg_cong)
  have inj: "unat h = unat k \<Longrightarrow> h = k" by (simp add: word_unat_eq_iff)
  show ?thesis
  proof (cases rule: coinbase_height_prefix_first [OF assms(1)])
    case h: 1
    show ?thesis
      by (cases rule: coinbase_height_prefix_first [OF assms(2)]) (use hd h in auto)
  next
    case h: 2
    then obtain b where b: "coinbase_height_prefix h = [b]" "unat b = 80 + unat h" by blast
    have fst_k: "b = hd (coinbase_height_prefix k @ r2)" using hd b(1) by simp
    show ?thesis
    proof (cases rule: coinbase_height_prefix_first [OF assms(2)])
      case 1
      then show ?thesis using fst_k b(2) by simp
    next
      case 2
      then obtain c where "coinbase_height_prefix k = [c]" "unat c = 80 + unat k" by blast
      then have "unat h = unat k" using fst_k b(2) by simp
      then show ?thesis by (rule inj)
    next
      case 3
      then obtain c where "coinbase_height_prefix k = c # script_number k" "unat c \<le> 5" by blast
      then show ?thesis using fst_k b(2) by simp
    qed
  next
    case h: 3
    then obtain b where b: "coinbase_height_prefix h = b # script_number h" "unat b = length (script_number h)"
      "1 \<le> unat b" "unat b \<le> 5" by blast
    show ?thesis
    proof (cases rule: coinbase_height_prefix_first [OF assms(2)])
      case k: 1
      then show ?thesis using hd b by simp
    next
      case k: 2
      then obtain c where "coinbase_height_prefix k = [c]" "unat c = 80 + unat k" by blast
      then show ?thesis using hd b by simp
    next
      case k: 3
      then obtain c where c: "coinbase_height_prefix k = c # script_number k" "unat c = length (script_number k)"
        by blast
      have "b = c" "script_number h @ r1 = script_number k @ r2" using e b(1) c(1) by simp_all
      moreover from this have "length (script_number h) = length (script_number k)" using b(2) c(2) by metis
      ultimately have "script_number h = script_number k" using append_eq_append_conv by blast
      then have "unat h = unat k" using script_number_val by metis
      then show ?thesis by (rule inj)
    qed
  qed
qed

subsection \<open>The witness commitment\<close>

lemma find_commitment_loop_None:
  "find_commitment_loop i outs r = None \<longleftrightarrow>
     r = None \<and> \<not> list_ex (\<lambda>out. has_witness_commitment_prefix (output_script out)) outs"
  by (induction i outs r rule: find_commitment_loop.induct) auto

lemma find_commitment_loop_Some:
  assumes "find_commitment_loop i outs None = Some (k, c)"
  shows "\<exists>j<length outs. k = of_nat (i + j) \<and> has_witness_commitment_prefix (output_script (outs ! j)) \<and>
    c = take 32 (drop 6 (output_script (outs ! j))) \<and>
    (\<forall>l. j < l \<and> l < length outs \<longrightarrow> \<not> has_witness_commitment_prefix (output_script (outs ! l)))"
proof -
  have split: "find_commitment_loop i (outs @ [out]) r =
      (if has_witness_commitment_prefix (output_script out)
       then Some (of_nat (i + length outs), take 32 (drop 6 (output_script out)))
       else find_commitment_loop i outs r)" for i outs out r
    by (induction i outs r rule: find_commitment_loop.induct) simp_all
  show ?thesis
    using assms
  proof (induction outs rule: rev_induct)
    case (snoc out outs)
    show ?case
    proof (cases "has_witness_commitment_prefix (output_script out)")
      case True
      with snoc.prems show ?thesis
        unfolding split by (intro exI [of _ "length outs"]) auto
    next
      case False
      with snoc.prems have "find_commitment_loop i outs None = Some (k, c)" unfolding split by simp
      from snoc.IH [OF this] obtain j where j: "j < length outs" "k = of_nat (i + j)"
        "has_witness_commitment_prefix (output_script (outs ! j))"
        "c = take 32 (drop 6 (output_script (outs ! j)))"
        "\<forall>l. j < l \<and> l < length outs \<longrightarrow> \<not> has_witness_commitment_prefix (output_script (outs ! l))"
        by blast
      with False show ?thesis
        by (intro exI [of _ j]) (auto simp: nth_append less_Suc_eq)
    qed
  qed simp
qed

end
