(* ===== verification/Merkle.thy ===== *)
theory Merkle
  imports Codec_Read
begin

text \<open>
  The merkle trees of \<^verbatim>\<open>validation/block.cpp\<close>: the transaction root with its mutation flag and
  the witness root.

  The main result is that the root binds the list of leaves. Two lists whose trees have the same
  number of levels and whose mutation flags are clear have equal roots only if they are equal, or
  if two different pairs that were actually hashed on the way collide. Without the mutation flag
  this fails: duplicating the tail of an odd level gives the same root.
\<close>

subsection \<open>The code\<close>

definition hash_pair :: "hash256 \<Rightarrow> hash256 \<Rightarrow> hash256" where
  "hash_pair left right = hash_writer_double_sha256 (left @ right)"

fun equal_pair :: "hash256 list \<Rightarrow> bool" where
  "equal_pair (a # b # rest) = (a = b \<or> equal_pair rest)"
| "equal_pair hashes = False"

definition pad_even :: "hash256 list \<Rightarrow> hash256 list" where
  "pad_even hashes = (if odd (length hashes) then hashes @ [last hashes] else hashes)"

fun hash_pairs :: "hash256 list \<Rightarrow> hash256 list" where
  "hash_pairs (a # b # rest) = hash_pair a b # hash_pairs rest"
| "hash_pairs hashes = []"

definition merkle_level :: "hash256 list \<Rightarrow> hash256 list" where
  "merkle_level hashes = hash_pairs (pad_even hashes)"

lemma length_hash_pairs: "length (hash_pairs xs) = length xs div 2"
  by (induction xs rule: hash_pairs.induct) simp_all

lemma length_pad_even: "length (pad_even xs) = 2 * ((length xs + 1) div 2)"
  by (auto simp: pad_even_def elim: oddE)

lemma length_merkle_level: "length (merkle_level xs) = (length xs + 1) div 2"
  by (simp add: merkle_level_def length_hash_pairs length_pad_even)

function merkle_loop :: "hash256 list \<Rightarrow> bool \<Rightarrow> hash256 list \<times> bool" where
  "merkle_loop hashes mutated =
     (if length hashes > 1 then merkle_loop (merkle_level hashes) (mutated \<or> equal_pair hashes)
      else (hashes, mutated))"
  by auto
termination
  by (relation "measure (\<lambda>(hashes, mutated). length hashes)") (auto simp: length_merkle_level)

declare merkle_loop.simps [simp del]

lemma merkle_loop_single [simp]: "merkle_loop [h] m = ([h], m)"
  by (subst merkle_loop.simps) simp

lemma merkle_loop_pair [simp]: "merkle_loop [a, b] m = ([hash_pair a b], m \<or> a = b)"
  by (subst merkle_loop.simps) (simp add: merkle_level_def pad_even_def)

record merkle_result =
  mr_root :: hash256
  mr_mutated :: bool

definition merkle_root_of :: "hash256 list \<Rightarrow> merkle_result" where
  "merkle_root_of leaves =
     (case merkle_loop leaves False of (hashes, mutated) \<Rightarrow>
        \<lparr>mr_root = (if hashes = [] then null_hash else hd hashes), mr_mutated = mutated\<rparr>)"

definition merkle_root :: "transaction list \<Rightarrow> merkle_result" where
  "merkle_root transactions = merkle_root_of (map transaction_id transactions)"

definition witness_leaves :: "transaction list \<Rightarrow> hash256 list" where
  "witness_leaves transactions =
     (if transactions = [] then [] else null_hash # map witness_id (tl transactions))"

function witness_merkle_loop :: "hash256 list \<Rightarrow> hash256 list" where
  "witness_merkle_loop hashes =
     (if length hashes > 1 then witness_merkle_loop (merkle_level hashes) else hashes)"
  by auto
termination
  by (relation "measure length") (auto simp: length_merkle_level)

declare witness_merkle_loop.simps [simp del]

definition witness_merkle_root :: "transaction list \<Rightarrow> hash256" where
  "witness_merkle_root transactions =
     (case witness_merkle_loop (witness_leaves transactions) of [] \<Rightarrow> null_hash | h # hs \<Rightarrow> h)"

subsection \<open>The pairs hashed, and the number of levels\<close>

fun pairs :: "'a list \<Rightarrow> ('a \<times> 'a) list" where
  "pairs (a # b # rest) = (a, b) # pairs rest"
| "pairs xs = []"

function merkle_nodes :: "hash256 list \<Rightarrow> (hash256 \<times> hash256) list" where
  "merkle_nodes hashes =
     (if length hashes > 1 then pairs (pad_even hashes) @ merkle_nodes (merkle_level hashes) else [])"
  by auto
termination
  by (relation "measure length") (auto simp: length_merkle_level)

declare merkle_nodes.simps [simp del]

function merkle_depth :: "nat \<Rightarrow> nat" where
  "merkle_depth n = (if n > 1 then Suc (merkle_depth ((n + 1) div 2)) else 0)"
  by auto
termination
  by (relation "measure id") auto

declare merkle_depth.simps [simp del]

text \<open>Two different pairs with the same hash, each hashed in one of the two trees.\<close>

definition merkle_collision :: "hash256 list \<Rightarrow> hash256 list \<Rightarrow> bool" where
  "merkle_collision xs ys \<longleftrightarrow>
     (\<exists>p\<in>set (merkle_nodes xs). \<exists>q\<in>set (merkle_nodes ys).
        p \<noteq> q \<and> double_sha256 (fst p @ snd p) = double_sha256 (fst q @ snd q))"

lemma hash_pair_eq: "hash_pair a b = double_sha256 (a @ b)"
  by (simp add: hash_pair_def hash_writer_double_sha256_eq)

lemma hash_pairs_map: "hash_pairs xs = map (\<lambda>(a, b). hash_pair a b) (pairs xs)"
  by (induction xs rule: hash_pairs.induct) simp_all

lemma pairs_inject: "even (length xs) \<Longrightarrow> even (length ys) \<Longrightarrow> pairs xs = pairs ys \<longleftrightarrow> xs = ys"
proof (induction xs arbitrary: ys rule: pairs.induct)
  case (1 a b rest)
  then show ?case by (cases ys rule: pairs.cases) auto
next
  case "2_1"
  then show ?case by (cases ys rule: pairs.cases) auto
next
  case "2_2"
  then show ?case by simp
qed

lemma map_eq_collision:
  assumes "map f ps = map f qs" and "ps \<noteq> qs"
  shows "\<exists>p\<in>set ps. \<exists>q\<in>set qs. p \<noteq> q \<and> f p = f q"
  using assms
proof (induction ps arbitrary: qs)
  case (Cons p ps)
  then obtain q qs' where q: "qs = q # qs'" by (cases qs) auto
  show ?case
  proof (cases "p = q")
    case True
    with Cons.IH [of qs'] Cons.prems q show ?thesis by auto
  next
    case False
    with Cons.prems q show ?thesis by auto
  qed
qed simp

lemma equal_pair_append_last: "odd (length xs) \<Longrightarrow> equal_pair (xs @ [last xs])"
  by (induction xs rule: equal_pair.induct) auto

text \<open>Padding an odd level with its last hash is seen by the mutation test of the padded list.\<close>

lemma pad_even_inject:
  assumes "pad_even xs = pad_even ys" and "\<not> equal_pair xs" and "\<not> equal_pair ys"
  shows "xs = ys"
  using assms equal_pair_append_last [of xs] equal_pair_append_last [of ys]
  by (auto simp: pad_even_def split: if_splits)

lemma even_length_pad_even [simp]: "even (length (pad_even xs))"
  by (simp add: pad_even_def)

text \<open>Whether some level of the tree has an equal pair.\<close>

function merkle_mutated :: "hash256 list \<Rightarrow> bool" where
  "merkle_mutated hashes =
     (if length hashes > 1 then equal_pair hashes \<or> merkle_mutated (merkle_level hashes) else False)"
  by auto
termination
  by (relation "measure length") (auto simp: length_merkle_level)

declare merkle_mutated.simps [simp del]

lemma merkle_loop_eq: "merkle_loop hashes m = (witness_merkle_loop hashes, m \<or> merkle_mutated hashes)"
proof (induction hashes m rule: merkle_loop.induct)
  case (1 hashes m)
  show ?case
  proof (cases "length hashes > 1")
    case True
    with 1 show ?thesis
      by (simp add: merkle_loop.simps [of hashes] witness_merkle_loop.simps [of hashes]
          merkle_mutated.simps [of hashes])
  qed (simp add: merkle_loop.simps [of hashes] witness_merkle_loop.simps [of hashes]
        merkle_mutated.simps [of hashes])
qed

lemma mr_mutated_eq: "mr_mutated (merkle_root_of leaves) = merkle_mutated leaves"
  by (simp add: merkle_root_of_def merkle_loop_eq)

lemma mr_root_eq:
  "mr_root (merkle_root_of leaves) =
     (case witness_merkle_loop leaves of [] \<Rightarrow> null_hash | h # hs \<Rightarrow> h)"
  by (simp add: merkle_root_of_def merkle_loop_eq split: list.splits)

lemma witness_merkle_loop_single: "leaves \<noteq> [] \<Longrightarrow> \<exists>h. witness_merkle_loop leaves = [h]"
proof (induction leaves rule: witness_merkle_loop.induct)
  case (1 leaves)
  show ?case
  proof (cases "length leaves > 1")
    case True
    then have "merkle_level leaves \<noteq> []"
      using length_merkle_level [of leaves] by auto
    with 1 True show ?thesis by (simp add: witness_merkle_loop.simps [of leaves])
  next
    case False
    with 1(2) have "length leaves = 1" by (cases leaves) auto
    with False show ?thesis by (auto simp: witness_merkle_loop.simps [of leaves] length_Suc_conv)
  qed
qed

lemma merkle_level_inject:
  assumes "merkle_level xs = merkle_level ys" and "\<not> equal_pair xs" and "\<not> equal_pair ys"
  shows "xs = ys \<or> (\<exists>p\<in>set (pairs (pad_even xs)). \<exists>q\<in>set (pairs (pad_even ys)).
    p \<noteq> q \<and> double_sha256 (fst p @ snd p) = double_sha256 (fst q @ snd q))"
proof (cases "pairs (pad_even xs) = pairs (pad_even ys)")
  case True
  then have "pad_even xs = pad_even ys" by (simp add: pairs_inject)
  then show ?thesis using pad_even_inject assms(2,3) by blast
next
  case False
  have "map (\<lambda>p. double_sha256 (fst p @ snd p)) (pairs (pad_even xs))
      = map (\<lambda>p. double_sha256 (fst p @ snd p)) (pairs (pad_even ys))"
    using assms(1) unfolding merkle_level_def hash_pairs_map by (simp add: hash_pair_eq case_prod_beta')
  from map_eq_collision [OF this False] show ?thesis by blast
qed

lemma merkle_loop_binding:
  assumes "xs \<noteq> []" and "ys \<noteq> []" and "merkle_depth (length xs) = merkle_depth (length ys)"
    and "\<not> merkle_mutated xs" and "\<not> merkle_mutated ys"
    and "witness_merkle_loop xs = witness_merkle_loop ys"
  shows "xs = ys \<or> merkle_collision xs ys"
  using assms
proof (induction xs arbitrary: ys rule: witness_merkle_loop.induct)
  case (1 xs)
  show ?case
  proof (cases "length xs > 1")
    case x: True
    then have y: "length ys > 1" using 1(4) merkle_depth.simps [of "length xs"] merkle_depth.simps [of "length ys"]
      by (metis Zero_not_Suc)
    have ne: "merkle_level xs \<noteq> []" "merkle_level ys \<noteq> []"
      using x y length_merkle_level [of xs] length_merkle_level [of ys] by auto
    have depth: "merkle_depth (length (merkle_level xs)) = merkle_depth (length (merkle_level ys))"
      using 1(4) x y by (simp add: merkle_depth.simps [of "length xs"] merkle_depth.simps [of "length ys"]
          length_merkle_level)
    have mut: "\<not> merkle_mutated (merkle_level xs)" "\<not> merkle_mutated (merkle_level ys)"
      "\<not> equal_pair xs" "\<not> equal_pair ys"
      using 1(5,6) x y by (simp_all add: merkle_mutated.simps [of xs] merkle_mutated.simps [of ys])
    have loop: "witness_merkle_loop (merkle_level xs) = witness_merkle_loop (merkle_level ys)"
      using 1(7) x y by (simp add: witness_merkle_loop.simps [of xs] witness_merkle_loop.simps [of ys])
    have nodes: "set (merkle_nodes zs) = set (pairs (pad_even zs)) \<union> set (merkle_nodes (merkle_level zs))"
      if "length zs > 1" for zs
      using that by (subst merkle_nodes.simps) simp
    from 1(1) [OF x ne depth mut(1,2) loop]
    show ?thesis
    proof
      assume "merkle_level xs = merkle_level ys"
      from merkle_level_inject [OF this mut(3,4)] show ?thesis
        unfolding merkle_collision_def nodes [OF x] nodes [OF y] by blast
    next
      assume "merkle_collision (merkle_level xs) (merkle_level ys)"
      then show ?thesis unfolding merkle_collision_def nodes [OF x] nodes [OF y] by blast
    qed
  next
    case False
    then have "\<not> length ys > 1"
      using 1(4) merkle_depth.simps [of "length xs"] merkle_depth.simps [of "length ys"]
      by (metis Zero_not_Suc)
    with False 1(7) show ?thesis
      by (simp add: witness_merkle_loop.simps [of xs] witness_merkle_loop.simps [of ys])
  qed
qed

theorem merkle_root_binding:
  assumes "xs \<noteq> []" and "ys \<noteq> []" and "merkle_depth (length xs) = merkle_depth (length ys)"
    and "\<not> mr_mutated (merkle_root_of xs)" and "\<not> mr_mutated (merkle_root_of ys)"
    and "mr_root (merkle_root_of xs) = mr_root (merkle_root_of ys)"
  shows "xs = ys \<or> merkle_collision xs ys"
proof (rule merkle_loop_binding [OF assms(1-3)])
  show "\<not> merkle_mutated xs" "\<not> merkle_mutated ys"
    using assms(4,5) by (simp_all add: mr_mutated_eq)
  show "witness_merkle_loop xs = witness_merkle_loop ys"
    using assms(6) witness_merkle_loop_single [OF assms(1)] witness_merkle_loop_single [OF assms(2)]
    by (auto simp: mr_root_eq)
qed

text \<open>Without the flag the root does not bind: repeating an odd last leaf keeps the root.\<close>

theorem merkle_root_duplicate_tail:
  assumes "odd (length xs)" and "1 < length xs"
  shows "mr_root (merkle_root_of (xs @ [last xs])) = mr_root (merkle_root_of xs)"
    and "mr_mutated (merkle_root_of (xs @ [last xs]))"
proof -
  have "merkle_level (xs @ [last xs]) = merkle_level xs"
    using assms(1) by (simp add: merkle_level_def pad_even_def)
  then have "witness_merkle_loop (xs @ [last xs]) = witness_merkle_loop xs"
    using assms(2) unfolding witness_merkle_loop.simps [of xs] witness_merkle_loop.simps [of "xs @ [last xs]"]
    by auto
  then show "mr_root (merkle_root_of (xs @ [last xs])) = mr_root (merkle_root_of xs)"
    by (simp add: mr_root_eq)
  show "mr_mutated (merkle_root_of (xs @ [last xs]))"
    using equal_pair_append_last [OF assms(1)] assms(2)
    unfolding mr_mutated_eq merkle_mutated.simps [of "xs @ [last xs]"] by auto
qed

end
