(* ===== verification/Block_Validation.thy ===== *)
theory Block_Validation
  imports Script_Validation Script_Scan Merkle
begin

text \<open>
  Block rules that need no coins, from \<^verbatim>\<open>validation/block.h\<close> and \<^verbatim>\<open>validation/block.cpp\<close>: the
  context-free rules (\<open>assess_block_intrinsic\<close>) and the rules of a block at a height
  (\<open>assess_block_contextual\<close>). Both are characterised as equivalences: a block is accepted exactly
  when a list of conditions over its bytes and transactions holds, and the facts returned are
  determined by the block.
\<close>

subsection \<open>Contexts and facts\<close>

record block_limits =
  bl_transactions :: transaction_limits
  max_block_weight :: nat
  max_legacy_sigop_cost :: nat

definition default_block_limits :: block_limits where
  "default_block_limits =
     \<lparr>bl_transactions = default_transaction_limits, max_block_weight = 4000000,
      max_legacy_sigop_cost = 80000\<rparr>"

record block_local_context =
  lc_limits :: block_limits
  check_merkle_root :: bool

definition default_block_local_context :: block_local_context where
  "default_block_local_context = \<lparr>lc_limits = default_block_limits, check_merkle_root = True\<rparr>"

record block_deployments =
  segwit_active :: bool
  height_in_coinbase_active :: bool

record block_contextual_context =
  cc_local :: block_local_context
  cc_height :: block_height
  cc_locktime_cutoff :: block_time
  cc_deployments :: block_deployments

record spent_output =
  so_point :: outpoint
  so_previous_coin :: coin

record created_output =
  co_point :: outpoint
  co_output :: tx_output
  co_height :: block_height
  co_coinbase :: bool
  co_previous_mtp :: median_time_past

record block_facts =
  bf_hash :: block_hash
  bf_merkle_root :: hash256
  bf_transaction_count :: nat
  bf_serialized_size :: nat
  bf_stripped_size :: nat
  bf_weight :: nat
  bf_legacy_sigop_cost :: nat
  bf_sigop_cost :: nat
  bf_witness_merkle_root :: hash256
  bf_has_witness :: bool
  bf_commitment :: "(u32 \<times> hash256) option"
  bf_transactions :: "transaction_facts list"
  bf_spends :: "spend_facts list"
  bf_spent_outputs :: "spent_output list"
  bf_created_outputs :: "created_output list"
  bf_total_fees :: amount
  bf_coinbase_output_value :: amount

subsection \<open>Context-free rules\<close>

definition block_invalid :: "validation_rule_id \<Rightarrow> string \<Rightarrow> 'a verify_result" where
  "block_invalid i reason = op_ok (decision_invalid (Rejection rule_violation i reason))"

definition exceeds_weight_units :: "nat \<Rightarrow> nat \<Rightarrow> bool" where
  "exceeds_weight_units n max_weight \<longleftrightarrow> n > max_weight div witness_scale_factor"

definition transaction_has_witness :: "transaction \<Rightarrow> bool" where
  "transaction_has_witness tx \<longleftrightarrow> list_ex (\<lambda>i. input_witness i \<noteq> []) (tx_inputs tx)"

definition block_has_witness :: "transaction list \<Rightarrow> bool" where
  "block_has_witness transactions \<longleftrightarrow> list_ex transaction_has_witness transactions"

text \<open>The loop over the transactions: their facts, and the running count of legacy sigops.\<close>

fun block_tx_loop ::
  "transaction_limits \<Rightarrow> transaction list \<Rightarrow> nat \<Rightarrow> (transaction_facts list \<times> nat) verify_result" where
  "block_tx_loop limits [] count = op_ok (decision_valid ([], count))"
| "block_tx_loop limits (tx # txs) count =
     verify_bind (assess_transaction_intrinsic tx limits) (\<lambda>facts.
       verify_bind (block_tx_loop limits txs (size_wrap (count + legacy_sigop_count tx))) (\<lambda>(rest, count).
         op_ok (decision_valid (facts # rest, count))))"

definition block_intrinsic_rules :: "block \<Rightarrow> block_local_context \<Rightarrow> block_facts verify_result" where
  "block_intrinsic_rules candidate context =
     (let transactions = blk_transactions candidate; limits = lc_limits context;
          merkle = merkle_root transactions in
      if transactions = [] then block_invalid l01_block_non_empty ''block has no transactions''
      else if exceeds_weight_units (length transactions) (max_block_weight limits) \<or>
          exceeds_weight_units (block_stripped_serialized_size candidate) (max_block_weight limits) then
        block_invalid l04_original_block_size ''block stripped size exceeds maximum weight''
      else if check_merkle_root context \<and> hdr_merkle_root (blk_header candidate) \<noteq> mr_root merkle then
        block_invalid l02_merkle_root ''block merkle root does not match transactions''
      else if check_merkle_root context \<and> mr_mutated merkle then
        block_invalid l03_merkle_mutation ''block merkle tree is mutated by duplicate hashes''
      else if \<not> is_coinbase (hd transactions) then
        block_invalid l05_coinbase_position ''first transaction is not coinbase''
      else if list_ex is_coinbase (tl transactions) then
        block_invalid l05_coinbase_position ''block contains more than one coinbase''
      else verify_bind (block_tx_loop (bl_transactions limits) transactions 0) (\<lambda>(facts, sigops).
        if sigops > max_legacy_sigop_cost limits div witness_scale_factor then
          block_invalid l06_legacy_sigops ''block legacy sigop count exceeds limit''
        else op_ok (decision_valid
          \<lparr>bf_hash = block_hash_of candidate, bf_merkle_root = mr_root merkle,
           bf_transaction_count = length transactions,
           bf_serialized_size = block_serialized_size candidate,
           bf_stripped_size = block_stripped_serialized_size candidate, bf_weight = weight candidate,
           bf_legacy_sigop_cost = size_wrap (sigops * witness_scale_factor),
           bf_sigop_cost = size_wrap (sigops * witness_scale_factor),
           bf_witness_merkle_root = witness_merkle_root transactions,
           bf_has_witness = block_has_witness transactions,
           bf_commitment = find_witness_commitment (hd transactions),
           bf_transactions = facts, bf_spends = [], bf_spent_outputs = [], bf_created_outputs = [],
           bf_total_fees = 0, bf_coinbase_output_value = 0\<rparr>)))"

definition assess_block_intrinsic :: "block \<Rightarrow> block_local_context \<Rightarrow> block_facts verify_result" where
  "assess_block_intrinsic candidate context =
     verify_exception_boundary (Return (block_intrinsic_rules candidate context))
       ''block local validation exhausted resources'' internal_bug ''block local validation threw an exception''"

definition verify_block_intrinsic :: "block \<Rightarrow> block_facts verify_result" where
  "verify_block_intrinsic candidate = assess_block_intrinsic candidate default_block_local_context"

subsection \<open>Contextual rules\<close>

definition witness_commitment_hash :: "hash256 \<Rightarrow> witness_item \<Rightarrow> hash256" where
  "witness_commitment_hash witness_root nonce = hash_writer_double_sha256 (witness_root @ nonce)"

fun finality_loop :: "transaction_finality_context \<Rightarrow> transaction list \<Rightarrow> unit verify_result" where
  "finality_loop finality [] = op_ok (decision_valid ())"
| "finality_loop finality (tx # txs) =
     verify_bind (assess_transaction_finality tx finality) (\<lambda>_. finality_loop finality txs)"

definition witness_commitment_rules ::
  "transaction \<Rightarrow> block_deployments \<Rightarrow> block_facts \<Rightarrow> block_facts verify_result" where
  "witness_commitment_rules coinbase_tx deployments facts =
     (if segwit_active deployments \<and> bf_has_witness facts \<and> bf_commitment facts = None then
        block_invalid c05_witness_commitment_presence
          ''segwit block with witness data has no witness commitment''
      else (case bf_commitment facts of
          None \<Rightarrow> op_ok (decision_valid facts)
        | Some (index, commitment) \<Rightarrow>
            if \<not> segwit_active deployments then op_ok (decision_valid facts)
            else
              (let coinbase_witness = input_witness (hd (tx_inputs coinbase_tx)) in
               if length coinbase_witness \<noteq> 1 \<or> length (hd coinbase_witness) \<noteq> 32 then
                 block_invalid c06_witness_nonce_presence
                   ''coinbase witness nonce is not exactly one 32-byte item''
               else if commitment \<noteq>
                   witness_commitment_hash (bf_witness_merkle_root facts) (hd coinbase_witness) then
                 block_invalid c07_witness_merkle_commitment
                   ''witness commitment hash does not match witness merkle root''
               else op_ok (decision_valid facts))))"

definition block_contextual_rules ::
  "block \<Rightarrow> block_contextual_context \<Rightarrow> block_facts \<Rightarrow> block_facts verify_result" where
  "block_contextual_rules candidate context facts =
     (let transactions = blk_transactions candidate; deployments = cc_deployments context;
          limits = lc_limits (cc_local context) in
      if \<not> segwit_active deployments \<and> bf_has_witness facts then
        block_invalid c02_pre_segwit_no_witness ''pre-segwit block contains witness data''
      else if bf_weight facts > max_block_weight limits then
        block_invalid c03_block_weight ''block weight exceeds maximum weight''
      else verify_bind (finality_loop
            \<lparr>fc_limits = bl_transactions limits, fc_height = cc_height context,
             fc_timestamp = cc_locktime_cutoff context\<rparr> transactions) (\<lambda>_.
        if height_in_coinbase_active deployments \<and>
           \<not> starts_with (input_script (hd (tx_inputs (hd transactions))))
               (coinbase_height_prefix (cc_height context)) then
          block_invalid c04_coinbase_height ''coinbase height commitment is invalid''
        else witness_commitment_rules (hd transactions) deployments facts))"

definition assess_block_contextual ::
  "block \<Rightarrow> block_contextual_context \<Rightarrow> block_facts verify_result" where
  "assess_block_contextual candidate context =
     verify_exception_boundary (Return
       (verify_bind (assess_block_intrinsic candidate (cc_local context))
          (block_contextual_rules candidate context)))
       ''block contextual validation exhausted resources'' internal_bug
       ''block contextual validation threw an exception''"

subsection \<open>What acceptance means\<close>

lemma block_invalid_neq [simp]: "block_invalid i reason \<noteq> op_ok (decision_valid facts)"
  by (simp add: block_invalid_def)

lemma block_tx_loop_valid:
  "block_tx_loop limits txs n = op_ok (decision_valid (fs, sigops)) \<longleftrightarrow>
     list_all2 (\<lambda>tx f. tx_intrinsic_ok tx limits \<and> tx_facts_of tx f) txs fs \<and>
     sigops = (if txs = [] then n else size_wrap (n + sum_list (map legacy_sigop_count txs)))"
proof (induction txs arbitrary: n fs sigops)
  case (Cons tx txs)
  have "block_tx_loop limits (tx # txs) n = op_ok (decision_valid (fs, sigops)) \<longleftrightarrow>
      (\<exists>f rest. fs = f # rest \<and> tx_intrinsic_ok tx limits \<and> tx_facts_of tx f \<and>
        block_tx_loop limits txs (size_wrap (n + legacy_sigop_count tx)) = op_ok (decision_valid (rest, sigops)))"
    by (auto simp: verify_bind_valid tx_intrinsic_accepts)
  then show ?case
    unfolding Cons.IH
    by (auto simp: list_all2_Cons1 size_wrap_add_left add.assoc)
qed auto

definition block_sigops :: "block \<Rightarrow> nat" where
  "block_sigops b = size_wrap (sum_list (map legacy_sigop_count (blk_transactions b)))"

definition block_intrinsic_ok :: "block \<Rightarrow> block_local_context \<Rightarrow> bool" where
  "block_intrinsic_ok b ctx \<longleftrightarrow>
     (\<exists>cb rest. blk_transactions b = cb # rest \<and> is_coinbase cb \<and> \<not> list_ex is_coinbase rest) \<and>
     4 * length (blk_transactions b) \<le> max_block_weight (lc_limits ctx) \<and>
     4 * block_stripped_serialized_size b \<le> max_block_weight (lc_limits ctx) \<and>
     (check_merkle_root ctx \<longrightarrow>
        hdr_merkle_root (blk_header b) = mr_root (merkle_root (blk_transactions b)) \<and>
        \<not> mr_mutated (merkle_root (blk_transactions b))) \<and>
     list_all (\<lambda>tx. tx_intrinsic_ok tx (bl_transactions (lc_limits ctx))) (blk_transactions b) \<and>
     4 * block_sigops b \<le> max_legacy_sigop_cost (lc_limits ctx)"

definition block_facts_of :: "block \<Rightarrow> block_facts \<Rightarrow> bool" where
  "block_facts_of b facts \<longleftrightarrow>
     bf_hash facts = double_sha256 (header_bytes (blk_header b)) \<and>
     bf_merkle_root facts = mr_root (merkle_root (blk_transactions b)) \<and>
     bf_transaction_count facts = length (blk_transactions b) \<and>
     bf_serialized_size facts = block_serialized_size b \<and>
     bf_stripped_size facts = block_stripped_serialized_size b \<and> bf_weight facts = weight b \<and>
     bf_legacy_sigop_cost facts = size_wrap (4 * block_sigops b) \<and>
     bf_sigop_cost facts = size_wrap (4 * block_sigops b) \<and>
     bf_witness_merkle_root facts = witness_merkle_root (blk_transactions b) \<and>
     bf_has_witness facts = block_has_witness (blk_transactions b) \<and>
     bf_commitment facts = find_witness_commitment (hd (blk_transactions b)) \<and>
     list_all2 tx_facts_of (blk_transactions b) (bf_transactions facts) \<and>
     bf_spends facts = [] \<and> bf_spent_outputs facts = [] \<and> bf_created_outputs facts = [] \<and>
     bf_total_fees facts = 0 \<and> bf_coinbase_output_value facts = 0"

lemma list_all2_conj_left:
  "list_all2 (\<lambda>x y. P x \<and> Q x y) xs ys \<longleftrightarrow> list_all P xs \<and> list_all2 Q xs ys"
  by (auto simp: list_all2_conv_all_nth list_all_length)

lemma div4_le: "n \<le> m div 4 \<longleftrightarrow> 4 * n \<le> (m :: nat)"
  by arith

lemma block_hash_of_bytes: "block_hash_of b = double_sha256 (header_bytes (blk_header b))"
  by (simp add: block_hash_of_def header_hash_bytes)

theorem block_intrinsic_accepts:
  "assess_block_intrinsic b ctx = op_ok (decision_valid facts) \<longleftrightarrow>
     block_intrinsic_ok b ctx \<and> block_facts_of b facts"
proof (cases "blk_transactions b")
  case Nil
  then show ?thesis
    by (simp add: assess_block_intrinsic_def block_intrinsic_rules_def block_intrinsic_ok_def)
next
  case (Cons cb rest)
  let ?early = "4 * length (blk_transactions b) \<le> max_block_weight (lc_limits ctx) \<and>
     4 * block_stripped_serialized_size b \<le> max_block_weight (lc_limits ctx) \<and>
     (check_merkle_root ctx \<longrightarrow>
        hdr_merkle_root (blk_header b) = mr_root (merkle_root (blk_transactions b)) \<and>
        \<not> mr_mutated (merkle_root (blk_transactions b))) \<and>
     is_coinbase cb \<and> \<not> list_ex is_coinbase rest"
  have exceeds: "exceeds_weight_units n m \<longleftrightarrow> \<not> 4 * n \<le> m" for n m
    by (simp add: exceeds_weight_units_def witness_scale_factor_def not_le div4_le [symmetric])
  show ?thesis
  proof (cases ?early)
    case False
    then have "\<not> block_intrinsic_ok b ctx"
      unfolding block_intrinsic_ok_def by (auto simp: Cons)
    moreover from False have "assess_block_intrinsic b ctx \<noteq> op_ok (decision_valid facts)"
      by (auto simp: assess_block_intrinsic_def block_intrinsic_rules_def Let_def Cons exceeds)
    ultimately show ?thesis by blast
  next
    case True
    have "assess_block_intrinsic b ctx = op_ok (decision_valid facts) \<longleftrightarrow>
       (\<exists>fs n. block_tx_loop (bl_transactions (lc_limits ctx)) (blk_transactions b) 0 =
           op_ok (decision_valid (fs, n)) \<and> 4 * n \<le> max_legacy_sigop_cost (lc_limits ctx) \<and>
         facts = \<lparr>bf_hash = block_hash_of b, bf_merkle_root = mr_root (merkle_root (blk_transactions b)),
           bf_transaction_count = length (blk_transactions b),
           bf_serialized_size = block_serialized_size b,
           bf_stripped_size = block_stripped_serialized_size b, bf_weight = weight b,
           bf_legacy_sigop_cost = size_wrap (n * 4), bf_sigop_cost = size_wrap (n * 4),
           bf_witness_merkle_root = witness_merkle_root (blk_transactions b),
           bf_has_witness = block_has_witness (blk_transactions b),
           bf_commitment = find_witness_commitment (hd (blk_transactions b)),
           bf_transactions = fs, bf_spends = [], bf_spent_outputs = [], bf_created_outputs = [],
           bf_total_fees = 0, bf_coinbase_output_value = 0\<rparr>)"
      using True
      by (auto simp: assess_block_intrinsic_def block_intrinsic_rules_def Let_def Cons exceeds
          witness_scale_factor_def verify_bind_valid div4_le not_less simp del: block_tx_loop.simps
          split: if_splits)
    also have "\<dots> \<longleftrightarrow> block_intrinsic_ok b ctx \<and> block_facts_of b facts"
      unfolding block_tx_loop_valid list_all2_conj_left using True Cons
      by (cases facts)
        (auto simp: block_intrinsic_ok_def block_facts_of_def block_hash_of_bytes block_sigops_def
          mult.commute)
    finally show ?thesis .
  qed
qed

lemma block_facts_exist:
  assumes "block_intrinsic_ok b ctx"
  shows "\<exists>facts. block_facts_of b facts"
proof -
  have "\<exists>fs. list_all2 tx_facts_of txs fs"
    if "list_all (\<lambda>tx. tx_intrinsic_ok tx limits) txs" for txs limits
    using that by (induction txs) (auto simp: list_all2_Cons1 dest!: tx_facts_exist)
  with assms obtain fs where "list_all2 tx_facts_of (blk_transactions b) fs"
    by (auto simp: block_intrinsic_ok_def)
  then have "block_facts_of b \<lparr>bf_hash = double_sha256 (header_bytes (blk_header b)),
      bf_merkle_root = mr_root (merkle_root (blk_transactions b)),
      bf_transaction_count = length (blk_transactions b), bf_serialized_size = block_serialized_size b,
      bf_stripped_size = block_stripped_serialized_size b, bf_weight = weight b,
      bf_legacy_sigop_cost = size_wrap (4 * block_sigops b), bf_sigop_cost = size_wrap (4 * block_sigops b),
      bf_witness_merkle_root = witness_merkle_root (blk_transactions b),
      bf_has_witness = block_has_witness (blk_transactions b),
      bf_commitment = find_witness_commitment (hd (blk_transactions b)), bf_transactions = fs,
      bf_spends = [], bf_spent_outputs = [], bf_created_outputs = [], bf_total_fees = 0,
      bf_coinbase_output_value = 0\<rparr>"
    by (simp add: block_facts_of_def)
  then show ?thesis by blast
qed

lemma finality_loop_valid:
  "finality_loop fin txs = op_ok (decision_valid u) \<longleftrightarrow>
     list_all (\<lambda>tx. tx_intrinsic_ok tx (fc_limits fin) \<and> final_under_locktime tx fin) txs"
proof (induction txs)
  case (Cons tx txs)
  from tx_facts_exist [of tx "fc_limits fin"] show ?case
    using Cons.IH by (auto simp: verify_bind_valid tx_finality_accepts)
qed simp

definition commitment_ok :: "block \<Rightarrow> bool" where
  "commitment_ok b \<longleftrightarrow>
     (case find_witness_commitment (hd (blk_transactions b)) of
        None \<Rightarrow> \<not> block_has_witness (blk_transactions b)
      | Some (index, commitment) \<Rightarrow>
          (\<exists>nonce. input_witness (hd (tx_inputs (hd (blk_transactions b)))) = [nonce] \<and> length nonce = 32 \<and>
             commitment = double_sha256 (witness_merkle_root (blk_transactions b) @ nonce)))"

definition block_contextual_ok :: "block \<Rightarrow> block_contextual_context \<Rightarrow> bool" where
  "block_contextual_ok b ctx \<longleftrightarrow>
     weight b \<le> max_block_weight (lc_limits (cc_local ctx)) \<and>
     list_all (\<lambda>tx. final_under_locktime tx
        \<lparr>fc_limits = bl_transactions (lc_limits (cc_local ctx)), fc_height = cc_height ctx,
         fc_timestamp = cc_locktime_cutoff ctx\<rparr>) (blk_transactions b) \<and>
     (height_in_coinbase_active (cc_deployments ctx) \<longrightarrow>
        starts_with (input_script (hd (tx_inputs (hd (blk_transactions b)))))
          (coinbase_height_prefix (cc_height ctx))) \<and>
     (if segwit_active (cc_deployments ctx) then commitment_ok b
      else \<not> block_has_witness (blk_transactions b))"

lemma witness_commitment_rules_valid:
  "witness_commitment_rules cb deployments facts = op_ok (decision_valid facts') \<longleftrightarrow>
     facts' = facts \<and>
     (segwit_active deployments \<longrightarrow>
       (case bf_commitment facts of
          None \<Rightarrow> \<not> bf_has_witness facts
        | Some (index, commitment) \<Rightarrow>
            (\<exists>nonce. input_witness (hd (tx_inputs cb)) = [nonce] \<and> length nonce = 32 \<and>
               commitment = double_sha256 (bf_witness_merkle_root facts @ nonce))))"
proof -
  have one: "length xs = Suc 0 \<longleftrightarrow> (\<exists>x. xs = [x])" for xs :: "'a list"
    by (cases xs) auto
  show ?thesis
    by (auto simp: witness_commitment_rules_def Let_def witness_commitment_hash_def one
        hash_writer_double_sha256_eq split: option.splits)
qed

theorem block_contextual_accepts:
  "assess_block_contextual b ctx = op_ok (decision_valid facts) \<longleftrightarrow>
     block_intrinsic_ok b (cc_local ctx) \<and> block_facts_of b facts \<and> block_contextual_ok b ctx"
proof -
  have rules: "block_contextual_rules b ctx facts = op_ok (decision_valid facts') \<longleftrightarrow>
      facts' = facts \<and> block_contextual_ok b ctx"
    if ok: "block_intrinsic_ok b (cc_local ctx)" and facts: "block_facts_of b facts" for facts facts'
  proof -
    have intr: "list_all (\<lambda>tx. tx_intrinsic_ok tx (bl_transactions (lc_limits (cc_local ctx)))) (blk_transactions b)"
      using ok by (simp add: block_intrinsic_ok_def)
    have bf: "bf_has_witness facts = block_has_witness (blk_transactions b)" "bf_weight facts = weight b"
      "bf_commitment facts = find_witness_commitment (hd (blk_transactions b))"
      "bf_witness_merkle_root facts = witness_merkle_root (blk_transactions b)"
      using facts by (simp_all add: block_facts_of_def)
    show ?thesis
      using intr
      by (auto simp: block_contextual_rules_def block_contextual_ok_def Let_def bf verify_bind_valid
          finality_loop_valid witness_commitment_rules_valid commitment_ok_def list_all_iff
          split: if_splits option.splits)
  qed
  show ?thesis
    unfolding assess_block_contextual_def verify_exception_boundary_Return verify_bind_valid
      block_intrinsic_accepts
    using rules by auto
qed

text \<open>With segwit active, a block that carries witness data commits to all of it in its coinbase.\<close>

theorem segwit_commitment:
  assumes "assess_block_contextual b ctx = op_ok (decision_valid facts)"
    and "segwit_active (cc_deployments ctx)" and "block_has_witness (blk_transactions b)"
  shows "\<exists>cb rest out nonce. blk_transactions b = cb # rest \<and> out \<in> set (tx_outputs cb) \<and>
    has_witness_commitment_prefix (output_script out) \<and>
    input_witness (hd (tx_inputs cb)) = [nonce] \<and> length nonce = 32 \<and>
    take 32 (drop 6 (output_script out)) = double_sha256 (witness_merkle_root (blk_transactions b) @ nonce)"
proof -
  from assms(1) have ok: "block_intrinsic_ok b (cc_local ctx)" "block_contextual_ok b ctx"
    by (simp_all add: block_contextual_accepts)
  from ok(1) obtain cb rest where txs: "blk_transactions b = cb # rest"
    by (auto simp: block_intrinsic_ok_def)
  from ok(2) assms(2) have com: "commitment_ok b" by (simp add: block_contextual_ok_def)
  with assms(3) obtain i c nonce where f: "find_witness_commitment cb = Some (i, c)"
    and n: "input_witness (hd (tx_inputs cb)) = [nonce]" "length nonce = 32"
      "c = double_sha256 (witness_merkle_root (blk_transactions b) @ nonce)"
    by (auto simp: commitment_ok_def txs split: option.splits)
  from find_commitment_loop_Some [of 0 "tx_outputs cb" i c] f obtain j where
    "j < length (tx_outputs cb)" "has_witness_commitment_prefix (output_script (tx_outputs cb ! j))"
    "c = take 32 (drop 6 (output_script (tx_outputs cb ! j)))"
    by (auto simp: find_witness_commitment_def)
  with n txs show ?thesis
    by (metis nth_mem)
qed

end
