(* ===== verification/Block_Spend.thy ===== *)
theory Block_Spend
  imports Block_Validation
begin

text \<open>
  The spend rules of a whole block (\<open>assess_block_spends_with_callbacks\<close> in
  \<^verbatim>\<open>validation/block.cpp\<close>): the overlay of outputs created and points spent so far, and the loop
  over the transactions that looks up, checks and spends the inputs and creates the outputs.

  The assertions of \<open>mark_spent\<close> are part of the model: a call whose assertion fails has the value
  \<^term>\<open>None\<close>, and so has the assessment of the block. The theorems show that this value never
  occurs, and that the loop implements a ledger: each accepted transaction consumes coins that the
  ledger holds at that moment and adds its outputs to it.
\<close>

subsection \<open>The overlay\<close>

record deployment_state =
  enforce_bip30 :: bool

record block_spend_context =
  bs_local :: block_local_context
  bs_spend :: spend_context
  bs_flags :: verification_flags
  bs_deployments :: deployment_state
  bs_subsidy :: amount
  bs_max_sigop_cost :: nat

record created_entry =
  ce_output :: created_output
  ce_spent :: bool

record block_spend_tracker =
  m_created :: "created_entry list"
  m_created_by_point :: "outpoint \<rightharpoonup> nat"
  m_spent_points :: "outpoint set"

definition empty_tracker :: block_spend_tracker where
  "empty_tracker = \<lparr>m_created = [], m_created_by_point = Map.empty, m_spent_points = {}\<rparr>"

datatype spend_source = From_coin_index | From_created_output nat

definition tracker_spent :: "block_spend_tracker \<Rightarrow> outpoint \<Rightarrow> bool" where
  "tracker_spent overlay point \<longleftrightarrow> point \<in> m_spent_points overlay"

definition contains_created :: "block_spend_tracker \<Rightarrow> outpoint \<Rightarrow> bool" where
  "contains_created overlay point \<longleftrightarrow> m_created_by_point overlay point \<noteq> None"

definition created_coin :: "created_output \<Rightarrow> coin" where
  "created_coin out =
     \<lparr>coin_output = co_output out, coin_height = co_height out, coin_coinbase = co_coinbase out,
      coin_previous_mtp = co_previous_mtp out\<rparr>"

definition find_unspent_created :: "block_spend_tracker \<Rightarrow> outpoint \<Rightarrow> (nat \<times> coin) option" where
  "find_unspent_created overlay point =
     (case m_created_by_point overlay point of
        None \<Rightarrow> None
      | Some index \<Rightarrow>
          if ce_spent (m_created overlay ! index) then None
          else Some (index, created_coin (ce_output (m_created overlay ! index))))"

definition mark_spent ::
  "block_spend_tracker \<Rightarrow> outpoint \<Rightarrow> spend_source \<Rightarrow> block_spend_tracker option" where
  "mark_spent overlay point source =
     (if point \<in> m_spent_points overlay then None
      else
       (let inserted = overlay\<lparr>m_spent_points := insert point (m_spent_points overlay)\<rparr> in
        case source of
          From_coin_index \<Rightarrow> Some inserted
        | From_created_output index \<Rightarrow>
            if index < length (m_created inserted) then
              Some (inserted\<lparr>m_created := (m_created inserted)
                [index := (m_created inserted ! index)\<lparr>ce_spent := True\<rparr>]\<rparr>)
            else None))"

definition add_created :: "block_spend_tracker \<Rightarrow> created_output \<Rightarrow> block_spend_tracker option" where
  "add_created overlay out =
     (if m_created_by_point overlay (co_point out) \<noteq> None then None
      else Some (overlay\<lparr>m_created := m_created overlay @ [\<lparr>ce_output = out, ce_spent = False\<rparr>],
        m_created_by_point := (m_created_by_point overlay)(co_point out \<mapsto> length (m_created overlay))\<rparr>))"

subsection \<open>One transaction\<close>

record spend_state =
  ss_overlay :: block_spend_tracker
  ss_created_outputs :: "created_output list"
  ss_spent_outputs :: "spent_output list"
  ss_spends :: "spend_facts list"
  ss_total_fees :: amount
  ss_sigop_cost :: nat

definition initial_spend_state :: spend_state where
  "initial_spend_state =
     \<lparr>ss_overlay = empty_tracker, ss_created_outputs = [], ss_spent_outputs = [], ss_spends = [],
      ss_total_fees = 0, ss_sigop_cost = 0\<rparr>"

definition add_sigop_cost :: "block_spend_context \<Rightarrow> nat \<Rightarrow> spend_state \<Rightarrow> spend_state option" where
  "add_sigop_cost context cost st =
     (if cost > bs_max_sigop_cost context \<or> ss_sigop_cost st > bs_max_sigop_cost context - cost then None
      else Some (st\<lparr>ss_sigop_cost := size_wrap (ss_sigop_cost st + cost)\<rparr>))"

fun collect_inputs ::
  "block_spend_tracker \<Rightarrow> coin_lookup_callback \<Rightarrow> tx_input list \<Rightarrow> (coin \<times> spend_source) list verify_result" where
  "collect_inputs overlay lookup [] = op_ok (decision_valid [])"
| "collect_inputs overlay lookup (input # inputs) =
     (if tracker_spent overlay (previous_output input) then
        block_invalid s02_prevouts_unspent ''transaction double-spends a prevout in this block''
      else (case find_unspent_created overlay (previous_output input) of
          Some (index, created) \<Rightarrow>
            verify_bind (collect_inputs overlay lookup inputs) (\<lambda>rest.
              op_ok (decision_valid ((created, From_created_output index) # rest)))
        | None \<Rightarrow>
            (case lookup (previous_output input) of
               op_failed e \<Rightarrow> op_failed e
             | op_ok None \<Rightarrow>
                 block_invalid s02_prevouts_unspent ''transaction input prevout is not present''
             | op_ok (Some c) \<Rightarrow>
                 verify_bind (collect_inputs overlay lookup inputs) (\<lambda>rest.
                   op_ok (decision_valid ((c, From_coin_index) # rest))))))"

definition spend_checks ::
  "script_interpreter \<Rightarrow> block_spend_context \<Rightarrow> transaction \<Rightarrow> transaction_facts \<Rightarrow> coin list \<Rightarrow>
   spend_state \<Rightarrow> spend_state verify_result" where
  "spend_checks VerifyScript context tx tx_facts input_coins st =
     verify_bind (assess_transaction_spends_with_coins tx tx_facts (bs_spend context) input_coins) (\<lambda>spend.
       if max_money (sc_limits (bs_spend context)) - sf_fee spend <s ss_total_fees st then
         block_invalid s06_input_value_and_fee_range ''block fee total exceeds maximum money''
       else
        (let paid = st\<lparr>ss_total_fees := ss_total_fees st + sf_fee spend,
               ss_spends := ss_spends st @ [spend]\<rparr> in
         case add_sigop_cost context (transaction_sigop_cost tx input_coins (bs_flags context)) paid of
           None \<Rightarrow> block_invalid s03_sigop_cost ''block sigop cost exceeds limit''
         | Some counted \<Rightarrow>
             verify_bind (verify_transaction_scripts VerifyScript tx (bs_spend context) (bs_flags context)
                 input_coins) (\<lambda>_. op_ok (decision_valid counted))))"

text \<open>The loop that records and marks the spent inputs; \<^term>\<open>None\<close> is a failed assertion.\<close>

fun mark_inputs ::
  "(outpoint \<times> coin \<times> spend_source) list \<Rightarrow> spend_state \<Rightarrow> spend_state option" where
  "mark_inputs [] st = Some st"
| "mark_inputs ((point, c, source) # rest) st =
     (case mark_spent (ss_overlay st) point source of
        None \<Rightarrow> None
      | Some overlay \<Rightarrow>
          mark_inputs rest (st\<lparr>ss_overlay := overlay,
            ss_spent_outputs := ss_spent_outputs st @ [\<lparr>so_point = point, so_previous_coin = c\<rparr>]\<rparr>))"

definition created_at ::
  "block_spend_context \<Rightarrow> transaction \<Rightarrow> transaction_facts \<Rightarrow> nat \<Rightarrow> created_output" where
  "created_at context tx tx_facts output_index =
     \<lparr>co_point = Outpoint (tf_id tx_facts) (of_nat output_index),
      co_output = tx_outputs tx ! output_index, co_height = sc_height (bs_spend context),
      co_coinbase = (tf_kind tx_facts = coinbase),
      co_previous_mtp = sc_previous_median_time_past (bs_spend context)\<rparr>"

definition bip30_check ::
  "block_spend_context \<Rightarrow> coin_lookup_callback \<Rightarrow> block_spend_tracker \<Rightarrow> outpoint \<Rightarrow> unit verify_result" where
  "bip30_check context lookup overlay point =
     (if \<not> enforce_bip30 (bs_deployments context) then op_ok (decision_valid ())
      else if contains_created overlay point then
        block_invalid s01_bip30_duplicate_unspent ''block creates a duplicate unspent output''
      else (case lookup point of
          op_failed e \<Rightarrow> op_failed e
        | op_ok (Some c) \<Rightarrow> block_invalid s01_bip30_duplicate_unspent ''block overwrites an unspent output''
        | op_ok None \<Rightarrow> op_ok (decision_valid ())))"

fun create_outputs ::
  "block_spend_context \<Rightarrow> coin_lookup_callback \<Rightarrow> created_output list \<Rightarrow> spend_state \<Rightarrow>
   spend_state verify_result" where
  "create_outputs context lookup [] st = op_ok (decision_valid st)"
| "create_outputs context lookup (out # outs) st =
     verify_bind (bip30_check context lookup (ss_overlay st) (co_point out)) (\<lambda>_.
       case add_created (ss_overlay st) out of
         None \<Rightarrow> block_invalid s01_bip30_duplicate_unspent ''block creates a duplicate output''
       | Some overlay \<Rightarrow>
           create_outputs context lookup outs (st\<lparr>ss_overlay := overlay,
             ss_created_outputs := ss_created_outputs st @ [out]\<rparr>))"

definition tx_created_outputs ::
  "block_spend_context \<Rightarrow> transaction \<Rightarrow> transaction_facts \<Rightarrow> created_output list" where
  "tx_created_outputs context tx tx_facts =
     map (created_at context tx tx_facts) [0..<length (tx_outputs tx)]"

definition spend_inputs ::
  "script_interpreter \<Rightarrow> block_spend_context \<Rightarrow> coin_lookup_callback \<Rightarrow> transaction \<Rightarrow>
   transaction_facts \<Rightarrow> spend_state \<Rightarrow> spend_state verify_result option" where
  "spend_inputs VerifyScript context lookup tx tx_facts st =
     (if tf_kind tx_facts = coinbase then
        (case add_sigop_cost context (transaction_sigop_cost tx [] (bs_flags context)) st of
           None \<Rightarrow> Some (block_invalid s03_sigop_cost ''block sigop cost exceeds limit'')
         | Some counted \<Rightarrow> Some (op_ok (decision_valid counted)))
      else
        (case verify_bind (collect_inputs (ss_overlay st) lookup (tx_inputs tx)) (\<lambda>found.
             verify_bind (spend_checks VerifyScript context tx tx_facts (map fst found) st) (\<lambda>checked.
               op_ok (decision_valid (found, checked)))) of
           op_failed e \<Rightarrow> Some (op_failed e)
         | op_ok (decision_invalid r) \<Rightarrow> Some (op_ok (decision_invalid r))
         | op_ok (decision_valid (found, checked)) \<Rightarrow>
             map_option (\<lambda>marked. op_ok (decision_valid marked))
               (mark_inputs (zip (map previous_output (tx_inputs tx)) found) checked)))"

definition spend_transaction ::
  "script_interpreter \<Rightarrow> block_spend_context \<Rightarrow> coin_lookup_callback \<Rightarrow> transaction \<Rightarrow>
   transaction_facts \<Rightarrow> spend_state \<Rightarrow> spend_state verify_result option" where
  "spend_transaction VerifyScript context lookup tx tx_facts st =
     map_option (\<lambda>spent. verify_bind spent
         (create_outputs context lookup (tx_created_outputs context tx tx_facts)))
       (spend_inputs VerifyScript context lookup tx tx_facts st)"

subsection \<open>The block\<close>

fun spend_loop ::
  "script_interpreter \<Rightarrow> block_spend_context \<Rightarrow> coin_lookup_callback \<Rightarrow>
   (transaction \<times> transaction_facts) list \<Rightarrow> spend_state \<Rightarrow> spend_state verify_result option" where
  "spend_loop VerifyScript context lookup [] st = Some (op_ok (decision_valid st))"
| "spend_loop VerifyScript context lookup ((tx, tx_facts) # rest) st =
     (case spend_transaction VerifyScript context lookup tx tx_facts st of
        None \<Rightarrow> None
      | Some (op_failed e) \<Rightarrow> Some (op_failed e)
      | Some (op_ok (decision_invalid r)) \<Rightarrow> Some (op_ok (decision_invalid r))
      | Some (op_ok (decision_valid st')) \<Rightarrow> spend_loop VerifyScript context lookup rest st')"

definition coinbase_rules :: "block_spend_context \<Rightarrow> block_facts \<Rightarrow> spend_state \<Rightarrow> block_facts verify_result" where
  "coinbase_rules context local_facts st =
     (let coinbase_value = tf_output_value (hd (bf_transactions local_facts));
          max_reward = max_money (sc_limits (bs_spend context)) in
      if max_reward - ss_total_fees st <s bs_subsidy context then
        block_invalid s04_coinbase_subsidy ''block subsidy plus fees exceeds maximum money''
      else if bs_subsidy context + ss_total_fees st <s coinbase_value then
        block_invalid s04_coinbase_subsidy ''coinbase pays more than subsidy plus fees''
      else op_ok (decision_valid (local_facts
        \<lparr>bf_sigop_cost := ss_sigop_cost st, bf_spends := ss_spends st,
         bf_spent_outputs := ss_spent_outputs st, bf_created_outputs := ss_created_outputs st,
         bf_total_fees := ss_total_fees st, bf_coinbase_output_value := coinbase_value\<rparr>)))"

definition block_spend_rules ::
  "script_interpreter \<Rightarrow> block \<Rightarrow> block_spend_context \<Rightarrow> coin_lookup_callback \<Rightarrow>
   block_facts verify_result option" where
  "block_spend_rules VerifyScript candidate context lookup =
     (case assess_block_intrinsic candidate (bs_local context) of
        op_failed e \<Rightarrow> Some (op_failed e)
      | op_ok (decision_invalid r) \<Rightarrow> Some (op_ok (decision_invalid r))
      | op_ok (decision_valid local_facts) \<Rightarrow>
          map_option (\<lambda>result. verify_bind result (coinbase_rules context local_facts))
            (spend_loop VerifyScript context lookup
              (zip (blk_transactions candidate) (bf_transactions local_facts)) initial_spend_state))"

definition assess_block_spends_with_callbacks ::
  "script_interpreter \<Rightarrow> block \<Rightarrow> block_spend_context \<Rightarrow> coin_lookup_callback \<Rightarrow>
   block_facts verify_result option" where
  "assess_block_spends_with_callbacks VerifyScript candidate context lookup =
     map_option (\<lambda>result. verify_exception_boundary (Return result)
         ''block spend validation exhausted resources'' internal_bug
         ''block spend validation threw an exception'')
       (block_spend_rules VerifyScript candidate context lookup)"

definition assess_block_spends ::
  "script_interpreter \<Rightarrow> block \<Rightarrow> block_spend_context \<Rightarrow> coin_source \<Rightarrow> block_facts verify_result option" where
  "assess_block_spends VerifyScript candidate context coins =
     assess_block_spends_with_callbacks VerifyScript candidate context (lookup_coin coins)"

subsection \<open>The overlay as a partial map\<close>

definition tracker_inv :: "block_spend_tracker \<Rightarrow> bool" where
  "tracker_inv t \<longleftrightarrow>
     (\<forall>p i. m_created_by_point t p = Some i \<longleftrightarrow>
        i < length (m_created t) \<and> co_point (ce_output (m_created t ! i)) = p)"

text \<open>The coins the next input may spend: created and not spent here, or in the coin index.\<close>

definition overlay_view :: "block_spend_tracker \<Rightarrow> (outpoint \<rightharpoonup> coin) \<Rightarrow> outpoint \<rightharpoonup> coin" where
  "overlay_view t idx p =
     (if p \<in> m_spent_points t then None
      else case find_unspent_created t p of Some (i, c) \<Rightarrow> Some c | None \<Rightarrow> idx p)"

lemma tracker_inv_empty: "tracker_inv empty_tracker"
  by (simp add: tracker_inv_def empty_tracker_def)

lemma overlay_view_empty: "overlay_view empty_tracker idx = idx"
  by (simp add: fun_eq_iff overlay_view_def find_unspent_created_def empty_tracker_def)

lemma add_created_Some:
  assumes "tracker_inv t" and "add_created t out = Some t'"
  shows "tracker_inv t'" and "m_spent_points t' = m_spent_points t"
    and "map ce_output (m_created t') = map ce_output (m_created t) @ [out]"
    and "overlay_view t' idx = (if co_point out \<in> m_spent_points t then overlay_view t idx
      else (overlay_view t idx)(co_point out \<mapsto> created_coin out))"
proof -
  from assms(2) have new: "m_created_by_point t (co_point out) = None"
    and t': "t' = t\<lparr>m_created := m_created t @ [\<lparr>ce_output = out, ce_spent = False\<rparr>],
        m_created_by_point := (m_created_by_point t)(co_point out \<mapsto> length (m_created t))\<rparr>"
    by (auto simp: add_created_def split: if_splits)
  have inv: "m_created_by_point t p = Some i \<longleftrightarrow>
      i < length (m_created t) \<and> co_point (ce_output (m_created t ! i)) = p" for p i
    using assms(1) by (auto simp: tracker_inv_def)
  have lt: "i < length (m_created t)" if "m_created_by_point t p = Some i" for p i
    using that inv by blast
  have neq: "co_point (ce_output (m_created t ! i)) \<noteq> co_point out" if "i < length (m_created t)" for i
    using that inv [of "co_point out" i] new by auto
  show "tracker_inv t'"
    unfolding tracker_inv_def t' using inv neq lt by (auto simp: nth_append less_Suc_eq)
  show "m_spent_points t' = m_spent_points t" by (simp add: t')
  show "map ce_output (m_created t') = map ce_output (m_created t) @ [out]" by (simp add: t')
  show "overlay_view t' idx = (if co_point out \<in> m_spent_points t then overlay_view t idx
      else (overlay_view t idx)(co_point out \<mapsto> created_coin out))"
    using lt new
    by (auto simp: fun_eq_iff overlay_view_def find_unspent_created_def t' nth_append split: option.splits)
qed

text \<open>A source that \<open>collect_inputs\<close> may pair with a point.\<close>

definition source_of :: "block_spend_tracker \<Rightarrow> outpoint \<Rightarrow> spend_source \<Rightarrow> bool" where
  "source_of t p src \<longleftrightarrow>
     (case src of
        From_coin_index \<Rightarrow> find_unspent_created t p = None
      | From_created_output i \<Rightarrow> m_created_by_point t p = Some i)"

lemma find_unspent_created_spent [simp]:
  "find_unspent_created (t\<lparr>m_spent_points := S\<rparr>) = find_unspent_created t"
  by (auto simp: fun_eq_iff find_unspent_created_def split: option.splits)

lemma mark_spent_Some:
  assumes "tracker_inv t" and "p \<notin> m_spent_points t" and "source_of t p src"
  obtains t' where "mark_spent t p src = Some t'" and "tracker_inv t'"
    and "m_spent_points t' = insert p (m_spent_points t)"
    and "map ce_output (m_created t') = map ce_output (m_created t)"
    and "m_created_by_point t' = m_created_by_point t"
    and "overlay_view t' idx = (overlay_view t idx)(p := None)"
    and "\<And>q s. q \<noteq> p \<Longrightarrow> source_of t q s \<Longrightarrow> source_of t' q s"
proof (cases src)
  case From_coin_index
  then show ?thesis
    using assms
    by (intro that [of "t\<lparr>m_spent_points := insert p (m_spent_points t)\<rparr>"])
      (auto simp: mark_spent_def tracker_inv_def overlay_view_def fun_eq_iff
        source_of_def split: spend_source.splits)
next
  case (From_created_output i)
  have inv: "m_created_by_point t q = Some j \<longleftrightarrow>
      j < length (m_created t) \<and> co_point (ce_output (m_created t ! j)) = q" for q j
    using assms(1) by (auto simp: tracker_inv_def)
  from assms(3) From_created_output have i: "i < length (m_created t)" "co_point (ce_output (m_created t ! i)) = p"
    by (auto simp: source_of_def inv)
  let ?t = "t\<lparr>m_spent_points := insert p (m_spent_points t),
    m_created := (m_created t)[i := (m_created t ! i)\<lparr>ce_spent := True\<rparr>]\<rparr>"
  have ce: "ce_output (m_created ?t ! j) = ce_output (m_created t ! j)" if "j < length (m_created t)" for j
    using i that by (simp add: nth_list_update)
  have other: "find_unspent_created ?t q = find_unspent_created t q" if "q \<noteq> p" for q
  proof (cases "m_created_by_point t q")
    case (Some j)
    then have "j \<noteq> i" using that i inv [of q j] by auto
    then show ?thesis by (simp add: find_unspent_created_def Some)
  qed (simp add: find_unspent_created_def)
  show ?thesis
  proof (rule that [of ?t])
    show "mark_spent t p src = Some ?t"
      using assms(2) i by (simp add: mark_spent_def From_created_output)
    show "tracker_inv ?t"
      unfolding tracker_inv_def
    proof (intro allI)
      fix q j
      show "m_created_by_point ?t q = Some j \<longleftrightarrow>
          j < length (m_created ?t) \<and> co_point (ce_output (m_created ?t ! j)) = q"
        using inv [of q j] ce [of j] by (cases "j < length (m_created t)") simp_all
    qed
    show "map ce_output (m_created ?t) = map ce_output (m_created t)"
      using ce by (intro nth_equalityI) simp_all
    show "overlay_view ?t idx = (overlay_view t idx)(p := None)"
      using other by (auto simp: fun_eq_iff overlay_view_def)
    show "source_of ?t q s" if "q \<noteq> p" "source_of t q s" for q s
      using that other by (auto simp: source_of_def split: spend_source.splits)
  qed simp_all
qed


subsection \<open>The input and output loops\<close>

definition index_map :: "coin_lookup_callback \<Rightarrow> outpoint \<rightharpoonup> coin" where
  "index_map lookup p = (case lookup p of op_ok c \<Rightarrow> c | op_failed e \<Rightarrow> None)"

lemma collect_inputs_valid:
  "collect_inputs t lookup inputs = op_ok (decision_valid found) \<Longrightarrow> tracker_inv t \<Longrightarrow>
     list_all2 (\<lambda>i f. previous_output i \<notin> m_spent_points t \<and> source_of t (previous_output i) (snd f) \<and>
       overlay_view t (index_map lookup) (previous_output i) = Some (fst f)) inputs found"
proof (induction inputs arbitrary: found)
  case (Cons i inputs)
  let ?p = "previous_output i"
  from Cons.prems(1) have ns: "?p \<notin> m_spent_points t"
    by (auto simp: tracker_spent_def split: if_splits)
  show ?case
  proof (cases "find_unspent_created t ?p")
    case None
    with Cons.prems(1) ns obtain c rest where "lookup ?p = op_ok (Some c)"
      and f: "found = (c, From_coin_index) # rest" "collect_inputs t lookup inputs = op_ok (decision_valid rest)"
      by (auto simp: tracker_spent_def verify_bind_valid split: operation_result.splits option.splits)
    then show ?thesis
      using Cons.IH [OF f(2) Cons.prems(2)] ns None
      by (simp add: overlay_view_def source_of_def index_map_def)
  next
    case (Some ic)
    obtain j c where ic: "ic = (j, c)" by fastforce
    with Some Cons.prems(1) ns obtain rest where
      f: "found = (c, From_created_output j) # rest" "collect_inputs t lookup inputs = op_ok (decision_valid rest)"
      by (auto simp: tracker_spent_def verify_bind_valid)
    moreover have "m_created_by_point t ?p = Some j"
      using Some ic by (auto simp: find_unspent_created_def split: option.splits if_splits)
    ultimately show ?thesis
      using Cons.IH [OF f(2) Cons.prems(2)] ns Some ic
      by (simp add: overlay_view_def source_of_def)
  qed
qed simp

definition spent_of :: "(outpoint \<times> coin \<times> spend_source) list \<Rightarrow> spent_output list" where
  "spent_of marks = map (\<lambda>(p, c, s). \<lparr>so_point = p, so_previous_coin = c\<rparr>) marks"

lemma mark_inputs_Some:
  assumes "tracker_inv (ss_overlay st)" and "distinct (map fst marks)"
    and "\<forall>(p, c, s)\<in>set marks. p \<notin> m_spent_points (ss_overlay st) \<and> source_of (ss_overlay st) p s"
  shows "\<exists>t'. mark_inputs marks st = Some (st\<lparr>ss_overlay := t',
      ss_spent_outputs := ss_spent_outputs st @ spent_of marks\<rparr>) \<and> tracker_inv t' \<and>
    m_spent_points t' = m_spent_points (ss_overlay st) \<union> fst ` set marks \<and>
    map ce_output (m_created t') = map ce_output (m_created (ss_overlay st)) \<and>
    overlay_view t' idx = overlay_view (ss_overlay st) idx |` (- (fst ` set marks))"
  using assms
proof (induction marks arbitrary: st)
  case Nil
  then show ?case
    by (intro exI [of _ "ss_overlay st"]) (simp add: spent_of_def)
next
  case (Cons m marks)
  obtain p c s where m: "m = (p, c, s)" by (cases m)
  from Cons.prems(3) m have ps: "p \<notin> m_spent_points (ss_overlay st)" "source_of (ss_overlay st) p s" by auto
  obtain t1 where t1: "mark_spent (ss_overlay st) p s = Some t1" "tracker_inv t1"
      "m_spent_points t1 = insert p (m_spent_points (ss_overlay st))"
      "map ce_output (m_created t1) = map ce_output (m_created (ss_overlay st))"
      "overlay_view t1 idx = (overlay_view (ss_overlay st) idx)(p := None)"
      "\<And>q s. q \<noteq> p \<Longrightarrow> source_of (ss_overlay st) q s \<Longrightarrow> source_of t1 q s"
    by (rule mark_spent_Some [OF Cons.prems(1) ps, of idx]) blast
  let ?st = "st\<lparr>ss_overlay := t1, ss_spent_outputs := ss_spent_outputs st @ [\<lparr>so_point = p, so_previous_coin = c\<rparr>]\<rparr>"
  have rest: "\<forall>(q, d, u)\<in>set marks. q \<notin> m_spent_points (ss_overlay ?st) \<and> source_of (ss_overlay ?st) q u"
  proof safe
    fix q d u assume in_marks: "(q, d, u) \<in> set marks"
    then have "q \<noteq> p" using Cons.prems(2) m by force
    moreover from in_marks Cons.prems(3) have
      "q \<notin> m_spent_points (ss_overlay st)" "source_of (ss_overlay st) q u" by auto
    ultimately show "source_of (ss_overlay ?st) q u" "q \<in> m_spent_points (ss_overlay ?st) \<Longrightarrow> False"
      using t1(3,6) by simp_all
  qed
  from Cons.IH [of ?st] t1(2) Cons.prems(2) rest obtain t' where
    "mark_inputs marks ?st = Some (?st\<lparr>ss_overlay := t', ss_spent_outputs := ss_spent_outputs ?st @ spent_of marks\<rparr>)"
    "tracker_inv t'" "m_spent_points t' = m_spent_points t1 \<union> fst ` set marks"
    "map ce_output (m_created t') = map ce_output (m_created t1)"
    "overlay_view t' idx = overlay_view t1 idx |` (- (fst ` set marks))"
    by auto
  then show ?case
    using t1 m
    by (intro exI [of _ t']) (auto simp: spent_of_def restrict_map_def fun_eq_iff)
qed

lemma bip30_check_valid:
  "bip30_check context lookup t p = op_ok (decision_valid u) \<longleftrightarrow>
     (enforce_bip30 (bs_deployments context) \<longrightarrow> \<not> contains_created t p \<and> lookup p = op_ok None)"
  by (auto simp: bip30_check_def split: operation_result.splits option.splits)

definition created_map :: "created_output list \<Rightarrow> outpoint \<rightharpoonup> coin" where
  "created_map outs = map_of (rev (map (\<lambda>out. (co_point out, created_coin out)) outs))"

lemma created_map_simps [simp]:
  "created_map [] = Map.empty"
  "m ++ created_map (out # outs) = m(co_point out \<mapsto> created_coin out) ++ created_map outs"
  by (simp_all add: created_map_def map_add_upd_left fun_eq_iff map_add_def split: option.splits)

lemma create_outputs_valid:
  assumes "create_outputs context lookup outs st = op_ok (decision_valid st')"
    and "tracker_inv (ss_overlay st)" and "overlay_view (ss_overlay st) idx \<subseteq>\<^sub>m m"
  shows "\<exists>t'. st' = st\<lparr>ss_overlay := t', ss_created_outputs := ss_created_outputs st @ outs\<rparr> \<and>
    tracker_inv t' \<and> m_spent_points t' = m_spent_points (ss_overlay st) \<and>
    map ce_output (m_created t') = map ce_output (m_created (ss_overlay st)) @ outs \<and>
    overlay_view t' idx \<subseteq>\<^sub>m m ++ created_map outs"
  using assms
proof (induction outs arbitrary: st m)
  case Nil
  then show ?case by (intro exI [of _ "ss_overlay st"]) simp
next
  case (Cons out outs)
  from Cons.prems(1) obtain t1 where t1: "add_created (ss_overlay st) out = Some t1"
    and rest: "create_outputs context lookup outs (st\<lparr>ss_overlay := t1,
      ss_created_outputs := ss_created_outputs st @ [out]\<rparr>) = op_ok (decision_valid st')"
    by (auto simp: verify_bind_valid split: option.splits)
  note add = add_created_Some [OF Cons.prems(2) t1]
  have view: "overlay_view t1 idx \<subseteq>\<^sub>m m(co_point out \<mapsto> created_coin out)"
  proof (cases "co_point out \<in> m_spent_points (ss_overlay st)")
    case True
    then have "overlay_view (ss_overlay st) idx (co_point out) = None" by (simp add: overlay_view_def)
    with True Cons.prems(3) show ?thesis by (auto simp: add(4) map_le_def dom_def)
  next
    case False
    with Cons.prems(3) show ?thesis by (auto simp: add(4) map_le_def dom_def)
  qed
  let ?st = "st\<lparr>ss_overlay := t1, ss_created_outputs := ss_created_outputs st @ [out]\<rparr>"
  have "tracker_inv (ss_overlay ?st)"
    and "overlay_view (ss_overlay ?st) idx \<subseteq>\<^sub>m m(co_point out \<mapsto> created_coin out)"
    using add(1) view by simp_all
  from Cons.IH [OF rest this] obtain t' where "st' = st\<lparr>ss_overlay := t', ss_created_outputs := ss_created_outputs st @ out # outs\<rparr>"
    "tracker_inv t'" "m_spent_points t' = m_spent_points t1"
    "map ce_output (m_created t') = map ce_output (m_created t1) @ outs"
    "overlay_view t' idx \<subseteq>\<^sub>m m(co_point out \<mapsto> created_coin out) ++ created_map outs"
    by (auto simp del: fun_upd_apply)
  with add(2,3) show ?case by (intro exI [of _ t']) simp
qed

subsection \<open>The ledger\<close>

text \<open>
  A ledger maps outpoints to coins. An ordinary transaction consumes the coins of its inputs, which
  the ledger must hold and its scripts must unlock, and adds its outputs; a coinbase only adds.
\<close>

type_synonym ledger = "outpoint \<rightharpoonup> coin"

definition prevouts :: "transaction \<Rightarrow> outpoint list" where
  "prevouts tx = map previous_output (tx_inputs tx)"

inductive ledger_run ::
  "script_interpreter \<Rightarrow> block_spend_context \<Rightarrow> ledger \<Rightarrow> (transaction \<times> transaction_facts) list \<Rightarrow>
   coin list list \<Rightarrow> ledger \<Rightarrow> bool" for V ctx where
  finish: "ledger_run V ctx m [] [] m"
| mint: "tf_kind tf = coinbase \<Longrightarrow>
    ledger_run V ctx (m ++ created_map (tx_created_outputs ctx tx tf)) rest css m' \<Longrightarrow>
    ledger_run V ctx m ((tx, tf) # rest) ([] # css) m'"
| spend: "tf_kind tf \<noteq> coinbase \<Longrightarrow> distinct (prevouts tx) \<Longrightarrow> map m (prevouts tx) = map Some cs \<Longrightarrow>
    assess_transaction_spends_with_coins tx tf (bs_spend ctx) cs = op_ok (decision_valid sf) \<Longrightarrow>
    verify_transaction_scripts V tx (bs_spend ctx) (bs_flags ctx) cs = op_ok (decision_valid sf') \<Longrightarrow>
    ledger_run V ctx ((m |` (- set (prevouts tx))) ++ created_map (tx_created_outputs ctx tx tf)) rest css m' \<Longrightarrow>
    ledger_run V ctx m ((tx, tf) # rest) (cs # css) m'"

lemma add_sigop_cost_Some:
  "add_sigop_cost context cost st = Some st' \<Longrightarrow>
     ss_sigop_cost st + cost \<le> bs_max_sigop_cost context \<and>
     st' = st\<lparr>ss_sigop_cost := size_wrap (ss_sigop_cost st + cost)\<rparr>"
  by (auto simp: add_sigop_cost_def split: if_splits)

lemma spend_checks_valid:
  "spend_checks V context tx tf cs st = op_ok (decision_valid st') \<longleftrightarrow>
     (\<exists>sf sf'. assess_transaction_spends_with_coins tx tf (bs_spend context) cs = op_ok (decision_valid sf) \<and>
       ss_total_fees st \<le>s max_money (sc_limits (bs_spend context)) - sf_fee sf \<and>
       add_sigop_cost context (transaction_sigop_cost tx cs (bs_flags context))
         (st\<lparr>ss_total_fees := ss_total_fees st + sf_fee sf, ss_spends := ss_spends st @ [sf]\<rparr>) = Some st' \<and>
       verify_transaction_scripts V tx (bs_spend context) (bs_flags context) cs = op_ok (decision_valid sf'))"
  by (auto simp: spend_checks_def verify_bind_valid Let_def word_sless_alt word_sle_eq not_less
      split: option.splits)

subsection \<open>One transaction preserves the invariant and makes a ledger step\<close>

definition spend_inv :: "block_spend_context \<Rightarrow> spend_state \<Rightarrow> bool" where
  "spend_inv ctx st \<longleftrightarrow>
     tracker_inv (ss_overlay st) \<and>
     map ce_output (m_created (ss_overlay st)) = ss_created_outputs st \<and>
     set (map so_point (ss_spent_outputs st)) = m_spent_points (ss_overlay st) \<and>
     distinct (map so_point (ss_spent_outputs st)) \<and>
     ss_sigop_cost st \<le> bs_max_sigop_cost ctx"

lemma spend_inv_initial: "spend_inv ctx initial_spend_state"
  by (simp add: spend_inv_def initial_spend_state_def tracker_inv_empty)
    (simp add: empty_tracker_def)

text \<open>What the checks leave unchanged.\<close>

lemma spend_checks_frame:
  assumes "spend_checks V ctx tx tf cs st = op_ok (decision_valid st')" and "spend_inv ctx st"
  shows "ss_overlay st' = ss_overlay st" and "ss_created_outputs st' = ss_created_outputs st"
    and "ss_spent_outputs st' = ss_spent_outputs st" and "spend_inv ctx st'"
proof -
  from assms(1) obtain sf where
    "add_sigop_cost ctx (transaction_sigop_cost tx cs (bs_flags ctx))
       (st\<lparr>ss_total_fees := ss_total_fees st + sf_fee sf, ss_spends := ss_spends st @ [sf]\<rparr>) = Some st'"
    by (auto simp: spend_checks_valid)
  from add_sigop_cost_Some [OF this] show "ss_overlay st' = ss_overlay st"
    "ss_created_outputs st' = ss_created_outputs st" "ss_spent_outputs st' = ss_spent_outputs st"
    "spend_inv ctx st'"
    using assms(2) size_wrap_le by (auto simp: spend_inv_def intro: order_trans)
qed

lemma marks_ok:
  assumes "list_all2 (\<lambda>i f. previous_output i \<notin> S \<and> source_of t (previous_output i) (snd f) \<and>
      v (previous_output i) = Some (fst f)) inputs found"
  shows "map fst (zip (map previous_output inputs) found) = map previous_output inputs"
    and "\<forall>(p, c, s)\<in>set (zip (map previous_output inputs) found). p \<notin> S \<and> source_of t p s"
    and "map v (map previous_output inputs) = map Some (map fst found)"
    and "map so_previous_coin (spent_of (zip (map previous_output inputs) found)) = map fst found"
    and "map so_point (spent_of (zip (map previous_output inputs) found)) = map previous_output inputs"
  using assms by (induction rule: list_all2_induct) (auto simp: spent_of_def)

abbreviation spend_stages where
  "spend_stages V ctx lookup tx tf st \<equiv>
     verify_bind (collect_inputs (ss_overlay st) lookup (tx_inputs tx)) (\<lambda>found.
       verify_bind (spend_checks V ctx tx tf (map fst found) st) (\<lambda>checked.
         op_ok (decision_valid (found, checked))))"

lemma spend_stages_mark:
  assumes inv: "spend_inv ctx st" and dist: "distinct (prevouts tx)"
    and "spend_stages V ctx lookup tx tf st = op_ok (decision_valid (found, checked))"
  shows "\<exists>t'. mark_inputs (zip (prevouts tx) found) checked = Some (checked\<lparr>ss_overlay := t',
        ss_spent_outputs := ss_spent_outputs st @ spent_of (zip (prevouts tx) found)\<rparr>) \<and> tracker_inv t' \<and>
      m_spent_points t' = m_spent_points (ss_overlay st) \<union> set (prevouts tx) \<and>
      map ce_output (m_created t') = map ce_output (m_created (ss_overlay st)) \<and>
      overlay_view t' (index_map lookup) = overlay_view (ss_overlay st) (index_map lookup) |` (- set (prevouts tx)) \<and>
      map (overlay_view (ss_overlay st) (index_map lookup)) (prevouts tx) = map Some (map fst found) \<and>
      map so_previous_coin (spent_of (zip (prevouts tx) found)) = map fst found \<and>
      map so_point (spent_of (zip (prevouts tx) found)) = prevouts tx \<and>
      set (prevouts tx) \<inter> m_spent_points (ss_overlay st) = {} \<and> spend_inv ctx checked"
proof -
  from assms(3) have c: "collect_inputs (ss_overlay st) lookup (tx_inputs tx) = op_ok (decision_valid found)"
    and s: "spend_checks V ctx tx tf (map fst found) st = op_ok (decision_valid checked)"
    by (auto simp: verify_bind_valid)
  note frame = spend_checks_frame [OF s inv]
  have t: "tracker_inv (ss_overlay st)" using inv by (simp add: spend_inv_def)
  note all = collect_inputs_valid [OF c t]
  note ok = marks_ok [OF all]
  have fresh: "set (prevouts tx) \<inter> m_spent_points (ss_overlay st) = {}"
    using all unfolding prevouts_def by (induction rule: list_all2_induct) auto
  have "fst ` set (zip (map previous_output (tx_inputs tx)) found) = set (prevouts tx)"
    using ok(1) by (simp add: prevouts_def flip: set_map)
  moreover note mark_inputs_Some [of checked "zip (prevouts tx) found" "index_map lookup"]
  ultimately show ?thesis
    using ok dist t fresh frame unfolding prevouts_def by simp
qed

text \<open>
  The ordinary case. When every check passes, the marks succeed, and the coins spent are the ones
  visible in the overlay.
\<close>

lemma spend_inputs_ordinary:
  assumes ordinary: "tf_kind tf \<noteq> coinbase" and inv: "spend_inv ctx st" and dist: "distinct (prevouts tx)"
  shows "spend_inputs V ctx lookup tx tf st \<noteq> None"
    and "spend_inputs V ctx lookup tx tf st = Some (op_ok (decision_valid st')) \<Longrightarrow>
      \<exists>cs checked t'. map (overlay_view (ss_overlay st) (index_map lookup)) (prevouts tx) = map Some cs \<and>
        spend_checks V ctx tx tf cs st = op_ok (decision_valid checked) \<and>
        (\<exists>spent. st' = checked\<lparr>ss_overlay := t', ss_spent_outputs := ss_spent_outputs st @ spent\<rparr> \<and>
          map so_previous_coin spent = cs) \<and>
        spend_inv ctx st' \<and>
        overlay_view t' (index_map lookup) =
          overlay_view (ss_overlay st) (index_map lookup) |` (- set (prevouts tx))"
proof -
  let ?idx = "index_map lookup"
  note marks = spend_stages_mark [OF inv dist]
  show "spend_inputs V ctx lookup tx tf st \<noteq> None"
    using ordinary marks
    by (fastforce simp: spend_inputs_def prevouts_def split: operation_result.splits validation_decision.splits)
  assume "spend_inputs V ctx lookup tx tf st = Some (op_ok (decision_valid st'))"
  then obtain found checked where f: "spend_stages V ctx lookup tx tf st = op_ok (decision_valid (found, checked))"
    and st': "mark_inputs (zip (prevouts tx) found) checked = Some st'"
    using ordinary
    by (auto simp: spend_inputs_def prevouts_def split: operation_result.splits validation_decision.splits)
  from marks [OF f] st' obtain t' where
    r: "st' = checked\<lparr>ss_overlay := t', ss_spent_outputs := ss_spent_outputs st @ spent_of (zip (prevouts tx) found)\<rparr>"
      "tracker_inv t'" "m_spent_points t' = m_spent_points (ss_overlay st) \<union> set (prevouts tx)"
      "map ce_output (m_created t') = map ce_output (m_created (ss_overlay st))"
      "overlay_view t' ?idx = overlay_view (ss_overlay st) ?idx |` (- set (prevouts tx))"
      "map (overlay_view (ss_overlay st) ?idx) (prevouts tx) = map Some (map fst found)"
      "map so_previous_coin (spent_of (zip (prevouts tx) found)) = map fst found"
      "map so_point (spent_of (zip (prevouts tx) found)) = prevouts tx"
      "set (prevouts tx) \<inter> m_spent_points (ss_overlay st) = {}" "spend_inv ctx checked"
    by auto
  from f have s: "spend_checks V ctx tx tf (map fst found) st = op_ok (decision_valid checked)"
    by (auto simp: verify_bind_valid)
  note frame = spend_checks_frame [OF s inv]
  have "spend_inv ctx st'"
    using inv r dist frame by (auto simp: spend_inv_def)
  with r s show "\<exists>cs checked t'. map (overlay_view (ss_overlay st) ?idx) (prevouts tx) = map Some cs \<and>
        spend_checks V ctx tx tf cs st = op_ok (decision_valid checked) \<and>
        (\<exists>spent. st' = checked\<lparr>ss_overlay := t', ss_spent_outputs := ss_spent_outputs st @ spent\<rparr> \<and>
          map so_previous_coin spent = cs) \<and>
        spend_inv ctx st' \<and>
        overlay_view t' ?idx = overlay_view (ss_overlay st) ?idx |` (- set (prevouts tx))"
    by blast
qed

lemma map_le_restrict: "a \<subseteq>\<^sub>m b \<Longrightarrow> a |` A \<subseteq>\<^sub>m b |` A"
  by (auto simp: map_le_def restrict_map_def dom_def split: if_splits)

lemma map_le_values:
  "a \<subseteq>\<^sub>m b \<Longrightarrow> map a ps = map Some cs \<Longrightarrow> map b ps = map Some cs"
proof (induction ps arbitrary: cs)
  case (Cons p ps)
  then obtain c cs' where "cs = c # cs'" "a p = Some c" "map a ps = map Some cs'" by (cases cs) auto
  with Cons show ?case by (auto simp: map_le_def dom_def)
qed simp

definition fees_in_range :: "block_spend_context \<Rightarrow> spend_state \<Rightarrow> bool" where
  "fees_in_range ctx st \<longleftrightarrow>
     0 \<le> sint (ss_total_fees st) \<and>
     (ss_total_fees st = 0 \<or> sint (ss_total_fees st) \<le> sint (max_money (sc_limits (bs_spend ctx))))"

text \<open>What one transaction pays in fees, over the integers.\<close>

definition fee_paid :: "transaction_facts \<Rightarrow> coin list \<Rightarrow> int" where
  "fee_paid tf cs = (if tf_kind tf = coinbase then 0 else coins_total cs - sint (tf_output_value tf))"

lemma fee_added:
  assumes s: "assess_transaction_spends_with_coins tx tf (bs_spend ctx) cs = op_ok (decision_valid sf)"
    and out: "0 \<le> sint (tf_output_value tf)" and range: "fees_in_range ctx st"
    and room: "ss_total_fees st \<le>s max_money (sc_limits (bs_spend ctx)) - sf_fee sf"
  shows "sint (ss_total_fees st + sf_fee sf) = sint (ss_total_fees st) + (coins_total cs - sint (tf_output_value tf))"
    and "0 \<le> coins_total cs - sint (tf_output_value tf)"
    and "sint (ss_total_fees st + sf_fee sf) \<le> sint (max_money (sc_limits (bs_spend ctx)))"
proof -
  let ?max = "max_money (sc_limits (bs_spend ctx))"
  from s have ok: "spend_ok tx tf (bs_spend ctx) cs" "spend_facts_of tf cs sf"
    by (simp_all add: spend_with_coins_accepts [OF out])
  then have fee: "sint (sf_fee sf) = coins_total cs - sint (tf_output_value tf)"
    and nonneg: "0 \<le> coins_total cs - sint (tf_output_value tf)"
    and le: "coins_total cs \<le> sint ?max"
    by (simp_all add: spend_facts_of_def spend_ok_def)
  show "0 \<le> coins_total cs - sint (tf_output_value tf)" by (rule nonneg)
  have "sint (?max - sf_fee sf) = sint ?max - sint (sf_fee sf)"
    using fee nonneg le out sint64_upper [of ?max] by (intro sint_minus_exact) simp_all
  with room have room': "sint (ss_total_fees st) + sint (sf_fee sf) \<le> sint ?max"
    by (simp add: word_sle_eq)
  have sum: "sint (ss_total_fees st + sf_fee sf) = sint (ss_total_fees st) + sint (sf_fee sf)"
    using room' range fee nonneg sint64_upper [of ?max]
    by (intro sint_plus_exact) (simp_all add: fees_in_range_def)
  with fee show "sint (ss_total_fees st + sf_fee sf) =
      sint (ss_total_fees st) + (coins_total cs - sint (tf_output_value tf))" by simp
  from sum room' show "sint (ss_total_fees st + sf_fee sf) \<le> sint ?max" by simp
qed

definition facts_ok :: "transaction \<times> transaction_facts \<Rightarrow> bool" where
  "facts_ok = (\<lambda>(tx, tf). distinct (prevouts tx) \<and> 0 \<le> sint (tf_output_value tf))"

lemma create_outputs_inv:
  assumes "create_outputs ctx lookup outs st = op_ok (decision_valid st')" and inv: "spend_inv ctx st"
    and "overlay_view (ss_overlay st) idx \<subseteq>\<^sub>m m"
  shows "spend_inv ctx st'" and "overlay_view (ss_overlay st') idx \<subseteq>\<^sub>m m ++ created_map outs"
    and "ss_created_outputs st' = ss_created_outputs st @ outs"
    and "ss_spent_outputs st' = ss_spent_outputs st" and "ss_total_fees st' = ss_total_fees st"
proof -
  have "tracker_inv (ss_overlay st)" using inv by (simp add: spend_inv_def)
  from create_outputs_valid [OF assms(1) this assms(3)] obtain t' where
    "st' = st\<lparr>ss_overlay := t', ss_created_outputs := ss_created_outputs st @ outs\<rparr>"
    "tracker_inv t'" "m_spent_points t' = m_spent_points (ss_overlay st)"
    "map ce_output (m_created t') = map ce_output (m_created (ss_overlay st)) @ outs"
    "overlay_view t' idx \<subseteq>\<^sub>m m ++ created_map outs" by blast
  with inv show "spend_inv ctx st'" "overlay_view (ss_overlay st') idx \<subseteq>\<^sub>m m ++ created_map outs"
    "ss_created_outputs st' = ss_created_outputs st @ outs"
    "ss_spent_outputs st' = ss_spent_outputs st" "ss_total_fees st' = ss_total_fees st"
    by (auto simp: spend_inv_def)
qed

lemma spend_transaction_total:
  assumes "spend_inv ctx st" and "facts_ok (tx, tf)"
  shows "spend_transaction V ctx lookup tx tf st \<noteq> None"
proof (cases "tf_kind tf = coinbase")
  case True
  then show ?thesis by (auto simp: spend_transaction_def spend_inputs_def split: option.splits)
next
  case False
  with spend_inputs_ordinary(1) assms show ?thesis by (simp add: spend_transaction_def facts_ok_def)
qed

text \<open>An accepted transaction: the coins it spent, and the ledger step it makes.\<close>

lemma spend_transaction_step:
  assumes tx: "spend_transaction V ctx lookup tx tf st = Some (op_ok (decision_valid st'))"
    and inv: "spend_inv ctx st" and ok: "facts_ok (tx, tf)" and range: "fees_in_range ctx st"
    and view: "overlay_view (ss_overlay st) (index_map lookup) \<subseteq>\<^sub>m m"
  obtains m1 cs where "spend_inv ctx st'" and "fees_in_range ctx st'"
    and "overlay_view (ss_overlay st') (index_map lookup) \<subseteq>\<^sub>m m1"
    and "ss_created_outputs st' = ss_created_outputs st @ tx_created_outputs ctx tx tf"
    and "map so_previous_coin (ss_spent_outputs st') = map so_previous_coin (ss_spent_outputs st) @ cs"
    and "sint (ss_total_fees st') = sint (ss_total_fees st) + fee_paid tf cs"
    and "\<And>rest css m'. ledger_run V ctx m1 rest css m' \<Longrightarrow> ledger_run V ctx m ((tx, tf) # rest) (cs # css) m'"
proof -
  from tx obtain s where s: "spend_inputs V ctx lookup tx tf st = Some (op_ok (decision_valid s))"
    and c: "create_outputs ctx lookup (tx_created_outputs ctx tx tf) s = op_ok (decision_valid st')"
    by (auto simp: spend_transaction_def verify_bind_valid)
  show ?thesis
  proof (cases "tf_kind tf = coinbase")
    case True
    with s obtain n where s': "s = st\<lparr>ss_sigop_cost := n\<rparr>" "n \<le> bs_max_sigop_cost ctx"
      by (auto simp: spend_inputs_def split: option.splits dest!: add_sigop_cost_Some
          intro: order_trans [OF size_wrap_le])
    have "spend_inv ctx s" "overlay_view (ss_overlay s) (index_map lookup) \<subseteq>\<^sub>m m"
      using s' inv view by (simp_all add: spend_inv_def)
    note eff = create_outputs_inv [OF c this]
    show ?thesis
      using eff s' range True ledger_run.mint [OF True]
      by (intro that [of "m ++ created_map (tx_created_outputs ctx tx tf)" "[]"])
        (simp_all add: fees_in_range_def fee_paid_def)
  next
    case False
    from ok have dist: "distinct (prevouts tx)" and out: "0 \<le> sint (tf_output_value tf)"
      by (simp_all add: facts_ok_def)
    from spend_inputs_ordinary(2) [OF False inv dist s] obtain cs checked t' spent where
      v: "map (overlay_view (ss_overlay st) (index_map lookup)) (prevouts tx) = map Some cs"
      and ch: "spend_checks V ctx tx tf cs st = op_ok (decision_valid checked)"
      and s': "s = checked\<lparr>ss_overlay := t', ss_spent_outputs := ss_spent_outputs st @ spent\<rparr>"
      and sp: "map so_previous_coin spent = cs" and inv': "spend_inv ctx s"
      and vt: "overlay_view t' (index_map lookup) =
        overlay_view (ss_overlay st) (index_map lookup) |` (- set (prevouts tx))"
      by blast
    from ch obtain sf sf' where
      sf: "assess_transaction_spends_with_coins tx tf (bs_spend ctx) cs = op_ok (decision_valid sf)"
        "verify_transaction_scripts V tx (bs_spend ctx) (bs_flags ctx) cs = op_ok (decision_valid sf')"
      and room: "ss_total_fees st \<le>s max_money (sc_limits (bs_spend ctx)) - sf_fee sf"
      and fees: "ss_total_fees checked = ss_total_fees st + sf_fee sf"
      by (auto simp: spend_checks_valid dest!: add_sigop_cost_Some)
    note frame = spend_checks_frame [OF ch inv]
    note added = fee_added [OF sf(1) out range room]
    have "overlay_view (ss_overlay s) (index_map lookup) \<subseteq>\<^sub>m m |` (- set (prevouts tx))"
      using map_le_restrict [OF view] by (simp add: s' vt)
    note eff = create_outputs_inv [OF c inv' this]
    show ?thesis
      using eff s' sp frame added fees range False
        ledger_run.spend [OF False dist map_le_values [OF view v] sf]
      by (intro that [of "m |` (- set (prevouts tx)) ++ created_map (tx_created_outputs ctx tx tf)" cs])
        (simp_all add: fees_in_range_def fee_paid_def)
  qed
qed


subsection \<open>The whole block\<close>

lemma spend_loop_total:
  assumes "spend_inv ctx st" and "fees_in_range ctx st" and "list_all facts_ok txs"
  shows "spend_loop V ctx lookup txs st \<noteq> None"
  using assms
proof (induction txs arbitrary: st)
  case (Cons x txs)
  obtain tx tf where x: "x = (tx, tf)" by fastforce
  with Cons.prems(3) have ok: "facts_ok (tx, tf)" by simp
  show ?case
  proof (cases "\<exists>st'. spend_transaction V ctx lookup tx tf st = Some (op_ok (decision_valid st'))")
    case True
    then obtain st' where st': "spend_transaction V ctx lookup tx tf st = Some (op_ok (decision_valid st'))" ..
    then have "spend_inv ctx st'" "fees_in_range ctx st'"
      using spend_transaction_step [OF st' Cons.prems(1) ok Cons.prems(2) map_le_refl] by blast+
    with Cons x st' show ?thesis by simp
  next
    case False
    with spend_transaction_total [OF Cons.prems(1) ok, of V lookup] x show ?thesis
      by (auto split: operation_result.splits validation_decision.splits)
  qed
qed simp

lemma spend_loop_run:
  assumes "spend_loop V ctx lookup txs st = Some (op_ok (decision_valid st'))"
    and "spend_inv ctx st" and "fees_in_range ctx st" and "list_all facts_ok txs"
    and "overlay_view (ss_overlay st) (index_map lookup) \<subseteq>\<^sub>m m"
  shows "\<exists>css m'. ledger_run V ctx m txs css m' \<and> overlay_view (ss_overlay st') (index_map lookup) \<subseteq>\<^sub>m m' \<and>
    spend_inv ctx st' \<and> fees_in_range ctx st' \<and>
    ss_created_outputs st' = ss_created_outputs st @ concat (map (\<lambda>(tx, tf). tx_created_outputs ctx tx tf) txs) \<and>
    map so_previous_coin (ss_spent_outputs st') = map so_previous_coin (ss_spent_outputs st) @ concat css \<and>
    sint (ss_total_fees st') = sint (ss_total_fees st) + sum_list (map2 fee_paid (map snd txs) css)"
  using assms
proof (induction txs arbitrary: st m)
  case Nil
  then show ?case by (intro exI [of _ "[]"] exI [of _ m]) (simp add: ledger_run.finish)
next
  case (Cons x txs)
  obtain tx tf where x: "x = (tx, tf)" by fastforce
  with Cons.prems(4) have ok: "facts_ok (tx, tf)" "list_all facts_ok txs" by simp_all
  from Cons.prems(1) x obtain s where s: "spend_transaction V ctx lookup tx tf st = Some (op_ok (decision_valid s))"
    and rest: "spend_loop V ctx lookup txs s = Some (op_ok (decision_valid st'))"
    by (auto split: option.splits operation_result.splits validation_decision.splits)
  obtain m1 cs where st: "spend_inv ctx s" "fees_in_range ctx s"
      "overlay_view (ss_overlay s) (index_map lookup) \<subseteq>\<^sub>m m1"
      "ss_created_outputs s = ss_created_outputs st @ tx_created_outputs ctx tx tf"
      "map so_previous_coin (ss_spent_outputs s) = map so_previous_coin (ss_spent_outputs st) @ cs"
      "sint (ss_total_fees s) = sint (ss_total_fees st) + fee_paid tf cs"
      "\<And>rest css m'. ledger_run V ctx m1 rest css m' \<Longrightarrow> ledger_run V ctx m ((tx, tf) # rest) (cs # css) m'"
    using spend_transaction_step [OF s Cons.prems(2) ok(1) Cons.prems(3,5)] by blast
  from Cons.IH [OF rest st(1,2) ok(2) st(3)] obtain css m' where
    "ledger_run V ctx m1 txs css m'" "overlay_view (ss_overlay st') (index_map lookup) \<subseteq>\<^sub>m m'"
    "spend_inv ctx st'" "fees_in_range ctx st'"
    "ss_created_outputs st' = ss_created_outputs s @ concat (map (\<lambda>(tx, tf). tx_created_outputs ctx tx tf) txs)"
    "map so_previous_coin (ss_spent_outputs st') = map so_previous_coin (ss_spent_outputs s) @ concat css"
    "sint (ss_total_fees st') = sint (ss_total_fees s) + sum_list (map2 fee_paid (map snd txs) css)"
    by blast
  with st x show ?case by (intro exI [of _ "cs # css"] exI [of _ m']) simp
qed

lemma block_facts_ok:
  assumes "block_intrinsic_ok b lctx" and "block_facts_of b facts"
  shows "list_all facts_ok (zip (blk_transactions b) (bf_transactions facts))"
proof -
  have "list_all (\<lambda>tx. tx_intrinsic_ok tx (bl_transactions (lc_limits lctx))) (blk_transactions b)"
    "list_all2 tx_facts_of (blk_transactions b) (bf_transactions facts)"
    using assms by (simp_all add: block_intrinsic_ok_def block_facts_of_def)
  then show ?thesis
    using outputs_total_nonneg
    by (fastforce simp: list_all_length list_all2_conv_all_nth facts_ok_def prevouts_def
        tx_intrinsic_ok_def tx_facts_of_def)
qed

theorem block_spends_total:
  "\<exists>result. assess_block_spends_with_callbacks V b ctx lookup = Some result"
proof -
  have "spend_loop V ctx lookup (zip (blk_transactions b) (bf_transactions facts)) initial_spend_state \<noteq> None"
    if "assess_block_intrinsic b (bs_local ctx) = op_ok (decision_valid facts)" for facts
    using that block_facts_ok
    by (intro spend_loop_total spend_inv_initial)
      (auto simp: block_intrinsic_accepts fees_in_range_def initial_spend_state_def)
  then show ?thesis
    by (auto simp: assess_block_spends_with_callbacks_def block_spend_rules_def
        split: operation_result.splits validation_decision.splits)
qed

lemma tracker_inv_distinct:
  assumes "tracker_inv t"
  shows "distinct (map co_point (map ce_output (m_created t)))"
proof -
  have "i = j" if "i < length (m_created t)" "j < length (m_created t)"
    and "co_point (ce_output (m_created t ! i)) = co_point (ce_output (m_created t ! j))" for i j
  proof -
    from that assms have "m_created_by_point t (co_point (ce_output (m_created t ! i))) = Some i"
      "m_created_by_point t (co_point (ce_output (m_created t ! i))) = Some j"
      unfolding tracker_inv_def by metis+
    then show ?thesis by simp
  qed
  then show ?thesis by (auto simp: distinct_conv_nth)
qed

lemma block_spend_rules_valid:
  assumes "assess_block_spends_with_callbacks V b ctx lookup = Some (op_ok (decision_valid facts))"
  obtains local_facts st where
    "block_intrinsic_ok b (bs_local ctx)" and "block_facts_of b local_facts"
    and "spend_loop V ctx lookup (zip (blk_transactions b) (bf_transactions local_facts)) initial_spend_state =
      Some (op_ok (decision_valid st))"
    and "coinbase_rules ctx local_facts st = op_ok (decision_valid facts)"
proof -
  from assms have "block_spend_rules V b ctx lookup = Some (op_ok (decision_valid facts))"
    by (auto simp: assess_block_spends_with_callbacks_def)
  then show ?thesis
    using that
    by (auto simp: block_spend_rules_def verify_bind_valid block_intrinsic_accepts
        split: operation_result.splits validation_decision.splits)
qed

lemma coinbase_rules_valid:
  assumes "coinbase_rules ctx local_facts st = op_ok (decision_valid facts)" and "fees_in_range ctx st"
  shows "sint (tf_output_value (hd (bf_transactions local_facts))) \<le>
      sint (bs_subsidy ctx) + sint (ss_total_fees st)"
    and "facts = local_facts
      \<lparr>bf_sigop_cost := ss_sigop_cost st, bf_spends := ss_spends st,
       bf_spent_outputs := ss_spent_outputs st, bf_created_outputs := ss_created_outputs st,
       bf_total_fees := ss_total_fees st,
       bf_coinbase_output_value := tf_output_value (hd (bf_transactions local_facts))\<rparr>"
proof -
  let ?max = "max_money (sc_limits (bs_spend ctx))" and ?fees = "ss_total_fees st"
  from assms(1) have le: "bs_subsidy ctx \<le>s ?max - ?fees"
    "tf_output_value (hd (bf_transactions local_facts)) \<le>s bs_subsidy ctx + ?fees"
    by (auto simp: coinbase_rules_def Let_def word_sless_alt word_sle_eq not_less split: if_splits)
  from assms(1) show "facts = local_facts
      \<lparr>bf_sigop_cost := ss_sigop_cost st, bf_spends := ss_spends st,
       bf_spent_outputs := ss_spent_outputs st, bf_created_outputs := ss_created_outputs st,
       bf_total_fees := ss_total_fees st,
       bf_coinbase_output_value := tf_output_value (hd (bf_transactions local_facts))\<rparr>"
    by (auto simp: coinbase_rules_def Let_def split: if_splits)
  have "sint (?max - ?fees) = sint ?max - sint ?fees"
    using assms(2) sint64_upper [of ?max] sint_ge [of ?max]
    by (cases "?fees = 0") (auto simp: fees_in_range_def intro!: sint_minus_exact)
  with le(1) have room: "sint (bs_subsidy ctx) + sint ?fees \<le> sint ?max" by (simp add: word_sle_eq)
  have "sint (bs_subsidy ctx + ?fees) = sint (bs_subsidy ctx) + sint ?fees"
    using room assms(2) sint64_upper [of ?max] sint_ge [of "bs_subsidy ctx"]
    by (intro sint_plus_exact) (auto simp: fees_in_range_def)
  with le(2) show "sint (tf_output_value (hd (bf_transactions local_facts))) \<le>
      sint (bs_subsidy ctx) + sint ?fees" by (simp add: word_sle_eq)
qed

text \<open>
  An accepted block is a run of the ledger that starts from the coin source. The facts report what
  the run did: the coins it consumed, in order and never one twice, the outputs it created, each with
  its own outpoint, and the fees it paid.
\<close>

theorem block_spends_ledger:
  assumes "assess_block_spends_with_callbacks V b ctx lookup = Some (op_ok (decision_valid facts))"
  shows "\<exists>css m'. ledger_run V ctx (index_map lookup)
        (zip (blk_transactions b) (bf_transactions facts)) css m' \<and>
      map so_previous_coin (bf_spent_outputs facts) = concat css \<and>
      sint (bf_total_fees facts) = sum_list (map2 fee_paid (bf_transactions facts) css)"
    and "distinct (map so_point (bf_spent_outputs facts))"
    and "bf_created_outputs facts = concat (map (\<lambda>(tx, tf). tx_created_outputs ctx tx tf)
      (zip (blk_transactions b) (bf_transactions facts)))"
    and "distinct (map co_point (bf_created_outputs facts))"
    and "bf_sigop_cost facts \<le> bs_max_sigop_cost ctx"
    and "sint (bf_coinbase_output_value facts) \<le> sint (bs_subsidy ctx) + sint (bf_total_fees facts)"
    and "bf_coinbase_output_value facts = tf_output_value (hd (bf_transactions facts))"
    and "block_intrinsic_ok b (bs_local ctx)"
    and "list_all2 tx_facts_of (blk_transactions b) (bf_transactions facts)"
proof -
  obtain lf st where lf: "block_intrinsic_ok b (bs_local ctx)" "block_facts_of b lf"
    and loop: "spend_loop V ctx lookup (zip (blk_transactions b) (bf_transactions lf)) initial_spend_state =
      Some (op_ok (decision_valid st))"
    and cb: "coinbase_rules ctx lf st = op_ok (decision_valid facts)"
    using block_spend_rules_valid [OF assms] by blast
  let ?txs = "zip (blk_transactions b) (bf_transactions lf)"
  have len: "length (blk_transactions b) = length (bf_transactions lf)"
    using lf(2) by (auto simp: block_facts_of_def dest: list_all2_lengthD)
  have start: "fees_in_range ctx initial_spend_state"
    "overlay_view (ss_overlay initial_spend_state) (index_map lookup) \<subseteq>\<^sub>m index_map lookup"
    by (simp_all add: fees_in_range_def initial_spend_state_def overlay_view_empty)
  from spend_loop_run [OF loop spend_inv_initial start(1) block_facts_ok [OF lf] start(2)]
  obtain css m' where run: "ledger_run V ctx (index_map lookup) ?txs css m'"
    and inv: "spend_inv ctx st" "fees_in_range ctx st"
    and created: "ss_created_outputs st = concat (map (\<lambda>(tx, tf). tx_created_outputs ctx tx tf) ?txs)"
    and spent: "map so_previous_coin (ss_spent_outputs st) = concat css"
    and fees: "sint (ss_total_fees st) = sum_list (map2 fee_paid (map snd ?txs) css)"
    by (auto simp: initial_spend_state_def)
  note facts = coinbase_rules_valid [OF cb inv(2)]
  have txs: "bf_transactions facts = bf_transactions lf" by (simp add: facts(2))
  show "\<exists>css m'. ledger_run V ctx (index_map lookup) (zip (blk_transactions b) (bf_transactions facts)) css m' \<and>
      map so_previous_coin (bf_spent_outputs facts) = concat css \<and>
      sint (bf_total_fees facts) = sum_list (map2 fee_paid (bf_transactions facts) css)"
    using run spent fees len by (intro exI [of _ css] exI [of _ m']) (simp add: facts(2))
  show "distinct (map so_point (bf_spent_outputs facts))" "bf_sigop_cost facts \<le> bs_max_sigop_cost ctx"
    "bf_created_outputs facts = concat (map (\<lambda>(tx, tf). tx_created_outputs ctx tx tf)
      (zip (blk_transactions b) (bf_transactions facts)))"
    "sint (bf_coinbase_output_value facts) \<le> sint (bs_subsidy ctx) + sint (bf_total_fees facts)"
    "bf_coinbase_output_value facts = tf_output_value (hd (bf_transactions facts))"
    "block_intrinsic_ok b (bs_local ctx)"
    "list_all2 tx_facts_of (blk_transactions b) (bf_transactions facts)"
    using inv created facts lf by (simp_all add: spend_inv_def block_facts_of_def)
  have "distinct (map co_point (map ce_output (m_created (ss_overlay st))))"
    using inv(1) by (intro tracker_inv_distinct) (simp add: spend_inv_def)
  moreover have "map ce_output (m_created (ss_overlay st)) = bf_created_outputs facts"
    using inv(1) by (simp add: facts(2) spend_inv_def)
  ultimately show "distinct (map co_point (bf_created_outputs facts))" by (simp only:)
qed


lemma coins_total_append: "coins_total (xs @ ys) = coins_total xs + coins_total ys"
  by (simp add: coins_total_def)

lemma ledger_run_value:
  assumes "ledger_run V ctx m txs css m'" and "\<forall>(tx, tf)\<in>set txs. tx_facts_of tx tf"
  shows "sum_list (map2 fee_paid (map snd txs) css) = coins_total (concat css) -
    (\<Sum>(tx, tf)\<leftarrow>txs. if is_coinbase tx then 0 else outputs_total (tx_outputs tx))"
  using assms
  by (induction rule: ledger_run.induct)
    (auto simp: fee_paid_def coins_total_append tx_facts_of_def)

lemma sum_list_pairs:
  "length xs = length ys \<Longrightarrow> (\<Sum>(x, y)\<leftarrow>zip xs ys. f x) = (\<Sum>x\<leftarrow>xs. f x)"
  by (induction rule: list_induct2) simp_all

text \<open>
  No inflation: what a block creates is at most what it spends plus the subsidy. The sums are over
  the integers.
\<close>

theorem block_value_conserved:
  assumes "assess_block_spends_with_callbacks V b ctx lookup = Some (op_ok (decision_valid facts))"
  shows "(\<Sum>tx\<leftarrow>blk_transactions b. outputs_total (tx_outputs tx)) \<le>
    coins_total (map so_previous_coin (bf_spent_outputs facts)) + sint (bs_subsidy ctx)"
proof -
  note block = block_spends_ledger [OF assms]
  from block(1) obtain css m' where
    run: "ledger_run V ctx (index_map lookup) (zip (blk_transactions b) (bf_transactions facts)) css m'"
    and spent: "map so_previous_coin (bf_spent_outputs facts) = concat css"
    and fees: "sint (bf_total_fees facts) = sum_list (map2 fee_paid (bf_transactions facts) css)"
    by blast
  from block(8) obtain cb rest where txs: "blk_transactions b = cb # rest" and cb: "is_coinbase cb"
    and ord: "\<not> list_ex is_coinbase rest"
    by (auto simp: block_intrinsic_ok_def)
  from block(9) txs obtain cf fs where tfs: "bf_transactions facts = cf # fs" "tx_facts_of cb cf"
    by (auto simp: list_all2_Cons1)
  have len: "length (blk_transactions b) = length (bf_transactions facts)"
    using block(9) by (rule list_all2_lengthD)
  have "\<forall>(tx, tf)\<in>set (zip (blk_transactions b) (bf_transactions facts)). tx_facts_of tx tf"
    using block(9) by (auto simp: list_all2_iff)
  from ledger_run_value [OF run this] len fees spent have
    "sint (bf_total_fees facts) = coins_total (map so_previous_coin (bf_spent_outputs facts)) -
      (\<Sum>tx\<leftarrow>blk_transactions b. if is_coinbase tx then 0 else outputs_total (tx_outputs tx))"
    by (simp add: sum_list_pairs)
  moreover have "(\<Sum>tx\<leftarrow>rest. if is_coinbase tx then 0 else outputs_total (tx_outputs tx)) =
      (\<Sum>tx\<leftarrow>rest. outputs_total (tx_outputs tx))"
    using ord by (intro arg_cong [of _ _ sum_list] map_cong) (auto simp: list_ex_iff)
  moreover have "sint (bf_coinbase_output_value facts) = outputs_total (tx_outputs cb)"
    using block(7) tfs by (simp add: tx_facts_of_def)
  ultimately show ?thesis
    using block(6) txs cb by simp
qed

end
