(* ===== verification/Header_Validation.thy ===== *)
theory Header_Validation
  imports Pow_Number Codec_Read "HOL-Library.Signed_Division"
begin

text \<open>
  Header rules of \<^verbatim>\<open>validation/header.cpp\<close> and \<^verbatim>\<open>validation/header.h\<close>: target derivation,
  difficulty transition, the timewarp and time rules, proof of work, and the construction of a
  checked header context from an ancestor chain.

  Times and spans are 64-bit words compared as signed integers, as \<open>std::chrono::seconds\<close> counts.
  A chain view is the list of its headers, genesis first. The exception boundaries are modelled;
  a list never throws, so they are reached only by their \<open>Return\<close> branch.
\<close>

subsection \<open>Signed 64-bit division\<close>

definition i64_div :: "i64 \<Rightarrow> i64 \<Rightarrow> i64" where
  "i64_div a b = word_of_int (sint a sdiv sint b)"

definition i64_max :: i64 where
  "i64_max = 0x7fffffffffffffff"

definition i64_clamp :: "i64 \<Rightarrow> i64 \<Rightarrow> i64 \<Rightarrow> i64" where
  "i64_clamp v lo hi = (if v <s lo then lo else if hi <s v then hi else v)"

subsection \<open>Targets and times\<close>

definition derive_target :: "u32 \<Rightarrow> proof_of_work_limit \<Rightarrow> pow_number option" where
  "derive_target compact limit =
     (if compact_negative compact \<or> compact_overflows compact then None
      else if pow_is_zero (from_compact compact) then None
      else if pow_greater (from_compact compact) (from_bytes limit) then None
      else Some (from_compact compact))"

definition seconds_since_epoch :: "block_time \<Rightarrow> i64" where
  "seconds_since_epoch t = ucast t"

definition too_far_future :: "block_time \<Rightarrow> validation_time \<Rightarrow> bool" where
  "too_far_future candidate operation_time \<longleftrightarrow> operation_time + 7200 <s ucast candidate"

definition not_after_mtp :: "block_time \<Rightarrow> median_time_past option \<Rightarrow> bool" where
  "not_after_mtp candidate previous_mtp \<longleftrightarrow>
     (case previous_mtp of None \<Rightarrow> False | Some mtp \<Rightarrow> ucast candidate \<le>s mtp)"

definition header_reject :: "validation_rule_id \<Rightarrow> string \<Rightarrow> validation_rejection" where
  "header_reject i reason = Rejection rule_violation i reason"

record header_facts =
  hf_hash :: block_hash

definition header_invalid :: "validation_rule_id \<Rightarrow> string \<Rightarrow> header_facts verify_result" where
  "header_invalid i reason = op_ok (decision_invalid (header_reject i reason))"

subsection \<open>Difficulty transition\<close>

definition params_difficulty_adjustment_interval :: "consensus_params \<Rightarrow> i64" where
  "params_difficulty_adjustment_interval params =
     (if target_spacing params \<le>s 0 then 0
      else i64_div (target_timespan params) (target_spacing params))"

definition difficulty_adjustment_interval :: "consensus_params \<Rightarrow> i64 operation_result" where
  "difficulty_adjustment_interval params =
     (if target_spacing params \<le>s 0 then
        op_failed (Operation_error invariant_violation ''difficulty target spacing must be positive'')
      else if target_timespan params \<le>s 0 then
        op_failed (Operation_error invariant_violation ''difficulty target timespan must be positive'')
      else if params_difficulty_adjustment_interval params \<le>s 0 then
        op_failed (Operation_error invariant_violation ''difficulty adjustment interval must be positive'')
      else op_ok (params_difficulty_adjustment_interval params))"

definition stored_target :: "u32 \<Rightarrow> proof_of_work_limit \<Rightarrow> pow_number operation_result" where
  "stored_target bits limit =
     (case derive_target bits limit of
        None \<Rightarrow> op_failed (Operation_error malformed_stored_data ''stored difficulty target is malformed'')
      | Some t \<Rightarrow> op_ok t)"

definition retarget :: "pow_number \<Rightarrow> i64 \<Rightarrow> i64 \<Rightarrow> pow_number \<Rightarrow> pow_number" where
  "retarget target actual_timespan timespan limit =
     (case multiply target (i64_clamp actual_timespan (i64_div timespan 4) (timespan * 4)) of
        (overflow, product) \<Rightarrow>
          if overflow then limit
          else if pow_greater (divide product timespan) limit then limit
          else divide product timespan)"

definition compact_work_limit :: "proof_of_work_limit \<Rightarrow> target_bits" where
  "compact_work_limit limit = to_compact (from_bytes limit)"

definition non_boundary_bits ::
  "block_header \<Rightarrow> header_context \<Rightarrow> consensus_params \<Rightarrow> target_bits operation_result" where
  "non_boundary_bits header context params =
     (if allow_min_difficulty_blocks params then
        (if i64_div (i64_max - seconds_since_epoch (parent_time context)) 2 <s target_spacing params then
           op_failed (Operation_error unsupported_operation
             ''difficulty target spacing exceeds validation library range'')
         else if seconds_since_epoch (parent_time context) + target_spacing params * 2
             <s seconds_since_epoch (hdr_time header) then
           op_ok (compact_work_limit (pow_limit params))
         else if has_last_non_min_difficulty_block context then
           op_ok (last_non_min_difficulty_block_target context)
         else op_ok (parent_target context))
      else op_ok (parent_target context))"

definition boundary_bits :: "header_context \<Rightarrow> consensus_params \<Rightarrow> target_bits operation_result" where
  "boundary_bits context params =
     (if no_retargeting params then op_ok (parent_target context)
      else if \<not> has_first_difficulty_period_block context then
        op_failed (Operation_error data_unavailable ''difficulty period ancestry is unavailable'')
      else (case stored_target
              (if enforce_bip94 params then first_difficulty_period_block_target context
               else parent_target context) (pow_limit params) of
          op_failed e \<Rightarrow> op_failed e
        | op_ok base_target \<Rightarrow>
            if i64_div i64_max 4 <s target_timespan params then
              op_failed (Operation_error unsupported_operation
                ''difficulty target timespan exceeds validation library range'')
            else op_ok (to_compact (retarget base_target
              (seconds_since_epoch (parent_time context) -
               seconds_since_epoch (first_difficulty_period_block_time context))
              (target_timespan params) (from_bytes (pow_limit params))))))"

definition expected_difficulty_bits ::
  "block_header \<Rightarrow> header_context \<Rightarrow> consensus_params \<Rightarrow> target_bits operation_result" where
  "expected_difficulty_bits header context params =
     (if \<not> has_parent context then
        (if hc_height context \<noteq> 0 then
           op_failed (Operation_error invariant_violation ''non-genesis header context has no parent'')
         else op_ok (compact_work_limit (pow_limit params)))
      else (case difficulty_adjustment_interval params of
          op_failed e \<Rightarrow> op_failed e
        | op_ok interval \<Rightarrow>
            if sint (hc_height context) smod sint interval \<noteq> 0
            then non_boundary_bits header context params
            else boundary_bits context params))"

definition violates_timewarp ::
  "block_header \<Rightarrow> header_context \<Rightarrow> consensus_params \<Rightarrow> bool operation_result" where
  "violates_timewarp header context params =
     (if \<not> enforce_bip94 params \<or> \<not> has_parent context then op_ok False
      else (case difficulty_adjustment_interval params of
          op_failed e \<Rightarrow> op_failed e
        | op_ok interval \<Rightarrow>
            if sint (hc_height context) smod sint interval \<noteq> 0 then op_ok False
            else if max_timewarp params <s 0 then
              op_failed (Operation_error invariant_violation
                ''maximum timewarp allowance must not be negative'')
            else op_ok (seconds_since_epoch (hdr_time header)
              <s seconds_since_epoch (parent_time context) - max_timewarp params)))"

subsection \<open>Header assessment\<close>

definition assess_header_time_and_work ::
  "block_header \<Rightarrow> header_context \<Rightarrow> validation_time \<Rightarrow> pow_number \<Rightarrow> header_facts verify_result" where
  "assess_header_time_and_work header context time target =
     (if not_after_mtp (hdr_time header)
          (if has_parent context then Some (hc_previous_median_time_past context) else None)
      then header_invalid h04_median_time_past ''header time is not after parent median time''
      else if too_far_future (hdr_time header) time
      then header_invalid h05_future_time ''header time is too far after validation time''
      else if pow_greater (from_bytes (header_hash header)) target
      then header_invalid h02_proof_of_work ''proof of work does not satisfy target''
      else op_ok (decision_valid \<lparr>hf_hash = header_hash header\<rparr>))"

definition assess_header_rules ::
  "block_header \<Rightarrow> header_context \<Rightarrow> validation_time \<Rightarrow> consensus_params \<Rightarrow> header_facts verify_result" where
  "assess_header_rules header context time params =
     (if has_parent context \<and> previous_block_hash header \<noteq> parent_hash context
      then header_invalid h01_previous_hash_parent ''header previous hash does not reference parent''
      else if \<not> has_parent context \<and> previous_block_hash header \<noteq> null_hash
      then header_invalid h01_previous_hash_parent ''genesis header previous hash is not null''
      else if hdr_version header <s minimum_block_version params
      then header_invalid h06_retired_version ''header version is below the active minimum version''
      else (case derive_target (hdr_bits header) (pow_limit params) of
          None \<Rightarrow> header_invalid h02_proof_of_work ''proof of work target is malformed''
        | Some target \<Rightarrow>
          (case expected_difficulty_bits header context params of
            op_failed e \<Rightarrow> op_failed e
          | op_ok expected_bits \<Rightarrow>
            if hdr_bits header \<noteq> expected_bits
            then header_invalid h03_difficulty_transition ''header target does not match difficulty transition''
            else (case violates_timewarp header context params of
              op_failed e \<Rightarrow> op_failed e
            | op_ok timewarp \<Rightarrow>
              if timewarp
              then header_invalid h07_timewarp ''header time is too far before parent at difficulty boundary''
              else assess_header_time_and_work header context time target))))"

definition assess_header_with_context ::
  "block_header \<Rightarrow> header_context \<Rightarrow> validation_time \<Rightarrow> consensus_params \<Rightarrow> header_facts verify_result" where
  "assess_header_with_context header context time params =
     verify_exception_boundary (Return (assess_header_rules header context time params))
       ''header validation exhausted resources'' internal_bug ''header validation threw an exception''"

subsection \<open>Header contexts from an ancestor chain\<close>

definition previous_median_time_past :: "block_header list \<Rightarrow> median_time_past" where
  "previous_median_time_past ancestors =
     (let values = sort (map hdr_time (take 11 (rev ancestors))) in
      if values = [] then 0 else ucast (values ! (length values div 2)))"

datatype header_context_evidence_code = genesis_parent_not_null | non_contiguous_ancestry

datatype invalid_header_context_evidence =
  Header_evidence (ev_code: header_context_evidence_code) (ev_reason: string)

datatype header_context_result =
    context_valid header_context
  | context_invalid invalid_header_context_evidence
  | context_failed operation_error

definition header_context_boundary :: "header_context_result call \<Rightarrow> header_context_result" where
  "header_context_boundary function =
     (case function of
        Return r \<Rightarrow> r
      | BadAlloc \<Rightarrow> context_failed
          (Operation_error resource_exhaustion ''header context validation exhausted resources'')
      | Throw \<Rightarrow> context_failed
          (Operation_error callback_failure ''header chain view threw an exception''))"

fun contiguous :: "block_header list \<Rightarrow> bool" where
  "contiguous (parent # child # rest) =
     (previous_block_hash child = header_hash parent \<and> contiguous (child # rest))"
| "contiguous headers = True"

text \<open>The search for the last block whose target is not the minimum, from the parent down.\<close>

fun last_non_min_difficulty ::
  "block_header list \<Rightarrow> target_bits \<Rightarrow> i64 \<Rightarrow> nat \<Rightarrow> target_bits option" where
  "last_non_min_difficulty headers pow_limit_bits interval 0 = None"
| "last_non_min_difficulty headers pow_limit_bits interval (Suc height) =
     (if hdr_bits (headers ! height) \<noteq> pow_limit_bits \<or> int height smod sint interval = 0
      then Some (hdr_bits (headers ! height))
      else last_non_min_difficulty headers pow_limit_bits interval height)"

definition default_header_context :: header_context where
  "default_header_context =
     \<lparr>hc_height = 0, hc_previous_median_time_past = 0, has_parent = False, parent_hash = null_hash,
      parent_time = 0, parent_target = 0, has_first_difficulty_period_block = False,
      first_difficulty_period_block_time = 0, first_difficulty_period_block_target = 0,
      has_last_non_min_difficulty_block = False, last_non_min_difficulty_block_target = 0\<rparr>"

definition with_parent :: "block_header list \<Rightarrow> header_context \<Rightarrow> header_context" where
  "with_parent headers context =
     (let parent = last headers in
      context\<lparr>has_parent := True, parent_hash := header_hash parent,
        parent_time := hdr_time parent, parent_target := hdr_bits parent\<rparr>)"

definition with_first_period_block :: "block_header list \<Rightarrow> i64 \<Rightarrow> header_context \<Rightarrow> header_context" where
  "with_first_period_block headers interval context =
     (if unat interval \<le> length headers then
        (let first_period_block = headers ! (length headers - unat interval) in
         context\<lparr>has_first_difficulty_period_block := True,
           first_difficulty_period_block_time := hdr_time first_period_block,
           first_difficulty_period_block_target := hdr_bits first_period_block\<rparr>)
      else context)"

definition with_last_non_min ::
  "block_header list \<Rightarrow> i64 \<Rightarrow> consensus_params \<Rightarrow> header_context \<Rightarrow> header_context" where
  "with_last_non_min headers interval params context =
     (case last_non_min_difficulty headers (compact_work_limit (pow_limit params)) interval
             (length headers) of
        None \<Rightarrow> context
      | Some bits \<Rightarrow> context\<lparr>has_last_non_min_difficulty_block := True,
          last_non_min_difficulty_block_target := bits\<rparr>)"

definition header_context_of :: "block_header list \<Rightarrow> consensus_params \<Rightarrow> header_context_result" where
  "header_context_of headers params =
     (if length headers > 2 ^ 31 - 1 then
        context_failed (Operation_error unsupported_operation
          ''ancestor chain height exceeds validation library range'')
      else
       (let base = default_header_context\<lparr>hc_height := of_nat (length headers),
              hc_previous_median_time_past := previous_median_time_past headers\<rparr>;
            interval = params_difficulty_adjustment_interval params
        in if headers = [] then context_valid base
           else if previous_block_hash (hd headers) \<noteq> null_hash then
             context_invalid (Header_evidence genesis_parent_not_null
               ''ancestor chain genesis header has a non-null parent'')
           else if \<not> contiguous headers then
             context_invalid (Header_evidence non_contiguous_ancestry ''ancestor chain is not contiguous'')
           else if interval \<le>s 0 then context_valid (with_parent headers base)
           else context_valid (with_last_non_min headers interval params
             (with_first_period_block headers interval (with_parent headers base)))))"

definition validate_header_context :: "block_header list \<Rightarrow> consensus_params \<Rightarrow> header_context_result" where
  "validate_header_context headers params =
     header_context_boundary (Return (header_context_of headers params))"

subsection \<open>Release-facing verification\<close>

definition verify_header ::
  "block_header \<Rightarrow> header_context \<Rightarrow> validation_time \<Rightarrow> consensus_params \<Rightarrow> header_facts verify_result" where
  "verify_header header ancestor_context time params =
     verify_exception_boundary (Return (assess_header_with_context header ancestor_context time params))
       ''header validation exhausted resources'' internal_bug ''header validation threw an exception''"

definition verify_genesis_header ::
  "block_header \<Rightarrow> validation_time \<Rightarrow> consensus_params \<Rightarrow> header_facts verify_result" where
  "verify_genesis_header header time params =
     (case validate_header_context [] params of
        context_failed e \<Rightarrow> op_failed e
      | context_invalid ev \<Rightarrow> op_failed (Operation_error invariant_violation
          ''empty header ancestry produced invalid context evidence'')
      | context_valid context \<Rightarrow> verify_header header context time params)"

datatype 'a evidence_verify_result =
    evidence_checked "'a validation_decision"
  | evidence_invalid invalid_header_context_evidence
  | evidence_failed operation_error

definition verify_header_on_chain ::
  "block_header \<Rightarrow> block_header list \<Rightarrow> validation_time \<Rightarrow> consensus_params \<Rightarrow>
   header_facts evidence_verify_result" where
  "verify_header_on_chain header genesis_to_parent time params =
     (case validate_header_context genesis_to_parent params of
        context_invalid ev \<Rightarrow> evidence_invalid ev
      | context_failed e \<Rightarrow> evidence_failed e
      | context_valid context \<Rightarrow>
          (case verify_header header context time params of
             op_failed e \<Rightarrow> evidence_failed e
           | op_ok decision \<Rightarrow> evidence_checked decision))"

subsection \<open>The target a compact form denotes\<close>

definition compact_target :: "u32 \<Rightarrow> nat" where
  "compact_target c =
     (if compact_size_byte c \<le> 3 then unat (compact_word c) div 256 ^ (3 - compact_size_byte c)
      else unat (compact_word c) * 256 ^ (compact_size_byte c - 3))"

definition target_well_formed :: "u32 \<Rightarrow> proof_of_work_limit \<Rightarrow> bool" where
  "target_well_formed c limit \<longleftrightarrow> \<not> compact_negative c \<and> \<not> compact_overflows c \<and>
     0 < compact_target c \<and> compact_target c \<le> bytes_val limit"

lemma derive_target_eq:
  assumes "length limit = 32"
  shows "derive_target c limit = (if target_well_formed c limit then Some (from_compact c) else None)"
proof (cases "compact_negative c \<or> compact_overflows c")
  case False
  then have v: "pow_val (from_compact c) = compact_target c"
    using from_compact_val [of c] by (simp add: compact_target_def)
  show ?thesis
    using False pow_val_zero [of "from_compact c"]
      pow_greater_val [OF pow_ok_from_compact from_bytes_val(1) [OF assms], of c]
    by (auto simp: derive_target_def target_well_formed_def v from_bytes_val(2) [OF assms])
qed (auto simp: derive_target_def target_well_formed_def)

lemma derive_target_val:
  "length limit = 32 \<Longrightarrow> derive_target c limit = Some t \<Longrightarrow> pow_ok t \<and> pow_val t = compact_target c"
  using from_compact_val [of c] pow_ok_from_compact
  by (auto simp: derive_target_eq target_well_formed_def compact_target_def split: if_splits)

subsection \<open>Retargeting\<close>

lemma sint_i64_max: "sint i64_max = 2 ^ 63 - 1"
  by (simp add: i64_max_def)

lemma sint_i64_div:
  assumes "0 \<le> sint a" and "0 < sint b"
  shows "sint (i64_div a b) = sint a div sint b"
proof -
  have "sint a sdiv sint b = sint a div sint b"
    using assms by (cases "sint a = 0") (simp_all add: signed_divide_int_def)
  moreover have "0 \<le> sint a div sint b" "sint a div sint b \<le> sint a"
    using assms int_div_le_self [of "sint a" "sint b"]
    by (simp_all add: pos_imp_zdiv_nonneg_iff, cases "sint a = 0") simp_all
  ultimately show ?thesis using sint64_upper [of a] by (simp add: i64_div_def sint_word_of_int_small)
qed

lemma sint_i64_clamp:
  "sint lo \<le> sint hi \<Longrightarrow> sint (i64_clamp v lo hi) = max (sint lo) (min (sint v) (sint hi))"
  by (auto simp: i64_clamp_def word_sless_alt max_def min_def)

lemma retarget_span:
  fixes actual timespan :: i64
  assumes "0 < sint timespan" and "sint timespan \<le> sint (i64_div i64_max 4)"
  defines "a \<equiv> i64_clamp actual (i64_div timespan 4) (timespan * 4)"
  shows "sint a = max (sint timespan div 4) (min (sint actual) (4 * sint timespan))"
    and "int (unat a) = sint a" and "int (unat timespan) = sint timespan"
proof -
  have lim: "sint timespan \<le> (2 ^ 63 - 1) div 4"
    using assms(2) by (simp add: sint_i64_div sint_i64_max)
  have four: "sint (timespan * 4) = 4 * sint timespan"
    using lim assms(1) by (simp add: sint_word_ariths signed_take_bit_int_eq_self)
  have quarter: "sint (i64_div timespan 4) = sint timespan div 4"
    using assms(1) by (simp add: sint_i64_div)
  show s: "sint a = max (sint timespan div 4) (min (sint actual) (4 * sint timespan))"
    unfolding a_def using assms(1) by (subst sint_i64_clamp) (simp_all add: four quarter)
  have "0 \<le> sint a" unfolding s using assms(1) by simp
  then show "int (unat a) = sint a" by (rule unat_nonneg)
  show "int (unat timespan) = sint timespan" using assms(1) by (intro unat_nonneg) simp
qed

theorem retarget_val:
  fixes actual timespan :: i64
  assumes "pow_ok target" and "pow_ok limit" and "0 < sint timespan"
    and "sint timespan \<le> sint (i64_div i64_max 4)"
  defines "a \<equiv> nat (max (sint timespan div 4) (min (sint actual) (4 * sint timespan)))"
  shows "pow_ok (retarget target actual timespan limit)"
    and "pow_val (retarget target actual timespan limit) =
      (if 2 ^ 256 \<le> pow_val target * a then pow_val limit
       else min (pow_val target * a div nat (sint timespan)) (pow_val limit))"
proof -
  let ?c = "i64_clamp actual (i64_div timespan 4) (timespan * 4)"
  have a: "unat ?c = a"
    unfolding a_def using retarget_span(1,2) [OF assms(3,4), of actual] by (metis nat_int)
  have t: "unat timespan = nat (sint timespan)" "timespan \<noteq> 0"
    using retarget_span(3) [OF assms(3,4)] assms(3) by (metis nat_int, force)
  obtain overflow product where m: "multiply target ?c = (overflow, product)" by fastforce
  note mv = multiply_val [OF assms(1) m, unfolded a]
  note dv = divide_val [OF mv(1) t(2), unfolded t(1)]
  have g: "pow_greater (divide product timespan) limit \<longleftrightarrow> pow_val product div nat (sint timespan) > pow_val limit"
    using pow_greater_val [OF dv(1) assms(2)] dv(2) by simp
  show "pow_ok (retarget target actual timespan limit)"
    using m assms(2) dv(1) by (simp add: retarget_def)
  show "pow_val (retarget target actual timespan limit) =
      (if 2 ^ 256 \<le> pow_val target * a then pow_val limit
       else min (pow_val target * a div nat (sint timespan)) (pow_val limit))"
    using m mv(2,3) dv(2) g by (auto simp: retarget_def min_def)
qed

subsection \<open>Acceptance\<close>

definition header_rules :: "block_header \<Rightarrow> header_context \<Rightarrow> validation_time \<Rightarrow> consensus_params \<Rightarrow> bool" where
  "header_rules h ctx time params \<longleftrightarrow>
     previous_block_hash h = (if has_parent ctx then parent_hash ctx else null_hash) \<and>
     sint (minimum_block_version params) \<le> sint (hdr_version h) \<and>
     target_well_formed (hdr_bits h) (pow_limit params) \<and>
     bytes_val (header_hash h) \<le> compact_target (hdr_bits h) \<and>
     expected_difficulty_bits h ctx params = op_ok (hdr_bits h) \<and>
     violates_timewarp h ctx params = op_ok False \<and>
     (has_parent ctx \<longrightarrow> sint (hc_previous_median_time_past ctx) < int (unat (hdr_time h))) \<and>
     int (unat (hdr_time h)) \<le> sint (time + 7200)"

lemma header_invalid_neq [simp]: "header_invalid i reason \<noteq> op_ok (decision_valid facts)"
  by (simp add: header_invalid_def)

lemma assess_header_rules_steps:
  "assess_header_rules h ctx time params = op_ok (decision_valid facts) \<longleftrightarrow>
     previous_block_hash h = (if has_parent ctx then parent_hash ctx else null_hash) \<and>
     \<not> hdr_version h <s minimum_block_version params \<and>
     (\<exists>target. derive_target (hdr_bits h) (pow_limit params) = Some target \<and>
       expected_difficulty_bits h ctx params = op_ok (hdr_bits h) \<and>
       violates_timewarp h ctx params = op_ok False \<and>
       assess_header_time_and_work h ctx time target = op_ok (decision_valid facts))"
proof (cases "derive_target (hdr_bits h) (pow_limit params)")
  case (Some target)
  then show ?thesis
    by (cases "expected_difficulty_bits h ctx params"; cases "violates_timewarp h ctx params";
        cases "has_parent ctx") (simp_all add: assess_header_rules_def)
qed (simp add: assess_header_rules_def)

theorem assess_header_accepts:
  assumes "length (pow_limit params) = 32"
  shows "assess_header_with_context h ctx time params = op_ok (decision_valid facts) \<longleftrightarrow>
    header_rules h ctx time params \<and> facts = \<lparr>hf_hash = header_hash h\<rparr>"
proof -
  have hash: "length (header_hash h) = 32" using hash_ok_ids(3) by (simp add: hash_ok_def)
  have pow: "pow_greater (from_bytes (header_hash h)) (from_compact (hdr_bits h)) \<longleftrightarrow>
      compact_target (hdr_bits h) < bytes_val (header_hash h)"
    if "target_well_formed (hdr_bits h) (pow_limit params)"
    using that from_compact_val [of "hdr_bits h"]
      pow_greater_val [OF from_bytes_val(1) [OF hash] pow_ok_from_compact]
    by (simp add: from_bytes_val(2) [OF hash] target_well_formed_def compact_target_def)
  have mtp: "not_after_mtp t (if p then Some m else None) \<longleftrightarrow> p \<and> int (unat t) \<le> sint m" for t p m
    by (simp add: not_after_mtp_def word_sle_eq sint_ucast_time)
  have future: "too_far_future t time \<longleftrightarrow> sint (time + 7200) < int (unat t)" for t
    by (simp add: too_far_future_def word_sless_alt sint_ucast_time)
  have tail: "assess_header_time_and_work h ctx time (from_compact (hdr_bits h)) = op_ok (decision_valid facts) \<longleftrightarrow>
      (has_parent ctx \<longrightarrow> sint (hc_previous_median_time_past ctx) < int (unat (hdr_time h))) \<and>
      int (unat (hdr_time h)) \<le> sint (time + 7200) \<and>
      bytes_val (header_hash h) \<le> compact_target (hdr_bits h) \<and> facts = \<lparr>hf_hash = header_hash h\<rparr>"
    if "target_well_formed (hdr_bits h) (pow_limit params)"
    unfolding assess_header_time_and_work_def mtp future pow [OF that] header_invalid_def by auto
  have "assess_header_with_context h ctx time params = op_ok (decision_valid facts) \<longleftrightarrow>
      previous_block_hash h = (if has_parent ctx then parent_hash ctx else null_hash) \<and>
      sint (minimum_block_version params) \<le> sint (hdr_version h) \<and>
      target_well_formed (hdr_bits h) (pow_limit params) \<and>
      expected_difficulty_bits h ctx params = op_ok (hdr_bits h) \<and>
      violates_timewarp h ctx params = op_ok False \<and>
      assess_header_time_and_work h ctx time (from_compact (hdr_bits h)) = op_ok (decision_valid facts)"
    unfolding assess_header_with_context_def verify_exception_boundary_Return assess_header_rules_steps
      derive_target_eq [OF assms]
    by (simp add: word_sless_alt not_less)
  then show ?thesis using tail unfolding header_rules_def by blast
qed

subsection \<open>Median time past\<close>

lemma count_sorted_ge:
  assumes "sorted xs" and "k < length xs"
  shows "k + 1 \<le> length (filter (\<lambda>x. x \<le> xs ! k) xs)"
    and "length xs - k \<le> length (filter (\<lambda>x. xs ! k \<le> x) xs)"
proof -
  have "filter (\<lambda>x. x \<le> xs ! k) (take (Suc k) xs) = take (Suc k) xs"
    using assms by (intro filter_True) (auto simp: in_set_conv_nth sorted_nth_mono)
  then have "length (filter (\<lambda>x. x \<le> xs ! k) (take (Suc k) xs @ drop (Suc k) xs)) \<ge> k + 1"
    using assms(2) unfolding filter_append by simp
  then show "k + 1 \<le> length (filter (\<lambda>x. x \<le> xs ! k) xs)" by simp
  have "filter (\<lambda>x. xs ! k \<le> x) (drop k xs) = drop k xs"
    using assms by (intro filter_True) (auto simp: in_set_conv_nth sorted_nth_mono)
  then have "length (filter (\<lambda>x. xs ! k \<le> x) (take k xs @ drop k xs)) \<ge> length xs - k"
    unfolding filter_append by simp
  then show "length xs - k \<le> length (filter (\<lambda>x. xs ! k \<le> x) xs)" by simp
qed

lemma length_filter_sort: "length (filter P (sort xs)) = length (filter P xs)"
  by (simp add: filter_sort)

theorem previous_median_time_past_median:
  assumes "ancestors \<noteq> []"
  defines "window \<equiv> map hdr_time (take 11 (rev ancestors))"
  shows "\<exists>t\<in>set window. previous_median_time_past ancestors = ucast t \<and>
    length window < 2 * length (filter (\<lambda>x. x \<le> t) window) \<and>
    length window \<le> 2 * length (filter (\<lambda>x. t \<le> x) window)"
proof -
  let ?v = "sort window" and ?k = "length window div 2"
  have ne: "window \<noteq> []" using assms by simp
  then have k: "?k < length ?v" by simp
  have "?v ! ?k \<in> set window" using nth_mem [OF k] by simp
  moreover have "previous_median_time_past ancestors = ucast (?v ! ?k)"
    using k unfolding previous_median_time_past_def window_def [symmetric] Let_def
    by (cases "?v = []") simp_all
  moreover have "?k + 1 \<le> length (filter (\<lambda>x. x \<le> ?v ! ?k) window)"
    "length window - ?k \<le> length (filter (\<lambda>x. ?v ! ?k \<le> x) window)"
    using count_sorted_ge [OF sorted_sort k] by (simp_all add: length_filter_sort)
  ultimately show ?thesis by (intro bexI [of _ "?v ! ?k"]) auto
qed


subsection \<open>Chains of accepted headers\<close>

lemma contiguous_snoc:
  "contiguous (hs @ [h]) \<longleftrightarrow> contiguous hs \<and> (hs \<noteq> [] \<longrightarrow> previous_block_hash h = header_hash (last hs))"
  by (induction hs rule: contiguous.induct) auto

definition chain_well_formed :: "block_header list \<Rightarrow> bool" where
  "chain_well_formed hs \<longleftrightarrow> length hs \<le> 2 ^ 31 - 1 \<and> contiguous hs \<and>
     (hs \<noteq> [] \<longrightarrow> previous_block_hash (hd hs) = null_hash)"

lemma validate_header_context_valid:
  "(\<exists>ctx. validate_header_context hs params = context_valid ctx) \<longleftrightarrow> chain_well_formed hs"
  by (auto simp: validate_header_context_def header_context_boundary_def header_context_of_def
      chain_well_formed_def Let_def)

lemma with_last_non_min_keeps:
  "hc_height (with_last_non_min hs i p ctx) = hc_height ctx"
  "has_parent (with_last_non_min hs i p ctx) = has_parent ctx"
  "parent_hash (with_last_non_min hs i p ctx) = parent_hash ctx"
  "hc_previous_median_time_past (with_last_non_min hs i p ctx) = hc_previous_median_time_past ctx"
  by (simp_all add: with_last_non_min_def split: option.splits)

lemma with_first_period_block_keeps:
  "hc_height (with_first_period_block hs i ctx) = hc_height ctx"
  "has_parent (with_first_period_block hs i ctx) = has_parent ctx"
  "parent_hash (with_first_period_block hs i ctx) = parent_hash ctx"
  "hc_previous_median_time_past (with_first_period_block hs i ctx) = hc_previous_median_time_past ctx"
  by (simp_all add: with_first_period_block_def Let_def)

lemma validate_header_context_parent:
  assumes "validate_header_context hs params = context_valid ctx"
  shows "has_parent ctx \<longleftrightarrow> hs \<noteq> []" and "hs \<noteq> [] \<Longrightarrow> parent_hash ctx = header_hash (last hs)"
    and "hc_height ctx = of_nat (length hs)"
    and "hc_previous_median_time_past ctx = previous_median_time_past hs"
  using assms
  by (auto simp: validate_header_context_def header_context_boundary_def header_context_of_def Let_def
      with_parent_def default_header_context_def with_last_non_min_keeps with_first_period_block_keeps
      split: if_splits)

lemma verify_header_on_chain_accepts:
  assumes "length (pow_limit params) = 32"
  shows "verify_header_on_chain h hs time params = evidence_checked (decision_valid facts) \<longleftrightarrow>
    (\<exists>ctx. validate_header_context hs params = context_valid ctx \<and>
       header_rules h ctx time params \<and> facts = \<lparr>hf_hash = header_hash h\<rparr>)"
  unfolding assess_header_accepts [OF assms, symmetric]
  by (simp add: verify_header_on_chain_def verify_header_def
      split: header_context_result.splits operation_result.splits)

inductive accepted_chain :: "consensus_params \<Rightarrow> block_header list \<Rightarrow> bool" for params where
  genesis: "accepted_chain params []"
| extend: "accepted_chain params hs \<Longrightarrow> length hs < 2 ^ 31 - 1 \<Longrightarrow>
    verify_header_on_chain h hs time params = evidence_checked (decision_valid facts) \<Longrightarrow>
    accepted_chain params (hs @ [h])"

theorem accepted_chain_invariant:
  assumes "accepted_chain params hs" and "length (pow_limit params) = 32"
  shows "chain_well_formed hs \<and>
    (\<forall>h\<in>set hs. target_well_formed (hdr_bits h) (pow_limit params) \<and>
       bytes_val (header_hash h) \<le> compact_target (hdr_bits h)) \<and>
    (\<forall>i. 0 < i \<and> i < length hs \<longrightarrow>
       sint (previous_median_time_past (take i hs)) < int (unat (hdr_time (hs ! i))))"
  using assms(1)
proof (induction rule: accepted_chain.induct)
  case (extend hs h time facts)
  from extend.hyps(3) obtain ctx where ctx: "validate_header_context hs params = context_valid ctx"
    and rules: "header_rules h ctx time params"
    unfolding verify_header_on_chain_accepts [OF assms(2)] by blast
  note parent = validate_header_context_parent [OF ctx]
  have "chain_well_formed (hs @ [h])"
    using extend rules parent(1,2)
    by (cases "hs = []") (auto simp: chain_well_formed_def contiguous_snoc header_rules_def)
  moreover have "\<forall>h\<in>set (hs @ [h]). target_well_formed (hdr_bits h) (pow_limit params) \<and>
       bytes_val (header_hash h) \<le> compact_target (hdr_bits h)"
    using extend.IH rules by (simp add: header_rules_def)
  moreover have "sint (previous_median_time_past (take i (hs @ [h]))) < int (unat (hdr_time ((hs @ [h]) ! i)))"
    if i: "0 < i \<and> i < length (hs @ [h])" for i
  proof (cases "i = length hs")
    case True
    then show ?thesis using i rules parent(1,4) by (auto simp: header_rules_def)
  next
    case False
    then show ?thesis using i extend.IH by (simp add: nth_append)
  qed
  ultimately show ?case by blast
qed (simp add: chain_well_formed_def)

end
