(* ===== verification/Verify_Block.thy ===== *)
theory Verify_Block
  imports Block_Spend Header_Validation
begin

text \<open>
  The release-facing \<open>verify\<close> overloads of \<^verbatim>\<open>validation/verify.h\<close>: header, contextual and spend
  rules composed for one block on top of an ancestor chain.

  The theorems compose the component results: what an accepted block satisfies, and, for chains of
  accepted blocks, that the value held by the ledger never exceeds the subsidies paid.
\<close>

subsection \<open>The code\<close>

record block_validation_context =
  bv_consensus :: consensus_params
  bv_limits :: block_limits
  bv_deployments :: block_deployments
  bv_spend_deployments :: deployment_state
  bv_locktime :: locktime_flags
  bv_flags :: verification_flags
  bv_subsidy :: amount
  bv_coinbase_maturity :: i32
  bv_max_sigop_cost :: nat

definition locktime_cutoff :: "median_time_past \<Rightarrow> block_time operation_result" where
  "locktime_cutoff previous_mtp =
     (if previous_mtp <s 0 \<or> 0xffffffff <s previous_mtp then
        op_failed (Operation_error unsupported_operation
          ''previous median time cannot be represented as a block time'')
      else op_ok (ucast previous_mtp))"

definition contextual_context_of ::
  "header_context \<Rightarrow> block_time \<Rightarrow> block_validation_context \<Rightarrow> block_contextual_context" where
  "contextual_context_of header_ctx cutoff context =
     \<lparr>cc_local = \<lparr>lc_limits = bv_limits context, check_merkle_root = True\<rparr>,
      cc_height = hc_height header_ctx, cc_locktime_cutoff = cutoff,
      cc_deployments = bv_deployments context\<rparr>"

definition verify_block_contextual ::
  "block \<Rightarrow> header_context \<Rightarrow> validation_time \<Rightarrow> block_validation_context \<Rightarrow> block_facts verify_result" where
  "verify_block_contextual candidate ancestor_context time context =
     verify_exception_boundary (Return
       (case locktime_cutoff (hc_previous_median_time_past ancestor_context) of
          op_failed e \<Rightarrow> op_failed e
        | op_ok cutoff \<Rightarrow>
            verify_bind (verify_header (blk_header candidate) ancestor_context time (bv_consensus context))
              (\<lambda>_. assess_block_contextual candidate (contextual_context_of ancestor_context cutoff context))))
       ''block contextual validation exhausted resources'' internal_bug
       ''block contextual validation threw an exception''"

definition verify_block_contextual_on_chain ::
  "block \<Rightarrow> block_header list \<Rightarrow> validation_time \<Rightarrow> block_validation_context \<Rightarrow>
   block_facts evidence_verify_result" where
  "verify_block_contextual_on_chain candidate genesis_to_parent time context =
     (case validate_header_context genesis_to_parent (bv_consensus context) of
        context_invalid ev \<Rightarrow> evidence_invalid ev
      | context_failed e \<Rightarrow> evidence_failed e
      | context_valid ancestor_context \<Rightarrow>
          (case verify_block_contextual candidate ancestor_context time context of
             op_failed e \<Rightarrow> evidence_failed e
           | op_ok decision \<Rightarrow> evidence_checked decision))"

definition spend_context_of :: "header_context \<Rightarrow> block_validation_context \<Rightarrow> block_spend_context" where
  "spend_context_of header_ctx context =
     \<lparr>bs_local = \<lparr>lc_limits = bv_limits context, check_merkle_root = True\<rparr>,
      bs_spend = \<lparr>sc_height = hc_height header_ctx,
        sc_previous_median_time_past = hc_previous_median_time_past header_ctx,
        sc_limits = bl_transactions (bv_limits context), sc_locktime = bv_locktime context,
        coinbase_maturity = bv_coinbase_maturity context\<rparr>,
      bs_flags = bv_flags context, bs_deployments = bv_spend_deployments context,
      bs_subsidy = bv_subsidy context, bs_max_sigop_cost = bv_max_sigop_cost context\<rparr>"

text \<open>\<^term>\<open>None\<close> is a failed assertion, as in \<open>assess_block_spends\<close>.\<close>

definition verify_block ::
  "script_interpreter \<Rightarrow> block \<Rightarrow> header_context \<Rightarrow> validation_time \<Rightarrow> block_validation_context \<Rightarrow>
   coin_source \<Rightarrow> block_facts verify_result option" where
  "verify_block VerifyScript candidate ancestor_context time context coins =
     map_option (\<lambda>result. verify_exception_boundary (Return result)
         ''block validation exhausted resources'' internal_bug ''block validation threw an exception'')
       (case verify_block_contextual candidate ancestor_context time context of
          op_failed e \<Rightarrow> Some (op_failed e)
        | op_ok (decision_invalid r) \<Rightarrow> Some (op_ok (decision_invalid r))
        | op_ok (decision_valid facts) \<Rightarrow>
            assess_block_spends VerifyScript candidate (spend_context_of ancestor_context context) coins)"

definition verify_block_on_chain ::
  "script_interpreter \<Rightarrow> block \<Rightarrow> block_header list \<Rightarrow> validation_time \<Rightarrow> block_validation_context \<Rightarrow>
   coin_source \<Rightarrow> block_facts evidence_verify_result option" where
  "verify_block_on_chain VerifyScript candidate genesis_to_parent time context coins =
     (case validate_header_context genesis_to_parent (bv_consensus context) of
        context_invalid ev \<Rightarrow> Some (evidence_invalid ev)
      | context_failed e \<Rightarrow> Some (evidence_failed e)
      | context_valid ancestor_context \<Rightarrow>
          map_option (\<lambda>result. case result of
               op_failed e \<Rightarrow> evidence_failed e
             | op_ok decision \<Rightarrow> evidence_checked decision)
            (verify_block VerifyScript candidate ancestor_context time context coins))"

subsection \<open>What acceptance means\<close>

lemma verify_block_on_chain_total: "\<exists>r. verify_block_on_chain V b hs time ctx coins = Some r"
proof -
  have "\<exists>r. assess_block_spends V b c coins = Some r" for c
    unfolding assess_block_spends_def by (rule block_spends_total)
  then show ?thesis
    by (auto simp: verify_block_on_chain_def verify_block_def
        split: header_context_result.splits operation_result.splits validation_decision.splits)
qed

lemma verify_header_valid:
  assumes "length (pow_limit params) = 32"
  shows "verify_header h ctx time params = op_ok (decision_valid facts) \<longleftrightarrow>
    header_rules h ctx time params \<and> facts = \<lparr>hf_hash = header_hash h\<rparr>"
  using assess_header_accepts [OF assms] by (simp add: verify_header_def)

lemma locktime_cutoff_ok:
  "locktime_cutoff mtp = op_ok cutoff \<longleftrightarrow> 0 \<le> sint mtp \<and> int (unat cutoff) = sint mtp"
proof -
  have "int (unat (ucast mtp :: u32)) = sint mtp" if "0 \<le> sint mtp" "sint mtp \<le> 0xffffffff"
  proof -
    have "int (unat mtp) = sint mtp"
      using uint_sint [of mtp] that sint64_upper [of mtp] by (simp add: take_bit_int_eq_self)
    moreover from this that have "unat mtp < 4294967296" by linarith
    ultimately show ?thesis
      by (simp add: unsigned_ucast_eq take_bit_nat_eq_self)
  qed
  moreover have "int (unat cutoff) \<le> 0xffffffff"
    using unsigned_less [of cutoff, where ?'a = int] by simp
  ultimately show ?thesis
    by (auto simp: locktime_cutoff_def word_sless_alt not_less word_uint_eq_iff)
qed

lemma verify_block_contextual_valid:
  assumes "length (pow_limit (bv_consensus ctx)) = 32"
  shows "verify_block_contextual b hctx time ctx = op_ok (decision_valid facts) \<longleftrightarrow>
    header_rules (blk_header b) hctx time (bv_consensus ctx) \<and>
    (\<exists>cutoff. locktime_cutoff (hc_previous_median_time_past hctx) = op_ok cutoff \<and>
       assess_block_contextual b (contextual_context_of hctx cutoff ctx) = op_ok (decision_valid facts))"
  by (auto simp: verify_block_contextual_def verify_bind_valid verify_header_valid [OF assms]
      split: operation_result.splits)

lemma verify_block_valid:
  "verify_block V b hctx time ctx coins = Some (op_ok (decision_valid facts)) \<longleftrightarrow>
     (\<exists>local_facts. verify_block_contextual b hctx time ctx = op_ok (decision_valid local_facts)) \<and>
     assess_block_spends V b (spend_context_of hctx ctx) coins = Some (op_ok (decision_valid facts))"
  by (auto simp: verify_block_def split: operation_result.splits validation_decision.splits)

text \<open>An accepted block passed the header, contextual and spend rules against one header context.\<close>

theorem verify_block_on_chain_accepts:
  assumes "length (pow_limit (bv_consensus ctx)) = 32"
  shows "verify_block_on_chain V b hs time ctx coins = Some (evidence_checked (decision_valid facts)) \<longleftrightarrow>
    (\<exists>hctx cutoff local_facts. validate_header_context hs (bv_consensus ctx) = context_valid hctx \<and>
       header_rules (blk_header b) hctx time (bv_consensus ctx) \<and>
       locktime_cutoff (hc_previous_median_time_past hctx) = op_ok cutoff \<and>
       assess_block_contextual b (contextual_context_of hctx cutoff ctx) = op_ok (decision_valid local_facts) \<and>
       assess_block_spends V b (spend_context_of hctx ctx) coins = Some (op_ok (decision_valid facts)))"
proof -
  have "verify_block_on_chain V b hs time ctx coins = Some (evidence_checked (decision_valid facts)) \<longleftrightarrow>
      (\<exists>hctx. validate_header_context hs (bv_consensus ctx) = context_valid hctx \<and>
        verify_block V b hctx time ctx coins = Some (op_ok (decision_valid facts)))"
    by (cases "validate_header_context hs (bv_consensus ctx)")
      (auto simp: verify_block_on_chain_def split: operation_result.splits dest: sym
        intro: operation_result.exhaust)
  then show ?thesis
    unfolding verify_block_valid verify_block_contextual_valid [OF assms] by blast
qed

subsection \<open>The supply held by the ledger\<close>

definition coin_value :: "coin \<Rightarrow> int" where
  "coin_value c = sint (output_value (coin_output c))"

definition coin_supply :: "ledger \<Rightarrow> int" where
  "coin_supply m = (\<Sum>p\<in>dom m. coin_value (the (m p)))"

definition ledger_ok :: "ledger \<Rightarrow> bool" where
  "ledger_ok m \<longleftrightarrow> finite (dom m) \<and> (\<forall>c\<in>ran m. 0 \<le> coin_value c)"

lemma coins_total_value: "coins_total cs = (\<Sum>c\<leftarrow>cs. coin_value c)"
  by (simp add: coins_total_def coin_value_def)

lemma supply_remove:
  assumes "finite (dom m)" and "m p = Some c"
  shows "coin_supply (m(p := None)) = coin_supply m - coin_value c"
proof -
  have "coin_supply (m(p := None)) = (\<Sum>q\<in>dom m - {p}. coin_value (the (m q)))"
    unfolding coin_supply_def by (rule sum.cong) auto
  then show ?thesis
    using assms sum.remove [of "dom m" p "\<lambda>q. coin_value (the (m q))"] by (auto simp: coin_supply_def dom_def)
qed

lemma ledger_ok_remove: "ledger_ok m \<Longrightarrow> ledger_ok (m(p := None))"
  by (auto simp: ledger_ok_def ran_def)

lemma supply_update:
  assumes "ledger_ok m" and "0 \<le> coin_value c"
  shows "coin_supply (m(p \<mapsto> c)) \<le> coin_supply m + coin_value c" and "ledger_ok (m(p \<mapsto> c))"
proof -
  show "ledger_ok (m(p \<mapsto> c))" using assms by (auto simp: ledger_ok_def ran_def)
  then have "coin_supply ((m(p \<mapsto> c))(p := None)) = coin_supply (m(p \<mapsto> c)) - coin_value c"
    by (intro supply_remove) (simp_all add: ledger_ok_def)
  moreover have "coin_supply (m(p := None)) \<le> coin_supply m"
  proof (cases "m p")
    case None
    then show ?thesis by (simp add: fun_upd_idem)
  next
    case (Some d)
    with assms(1) have "0 \<le> coin_value d" by (auto simp: ledger_ok_def ran_def)
    with Some supply_remove [of m p d] assms(1) show ?thesis by (simp add: ledger_ok_def)
  qed
  ultimately show "coin_supply (m(p \<mapsto> c)) \<le> coin_supply m + coin_value c" by simp
qed

lemma supply_created:
  assumes "ledger_ok m" and "\<forall>out\<in>set outs. 0 \<le> coin_value (created_coin out)"
  shows "coin_supply (m ++ created_map outs) \<le> coin_supply m + (\<Sum>out\<leftarrow>outs. coin_value (created_coin out)) \<and>
    ledger_ok (m ++ created_map outs)"
  using assms
proof (induction outs arbitrary: m)
  case (Cons out outs)
  have "0 \<le> coin_value (created_coin out)" using Cons.prems(2) by simp
  note upd = supply_update [OF Cons.prems(1) this, of "co_point out"]
  have "\<forall>out\<in>set outs. 0 \<le> coin_value (created_coin out)" using Cons.prems(2) by simp
  from Cons.IH [OF upd(2) this] upd(1) show ?case by (simp del: fun_upd_apply)
qed simp

lemma supply_consumed:
  assumes "ledger_ok m" and "distinct ps" and "map m ps = map Some cs"
  shows "coin_supply (m |` (- set ps)) = coin_supply m - coins_total cs \<and> ledger_ok (m |` (- set ps))"
  using assms
proof (induction ps arbitrary: m cs)
  case (Cons p ps)
  from Cons.prems(3) obtain c cs' where cs: "cs = c # cs'" "m p = Some c" "map m ps = map Some cs'"
    by (cases cs) auto
  have "map (m(p := None)) ps = map Some cs'"
    using cs(3) Cons.prems(2) map_fun_upd [of p ps m None] by simp
  from Cons.IH [OF ledger_ok_remove [OF Cons.prems(1)] _ this] Cons.prems(2)
  have "coin_supply (m(p := None) |` (- set ps)) = coin_supply (m(p := None)) - coins_total cs' \<and>
      ledger_ok (m(p := None) |` (- set ps))"
    by (simp only: distinct.simps)
  moreover have "m(p := None) |` (- set ps) = m |` (- set (p # ps))"
    by (auto simp: restrict_map_def fun_eq_iff)
  ultimately show ?case
    using supply_remove [of m p c] cs Cons.prems(1) by (simp add: ledger_ok_def coin_value_def)
qed (simp add: restrict_map_def)

lemma created_values:
  "(\<Sum>out\<leftarrow>tx_created_outputs ctx tx tf. coin_value (created_coin out)) = outputs_total (tx_outputs tx)"
proof -
  have "map (\<lambda>out. coin_value (created_coin out)) (tx_created_outputs ctx tx tf) =
      map (\<lambda>out. sint (output_value out)) (tx_outputs tx)"
    by (rule nth_equalityI)
      (simp_all add: tx_created_outputs_def created_at_def created_coin_def coin_value_def)
  then show ?thesis by (simp add: outputs_total_def)
qed

lemma created_nonneg:
  "outputs_non_negative (tx_outputs tx) \<Longrightarrow>
     \<forall>out\<in>set (tx_created_outputs ctx tx tf). 0 \<le> coin_value (created_coin out)"
  by (auto simp: tx_created_outputs_def created_at_def created_coin_def coin_value_def
      outputs_non_negative_def list_all_length)

lemma ledger_run_supply:
  assumes "ledger_run V ctx m txs css m'" and "ledger_ok m"
    and "\<forall>(tx, tf)\<in>set txs. outputs_non_negative (tx_outputs tx)"
  shows "coin_supply m' + coins_total (concat css) \<le> coin_supply m + (\<Sum>(tx, tf)\<leftarrow>txs. outputs_total (tx_outputs tx)) \<and>
    ledger_ok m'"
  using assms
proof (induction rule: ledger_run.induct)
  case (mint tf m tx rest css m')
  then show ?case
    using supply_created [of m "tx_created_outputs ctx tx tf"] created_nonneg [of tx ctx tf]
    by (auto simp: created_values)
next
  case (spend tf tx m cs sf sf' rest css m')
  from supply_consumed [OF spend.prems(1) spend.hyps(2,3)] spend.prems(2)
    supply_created [of "m |` (- set (prevouts tx))" "tx_created_outputs ctx tx tf"] created_nonneg [of tx ctx tf]
  show ?case
    using spend.IH by (auto simp: created_values coins_total_append)
qed simp

lemma ledger_run_unique:
  assumes "ledger_run V ctx m txs css m1" and "ledger_run V ctx m txs css' m2"
  shows "css' = css \<and> m2 = m1"
  using assms
proof (induction arbitrary: css' m2 rule: ledger_run.induct)
  case (finish m)
  then show ?case by (auto elim: ledger_run.cases)
next
  case (mint tf m tx rest css m')
  from mint.prems mint.hyps(1) show ?case
    by (cases rule: ledger_run.cases) (use mint.IH in auto)
next
  case (spend tf tx m cs sf sf' rest css m')
  from spend.prems spend.hyps(1) show ?case
  proof (cases rule: ledger_run.cases)
    case (spend cs2 sf2 sf2' css2)
    have "map Some cs2 = map Some cs" using spend(4) spend.hyps(3) by simp
    then have "cs2 = cs" by (simp add: inj_map_eq_map)
    with spend spend.IH show ?thesis by auto
  qed simp
qed

text \<open>
  Chains of accepted blocks, each verified against the headers before it and the ledger they left,
  from no headers and an empty ledger; the last component adds up the subsidies.
\<close>

inductive ledger_chain :: "script_interpreter \<Rightarrow> block_header list \<Rightarrow> ledger \<Rightarrow> int \<Rightarrow> bool"
  for V :: script_interpreter where
  empty: "ledger_chain V [] Map.empty 0"
| connect: "ledger_chain V hs m paid \<Longrightarrow>
    verify_block_on_chain V b hs time ctx (Pure_index (\<lambda>p. Return (m p))) =
      Some (evidence_checked (decision_valid facts)) \<Longrightarrow>
    validate_header_context hs (bv_consensus ctx) = context_valid hctx \<Longrightarrow>
    ledger_run V (spend_context_of hctx ctx) m (zip (blk_transactions b) (bf_transactions facts)) css m' \<Longrightarrow>
    ledger_chain V (hs @ [blk_header b]) m' (paid + sint (bv_subsidy ctx))"

lemma verify_block_on_chain_spends:
  assumes "verify_block_on_chain V b hs time ctx coins = Some (evidence_checked (decision_valid facts))"
    and "validate_header_context hs (bv_consensus ctx) = context_valid hctx"
  shows "assess_block_spends_with_callbacks V b (spend_context_of hctx ctx) (lookup_coin coins) =
    Some (op_ok (decision_valid facts))"
proof -
  from assms obtain r where "verify_block V b hctx time ctx coins = Some r"
    and "(case r of op_failed e \<Rightarrow> evidence_failed e | op_ok d \<Rightarrow> evidence_checked d) =
      evidence_checked (decision_valid facts)"
    by (auto simp: verify_block_on_chain_def)
  then show ?thesis
    by (cases r) (simp_all add: verify_block_valid assess_block_spends_def)
qed

lemma index_map_pure: "index_map (lookup_coin (Pure_index (\<lambda>p. Return (m p)))) = m"
  by (simp add: index_map_def fun_eq_iff coin_lookup_boundary_def map_call_def)

lemma connect_possible:
  assumes "verify_block_on_chain V b hs time ctx (Pure_index (\<lambda>p. Return (m p))) =
      Some (evidence_checked (decision_valid facts))"
  shows "\<exists>hctx css m'. validate_header_context hs (bv_consensus ctx) = context_valid hctx \<and>
    ledger_run V (spend_context_of hctx ctx) m (zip (blk_transactions b) (bf_transactions facts)) css m'"
proof -
  from assms obtain hctx where h: "validate_header_context hs (bv_consensus ctx) = context_valid hctx"
    by (auto simp: verify_block_on_chain_def split: header_context_result.splits)
  from block_spends_ledger(1) [OF verify_block_on_chain_spends [OF assms h]] h
  show ?thesis by (auto simp: index_map_pure)
qed

lemma connected_block_supply:
  assumes "assess_block_spends_with_callbacks V b ctx lookup = Some (op_ok (decision_valid facts))"
    and run: "ledger_run V ctx (index_map lookup) (zip (blk_transactions b) (bf_transactions facts)) css m'"
    and "ledger_ok (index_map lookup)"
  shows "coin_supply m' \<le> coin_supply (index_map lookup) + sint (bs_subsidy ctx)" and "ledger_ok m'"
proof -
  note block = block_spends_ledger [OF assms(1)]
  let ?txs = "zip (blk_transactions b) (bf_transactions facts)"
  have len: "length (blk_transactions b) = length (bf_transactions facts)"
    using block(9) by (rule list_all2_lengthD)
  have "\<forall>tx\<in>set (blk_transactions b). outputs_non_negative (tx_outputs tx)"
    using block(8) by (auto simp: block_intrinsic_ok_def tx_intrinsic_ok_def list_all_iff)
  then have "\<forall>(tx, tf)\<in>set ?txs. outputs_non_negative (tx_outputs tx)"
    by (auto dest: set_zip_leftD)
  from ledger_run_supply [OF run assms(3) this]
  have "coin_supply m' + coins_total (concat css) \<le> coin_supply (index_map lookup) +
      (\<Sum>(tx, tf)\<leftarrow>?txs. outputs_total (tx_outputs tx))" and ok: "ledger_ok m'" by auto
  moreover have "(\<Sum>(tx, tf)\<leftarrow>?txs. outputs_total (tx_outputs tx)) =
      (\<Sum>tx\<leftarrow>blk_transactions b. outputs_total (tx_outputs tx))"
    using len by (simp add: sum_list_pairs)
  moreover have "map so_previous_coin (bf_spent_outputs facts) = concat css"
    using block(1) ledger_run_unique [OF run] by blast
  ultimately show "coin_supply m' \<le> coin_supply (index_map lookup) + sint (bs_subsidy ctx)"
    using block_value_conserved [OF assms(1)] by simp
  show "ledger_ok m'" by (rule ok)
qed

theorem ledger_chain_supply: "ledger_chain V hs m paid \<Longrightarrow> coin_supply m \<le> paid \<and> ledger_ok m"
proof (induction rule: ledger_chain.induct)
  case empty
  show ?case by (simp add: coin_supply_def ledger_ok_def)
next
  case (connect hs m paid b time ctx facts hctx css m')
  note spends = verify_block_on_chain_spends [OF connect.hyps(2,3)]
  have "ledger_run V (spend_context_of hctx ctx) (index_map (lookup_coin (Pure_index (\<lambda>p. Return (m p)))))
      (zip (blk_transactions b) (bf_transactions facts)) css m'"
    using connect.hyps(4) by (simp only: index_map_pure)
  from connected_block_supply [OF spends this] connect.IH show ?case
    by (simp add: index_map_pure spend_context_of_def)
qed

end
