(* ===== verification/Samples.thy ===== *)
theory Samples
  imports Verify_Block
begin

text \<open>
  Concrete inputs the theorems are applied to: a block of height one whose coinbase commits to its
  height and to the (empty) rest of the block's witness data, and the contexts it is verified in.
  Its Merkle root and its commitment are hashes; nothing below depends on their value.
\<close>

definition sample_commitment :: "byte list" where
  "sample_commitment = double_sha256 (null_hash @ replicate 32 0)"

definition sample_coinbase :: transaction where
  "sample_coinbase =
     \<lparr>tx_version = 1,
      tx_inputs = [\<lparr>previous_output = outpoint_null, input_script = [0x51, 0x00],
        input_sequence = 0xffffffff, input_witness = [replicate 32 0]\<rparr>],
      tx_outputs = [\<lparr>output_value = 5000000000, output_script = [0x51]\<rparr>,
        \<lparr>output_value = 0, output_script = [0x6a, 0x24, 0xaa, 0x21, 0xa9, 0xed] @ sample_commitment\<rparr>],
      tx_locktime = 0\<rparr>"

definition sample_block :: block where
  "sample_block =
     \<lparr>blk_header = default_block_header\<lparr>hdr_merkle_root := transaction_id sample_coinbase\<rparr>,
      blk_transactions = [sample_coinbase]\<rparr>"

definition sample_contextual :: block_contextual_context where
  "sample_contextual = \<lparr>cc_local = default_block_local_context, cc_height = 1, cc_locktime_cutoff = 1,
     cc_deployments = \<lparr>segwit_active = True, height_in_coinbase_active = True\<rparr>\<rparr>"

definition sample_spend :: block_spend_context where
  "sample_spend = \<lparr>bs_local = default_block_local_context,
     bs_spend = \<lparr>sc_height = 1, sc_previous_median_time_past = 0, sc_limits = default_transaction_limits,
       sc_locktime = 1, coinbase_maturity = 100\<rparr>,
     bs_flags = known_mask, bs_deployments = \<lparr>enforce_bip30 = True\<rparr>, bs_subsidy = 5000000000,
     bs_max_sigop_cost = 80000\<rparr>"

definition sample_params :: consensus_params where
  "sample_params = \<lparr>pow_limit = replicate 32 0xff, target_spacing = 600, target_timespan = 1209600,
     max_timewarp = 600, allow_min_difficulty_blocks = False, no_retargeting = False,
     enforce_bip94 = False, minimum_block_version = 1\<rparr>"

definition sample_validation :: block_validation_context where
  "sample_validation = \<lparr>bv_consensus = sample_params, bv_limits = default_block_limits,
     bv_deployments = \<lparr>segwit_active = True, height_in_coinbase_active = True\<rparr>,
     bv_spend_deployments = \<lparr>enforce_bip30 = True\<rparr>, bv_locktime = 1, bv_flags = known_mask,
     bv_subsidy = 5000000000, bv_coinbase_maturity = 100, bv_max_sigop_cost = 80000\<rparr>"

definition sample_spending :: transaction where
  "sample_spending = \<lparr>tx_version = 2, tx_inputs = [\<lparr>previous_output = Outpoint null_hash 0, input_script = [],
     input_sequence = 0, input_witness = []\<rparr>],
     tx_outputs = [\<lparr>output_value = 1, output_script = []\<rparr>], tx_locktime = 0\<rparr>"

lemmas sample_defs = sample_block_def sample_coinbase_def default_block_header_def

lemma length_sample_commitment [simp]: "length sample_commitment = 32"
  by (simp add: sample_commitment_def)

lemma sample_block_size: "length (block_bytes False sample_block) = 191"
  by (simp add: block_bytes_def header_bytes_def vector_bytes_def transaction_bytes_def input_bytes_def
      output_bytes_def var_bytes_def compact_size_bytes_def sample_defs transaction_id_bytes null_hash_def
      outpoint_null_def length_write_little_endian)

lemma sample_coinbase_size: "length (transaction_bytes False sample_coinbase) = 110"
  by (simp add: vector_bytes_def transaction_bytes_def input_bytes_def
      output_bytes_def var_bytes_def compact_size_bytes_def sample_defs null_hash_def
      outpoint_null_def length_write_little_endian)

lemma sample_block_weight: "length (block_bytes True sample_block) = 227"
  by (simp add: block_bytes_def header_bytes_def vector_bytes_def transaction_bytes_def input_bytes_def
      output_bytes_def witness_bytes_def has_witness_def var_bytes_def compact_size_bytes_def sample_defs
      transaction_id_bytes null_hash_def outpoint_null_def length_write_little_endian)

lemma sample_is_coinbase [simp]: "is_coinbase sample_coinbase"
  by (simp add: is_coinbase_def is_null_def sample_coinbase_def)

lemma sample_sigops: "legacy_sigop_count sample_coinbase \<le> 820"
proof -
  have step: "size_wrap (n + m) \<le> n' + m'" if "n \<le> n'" "m \<le> m'" for n m n' m' :: nat
    using that size_wrap_le [of "n + m"] by simp
  have count: "legacy_sigop_count_script bs \<le> 20 * length bs" for bs
    by (simp add: legacy_sigop_count_script_def sigop_count_bound)
  have "legacy_sigop_count sample_coinbase \<le> 40 + 20 + 760"
    unfolding legacy_sigop_count_def sample_coinbase_def
    using step [OF step [OF step [OF le_refl [of 0] count [of "[0x51, 0x00]"]] count [of "[0x51]"]]
        count [of "[0x6a, 0x24, 0xaa, 0x21, 0xa9, 0xed] @ sample_commitment"]] by simp
  then show ?thesis by simp
qed

lemma sample_tx_ok: "tx_intrinsic_ok sample_coinbase default_transaction_limits"
proof -
  have "stripped_serialized_size sample_coinbase \<le> 110"
    unfolding stripped_serialized_size_bytes sample_coinbase_size by (rule size_wrap_le)
  then show ?thesis
    by (simp add: tx_intrinsic_ok_def coinbase_script_size_valid_def default_transaction_limits_def
        outputs_non_negative_def outputs_total_def) (simp add: sample_coinbase_def)
qed

lemma sample_block_intrinsic: "block_intrinsic_ok sample_block default_block_local_context"
proof -
  have "block_stripped_serialized_size sample_block \<le> 191"
    unfolding block_stripped_serialized_size_bytes sample_block_size by (rule size_wrap_le)
  moreover have "block_sigops sample_block \<le> 820"
    using sample_sigops size_wrap_le [of "legacy_sigop_count sample_coinbase"]
    by (simp add: block_sigops_def sample_block_def)
  ultimately show ?thesis
    using sample_tx_ok
    by (simp add: block_intrinsic_ok_def default_block_local_context_def default_block_limits_def)
      (simp add: sample_block_def merkle_root_def merkle_root_of_def)
qed

lemma sample_block_contextual: "block_contextual_ok sample_block sample_contextual"
proof -
  have "weight sample_block \<le> 3 * 191 + 227"
    unfolding weight_def block_stripped_serialized_size_bytes block_serialized_size_bytes
      sample_block_size sample_block_weight
    by (simp add: size_wrap_def)
  moreover have "starts_with [0x51, 0x00] (coinbase_height_prefix 1)" by code_simp
  moreover have "find_witness_commitment sample_coinbase = Some (1, sample_commitment)"
    by (simp add: find_witness_commitment_def sample_coinbase_def has_witness_commitment_prefix_def)
  moreover have "witness_merkle_root [sample_coinbase] = null_hash"
    by (simp add: witness_merkle_root_def witness_leaves_def witness_merkle_loop.simps)
  ultimately show ?thesis
    by (simp add: block_contextual_ok_def sample_contextual_def default_block_local_context_def
        default_block_limits_def sample_block_def commitment_ok_def final_under_locktime_def)
      (simp add: sample_coinbase_def sample_commitment_def)
qed

lemma sample_accepted_contextual:
  "\<exists>facts. assess_block_contextual sample_block sample_contextual = op_ok (decision_valid facts)"
  using block_facts_exist [OF sample_block_intrinsic] sample_block_intrinsic sample_block_contextual
  by (simp add: block_contextual_accepts sample_contextual_def)

lemma sample_accepted_spends:
  "\<exists>facts. assess_block_spends_with_callbacks V sample_block sample_spend (\<lambda>_. op_ok None) =
     Some (op_ok (decision_valid facts))"
proof -
  from block_facts_exist [OF sample_block_intrinsic] obtain lf where lf: "block_facts_of sample_block lf"
    by blast
  then have local: "assess_block_intrinsic sample_block default_block_local_context = op_ok (decision_valid lf)"
    by (simp add: block_intrinsic_accepts sample_block_intrinsic)
  from lf obtain tf where tf: "bf_transactions lf = [tf]" "tx_facts_of sample_coinbase tf"
    by (auto simp: block_facts_of_def sample_block_def list_all2_Cons1)
  then have kind: "tf_kind tf = coinbase" and out: "sint (tf_output_value tf) = sint (5000000000 :: i64)"
    by (simp_all add: tx_facts_of_def outputs_total_def) (simp add: sample_coinbase_def)
  have paid: "tf_output_value tf = 5000000000" using out by (simp only: sint_inject)
  let ?cost = "transaction_sigop_cost sample_coinbase [] known_mask"
  have cost: "?cost \<le> 80000"
    using sample_sigops size_wrap_le [of "legacy_sigop_count sample_coinbase * witness_scale_factor"]
    by (simp add: transaction_sigop_cost_def witness_scale_factor_def)
  have outs: "length (tx_outputs sample_coinbase) = 2" by (simp add: sample_coinbase_def)
  obtain st where "spend_transaction V sample_spend (\<lambda>_. op_ok None) sample_coinbase tf initial_spend_state =
      Some (op_ok (decision_valid st))" "ss_total_fees st = 0"
    using cost kind outs
    by (simp add: spend_transaction_def spend_inputs_def add_sigop_cost_def sample_spend_def
        initial_spend_state_def tx_created_outputs_def created_at_def numeral_2_eq_2 upt_rec
        bip30_check_def add_created_def contains_created_def empty_tracker_def)
  moreover from this(2) obtain facts where "coinbase_rules sample_spend lf st = op_ok (decision_valid facts)"
    by (simp add: coinbase_rules_def sample_spend_def default_transaction_limits_def tf(1) paid)
  moreover have "bs_local sample_spend = default_block_local_context" by (simp add: sample_spend_def)
  ultimately show ?thesis
    by (simp add: assess_block_spends_with_callbacks_def block_spend_rules_def local tf(1))
      (simp add: sample_block_def)
qed

end
