(* ===== verification/Script_Core.thy ===== *)
theory Script_Core
  imports Script_Scan Endian
begin

text \<open>
  The script vocabulary of \<^verbatim>\<open>script/script.h\<close>, \<^verbatim>\<open>script/script.cpp\<close> and \<^verbatim>\<open>script/script_error.h\<close>: opcodes,
  numbers, pushes, the scanner \<open>GetScriptOp\<close> and the questions asked of a whole script.

  A script is a byte list and an iterator into it is an offset. The lemmas relate the scanner and the
  counters to their counterparts in the validation library (theory \<open>Script_Scan\<close>), which were written
  separately, and prove the two directions of the number encoding inverse to each other.
\<close>

subsection \<open>Opcodes, limits and errors\<close>

abbreviation (input) OP_0 :: byte where "OP_0 \<equiv> 0x00"
abbreviation (input) OP_PUSHDATA1 :: byte where "OP_PUSHDATA1 \<equiv> 0x4c"
abbreviation (input) OP_PUSHDATA2 :: byte where "OP_PUSHDATA2 \<equiv> 0x4d"
abbreviation (input) OP_PUSHDATA4 :: byte where "OP_PUSHDATA4 \<equiv> 0x4e"
abbreviation (input) OP_1NEGATE :: byte where "OP_1NEGATE \<equiv> 0x4f"
abbreviation (input) OP_RESERVED :: byte where "OP_RESERVED \<equiv> 0x50"
abbreviation (input) OP_1 :: byte where "OP_1 \<equiv> 0x51"
abbreviation (input) OP_2 :: byte where "OP_2 \<equiv> 0x52"
abbreviation (input) OP_3 :: byte where "OP_3 \<equiv> 0x53"
abbreviation (input) OP_4 :: byte where "OP_4 \<equiv> 0x54"
abbreviation (input) OP_5 :: byte where "OP_5 \<equiv> 0x55"
abbreviation (input) OP_6 :: byte where "OP_6 \<equiv> 0x56"
abbreviation (input) OP_7 :: byte where "OP_7 \<equiv> 0x57"
abbreviation (input) OP_8 :: byte where "OP_8 \<equiv> 0x58"
abbreviation (input) OP_9 :: byte where "OP_9 \<equiv> 0x59"
abbreviation (input) OP_10 :: byte where "OP_10 \<equiv> 0x5a"
abbreviation (input) OP_11 :: byte where "OP_11 \<equiv> 0x5b"
abbreviation (input) OP_12 :: byte where "OP_12 \<equiv> 0x5c"
abbreviation (input) OP_13 :: byte where "OP_13 \<equiv> 0x5d"
abbreviation (input) OP_14 :: byte where "OP_14 \<equiv> 0x5e"
abbreviation (input) OP_15 :: byte where "OP_15 \<equiv> 0x5f"
abbreviation (input) OP_16 :: byte where "OP_16 \<equiv> 0x60"
abbreviation (input) OP_NOP :: byte where "OP_NOP \<equiv> 0x61"
abbreviation (input) OP_VER :: byte where "OP_VER \<equiv> 0x62"
abbreviation (input) OP_IF :: byte where "OP_IF \<equiv> 0x63"
abbreviation (input) OP_NOTIF :: byte where "OP_NOTIF \<equiv> 0x64"
abbreviation (input) OP_VERIF :: byte where "OP_VERIF \<equiv> 0x65"
abbreviation (input) OP_VERNOTIF :: byte where "OP_VERNOTIF \<equiv> 0x66"
abbreviation (input) OP_ELSE :: byte where "OP_ELSE \<equiv> 0x67"
abbreviation (input) OP_ENDIF :: byte where "OP_ENDIF \<equiv> 0x68"
abbreviation (input) OP_VERIFY :: byte where "OP_VERIFY \<equiv> 0x69"
abbreviation (input) OP_RETURN :: byte where "OP_RETURN \<equiv> 0x6a"
abbreviation (input) OP_TOALTSTACK :: byte where "OP_TOALTSTACK \<equiv> 0x6b"
abbreviation (input) OP_FROMALTSTACK :: byte where "OP_FROMALTSTACK \<equiv> 0x6c"
abbreviation (input) OP_2DROP :: byte where "OP_2DROP \<equiv> 0x6d"
abbreviation (input) OP_2DUP :: byte where "OP_2DUP \<equiv> 0x6e"
abbreviation (input) OP_3DUP :: byte where "OP_3DUP \<equiv> 0x6f"
abbreviation (input) OP_2OVER :: byte where "OP_2OVER \<equiv> 0x70"
abbreviation (input) OP_2ROT :: byte where "OP_2ROT \<equiv> 0x71"
abbreviation (input) OP_2SWAP :: byte where "OP_2SWAP \<equiv> 0x72"
abbreviation (input) OP_IFDUP :: byte where "OP_IFDUP \<equiv> 0x73"
abbreviation (input) OP_DEPTH :: byte where "OP_DEPTH \<equiv> 0x74"
abbreviation (input) OP_DROP :: byte where "OP_DROP \<equiv> 0x75"
abbreviation (input) OP_DUP :: byte where "OP_DUP \<equiv> 0x76"
abbreviation (input) OP_NIP :: byte where "OP_NIP \<equiv> 0x77"
abbreviation (input) OP_OVER :: byte where "OP_OVER \<equiv> 0x78"
abbreviation (input) OP_PICK :: byte where "OP_PICK \<equiv> 0x79"
abbreviation (input) OP_ROLL :: byte where "OP_ROLL \<equiv> 0x7a"
abbreviation (input) OP_ROT :: byte where "OP_ROT \<equiv> 0x7b"
abbreviation (input) OP_SWAP :: byte where "OP_SWAP \<equiv> 0x7c"
abbreviation (input) OP_TUCK :: byte where "OP_TUCK \<equiv> 0x7d"
abbreviation (input) OP_CAT :: byte where "OP_CAT \<equiv> 0x7e"
abbreviation (input) OP_SUBSTR :: byte where "OP_SUBSTR \<equiv> 0x7f"
abbreviation (input) OP_LEFT :: byte where "OP_LEFT \<equiv> 0x80"
abbreviation (input) OP_RIGHT :: byte where "OP_RIGHT \<equiv> 0x81"
abbreviation (input) OP_SIZE :: byte where "OP_SIZE \<equiv> 0x82"
abbreviation (input) OP_INVERT :: byte where "OP_INVERT \<equiv> 0x83"
abbreviation (input) OP_AND :: byte where "OP_AND \<equiv> 0x84"
abbreviation (input) OP_OR :: byte where "OP_OR \<equiv> 0x85"
abbreviation (input) OP_XOR :: byte where "OP_XOR \<equiv> 0x86"
abbreviation (input) OP_EQUAL :: byte where "OP_EQUAL \<equiv> 0x87"
abbreviation (input) OP_EQUALVERIFY :: byte where "OP_EQUALVERIFY \<equiv> 0x88"
abbreviation (input) OP_RESERVED1 :: byte where "OP_RESERVED1 \<equiv> 0x89"
abbreviation (input) OP_RESERVED2 :: byte where "OP_RESERVED2 \<equiv> 0x8a"
abbreviation (input) OP_1ADD :: byte where "OP_1ADD \<equiv> 0x8b"
abbreviation (input) OP_1SUB :: byte where "OP_1SUB \<equiv> 0x8c"
abbreviation (input) OP_2MUL :: byte where "OP_2MUL \<equiv> 0x8d"
abbreviation (input) OP_2DIV :: byte where "OP_2DIV \<equiv> 0x8e"
abbreviation (input) OP_NEGATE :: byte where "OP_NEGATE \<equiv> 0x8f"
abbreviation (input) OP_ABS :: byte where "OP_ABS \<equiv> 0x90"
abbreviation (input) OP_NOT :: byte where "OP_NOT \<equiv> 0x91"
abbreviation (input) OP_0NOTEQUAL :: byte where "OP_0NOTEQUAL \<equiv> 0x92"
abbreviation (input) OP_ADD :: byte where "OP_ADD \<equiv> 0x93"
abbreviation (input) OP_SUB :: byte where "OP_SUB \<equiv> 0x94"
abbreviation (input) OP_MUL :: byte where "OP_MUL \<equiv> 0x95"
abbreviation (input) OP_DIV :: byte where "OP_DIV \<equiv> 0x96"
abbreviation (input) OP_MOD :: byte where "OP_MOD \<equiv> 0x97"
abbreviation (input) OP_LSHIFT :: byte where "OP_LSHIFT \<equiv> 0x98"
abbreviation (input) OP_RSHIFT :: byte where "OP_RSHIFT \<equiv> 0x99"
abbreviation (input) OP_BOOLAND :: byte where "OP_BOOLAND \<equiv> 0x9a"
abbreviation (input) OP_BOOLOR :: byte where "OP_BOOLOR \<equiv> 0x9b"
abbreviation (input) OP_NUMEQUAL :: byte where "OP_NUMEQUAL \<equiv> 0x9c"
abbreviation (input) OP_NUMEQUALVERIFY :: byte where "OP_NUMEQUALVERIFY \<equiv> 0x9d"
abbreviation (input) OP_NUMNOTEQUAL :: byte where "OP_NUMNOTEQUAL \<equiv> 0x9e"
abbreviation (input) OP_LESSTHAN :: byte where "OP_LESSTHAN \<equiv> 0x9f"
abbreviation (input) OP_GREATERTHAN :: byte where "OP_GREATERTHAN \<equiv> 0xa0"
abbreviation (input) OP_LESSTHANOREQUAL :: byte where "OP_LESSTHANOREQUAL \<equiv> 0xa1"
abbreviation (input) OP_GREATERTHANOREQUAL :: byte where "OP_GREATERTHANOREQUAL \<equiv> 0xa2"
abbreviation (input) OP_MIN :: byte where "OP_MIN \<equiv> 0xa3"
abbreviation (input) OP_MAX :: byte where "OP_MAX \<equiv> 0xa4"
abbreviation (input) OP_WITHIN :: byte where "OP_WITHIN \<equiv> 0xa5"
abbreviation (input) OP_RIPEMD160 :: byte where "OP_RIPEMD160 \<equiv> 0xa6"
abbreviation (input) OP_SHA1 :: byte where "OP_SHA1 \<equiv> 0xa7"
abbreviation (input) OP_SHA256 :: byte where "OP_SHA256 \<equiv> 0xa8"
abbreviation (input) OP_HASH160 :: byte where "OP_HASH160 \<equiv> 0xa9"
abbreviation (input) OP_HASH256 :: byte where "OP_HASH256 \<equiv> 0xaa"
abbreviation (input) OP_CODESEPARATOR :: byte where "OP_CODESEPARATOR \<equiv> 0xab"
abbreviation (input) OP_CHECKSIG :: byte where "OP_CHECKSIG \<equiv> 0xac"
abbreviation (input) OP_CHECKSIGVERIFY :: byte where "OP_CHECKSIGVERIFY \<equiv> 0xad"
abbreviation (input) OP_CHECKMULTISIG :: byte where "OP_CHECKMULTISIG \<equiv> 0xae"
abbreviation (input) OP_CHECKMULTISIGVERIFY :: byte where "OP_CHECKMULTISIGVERIFY \<equiv> 0xaf"
abbreviation (input) OP_NOP1 :: byte where "OP_NOP1 \<equiv> 0xb0"
abbreviation (input) OP_CHECKLOCKTIMEVERIFY :: byte where "OP_CHECKLOCKTIMEVERIFY \<equiv> 0xb1"
abbreviation (input) OP_CHECKSEQUENCEVERIFY :: byte where "OP_CHECKSEQUENCEVERIFY \<equiv> 0xb2"
abbreviation (input) OP_NOP4 :: byte where "OP_NOP4 \<equiv> 0xb3"
abbreviation (input) OP_NOP5 :: byte where "OP_NOP5 \<equiv> 0xb4"
abbreviation (input) OP_NOP6 :: byte where "OP_NOP6 \<equiv> 0xb5"
abbreviation (input) OP_NOP7 :: byte where "OP_NOP7 \<equiv> 0xb6"
abbreviation (input) OP_NOP8 :: byte where "OP_NOP8 \<equiv> 0xb7"
abbreviation (input) OP_NOP9 :: byte where "OP_NOP9 \<equiv> 0xb8"
abbreviation (input) OP_NOP10 :: byte where "OP_NOP10 \<equiv> 0xb9"
abbreviation (input) OP_CHECKSIGADD :: byte where "OP_CHECKSIGADD \<equiv> 0xba"
abbreviation (input) OP_INVALIDOPCODE :: byte where "OP_INVALIDOPCODE \<equiv> 0xff"

definition MAX_SCRIPT_ELEMENT_SIZE :: nat where "MAX_SCRIPT_ELEMENT_SIZE = 520"
definition MAX_OPS_PER_SCRIPT :: nat where "MAX_OPS_PER_SCRIPT = 201"
definition MAX_PUBKEYS_PER_MULTISIG :: nat where "MAX_PUBKEYS_PER_MULTISIG = 20"
definition MAX_SCRIPT_SIZE :: nat where "MAX_SCRIPT_SIZE = 10000"
definition MAX_STACK_SIZE :: nat where "MAX_STACK_SIZE = 1000"
definition LOCKTIME_THRESHOLD :: u32 where "LOCKTIME_THRESHOLD = 500000000"
definition ANNEX_TAG :: byte where "ANNEX_TAG = 0x50"
definition VALIDATION_WEIGHT_PER_SIGOP_PASSED :: i64 where "VALIDATION_WEIGHT_PER_SIGOP_PASSED = 50"
definition VALIDATION_WEIGHT_OFFSET :: i64 where "VALIDATION_WEIGHT_OFFSET = 50"

lemmas script_limits = MAX_SCRIPT_ELEMENT_SIZE_def MAX_OPS_PER_SCRIPT_def MAX_PUBKEYS_PER_MULTISIG_def
  MAX_SCRIPT_SIZE_def MAX_STACK_SIZE_def

datatype ScriptError =
    SCRIPT_ERR_OK
  | SCRIPT_ERR_UNKNOWN_ERROR
  | SCRIPT_ERR_EVAL_FALSE
  | SCRIPT_ERR_OP_RETURN
  | SCRIPT_ERR_SCRIPTNUM
  | SCRIPT_ERR_SCRIPT_SIZE
  | SCRIPT_ERR_PUSH_SIZE
  | SCRIPT_ERR_OP_COUNT
  | SCRIPT_ERR_STACK_SIZE
  | SCRIPT_ERR_SIG_COUNT
  | SCRIPT_ERR_PUBKEY_COUNT
  | SCRIPT_ERR_VERIFY
  | SCRIPT_ERR_EQUALVERIFY
  | SCRIPT_ERR_CHECKMULTISIGVERIFY
  | SCRIPT_ERR_CHECKSIGVERIFY
  | SCRIPT_ERR_NUMEQUALVERIFY
  | SCRIPT_ERR_BAD_OPCODE
  | SCRIPT_ERR_DISABLED_OPCODE
  | SCRIPT_ERR_INVALID_STACK_OPERATION
  | SCRIPT_ERR_INVALID_ALTSTACK_OPERATION
  | SCRIPT_ERR_UNBALANCED_CONDITIONAL
  | SCRIPT_ERR_NEGATIVE_LOCKTIME
  | SCRIPT_ERR_UNSATISFIED_LOCKTIME
  | SCRIPT_ERR_SIG_HASHTYPE
  | SCRIPT_ERR_SIG_DER
  | SCRIPT_ERR_MINIMALDATA
  | SCRIPT_ERR_SIG_PUSHONLY
  | SCRIPT_ERR_SIG_HIGH_S
  | SCRIPT_ERR_SIG_NULLDUMMY
  | SCRIPT_ERR_PUBKEYTYPE
  | SCRIPT_ERR_CLEANSTACK
  | SCRIPT_ERR_MINIMALIF
  | SCRIPT_ERR_SIG_NULLFAIL
  | SCRIPT_ERR_DISCOURAGE_UPGRADABLE_NOPS
  | SCRIPT_ERR_DISCOURAGE_UPGRADABLE_WITNESS_PROGRAM
  | SCRIPT_ERR_DISCOURAGE_UPGRADABLE_TAPROOT_VERSION
  | SCRIPT_ERR_DISCOURAGE_OP_SUCCESS
  | SCRIPT_ERR_DISCOURAGE_UPGRADABLE_PUBKEYTYPE
  | SCRIPT_ERR_WITNESS_PROGRAM_WRONG_LENGTH
  | SCRIPT_ERR_WITNESS_PROGRAM_WITNESS_EMPTY
  | SCRIPT_ERR_WITNESS_PROGRAM_MISMATCH
  | SCRIPT_ERR_WITNESS_MALLEATED
  | SCRIPT_ERR_WITNESS_MALLEATED_P2SH
  | SCRIPT_ERR_WITNESS_UNEXPECTED
  | SCRIPT_ERR_WITNESS_PUBKEYTYPE
  | SCRIPT_ERR_SCHNORR_SIG_SIZE
  | SCRIPT_ERR_SCHNORR_SIG_HASHTYPE
  | SCRIPT_ERR_SCHNORR_SIG
  | SCRIPT_ERR_TAPROOT_WRONG_CONTROL_SIZE
  | SCRIPT_ERR_TAPSCRIPT_VALIDATION_WEIGHT
  | SCRIPT_ERR_TAPSCRIPT_CHECKMULTISIG
  | SCRIPT_ERR_TAPSCRIPT_MINIMALIF
  | SCRIPT_ERR_TAPSCRIPT_EMPTY_PUBKEY
  | SCRIPT_ERR_OP_CODESEPARATOR
  | SCRIPT_ERR_SIG_FINDANDDELETE

subsection \<open>Reading one operation\<close>

text \<open>
  The result is the returned flag, the advanced iterator, the opcode and the pushed data. The
  iterator is advanced also when the call fails: past the opcode, and past the size field it read.
\<close>

definition take_push :: "byte list \<Rightarrow> nat \<Rightarrow> byte \<Rightarrow> nat \<Rightarrow> bool \<times> nat \<times> byte \<times> byte list" where
  "take_push script pc opcode nSize =
     (if (length script - pc) mod 2 ^ 32 < nSize then (False, pc, OP_INVALIDOPCODE, [])
      else (True, pc + nSize, opcode, take nSize (drop pc script)))"

definition GetScriptOp :: "byte list \<Rightarrow> nat \<Rightarrow> bool \<times> nat \<times> byte \<times> byte list" where
  "GetScriptOp script pc0 =
     (if pc0 \<ge> length script then (False, pc0, OP_INVALIDOPCODE, [])
      else
       (let opcode = script ! pc0; pc = pc0 + 1; left = length script - pc in
        if opcode \<le> OP_PUSHDATA4 then
          (if opcode < OP_PUSHDATA1 then take_push script pc opcode (unat opcode)
           else if opcode = OP_PUSHDATA1 then
             (if left < 1 then (False, pc, OP_INVALIDOPCODE, [])
              else take_push script (pc + 1) opcode (unat (script ! pc)))
           else if opcode = OP_PUSHDATA2 then
             (if left < 2 then (False, pc, OP_INVALIDOPCODE, [])
              else take_push script (pc + 2) opcode (unat (read_little_endian (take 2 (drop pc script)) :: u16)))
           else
             (if left < 4 then (False, pc, OP_INVALIDOPCODE, [])
              else take_push script (pc + 4) opcode (unat (read_little_endian (take 4 (drop pc script)) :: u32))))
        else (True, pc, opcode, [])))"

lemma take_push_bounds:
  "take_push script pc opcode n = (ok, pc', opcode', data) \<Longrightarrow> pc \<le> length script \<Longrightarrow>
     pc \<le> pc' \<and> pc' \<le> length script \<and> length data = pc' - pc"
  using mod_less_eq_dividend [of "length script - pc" "2 ^ 32"]
  by (auto simp: take_push_def split: if_splits)

lemma GetScriptOp_bounds:
  assumes "GetScriptOp script pc = (ok, pc', opcode, data)" and "pc < length script"
  shows "pc < pc' \<and> pc' \<le> length script"
  using assms
  by (auto simp: GetScriptOp_def Let_def split: if_splits dest!: take_push_bounds)

lemma GetScriptOp_end: "length script \<le> pc \<Longrightarrow> GetScriptOp script pc = (False, pc, OP_INVALIDOPCODE, [])"
  by (simp add: GetScriptOp_def)

subsection \<open>Numbers\<close>

text \<open>\<open>set_vch\<close>: little endian, with the sign in the top bit of the last byte.\<close>

definition set_vch :: "byte list \<Rightarrow> i64" where
  "set_vch vch =
     (if vch = [] then 0
      else if last vch AND 0x80 \<noteq> 0
      then - (read_little_endian vch AND NOT (push_bit (8 * (length vch - 1)) 0x80))
      else read_little_endian vch)"

text \<open>The constructor of \<open>CScriptNum\<close>; \<^term>\<open>None\<close> is a thrown \<open>scriptnum_error\<close>.\<close>

definition script_num :: "byte list \<Rightarrow> bool \<Rightarrow> nat \<Rightarrow> i64 option" where
  "script_num vch fRequireMinimal nMaxNumSize =
     (if length vch > nMaxNumSize then None
      else if fRequireMinimal \<and> length vch > 0 \<and> last vch AND 0x7f = 0 \<and>
          (length vch \<le> 1 \<or> vch ! (length vch - 2) AND 0x80 = 0) then None
      else Some (set_vch vch))"

function serialize_loop :: "u64 \<Rightarrow> byte list" where
  "serialize_loop absvalue =
     (if absvalue = 0 then [] else ucast (absvalue AND 0xff) # serialize_loop (drop_bit 8 absvalue))"
  by auto
termination
proof (relation "measure unat")
  fix absvalue :: u64
  assume "absvalue \<noteq> 0"
  then have "0 < unat absvalue" by (simp add: unat_gt_0)
  then show "(drop_bit 8 absvalue, absvalue) \<in> measure unat"
    unfolding in_measure unat_drop_bit_eq by (simp add: drop_bit_eq_div)
qed simp

declare serialize_loop.simps [simp del]

definition serialize_num :: "i64 \<Rightarrow> byte list" where
  "serialize_num v =
     (if v = 0 then []
      else
       (let neg = v <s 0; absvalue = (if neg then NOT v + 1 else v); result = serialize_loop absvalue in
        if last result AND 0x80 \<noteq> 0 then result @ [if neg then 0x80 else 0]
        else if neg then butlast result @ [last result OR 0x80]
        else result))"

definition getint :: "i64 \<Rightarrow> int" where
  "getint v = (if sint v > 2 ^ 31 - 1 then 2 ^ 31 - 1 else if sint v < - (2 ^ 31) then - (2 ^ 31) else sint v)"

subsection \<open>Building scripts\<close>

definition append_data_size :: "nat \<Rightarrow> byte list" where
  "append_data_size size0 =
     (let size = (of_nat size0 :: u32) in
      if size < ucast OP_PUSHDATA1 then [ucast size]
      else if size \<le> 0xff then [OP_PUSHDATA1, ucast size]
      else if size \<le> 0xffff then OP_PUSHDATA2 # write_little_endian (ucast size :: u16) 2
      else OP_PUSHDATA4 # write_little_endian size 4)"

text \<open>\<open>CScript() << data\<close>.\<close>

definition push_data :: "byte list \<Rightarrow> byte list" where
  "push_data data = append_data_size (length data) @ data"

definition DecodeOP_N :: "byte \<Rightarrow> nat option" where
  "DecodeOP_N opcode =
     (if opcode = OP_0 then Some 0
      else if OP_1 \<le> opcode \<and> opcode \<le> OP_16 then Some (unat opcode - 0x50) else None)"

subsection \<open>Questions about a whole script\<close>

definition IsPayToAnchor :: "nat \<Rightarrow> byte list \<Rightarrow> bool" where
  "IsPayToAnchor version program \<longleftrightarrow>
     version = 1 \<and> length program = 2 \<and> program ! 0 = 0x4e \<and> program ! 1 = 0x73"

definition IsPayToScriptHash :: "byte list \<Rightarrow> bool" where
  "IsPayToScriptHash script \<longleftrightarrow>
     length script = 23 \<and> script ! 0 = OP_HASH160 \<and> script ! 1 = 0x14 \<and> script ! 22 = OP_EQUAL"

definition IsWitnessProgram :: "byte list \<Rightarrow> (nat \<times> byte list) option" where
  "IsWitnessProgram script =
     (if length script < 4 \<or> length script > 42 then None
      else if script ! 0 \<noteq> OP_0 \<and> (script ! 0 < OP_1 \<or> script ! 0 > OP_16) then None
      else if unat (script ! 1) + 2 = length script
      then Some (if script ! 0 = OP_0 then 0 else unat (script ! 0) - 0x50, drop 2 script)
      else None)"

function IsPushOnly_from :: "byte list \<Rightarrow> nat \<Rightarrow> bool" where
  "IsPushOnly_from script pc =
     (if pc < length script then
       (case GetScriptOp script pc of (ok, pc', opcode, data) \<Rightarrow>
          ok \<and> \<not> opcode > OP_16 \<and> IsPushOnly_from script pc')
      else True)"
  by auto
termination
  by (relation "measure (\<lambda>(script, pc). length script - pc)") (auto dest!: GetScriptOp_bounds [OF sym])

declare IsPushOnly_from.simps [simp del]

definition IsPushOnly :: "byte list \<Rightarrow> bool" where
  "IsPushOnly script = IsPushOnly_from script 0"

definition IsOpSuccess :: "byte \<Rightarrow> bool" where
  "IsOpSuccess opcode \<longleftrightarrow>
     opcode = 80 \<or> opcode = 98 \<or> (opcode \<ge> 126 \<and> opcode \<le> 129) \<or>
     (opcode \<ge> 131 \<and> opcode \<le> 134) \<or> (opcode \<ge> 137 \<and> opcode \<le> 138) \<or>
     (opcode \<ge> 141 \<and> opcode \<le> 142) \<or> (opcode \<ge> 149 \<and> opcode \<le> 153) \<or>
     (opcode \<ge> 187 \<and> opcode \<le> 254)"

text \<open>\<^term>\<open>None\<close> is the failed assertion that the opcode is a push.\<close>

definition CheckMinimalPush :: "byte list \<Rightarrow> byte \<Rightarrow> bool option" where
  "CheckMinimalPush data opcode =
     (if \<not> opcode \<le> OP_PUSHDATA4 then None
      else if length data = 0 then Some (opcode = OP_0)
      else if length data = 1 \<and> data ! 0 \<ge> 1 \<and> data ! 0 \<le> 16 then Some False
      else if length data = 1 \<and> data ! 0 = 0x81 then Some False
      else if length data \<le> 75 then Some (unat opcode = length data)
      else if length data \<le> 255 then Some (opcode = OP_PUSHDATA1)
      else if length data \<le> 65535 then Some (opcode = OP_PUSHDATA2)
      else Some True)"

lemma CheckMinimalPush_total: "opcode \<le> OP_PUSHDATA4 \<Longrightarrow> CheckMinimalPush data opcode \<noteq> None"
  by (simp add: CheckMinimalPush_def del: not_None_eq)

text \<open>\<open>GetSigOpCount\<close>; the counter is an \<open>unsigned int\<close>.\<close>

definition GetSigOpCount_weight :: "bool \<Rightarrow> byte \<Rightarrow> byte \<Rightarrow> u32" where
  "GetSigOpCount_weight fAccurate lastOpcode opcode =
     (if opcode = OP_CHECKSIG \<or> opcode = OP_CHECKSIGVERIFY then 1
      else if opcode = OP_CHECKMULTISIG \<or> opcode = OP_CHECKMULTISIGVERIFY then
        (if fAccurate \<and> lastOpcode \<ge> OP_1 \<and> lastOpcode \<le> OP_16 then ucast lastOpcode - 0x50
         else of_nat MAX_PUBKEYS_PER_MULTISIG)
      else 0)"

function GetSigOpCount_loop :: "byte list \<Rightarrow> bool \<Rightarrow> nat \<Rightarrow> byte \<Rightarrow> u32 \<Rightarrow> u32" where
  "GetSigOpCount_loop script fAccurate pc lastOpcode n =
     (if pc < length script then
       (case GetScriptOp script pc of (ok, pc', opcode, data) \<Rightarrow>
          if \<not> ok then n
          else GetSigOpCount_loop script fAccurate pc' opcode
            (n + GetSigOpCount_weight fAccurate lastOpcode opcode))
      else n)"
  by auto
termination
  by (relation "measure (\<lambda>(script, fAccurate, pc, lastOpcode, n). length script - pc)")
    (auto dest!: GetScriptOp_bounds [OF sym])

declare GetSigOpCount_loop.simps [simp del]

definition GetSigOpCount :: "byte list \<Rightarrow> bool \<Rightarrow> u32" where
  "GetSigOpCount script fAccurate = GetSigOpCount_loop script fAccurate 0 OP_INVALIDOPCODE 0"

text \<open>The last data pushed by a push-only script; \<^term>\<open>None\<close> is the early return of zero.\<close>

function last_data_loop :: "byte list \<Rightarrow> nat \<Rightarrow> byte list \<Rightarrow> byte list option" where
  "last_data_loop script pc vData =
     (if pc < length script then
       (case GetScriptOp script pc of (ok, pc', opcode, data) \<Rightarrow>
          if \<not> ok then None else if opcode > OP_16 then None else last_data_loop script pc' data)
      else Some vData)"
  by auto
termination
  by (relation "measure (\<lambda>(script, pc, vData). length script - pc)") (auto dest!: GetScriptOp_bounds [OF sym])

declare last_data_loop.simps [simp del]

definition GetSigOpCount_p2sh :: "byte list \<Rightarrow> byte list \<Rightarrow> u32" where
  "GetSigOpCount_p2sh scriptPubKey scriptSig =
     (if \<not> IsPayToScriptHash scriptPubKey then GetSigOpCount scriptPubKey True
      else (case last_data_loop scriptSig 0 [] of
          None \<Rightarrow> 0
        | Some vData \<Rightarrow> GetSigOpCount vData True))"

lemma bit_bytes_val:
  "bit (bytes_val bs) k \<longleftrightarrow> k < 8 * length bs \<and> bit (bs ! (k div 8)) (k mod 8)"
proof (induction bs arbitrary: k)
  case (Cons b bs)
  let ?v = "unat b + 256 * bytes_val bs"
  show ?case
  proof (cases "k < 8")
    case True
    have "take_bit 8 ?v = unat b" using unat8_upper [of b] by (simp add: take_bit_eq_mod)
    moreover have "bit (take_bit 8 ?v) k = bit ?v k" unfolding bit_take_bit_iff using True by blast
    ultimately have "bit ?v k \<longleftrightarrow> bit (unat b) k" by simp
    then show ?thesis using True by (simp add: bit_unsigned_iff)
  next
    case False
    have "drop_bit 8 ?v = bytes_val bs" using unat8_upper [of b] by (simp add: drop_bit_eq_div)
    moreover have "bit (drop_bit 8 ?v) (k - 8) = bit ?v k"
      unfolding bit_drop_bit_eq comp_apply using False by simp
    ultimately have "bit ?v k \<longleftrightarrow> bit (bytes_val bs) (k - 8)" by simp
    moreover have "k div 8 = Suc ((k - 8) div 8)" "k mod 8 = (k - 8) mod 8"
      using False by (simp_all add: le_div_geq le_mod_geq)
    ultimately show ?thesis using False Cons.IH [of "k - 8"] by auto
  qed
qed simp

lemma read_little_endian_val:
  assumes "8 * length bs \<le> LENGTH('a)"
  shows "unat (read_little_endian bs :: 'a::len word) = bytes_val bs"
proof -
  have "bit (unat (read_little_endian bs :: 'a word)) k = bit (bytes_val bs) k" for k
    using assms by (auto simp: bit_unsigned_iff bit_read_little_endian bit_bytes_val)
  then show ?thesis by (rule bit_eqI)
qed


definition num_val :: "byte list \<Rightarrow> int" where
  "num_val vch =
     (if vch = [] then 0
      else if last vch AND 0x80 \<noteq> 0 then - int (bytes_val (butlast vch @ [last vch AND 0x7f]))
      else int (bytes_val vch))"

lemma byte_low_take: "(b :: byte) AND 0x7f = take_bit 7 b"
  by (simp add: take_bit_eq_mask mask_eq_exp_minus_1)

lemma byte_low_bits: "bit (b AND 0x7f :: byte) k \<longleftrightarrow> k < 7 \<and> bit b k"
  unfolding byte_low_take bit_take_bit_iff by simp

lemma byte_sign_bit: "bit (b AND 0x80 :: byte) k \<longleftrightarrow> k = 7 \<and> bit b k"
proof -
  have e: "(0x80 :: byte) = 2 ^ 7" by simp
  show ?thesis unfolding e bit_and_iff bit_exp_iff by (auto dest: bit_imp_le_length)
qed

lemma byte_sign: "b AND 0x80 \<noteq> (0 :: byte) \<longleftrightarrow> bit b 7"
proof
  assume "b AND 0x80 \<noteq> 0"
  then obtain k where "bit (b AND 0x80) k" by (metis bit_0_eq bit_word_eqI bot_apply bot_bool_def)
  then show "bit b 7" by (auto simp: byte_sign_bit)
next
  assume "bit b 7"
  then have "bit (b AND 0x80) 7" by (simp add: byte_sign_bit)
  then show "b AND 0x80 \<noteq> 0" by auto
qed

lemma byte_positive: "b AND 0x80 = (0 :: byte) \<Longrightarrow> b AND 0x7f = b"
proof (rule bit_word_eqI)
  fix k assume "b AND 0x80 = 0" "k < LENGTH(8)"
  then show "bit (b AND 0x7f) k = bit b k"
    using byte_sign [of b] by (cases "k = 7") (auto simp: byte_low_bits)
qed

lemma unat_low_bits: "unat (b AND 0x7f :: byte) < 128"
proof -
  have "unat (take_bit 7 b) = take_bit 7 (unat b)" by (rule unsigned_take_bit_eq)
  also have "\<dots> < 2 ^ 7" by (rule take_bit_nat_less_exp)
  finally show ?thesis unfolding byte_low_take by simp
qed

lemma bytes_val_magnitude:
  assumes "vch \<noteq> []"
  shows "bytes_val (butlast vch @ [last vch AND 0x7f]) < 2 ^ (8 * length vch - 1)"
proof -
  define n where "n = length (butlast vch)"
  have len: "length vch = Suc n" using assms by (simp add: n_def)
  have a: "bytes_val (butlast vch) < 256 ^ n" unfolding n_def by (rule bytes_val_less)
  have "bytes_val (butlast vch) + 256 ^ n * unat (last vch AND 0x7f) < 256 ^ n + 256 ^ n * unat (last vch AND 0x7f)"
    using a by simp
  also have "\<dots> = 256 ^ n * Suc (unat (last vch AND 0x7f))" by simp
  also have "\<dots> \<le> 256 ^ n * 128" using unat_low_bits [of "last vch"] by (intro mult_le_mono2) simp
  also have "\<dots> = 2 ^ (8 * length vch - 1)"
  proof -
    have "(256 :: nat) ^ n = 2 ^ (8 * n)" by (simp add: power_mult)
    moreover have "8 * length vch - 1 = 8 * n + 7" by (simp add: len)
    ultimately show ?thesis by (simp add: power_add)
  qed
  finally show ?thesis by (simp add: bytes_val_append n_def)
qed

lemma sint_of_small:
  assumes "unat (w :: i64) < 9223372036854775808"
  shows "sint w = int (unat w)"
proof -
  have "int (unat w) < 9223372036854775808" using assms by linarith
  then have "uint w < 2 ^ 63" by simp
  moreover have "- (2 ^ 63) \<le> uint w" by (rule order_trans [of _ 0]) simp_all
  ultimately have "signed_take_bit 63 (uint w) = uint w" by (intro signed_take_bit_int_eq_self)
  then show ?thesis by (simp add: sint_uint)
qed

lemma sint_minus_small:
  assumes "unat (w :: i64) < 9223372036854775808"
  shows "sint (- w) = - int (unat w)"
proof -
  have "int (unat w) < 9223372036854775808" using assms by linarith
  moreover have "- uint w < 9223372036854775808" by (rule order_le_less_trans [of _ 0]) simp_all
  ultimately show ?thesis
    using sint_minus_exact [of 0 w] unfolding sint_of_small [OF assms] by simp
qed

lemma sign_mask_bit: "k < 64 \<Longrightarrow> bit (push_bit (8 * n) 0x80 :: i64) k \<longleftrightarrow> k = 8 * n + 7"
proof -
  assume k: "k < 64"
  have "push_bit (8 * n) 0x80 = (2 ^ (8 * n + 7) :: i64)"
    by (simp add: push_bit_eq_mult power_add)
  then show ?thesis using k by (simp only: bit_exp_iff possible_bit_word) auto
qed

lemma clear_sign_byte:
  assumes "vch \<noteq> []" and "length vch \<le> 8"
  shows "(read_little_endian vch :: i64) AND NOT (push_bit (8 * (length vch - 1)) 0x80) =
    read_little_endian (butlast vch @ [last vch AND 0x7f])"
proof (rule bit_word_eqI)
  fix k assume "k < LENGTH(64)"
  then have k: "k < 64" by simp
  define q r where "q = k div 8" and "r = k mod 8"
  have kqr: "k = 8 * q + r" and r: "r < 8" by (simp_all add: q_def r_def)
  obtain n where len: "length vch = Suc n" using assms(1) by (cases vch) auto
  let ?m = "butlast vch @ [last vch AND 0x7f]"
  have lm: "length ?m = Suc n" using len by simp
  have in_range: "8 * q + r < 8 * Suc n \<longleftrightarrow> q \<le> n" using r by presburger
  have sign: "k = 8 * n + 7 \<longleftrightarrow> q = n \<and> r = 7" using kqr r by presburger
  have byte: "q \<le> n \<Longrightarrow> bit (?m ! q) r \<longleftrightarrow> bit (vch ! q) r \<and> \<not> (q = n \<and> r = 7)"
    using len r assms(1) by (cases "q = n") (auto simp: nth_append nth_butlast byte_low_bits last_conv_nth)
  have "bit ((read_little_endian vch :: i64) AND NOT (push_bit (8 * (length vch - 1)) 0x80)) k \<longleftrightarrow>
      bit (read_little_endian vch :: i64) k \<and> k \<noteq> 8 * n + 7"
    using sign_mask_bit [OF k, of n] k by (simp add: bit_and_iff bit_not_iff len)
  also have "\<dots> \<longleftrightarrow> q \<le> n \<and> bit (vch ! q) r \<and> \<not> (q = n \<and> r = 7)"
    using k in_range unfolding bit_read_little_endian sign len q_def [symmetric] r_def [symmetric] kqr [symmetric]
    by simp
  also have "\<dots> \<longleftrightarrow> bit (read_little_endian ?m :: i64) k"
    using k in_range byte unfolding bit_read_little_endian lm q_def [symmetric] r_def [symmetric] kqr [symmetric]
    by auto
  finally show "bit ((read_little_endian vch :: i64) AND NOT (push_bit (8 * (length vch - 1)) 0x80)) k =
      bit (read_little_endian ?m :: i64) k" .
qed

lemma sint_set_vch:
  assumes "length vch \<le> 8"
  shows "sint (set_vch vch) = num_val vch"
proof (cases "vch = []")
  case False
  let ?m = "butlast vch @ [last vch AND 0x7f]"
  have len: "length ?m = length vch" using False by (cases vch) auto
  have "bytes_val ?m < 2 ^ (8 * length vch - 1)" by (rule bytes_val_magnitude [OF False])
  also have "\<dots> \<le> 2 ^ 63" using assms by (intro power_increasing) auto
  finally have m: "bytes_val ?m < 9223372036854775808" by simp
  have v: "unat (read_little_endian ?m :: i64) = bytes_val ?m"
    using assms len by (intro read_little_endian_val) simp
  show ?thesis
  proof (cases "last vch AND 0x80 = 0")
    case True
    then have "?m = vch" using False byte_positive [OF True] by simp
    then show ?thesis using False True v m sint_of_small [of "read_little_endian ?m"]
      by (simp only: set_vch_def num_val_def if_False if_True simp_thms)
  next
    case neg: False
    then show ?thesis
      using False v m sint_minus_small [of "read_little_endian ?m"] clear_sign_byte [OF False assms]
      by (simp only: set_vch_def num_val_def if_False if_True simp_thms)
  qed
qed (simp add: set_vch_def num_val_def)

text \<open>An operand of \<open>n\<close> bytes is smaller than \<open>2 ^ (8 * n - 1)\<close> in magnitude.\<close>

lemma num_val_bound: "\<bar>num_val vch\<bar> < 2 ^ (8 * length vch - 1)"
proof (cases "vch = []")
  case False
  note m = bytes_val_magnitude [OF False]
  show ?thesis
  proof (cases "last vch AND 0x80 = 0")
    case True
    then have "butlast vch @ [last vch AND 0x7f] = vch" using False byte_positive [OF True] by simp
    then show ?thesis using m False True by (simp add: num_val_def)
  next
    case neg: False
    then show ?thesis using m False by (simp add: num_val_def)
  qed
qed (simp add: num_val_def)

lemma unat_drop_8_64: "unat (drop_bit 8 (n :: u64)) = unat n div 256"
  unfolding unat_drop_bit_eq by (simp add: drop_bit_eq_div)

lemma unat_low_byte_64: "unat (ucast ((n :: u64) AND 0xff) :: byte) = unat n mod 256"
proof -
  have "n AND 0xff = take_bit 8 n" by (simp add: take_bit_eq_mask mask_eq_exp_minus_1)
  then have "unat (n AND 0xff) = unat n mod 256"
    by (simp only: unsigned_take_bit_eq) (simp add: take_bit_eq_mod)
  then show ?thesis by (simp add: unsigned_ucast_eq take_bit_eq_mod)
qed

lemma serialize_loop_val: "bytes_val (serialize_loop n) = unat n"
proof (induction n rule: serialize_loop.induct)
  case (1 n)
  show ?case
  proof (cases "n = 0")
    case False
    have "bytes_val (serialize_loop n) = unat n mod 256 + 256 * (unat n div 256)"
      using 1 [OF False] False
      by (simp only: serialize_loop.simps [of n] if_False bytes_val.simps unat_low_byte_64 unat_drop_8_64)
    then show ?thesis by simp
  qed (simp add: serialize_loop.simps)
qed

text \<open>The loop writes no leading zero byte.\<close>

lemma serialize_loop_last: "n \<noteq> 0 \<Longrightarrow> serialize_loop n \<noteq> [] \<and> last (serialize_loop n) \<noteq> 0"
proof (induction n rule: serialize_loop.induct)
  case (1 n)
  show ?case
  proof (cases "drop_bit 8 n = 0")
    case True
    then have "unat n div 256 = 0" using unat_drop_8_64 [of n] by simp
    then have "unat (ucast (n AND 0xff) :: byte) = unat n" using unat_low_byte_64 [of n] by simp
    then have "(ucast (n AND 0xff) :: byte) \<noteq> 0" using 1(2) by (metis unat_eq_zero)
    then show ?thesis
      using 1(2) by (simp only: serialize_loop.simps [of n] True) (simp add: serialize_loop.simps [of 0])
  next
    case False
    with 1(1) [OF 1(2) False] 1(2) show ?thesis by (simp add: serialize_loop.simps [of n])
  qed
qed

definition minimal_num :: "byte list \<Rightarrow> bool" where
  "minimal_num vch \<longleftrightarrow>
     vch = [] \<or> last vch AND 0x7f \<noteq> 0 \<or> (length vch > 1 \<and> vch ! (length vch - 2) AND 0x80 \<noteq> 0)"

definition magnitude :: "byte list \<Rightarrow> nat" where
  "magnitude vch = (if vch = [] then 0 else bytes_val (butlast vch @ [last vch AND 0x7f]))"

lemma num_val_magnitude:
  "num_val vch = (if vch \<noteq> [] \<and> last vch AND 0x80 \<noteq> 0 then - int (magnitude vch) else int (magnitude vch))"
  using byte_positive [of "last vch"] by (auto simp: num_val_def magnitude_def)

lemma byte_sign_value: "b AND 0x80 \<noteq> (0 :: byte) \<Longrightarrow> 128 \<le> unat b"
proof -
  assume "b AND 0x80 \<noteq> 0"
  then have "bit (unat b) 7" by (simp add: byte_sign bit_unsigned_iff)
  then show ?thesis unfolding bit_iff_odd by (cases "unat b < 128") auto
qed

lemma magnitude_upper: "vch \<noteq> [] \<Longrightarrow> 2 * magnitude vch < 256 ^ length vch"
proof -
  assume ne: "vch \<noteq> []"
  then obtain n where n: "length vch = Suc n" by (cases vch) auto
  have "(256 :: nat) ^ length vch = 2 * 2 ^ (8 * length vch - 1)"
    by (simp add: n power_add power_mult)
  then show ?thesis using bytes_val_magnitude [OF ne] ne by (simp add: magnitude_def)
qed

lemma magnitude_lower:
  assumes "minimal_num vch" and "vch \<noteq> []"
  shows "256 ^ (length vch - 1) \<le> 2 * magnitude vch"
proof (cases "last vch AND 0x7f = 0")
  case False
  then have "1 \<le> unat (last vch AND 0x7f)" by (simp add: unat_gt_0 Suc_le_eq)
  then have "256 ^ (length vch - 1) * 1 \<le> 256 ^ (length vch - 1) * unat (last vch AND 0x7f)"
    by (rule mult_le_mono2)
  then have "256 ^ (length vch - 1) \<le> 256 ^ (length vch - 1) * unat (last vch AND 0x7f)" by linarith
  moreover have "magnitude vch = bytes_val (butlast vch) + 256 ^ (length vch - 1) * unat (last vch AND 0x7f)"
    using assms(2) by (simp add: magnitude_def bytes_val_append)
  ultimately show ?thesis by linarith
next
  case True
  then have l: "length vch > 1" and s: "vch ! (length vch - 2) AND 0x80 \<noteq> 0"
    using assms by (auto simp: minimal_num_def)
  obtain ys c b where v: "vch = ys @ [c, b]"
    using l by (cases vch rule: rev_cases; cases "butlast vch" rule: rev_cases) auto
  have "128 \<le> unat c" using s byte_sign_value [of c] by (simp add: v nth_append)
  then have "256 ^ length ys * 128 \<le> 256 ^ length ys * unat c" by (rule mult_le_mono2)
  moreover have "magnitude vch =
      bytes_val ys + 256 ^ length ys * unat c + 256 ^ length ys * (256 * unat (b AND 0x7f))"
    by (simp add: magnitude_def v bytes_val_append butlast_append algebra_simps)
  moreover have "(256 :: nat) ^ (length vch - 1) = 256 ^ length ys * 256" by (simp add: v)
  ultimately show ?thesis by linarith
qed

lemma magnitude_length:
  assumes "minimal_num xs" "minimal_num ys" "magnitude xs = magnitude ys" "xs \<noteq> []" "ys \<noteq> []"
  shows "length xs = length ys"
proof (rule ccontr)
  have le: False if "length us < length vs" "minimal_num vs" "magnitude us = magnitude vs" "us \<noteq> []" "vs \<noteq> []"
    for us vs :: "byte list"
  proof -
    have "(256 :: nat) ^ length us \<le> 256 ^ (length vs - 1)" using that(1) by (intro power_increasing) auto
    then show False using magnitude_upper [OF that(4)] magnitude_lower [OF that(2,5)] that(3) by linarith
  qed
  assume "length xs \<noteq> length ys"
  then show False using le [of xs ys] le [of ys xs] assms by linarith
qed

lemma bytes_val_inj: "length xs = length ys \<Longrightarrow> bytes_val xs = bytes_val ys \<Longrightarrow> xs = ys"
proof (induction xs ys rule: list_induct2)
  case (Cons x xs y ys)
  have e: "unat x + 256 * bytes_val xs = unat y + 256 * bytes_val ys" using Cons by simp
  have "unat x < 256" "unat y < 256" using unat8_upper [of x] unat8_upper [of y] by auto
  then have "unat x = unat y" "bytes_val xs = bytes_val ys"
    using arg_cong [OF e, of "\<lambda>n. n mod 256"] arg_cong [OF e, of "\<lambda>n. n div 256"] by simp_all
  then show ?case using Cons.IH by (simp add: word_unat_eq_iff)
qed simp

lemma byte_halves: "b AND 0x7f = c AND 0x7f \<Longrightarrow> (b AND 0x80 = 0) = (c AND 0x80 = (0 :: byte)) \<Longrightarrow> b = c"
proof (rule bit_word_eqI)
  fix k assume a: "b AND 0x7f = c AND 0x7f" "(b AND 0x80 = 0) = (c AND 0x80 = (0 :: byte))" "k < LENGTH(8)"
  show "bit b k = bit c k"
  proof (cases "k = 7")
    case True
    then show ?thesis using a(2) byte_sign [of b] byte_sign [of c] by blast
  next
    case False
    then have "k < 7" using a(3) by simp
    then show ?thesis using a(1) byte_low_bits [of b k] byte_low_bits [of c k] by simp
  qed
qed

theorem minimal_num_unique:
  assumes "minimal_num xs" "minimal_num ys" "num_val xs = num_val ys"
  shows "xs = ys"
proof -
  have pos: "0 < magnitude vs" if "minimal_num vs" "vs \<noteq> []" for vs
    using magnitude_lower [OF that] by (cases "magnitude vs") auto
  have m: "magnitude xs = magnitude ys" using assms(3) by (auto simp: num_val_magnitude split: if_splits)
  show ?thesis
  proof (cases "xs = [] \<or> ys = []")
    case True
    have "magnitude [] = 0" by (simp add: magnitude_def)
    with True show ?thesis using m pos [OF assms(1)] pos [OF assms(2)] by force
  next
    case False
    then have ne: "xs \<noteq> []" "ys \<noteq> []" by auto
    have len: "length xs = length ys" using magnitude_length [OF assms(1,2) m ne] .
    have "butlast xs @ [last xs AND 0x7f] = butlast ys @ [last ys AND 0x7f]"
      using m ne len by (intro bytes_val_inj) (simp_all add: magnitude_def)
    moreover have "(last xs AND 0x80 = 0) = (last ys AND 0x80 = 0)"
      using assms(3) m ne pos [OF assms(1) ne(1)] by (auto simp: num_val_magnitude split: if_splits)
    ultimately have "butlast xs = butlast ys" "last xs = last ys" using byte_halves by auto
    then show ?thesis using ne by (metis append_butlast_last_id)
  qed
qed


lemma serialize_num_abs:
  assumes "v \<noteq> (0 :: i64)"
  defines "a \<equiv> (if v <s 0 then NOT v + 1 else v)"
  shows "a \<noteq> 0" and "int (unat a) = \<bar>sint v\<bar>"
proof -
  have m: "NOT v + 1 = - v" by (simp add: minus_eq_not_plus_1)
  show "a \<noteq> 0" using assms(1) unfolding a_def m by simp
  show "int (unat a) = \<bar>sint v\<bar>"
  proof (cases "v <s 0")
    case True
    then have neg: "sint v < 0" by (simp add: word_sless_alt)
    have "sint v \<ge> - (2 ^ 63)" using sint_greater_eq [of v] by simp
    then have "(- sint v) mod 18446744073709551616 = - sint v" using neg by (intro mod_pos_pos_trivial) simp_all
    moreover have "uint (- v) = (- sint v) mod 2 ^ 64"
    proof -
      have "- v = word_of_int (- sint v)" by simp
      then have "uint (- v) = uint (word_of_int (- sint v) :: i64)" by simp
      then show ?thesis by (simp only: uint_word_of_int) simp
    qed
    ultimately show ?thesis using True neg unfolding a_def m by simp
  next
    case False
    then have pos: "0 \<le> sint v" by (simp add: word_sless_alt)
    have "uint v = sint v mod 2 ^ 64"
    proof -
      have "v = word_of_int (sint v)" by simp
      then have "uint v = uint (word_of_int (sint v) :: i64)" by simp
      then show ?thesis by (simp only: uint_word_of_int) simp
    qed
    moreover have "sint v < 2 ^ 63" using sint_less [of v] by simp
    then have "sint v mod 18446744073709551616 = sint v" using pos by (intro mod_pos_pos_trivial) simp_all
    ultimately show ?thesis using False pos unfolding a_def by simp
  qed
qed


lemma byte_set_sign: "b AND 0x80 = (0 :: byte) \<Longrightarrow> (b OR 0x80) AND 0x7f = b \<and> (b OR 0x80) AND 0x80 \<noteq> 0"
proof
  assume b: "b AND 0x80 = 0"
  have e: "(0x80 :: byte) = 2 ^ 7" by simp
  show "(b OR 0x80) AND 0x7f = b"
  proof (rule bit_word_eqI)
    fix k assume "k < LENGTH(8)"
    then show "bit ((b OR 0x80) AND 0x7f) k = bit b k"
      using b byte_sign [of b] unfolding byte_low_bits e bit_or_iff bit_exp_iff by (cases "k = 7") auto
  qed
  show "(b OR 0x80) AND 0x80 \<noteq> 0" unfolding byte_sign by (simp add: bit_or_iff e [unfolded e] bit_exp_iff)
qed

text \<open>What the loop leaves is completed with the sign, in a byte of its own when the top bit is taken.\<close>

lemma signed_bytes:
  fixes neg :: bool
  assumes "r \<noteq> []" and "last r \<noteq> (0 :: byte)"
  defines "s \<equiv> (if last r AND 0x80 \<noteq> 0 then r @ [if neg then 0x80 else 0]
    else if neg then butlast r @ [last r OR 0x80] else r)"
  shows "minimal_num s \<and> num_val s = (if neg then - int (bytes_val r) else int (bytes_val r))"
proof (cases "last r AND 0x80 = 0")
  case False
  then have "(r @ [x]) ! (length (r @ [x]) - 2) AND 0x80 \<noteq> 0" for x
    using assms(1) by (simp add: nth_append last_conv_nth)
  then show ?thesis using False assms(1)
    by (simp add: s_def minimal_num_def num_val_magnitude magnitude_def bytes_val_append)
next
  case True
  note p = byte_positive [OF True] byte_set_sign [OF True]
  have "butlast r @ [last r] = r" using assms(1) by simp
  then show ?thesis using True p assms(1,2)
    by (simp add: s_def minimal_num_def num_val_magnitude magnitude_def)
qed

theorem serialize_num_val: "minimal_num (serialize_num v) \<and> num_val (serialize_num v) = sint v"
proof (cases "v = 0")
  case False
  define r where "r = serialize_loop (if v <s 0 then NOT v + 1 else v)"
  note a = serialize_num_abs [OF False]
  have ne: "r \<noteq> []" "last r \<noteq> 0" using serialize_loop_last [OF a(1)] by (simp_all only: r_def simp_thms)
  have "int (bytes_val r) = \<bar>sint v\<bar>" unfolding r_def serialize_loop_val by (rule a(2))
  then have "(if v <s 0 then - int (bytes_val r) else int (bytes_val r)) = sint v"
    by (simp add: word_sless_alt)
  moreover have "serialize_num v =
      (if last r AND 0x80 \<noteq> 0 then r @ [if v <s 0 then 0x80 else 0]
       else if v <s 0 then butlast r @ [last r OR 0x80] else r)"
    using False by (simp only: serialize_num_def Let_def if_False r_def)
  ultimately show ?thesis using signed_bytes [OF ne, of "v <s 0"] by (simp only: simp_thms)
qed (simp add: serialize_num_def minimal_num_def num_val_def)

lemma script_num_iff:
  "script_num vch fRequireMinimal n = Some v \<longleftrightarrow>
     length vch \<le> n \<and> (fRequireMinimal \<longrightarrow> minimal_num vch) \<and> v = set_vch vch"
  by (auto simp: script_num_def minimal_num_def)

text \<open>With the minimal-encoding flag, the accepted operands are exactly what the writer produces.\<close>

theorem script_num_canonical:
  assumes "n \<le> 8"
  shows "script_num vch True n = Some v \<longleftrightarrow> length vch \<le> n \<and> vch = serialize_num v"
proof
  assume "script_num vch True n = Some v"
  then have v: "length vch \<le> n" "minimal_num vch" "v = set_vch vch" by (auto simp: script_num_iff)
  then have "num_val vch = sint v" using assms sint_set_vch [of vch] by simp
  then have "vch = serialize_num v" using v(2) serialize_num_val [of v] by (intro minimal_num_unique) simp_all
  then show "length vch \<le> n \<and> vch = serialize_num v" using v(1) by simp
next
  assume a: "length vch \<le> n \<and> vch = serialize_num v"
  then have "length vch \<le> 8" using assms by linarith
  then have "sint (set_vch vch) = num_val vch" by (rule sint_set_vch)
  then have "sint (set_vch vch) = sint v" using a serialize_num_val [of v] by simp
  then have "set_vch vch = v" by (rule signed_word_eqI)
  moreover have "minimal_num vch" using a serialize_num_val [of v] by simp
  ultimately show "script_num vch True n = Some v" unfolding script_num_iff using a by blast
qed

theorem script_num_value:
  assumes "script_num vch fRequireMinimal n = Some v" and "n \<le> 8"
  shows "sint v = num_val vch" and "\<bar>sint v\<bar> < 2 ^ (8 * n - 1)"
proof -
  have v: "length vch \<le> n" "v = set_vch vch" using assms(1) by (auto simp: script_num_iff)
  show s: "sint v = num_val vch" using v assms(2) sint_set_vch [of vch] by simp
  have "(2 :: int) ^ (8 * length vch - 1) \<le> 2 ^ (8 * n - 1)" using v(1) by (intro power_increasing) auto
  then show "\<bar>sint v\<bar> < 2 ^ (8 * n - 1)" using num_val_bound [of vch] s by linarith
qed

subsection \<open>Agreement with the scanner of block validation\<close>

text \<open>
  \<^verbatim>\<open>validation/block.cpp\<close> has its own opcode reader and its own signature operation counter. On scripts
  shorter than \<open>2 ^ 32\<close> bytes they compute what \<^verbatim>\<open>script.cpp\<close> computes.
\<close>

lemma push_size_bits:
  fixes bytes :: "byte list"
  assumes "off + n \<le> length bytes" and "m \<le> n" and "n \<le> 8"
  shows "bit (fold (\<lambda>index v. if off + index < length bytes
         then v OR push_bit (8 * index) (ucast (bytes ! (off + index))) else v) [0..<m] (0 :: u64)) k \<longleftrightarrow>
      k < 8 * m \<and> bit (bytes ! (off + k div 8)) (k mod 8)"
  using assms(2)
proof (induction m)
  case (Suc m)
  have in_range: "off + m < length bytes" using Suc.prems assms(1) by simp
  have IH: "bit (fold (\<lambda>index v. if off + index < length bytes
         then v OR push_bit (8 * index) (ucast (bytes ! (off + index))) else v) [0..<m] (0 :: u64)) k \<longleftrightarrow>
      k < 8 * m \<and> bit (bytes ! (off + k div 8)) (k mod 8)"
    using Suc by simp
  have byte: "bit (push_bit (8 * m) (ucast (bytes ! (off + m))) :: u64) k \<longleftrightarrow>
      8 * m \<le> k \<and> k < 8 * Suc m \<and> bit (bytes ! (off + m)) (k - 8 * m)"
    using Suc.prems assms(3) bit_imp_le_length [of "bytes ! (off + m)" "k - 8 * m"]
    by (auto simp: bit_push_bit_iff bit_ucast_iff)
  have pos: "8 * m \<le> k \<and> k < 8 * Suc m \<Longrightarrow> k div 8 = m \<and> k - 8 * m = k mod 8" by presburger
  have "bit (fold (\<lambda>index v. if off + index < length bytes
         then v OR push_bit (8 * index) (ucast (bytes ! (off + index))) else v) [0..<Suc m] (0 :: u64)) k \<longleftrightarrow>
      (k < 8 * m \<and> bit (bytes ! (off + k div 8)) (k mod 8)) \<or>
      (8 * m \<le> k \<and> k < 8 * Suc m \<and> bit (bytes ! (off + m)) (k - 8 * m))"
    using in_range IH byte by (simp add: bit_or_iff)
  also have "\<dots> \<longleftrightarrow> k < 8 * Suc m \<and> bit (bytes ! (off + k div 8)) (k mod 8)"
    using pos by (cases "k < 8 * m") auto
  finally show ?case .
qed simp

lemma read_little_push_size_val:
  assumes "off + n \<le> length bytes" and "n \<le> 8"
  shows "read_little_push_size bytes off n = bytes_val (take n (drop off bytes))"
proof -
  have "bit (read_little_push_size bytes off n) k = bit (bytes_val (take n (drop off bytes))) k" for k
    using push_size_bits [OF assms(1) order_refl assms(2), of k] assms
    by (auto simp: read_little_push_size_def bit_unsigned_iff bit_bytes_val min_absorb2 less_mult_imp_div_less
      mult.commute)
  then show ?thesis by (rule bit_eqI)
qed

lemma take_push_read:
  assumes "length script < 2 ^ 32"
  shows "read_push_data script opcode n off =
    (case take_push script off opcode n of (ok, pc, op, data) \<Rightarrow>
       if ok then Some (pc, \<lparr>dec_opcode = op, dec_data = data\<rparr>) else None)"
  using assms by (simp add: take_push_def read_push_data_def)

lemma push_opcode_cases:
  "(opcode :: byte) = 0 \<or> (1 \<le> opcode \<and> opcode \<le> 75) \<or> opcode = OP_PUSHDATA1 \<or> opcode = OP_PUSHDATA2 \<or>
   opcode = OP_PUSHDATA4 \<or> OP_PUSHDATA4 < opcode"
proof -
  have "unat opcode = 0 \<or> (1 \<le> unat opcode \<and> unat opcode \<le> 75) \<or> unat opcode = 76 \<or> unat opcode = 77 \<or>
      unat opcode = 78 \<or> 78 < unat opcode" by linarith
  then show ?thesis by (simp add: word_le_nat_alt word_less_nat_alt word_unat_eq_iff)
qed

theorem read_opcode_GetScriptOp:
  assumes "length script < 2 ^ 32"
  shows "read_opcode script pc =
    (case GetScriptOp script pc of (ok, pc', opcode, data) \<Rightarrow>
       if ok then Some (pc', \<lparr>dec_opcode = opcode, dec_data = data\<rparr>) else None)"
proof (cases "pc < length script")
  case True
  note tp = take_push_read [OF assms]
  show ?thesis using push_opcode_cases [of "script ! pc"]
  proof (elim disjE conjE)
    assume z: "script ! pc = 0"
    show ?thesis using True z
      by (simp add: read_opcode_def GetScriptOp_def push_size_field_def opcode_defs Let_def take_push_def)
  next
    assume b: "1 \<le> script ! pc" "script ! pc \<le> 75"
    then have "script ! pc < OP_PUSHDATA1" "script ! pc \<le> OP_PUSHDATA4"
      by (simp_all add: word_le_nat_alt word_less_nat_alt)
    with b True show ?thesis by (simp add: read_opcode_def GetScriptOp_def push_size_field_def Let_def tp)
  next
    assume o: "script ! pc = OP_PUSHDATA1"
    have "Suc pc + 1 \<le> length script \<Longrightarrow> read_little_push_size script (Suc pc) 1 = unat (script ! Suc pc)"
      by (simp add: read_little_push_size_val Cons_nth_drop_Suc [symmetric])
    with o True show ?thesis
      by (auto simp: read_opcode_def GetScriptOp_def push_size_field_def opcode_defs Let_def tp)
  next
    assume o: "script ! pc = OP_PUSHDATA2"
    with True show ?thesis
      by (auto simp: read_opcode_def GetScriptOp_def push_size_field_def opcode_defs Let_def tp
        read_little_push_size_val read_little_endian_val)
  next
    assume o: "script ! pc = OP_PUSHDATA4"
    with True show ?thesis
      by (auto simp: read_opcode_def GetScriptOp_def push_size_field_def opcode_defs Let_def tp
        read_little_push_size_val read_little_endian_val)
  next
    assume b: "OP_PUSHDATA4 < script ! pc"
    then have "\<not> script ! pc \<le> 75" "\<not> script ! pc \<le> OP_PUSHDATA4" "script ! pc \<noteq> 76" "script ! pc \<noteq> 77" "script ! pc \<noteq> 78"
      by (auto simp: word_le_nat_alt word_less_nat_alt)
    with True show ?thesis
      by (simp add: read_opcode_def GetScriptOp_def push_size_field_def opcode_defs Let_def)
  qed
qed (simp add: read_opcode_def GetScriptOp_def)


lemma sigop_weight_agrees: "unat (GetSigOpCount_weight accurate last_opcode opcode) = sigop_weight accurate last_opcode opcode"
proof -
  have "OP_1 \<le> last_opcode \<and> last_opcode \<le> OP_16 \<Longrightarrow>
      unat (ucast last_opcode - 0x50 :: u32) = unat last_opcode - 0x50"
  proof -
    assume "OP_1 \<le> last_opcode \<and> last_opcode \<le> OP_16"
    then have "(0x50 :: u32) \<le> ucast last_opcode" by (simp add: word_le_nat_alt unat_ucast_up)
    then show ?thesis by (simp add: unat_sub unat_ucast_up)
  qed
  then show ?thesis
    by (simp add: GetSigOpCount_weight_def sigop_weight_def opcode_defs is_small_integer_opcode_def
      small_integer_value_def MAX_PUBKEYS_PER_MULTISIG_def)
qed

lemma sigop_loop_agrees:
  assumes "length script < 2 ^ 32" and "unat n = count mod 2 ^ 32"
  shows "unat (GetSigOpCount_loop script accurate pc last_opcode n) =
    sigop_loop script accurate pc last_opcode count mod 2 ^ 32"
  using assms
proof (induction script accurate pc last_opcode count arbitrary: n rule: sigop_loop.induct)
  case (1 script accurate pc last_opcode count)
  obtain ok pc' opcode data where g: "GetScriptOp script pc = (ok, pc', opcode, data)" by (metis prod_cases4)
  note r = read_opcode_GetScriptOp [OF 1(2), of pc]
  show ?case
  proof (cases "pc < length script \<and> ok")
    case True
    let ?w = "GetSigOpCount_weight accurate last_opcode opcode"
    have r': "read_opcode script pc = Some (pc', \<lparr>dec_opcode = opcode, dec_data = data\<rparr>)" using r g True by simp
    have "unat (n + ?w) = (unat n + unat ?w) mod 2 ^ 32" by (simp add: unat_word_ariths)
    also have "\<dots> = size_wrap (count + sigop_weight accurate last_opcode opcode) mod 2 ^ 32"
      unfolding 1(3) sigop_weight_agrees size_wrap_def by (simp add: mod_add_left_eq mod_mod_cancel)
    finally have "unat (GetSigOpCount_loop script accurate pc' opcode (n + ?w)) =
        sigop_loop script accurate pc' opcode (size_wrap (count + sigop_weight accurate last_opcode opcode)) mod 2 ^ 32"
      using 1(1) [of "(pc', \<lparr>dec_opcode = opcode, dec_data = data\<rparr>)" pc' "\<lparr>dec_opcode = opcode, dec_data = data\<rparr>" "n + ?w"]
        True r' 1(2) by simp
    then show ?thesis
      using True g r' by (simp add: GetSigOpCount_loop.simps [of script accurate pc] sigop_loop.simps [of script accurate pc])
  next
    case False
    then show ?thesis
      using g r 1(3) by (auto simp: GetSigOpCount_loop.simps [of script accurate pc] sigop_loop.simps [of script accurate pc])
  qed
qed

theorem sigop_count_agrees:
  assumes "length script < 2 ^ 32"
  shows "unat (GetSigOpCount script accurate) = sigop_count script accurate mod 2 ^ 32"
  using sigop_loop_agrees [OF assms, of 0 0] by (simp add: GetSigOpCount_def sigop_count_def)

lemma last_data_agrees:
  assumes "length script < 2 ^ 32"
  shows "last_data_loop script pc data = last_pushed_loop script pc data"
  using assms
proof (induction script pc data rule: last_pushed_loop.induct)
  case (1 script pc data)
  obtain ok pc' opcode d where g: "GetScriptOp script pc = (ok, pc', opcode, d)" by (metis prod_cases4)
  note r = read_opcode_GetScriptOp [OF 1(2), of pc]
  show ?case
  proof (cases "pc < length script \<and> ok \<and> \<not> opcode > OP_16")
    case True
    have r': "read_opcode script pc = Some (pc', \<lparr>dec_opcode = opcode, dec_data = d\<rparr>)" using r g True by simp
    have "last_data_loop script pc' d = last_pushed_loop script pc' d"
      using 1(1) [of "(pc', \<lparr>dec_opcode = opcode, dec_data = d\<rparr>)" pc' "\<lparr>dec_opcode = opcode, dec_data = d\<rparr>"]
        True r' 1(2) by (simp add: opcode_defs)
    then show ?thesis using True g r'
      by (simp add: last_data_loop.simps [of script pc] last_pushed_loop.simps [of script pc] opcode_defs)
  next
    case False
    then show ?thesis using g r
      by (auto simp: last_data_loop.simps [of script pc] last_pushed_loop.simps [of script pc] opcode_defs)
  qed
qed

lemma pay_to_script_hash_agrees: "IsPayToScriptHash script = is_pay_to_script_hash script"
  by (simp add: IsPayToScriptHash_def is_pay_to_script_hash_def opcode_defs)

lemma witness_program_agrees: "IsWitnessProgram script = parse_witness_program script"
proof -
  have "n + 2 = length script \<Longrightarrow> take n (drop 2 script) = drop 2 script" for n by simp
  moreover have "(OP_1 \<le> script ! 0 \<and> script ! 0 \<le> OP_16) \<longleftrightarrow> \<not> (script ! 0 < OP_1 \<or> script ! 0 > OP_16)" by auto
  ultimately show ?thesis
    by (auto simp: IsWitnessProgram_def parse_witness_program_def opcode_defs is_small_integer_opcode_def
      witness_version_def small_integer_value_def not_less)
qed

text \<open>A push-only script is one whose last pushed item the counters find.\<close>

lemma push_only_last_data: "IsPushOnly_from script pc \<longleftrightarrow> last_data_loop script pc data \<noteq> None"
proof (induction script pc arbitrary: data rule: IsPushOnly_from.induct)
  case (1 script pc)
  obtain ok pc' opcode d where g: "GetScriptOp script pc = (ok, pc', opcode, d)" by (metis prod_cases4)
  show ?case
  proof (cases "pc < length script")
    case True
    then have "ok \<Longrightarrow> \<not> opcode > OP_16 \<Longrightarrow> IsPushOnly_from script pc' \<longleftrightarrow> last_data_loop script pc' d \<noteq> None"
      using 1 [OF True g [symmetric]] by blast
    then show ?thesis using True g
      by (auto simp: IsPushOnly_from.simps [of script pc] last_data_loop.simps [of script pc])
  qed (simp add: IsPushOnly_from.simps last_data_loop.simps)
qed

end
