(* ===== verification/Hash_Buffer.thy ===== *)
theory Hash_Buffer
  imports Sha256
begin

text \<open>
  The buffering shared by the hashers \<open>CRIPEMD160\<close> and \<open>CSHA1\<close>
  (\<^verbatim>\<open>crypto/ripemd160.cpp\<close>, \<^verbatim>\<open>crypto/sha1.cpp\<close>): both classes keep a chaining state, a 64-byte
  buffer and a byte count, and their \<open>Write\<close> bodies differ only in the compression function, which
  is an argument here. However a message is cut into writes, the state is that of the whole message.
\<close>

subsection \<open>The code\<close>

record 's hasher =
  hasher_s :: 's
  hasher_buf :: "byte list"
  hasher_bytes :: u64

text \<open>The loop over full chunks taken directly from the source.\<close>

function hasher_chunks :: "('s \<Rightarrow> byte list \<Rightarrow> 's) \<Rightarrow> 's \<Rightarrow> byte list \<Rightarrow> 's" where
  "hasher_chunks compress s data =
     (if length data \<ge> 64 then hasher_chunks compress (compress s (take 64 data)) (drop 64 data) else s)"
  by auto
termination
  by (relation "measure (\<lambda>(compress, s, data). length data)") auto

declare hasher_chunks.simps [simp del]

definition hasher_fill ::
  "('s \<Rightarrow> byte list \<Rightarrow> 's) \<Rightarrow> 's hasher \<Rightarrow> byte list \<Rightarrow> nat \<Rightarrow> 's hasher \<times> byte list \<times> nat" where
  "hasher_fill compress c data bufsize =
     (if bufsize \<noteq> 0 \<and> bufsize + length data \<ge> 64 then
        (c\<lparr>hasher_buf := memcpy_at (hasher_buf c) bufsize (take (64 - bufsize) data),
           hasher_bytes := hasher_bytes c + of_nat (64 - bufsize),
           hasher_s := compress (hasher_s c) (memcpy_at (hasher_buf c) bufsize (take (64 - bufsize) data))\<rparr>,
         drop (64 - bufsize) data, 0)
      else (c, data, bufsize))"

definition hasher_rest :: "'s hasher \<Rightarrow> byte list \<Rightarrow> nat \<Rightarrow> 's hasher" where
  "hasher_rest c data bufsize =
     (if length data > 0 then
        c\<lparr>hasher_buf := memcpy_at (hasher_buf c) bufsize data,
          hasher_bytes := hasher_bytes c + of_nat (length data)\<rparr>
      else c)"

definition hasher_Write :: "('s \<Rightarrow> byte list \<Rightarrow> 's) \<Rightarrow> 's hasher \<Rightarrow> byte list \<Rightarrow> 's hasher" where
  "hasher_Write compress c data =
     (case hasher_fill compress c data (unat (hasher_bytes c) mod 64) of (c1, data1, bufsize) \<Rightarrow>
        hasher_rest
          (c1\<lparr>hasher_s := hasher_chunks compress (hasher_s c1) data1,
              hasher_bytes := hasher_bytes c1 + of_nat (64 * (length data1 div 64))\<rparr>)
          (drop (64 * (length data1 div 64)) data1) bufsize)"

definition hasher_pad ::
  "('s \<Rightarrow> byte list \<Rightarrow> 's) \<Rightarrow> (u64 \<Rightarrow> byte list) \<Rightarrow> 's hasher \<Rightarrow> 's hasher" where
  "hasher_pad compress write_size c =
     hasher_Write compress
       (hasher_Write compress c (take (1 + (119 - unat (hasher_bytes c) mod 64) mod 64) pad_bytes))
       (write_size (push_bit 3 (hasher_bytes c)))"

subsection \<open>The stream a hasher has consumed\<close>

definition hasher_written :: "('s \<Rightarrow> byte list \<Rightarrow> 's) \<Rightarrow> 's \<Rightarrow> 's hasher \<Rightarrow> byte list \<Rightarrow> bool" where
  "hasher_written compress s0 c xs \<longleftrightarrow>
     length (hasher_buf c) = 64 \<and> hasher_bytes c = of_nat (length xs) \<and>
     take (length xs mod 64) (hasher_buf c) = drop (64 * (length xs div 64)) xs \<and>
     hasher_s c = hasher_chunks compress s0 xs"

definition hash_padding :: "(u64 \<Rightarrow> byte list) \<Rightarrow> byte list \<Rightarrow> byte list" where
  "hash_padding write_size xs = 0x80 # replicate ((119 - length xs mod 64) mod 64) 0 @
     write_size (push_bit 3 (of_nat (length xs)))"

lemma hasher_chunks_append:
  assumes "64 dvd length xs"
  shows "hasher_chunks compress s (xs @ ys) = hasher_chunks compress (hasher_chunks compress s xs) ys"
  using assms
proof (induction compress s xs rule: hasher_chunks.induct)
  case (1 compress s xs)
  show ?case
  proof (cases "length xs \<ge> 64")
    case True
    have "64 dvd length (drop 64 xs)" using 1(2) True by (simp add: dvd_diff_nat)
    from 1(1) [OF True this] show ?thesis
      using True by (simp add: hasher_chunks.simps [of compress s])
  next
    case False
    then have "xs = []" using 1(2) by (cases xs) (auto dest: dvd_imp_le)
    then show ?thesis by (simp add: hasher_chunks.simps [of compress s "[]"])
  qed
qed

lemma hasher_chunks_short [simp]: "length xs < 64 \<Longrightarrow> hasher_chunks compress s xs = s"
  by (simp add: hasher_chunks.simps)

lemma hasher_chunks_full: "length xs = 64 \<Longrightarrow> hasher_chunks compress s xs = compress s xs"
  by (simp add: hasher_chunks.simps [of compress s xs])

lemma hasher_chunks_prefix:
  assumes "length xs = 64 * n + m" and "m < 64"
  shows "hasher_chunks compress s xs = hasher_chunks compress s (take (64 * n) xs)"
proof -
  have "hasher_chunks compress s (take (64 * n) xs @ drop (64 * n) xs) =
      hasher_chunks compress (hasher_chunks compress s (take (64 * n) xs)) (drop (64 * n) xs)"
    by (rule hasher_chunks_append) (simp add: assms)
  then show ?thesis using assms by simp
qed

lemma hasher_writtenI:
  assumes "length xs = 64 * n + m" and "m < 64" and "length (hasher_buf c) = 64"
    and "hasher_bytes c = of_nat (64 * n + m)" and "take m (hasher_buf c) = drop (64 * n) xs"
    and "hasher_s c = hasher_chunks compress s0 (take (64 * n) xs)"
  shows "hasher_written compress s0 c xs"
  using assms by (simp add: hasher_written_def hasher_chunks_prefix [OF assms(1,2)])

lemma hasher_writtenE:
  assumes "hasher_written compress s0 c xs"
  obtains n where "length xs = 64 * n + length xs mod 64" and "length (hasher_buf c) = 64"
    and "hasher_bytes c = of_nat (64 * n + length xs mod 64)"
    and "take (length xs mod 64) (hasher_buf c) = drop (64 * n) xs"
    and "hasher_s c = hasher_chunks compress s0 (take (64 * n) xs)"
proof
  show n: "length xs = 64 * (length xs div 64) + length xs mod 64" by simp
  show "hasher_s c = hasher_chunks compress s0 (take (64 * (length xs div 64)) xs)"
    using assms hasher_chunks_prefix [OF n] by (simp add: hasher_written_def)
qed (use assms in \<open>simp_all add: hasher_written_def\<close>)

lemma hasher_written_new:
  "length garbage = 64 \<Longrightarrow>
     hasher_written compress s0 \<lparr>hasher_s = s0, hasher_buf = garbage, hasher_bytes = 0\<rparr> []"
  by (simp add: hasher_written_def)

lemma hasher_bufsize: "hasher_written compress s0 c xs \<Longrightarrow> unat (hasher_bytes c) mod 64 = length xs mod 64"
  by (simp add: hasher_written_def unat_of_nat_mod64)

lemma hasher_fill_written:
  assumes w: "hasher_written compress s0 c xs" and b: "length xs mod 64 = b"
    and fill: "b \<noteq> 0" "64 \<le> b + length ys"
  obtains c' where "hasher_fill compress c ys b = (c', drop (64 - b) ys, 0)"
    and "hasher_written compress s0 c' (xs @ take (64 - b) ys)"
proof -
  from w obtain n where n: "length xs = 64 * n + b" "length (hasher_buf c) = 64"
    "hasher_bytes c = of_nat (64 * n + b)" "take b (hasher_buf c) = drop (64 * n) xs"
    "hasher_s c = hasher_chunks compress s0 (take (64 * n) xs)"
    unfolding b [symmetric] by (rule hasher_writtenE)
  have lt: "b < 64" using b by auto
  let ?buf = "memcpy_at (hasher_buf c) b (take (64 - b) ys)"
  let ?c = "c\<lparr>hasher_buf := ?buf, hasher_bytes := hasher_bytes c + of_nat (64 - b),
      hasher_s := compress (hasher_s c) ?buf\<rparr>"
  have buf: "?buf = drop (64 * n) (xs @ take (64 - b) ys)"
    using n(1,2,4) lt fill by (simp add: memcpy_at_def)
  have lenbuf: "length ?buf = 64" using n(2) lt fill by (simp add: memcpy_at_def)
  have "hasher_written compress s0 ?c (xs @ take (64 - b) ys)"
  proof (rule hasher_writtenI)
    show "length (xs @ take (64 - b) ys) = 64 * (n + 1) + 0" using n(1) lt fill by simp
    have "hasher_bytes c + of_nat (64 - b) = of_nat ((64 * n + b) + (64 - b))"
      unfolding n(3) by (simp only: of_nat_add)
    also have "(64 * n + b) + (64 - b) = 64 * (n + 1) + 0" using lt by simp
    finally show "hasher_bytes ?c = of_nat (64 * (n + 1) + 0)" by simp
    show "length (hasher_buf ?c) = 64" using lenbuf by simp
    show "take 0 (hasher_buf ?c) = drop (64 * (n + 1)) (xs @ take (64 - b) ys)"
      using n(1) lt fill by simp
    have split: "xs @ take (64 - b) ys = take (64 * n) xs @ ?buf"
      unfolding buf using n(1) by (simp add: append_take_drop_id [symmetric] del: append_take_drop_id)
    have "take (64 * (n + 1)) (xs @ take (64 - b) ys) = xs @ take (64 - b) ys"
      using n(1) lt fill by simp
    then show "hasher_s ?c = hasher_chunks compress s0 (take (64 * (n + 1)) (xs @ take (64 - b) ys))"
      using n(1,5) lenbuf by (simp add: split hasher_chunks_append hasher_chunks_full)
  qed simp
  then show ?thesis using that fill by (simp add: hasher_fill_def)
qed

lemma hasher_blocks_written:
  assumes w: "hasher_written compress s0 c xs" and z: "length xs mod 64 = 0" and m: "m = length ys div 64"
  shows "hasher_written compress s0
    (c\<lparr>hasher_s := hasher_chunks compress (hasher_s c) ys, hasher_bytes := hasher_bytes c + of_nat (64 * m)\<rparr>)
    (xs @ take (64 * m) ys)"
proof -
  from w obtain n where n: "length xs = 64 * n + 0" "length (hasher_buf c) = 64"
    "hasher_bytes c = of_nat (64 * n + 0)" "take 0 (hasher_buf c) = drop (64 * n) xs"
    "hasher_s c = hasher_chunks compress s0 (take (64 * n) xs)"
    unfolding z [symmetric] by (rule hasher_writtenE)
  have le: "64 * m \<le> length ys" by (simp add: m)
  have ys: "hasher_chunks compress s ys = hasher_chunks compress s (take (64 * m) ys)" for s
    by (rule hasher_chunks_prefix [of _ _ "length ys mod 64"]) (simp_all add: m)
  show ?thesis
    by (rule hasher_writtenI [of _ "n + m" 0])
      (use n le in \<open>simp_all add: ys hasher_chunks_append\<close>)
qed

lemma hasher_rest_written:
  assumes w: "hasher_written compress s0 c xs" and b: "length xs mod 64 = b" and short: "b + length ys < 64"
  shows "hasher_written compress s0 (hasher_rest c ys b) (xs @ ys)"
proof (cases "ys = []")
  case False
  from w obtain n where n: "length xs = 64 * n + b" "length (hasher_buf c) = 64"
    "hasher_bytes c = of_nat (64 * n + b)" "take b (hasher_buf c) = drop (64 * n) xs"
    "hasher_s c = hasher_chunks compress s0 (take (64 * n) xs)"
    unfolding b [symmetric] by (rule hasher_writtenE)
  show ?thesis
    by (rule hasher_writtenI [of _ n "b + length ys"])
      (use False n short in \<open>simp_all add: hasher_rest_def memcpy_at_def\<close>)
qed (use w in \<open>simp add: hasher_rest_def\<close>)

theorem hasher_Write_written:
  assumes "hasher_written compress s0 c xs"
  shows "hasher_written compress s0 (hasher_Write compress c ys) (xs @ ys)"
proof -
  let ?b = "length xs mod 64"
  have finish: "hasher_written compress s0
      (hasher_rest
        (c1\<lparr>hasher_s := hasher_chunks compress (hasher_s c1) zs,
            hasher_bytes := hasher_bytes c1 + of_nat (64 * (length zs div 64))\<rparr>)
        (drop (64 * (length zs div 64)) zs) 0) (us @ zs)"
    if "hasher_written compress s0 c1 us" "length us mod 64 = 0" for c1 us zs
  proof -
    have "length (us @ take (64 * (length zs div 64)) zs) mod 64 = 0"
      using that(2) by (auto simp: mod_eq_0_iff_dvd)
    from hasher_rest_written [OF hasher_blocks_written [OF that refl] this, of "drop (64 * (length zs div 64)) zs"]
    show ?thesis by (simp add: minus_mult_div_eq_mod)
  qed
  consider (fill) "?b \<noteq> 0" "64 \<le> ?b + length ys" | (empty) "?b = 0" | (short) "?b \<noteq> 0" "?b + length ys < 64"
    by linarith
  then show ?thesis
  proof cases
    case fill
    from hasher_fill_written [OF assms refl fill] obtain c1 where
      c1: "hasher_fill compress c ys ?b = (c1, drop (64 - ?b) ys, 0)"
        "hasher_written compress s0 c1 (xs @ take (64 - ?b) ys)"
      by blast
    have "length (xs @ take (64 - ?b) ys) mod 64 = 0"
      using fill mod_fill [of 64 "length xs"] by simp
    from finish [OF c1(2) this, of "drop (64 - ?b) ys"] show ?thesis
      by (simp add: hasher_Write_def hasher_bufsize [OF assms] c1(1))
  next
    case empty
    with finish [OF assms] show ?thesis
      by (simp add: hasher_Write_def hasher_bufsize [OF assms] hasher_fill_def)
  next
    case short
    with hasher_rest_written [OF assms refl short(2)] show ?thesis
      by (simp add: hasher_Write_def hasher_bufsize [OF assms] hasher_fill_def)
  qed
qed

theorem hasher_pad_written:
  assumes "hasher_written compress s0 c xs"
  shows "hasher_s (hasher_pad compress write_size c) =
    hasher_chunks compress s0 (xs @ hash_padding write_size xs)"
proof -
  let ?pad = "take (1 + (119 - length xs mod 64) mod 64) pad_bytes"
  have "?pad = 0x80 # replicate ((119 - length xs mod 64) mod 64) 0"
    by (simp add: pad_bytes_def min_def)
  moreover from hasher_Write_written [OF hasher_Write_written [OF assms]]
  have "hasher_written compress s0 (hasher_pad compress write_size c)
      ((xs @ ?pad) @ write_size (push_bit 3 (hasher_bytes c)))"
    by (simp add: hasher_pad_def hasher_bufsize [OF assms])
  ultimately have "hasher_written compress s0 (hasher_pad compress write_size c) (xs @ hash_padding write_size xs)"
    using assms by (simp add: hash_padding_def hasher_written_def [of compress s0 c])
  then show ?thesis by (simp add: hasher_written_def)
qed

end
