(* ===== verification/Ripemd160.thy ===== *)
theory Ripemd160
  imports Hash_Buffer Endian
begin

text \<open>
  RIPEMD-160 (\<^verbatim>\<open>crypto/ripemd160.cpp\<close>). The 160 unrolled calls of \<open>Transform\<close> are two tables, one per
  line, of the message word and the rotation of each call, in rows of sixteen; a call renames the
  registers one place to the right, which is the rotation of the tuple in \<open>rmd_step\<close>.
\<close>

subsection \<open>The code\<close>

type_synonym rmd_regs = "u32 \<times> u32 \<times> u32 \<times> u32 \<times> u32"

definition ReadLE32 :: "byte list \<Rightarrow> u32" where
  "ReadLE32 bs = read_little_endian (take 4 bs)"

definition WriteLE32 :: "u32 \<Rightarrow> byte list" where
  "WriteLE32 x = write_little_endian x 4"

definition WriteLE64 :: "u64 \<Rightarrow> byte list" where
  "WriteLE64 x = write_little_endian x 8"

definition rmd_f1 :: "u32 \<Rightarrow> u32 \<Rightarrow> u32 \<Rightarrow> u32" where "rmd_f1 x y z = x XOR y XOR z"
definition rmd_f2 :: "u32 \<Rightarrow> u32 \<Rightarrow> u32 \<Rightarrow> u32" where "rmd_f2 x y z = (x AND y) OR (NOT x AND z)"
definition rmd_f3 :: "u32 \<Rightarrow> u32 \<Rightarrow> u32 \<Rightarrow> u32" where "rmd_f3 x y z = (x OR NOT y) XOR z"
definition rmd_f4 :: "u32 \<Rightarrow> u32 \<Rightarrow> u32 \<Rightarrow> u32" where "rmd_f4 x y z = (x AND z) OR (y AND NOT z)"
definition rmd_f5 :: "u32 \<Rightarrow> u32 \<Rightarrow> u32 \<Rightarrow> u32" where "rmd_f5 x y z = x XOR (y OR NOT z)"

definition rmd_Initialize :: rmd_regs where
  "rmd_Initialize = (0x67452301, 0xEFCDAB89, 0x98BADCFE, 0x10325476, 0xC3D2E1F0)"

definition rmd_rol :: "u32 \<Rightarrow> nat \<Rightarrow> u32" where
  "rmd_rol x i = push_bit i x OR drop_bit (32 - i) x"

text \<open>\<open>Round\<close> on \<open>(a, b, c, d, e)\<close>, followed by the renaming of the registers for the next call.\<close>

definition rmd_step :: "(u32 \<Rightarrow> u32 \<Rightarrow> u32 \<Rightarrow> u32) \<Rightarrow> u32 \<Rightarrow> rmd_regs \<Rightarrow> u32 \<Rightarrow> nat \<Rightarrow> rmd_regs" where
  "rmd_step f k s x r =
     (case s of (a, b, c, d, e) \<Rightarrow> (e, rmd_rol (a + f b c d + x + k) r + e, b, rmd_rol c 10, d))"

definition left_functions :: "((u32 \<Rightarrow> u32 \<Rightarrow> u32 \<Rightarrow> u32) \<times> u32) list" where
  "left_functions =
    [(rmd_f1, 0), (rmd_f2, 0x5A827999), (rmd_f3, 0x6ED9EBA1), (rmd_f4, 0x8F1BBCDC), (rmd_f5, 0xA953FD4E)]"

definition right_functions :: "((u32 \<Rightarrow> u32 \<Rightarrow> u32 \<Rightarrow> u32) \<times> u32) list" where
  "right_functions =
    [(rmd_f5, 0x50A28BE6), (rmd_f4, 0x5C4DD124), (rmd_f3, 0x6D703EF3), (rmd_f2, 0x7A6D76E9), (rmd_f1, 0)]"

definition left_line :: "(nat \<times> nat) list list" where
  "left_line =
    [[(0, 11), (1, 14), (2, 15), (3, 12), (4, 5), (5, 8), (6, 7), (7, 9),
      (8, 11), (9, 13), (10, 14), (11, 15), (12, 6), (13, 7), (14, 9), (15, 8)],
     [(7, 7), (4, 6), (13, 8), (1, 13), (10, 11), (6, 9), (15, 7), (3, 15),
      (12, 7), (0, 12), (9, 15), (5, 9), (2, 11), (14, 7), (11, 13), (8, 12)],
     [(3, 11), (10, 13), (14, 6), (4, 7), (9, 14), (15, 9), (8, 13), (1, 15),
      (2, 14), (7, 8), (0, 13), (6, 6), (13, 5), (11, 12), (5, 7), (12, 5)],
     [(1, 11), (9, 12), (11, 14), (10, 15), (0, 14), (8, 15), (12, 9), (4, 8),
      (13, 9), (3, 14), (7, 5), (15, 6), (14, 8), (5, 6), (6, 5), (2, 12)],
     [(4, 9), (0, 15), (5, 5), (9, 11), (7, 6), (12, 8), (2, 13), (10, 12),
      (14, 5), (1, 12), (3, 13), (8, 14), (11, 11), (6, 8), (15, 5), (13, 6)]]"

definition right_line :: "(nat \<times> nat) list list" where
  "right_line =
    [[(5, 8), (14, 9), (7, 9), (0, 11), (9, 13), (2, 15), (11, 15), (4, 5),
      (13, 7), (6, 7), (15, 8), (8, 11), (1, 14), (10, 14), (3, 12), (12, 6)],
     [(6, 9), (11, 13), (3, 15), (7, 7), (0, 12), (13, 8), (5, 9), (10, 11),
      (14, 7), (15, 7), (8, 12), (12, 7), (4, 6), (9, 15), (1, 13), (2, 11)],
     [(15, 9), (5, 7), (1, 15), (3, 11), (7, 8), (14, 6), (6, 6), (9, 14),
      (11, 12), (8, 13), (12, 5), (2, 14), (10, 13), (0, 13), (4, 7), (13, 5)],
     [(8, 15), (6, 5), (4, 8), (1, 11), (3, 14), (11, 14), (15, 6), (0, 14),
      (5, 6), (12, 9), (2, 12), (13, 9), (9, 12), (7, 5), (10, 15), (14, 8)],
     [(12, 8), (15, 5), (10, 12), (4, 9), (1, 12), (5, 5), (8, 14), (7, 6),
      (6, 8), (2, 13), (13, 6), (14, 5), (0, 15), (3, 13), (9, 11), (11, 11)]]"

fun rmd_steps :: "(u32 \<Rightarrow> u32 \<Rightarrow> u32 \<Rightarrow> u32) \<Rightarrow> u32 \<Rightarrow> u32 list \<Rightarrow> (nat \<times> nat) list \<Rightarrow> rmd_regs \<Rightarrow> rmd_regs" where
  "rmd_steps f k w [] s = s"
| "rmd_steps f k w ((i, r) # calls) s = rmd_steps f k w calls (rmd_step f k s (w ! i) r)"

fun rmd_line ::
  "u32 list \<Rightarrow> ((u32 \<Rightarrow> u32 \<Rightarrow> u32 \<Rightarrow> u32) \<times> u32) list \<Rightarrow> (nat \<times> nat) list list \<Rightarrow> rmd_regs \<Rightarrow> rmd_regs" where
  "rmd_line w ((f, k) # fs) (row # rows) s = rmd_line w fs rows (rmd_steps f k w row s)"
| "rmd_line w fs rows s = s"

definition rmd_words :: "byte list \<Rightarrow> u32 list" where
  "rmd_words chunk = map (\<lambda>i. ReadLE32 (drop (4 * i) chunk)) [0..<16]"

definition rmd_Transform :: "rmd_regs \<Rightarrow> byte list \<Rightarrow> rmd_regs" where
  "rmd_Transform s chunk =
     (case s of (s0, s1, s2, s3, s4) \<Rightarrow>
      case rmd_line (rmd_words chunk) left_functions left_line s of (a1, b1, c1, d1, e1) \<Rightarrow>
      case rmd_line (rmd_words chunk) right_functions right_line s of (a2, b2, c2, d2, e2) \<Rightarrow>
        (s1 + c1 + d2, s2 + d1 + e2, s3 + e1 + a2, s4 + a1 + b2, s0 + b1 + c2))"

text \<open>The constructor leaves the buffer uninitialised: its content is an argument.\<close>

definition CRIPEMD160 :: "byte list \<Rightarrow> rmd_regs hasher" where
  "CRIPEMD160 garbage = \<lparr>hasher_s = rmd_Initialize, hasher_buf = garbage, hasher_bytes = 0\<rparr>"

definition rmd_Write :: "rmd_regs hasher \<Rightarrow> byte list \<Rightarrow> rmd_regs hasher" where
  "rmd_Write c data = hasher_Write rmd_Transform c data"

definition rmd_output :: "rmd_regs \<Rightarrow> byte list" where
  "rmd_output s = (case s of (s0, s1, s2, s3, s4) \<Rightarrow>
     WriteLE32 s0 @ WriteLE32 s1 @ WriteLE32 s2 @ WriteLE32 s3 @ WriteLE32 s4)"

definition rmd_Finalize :: "rmd_regs hasher \<Rightarrow> byte list" where
  "rmd_Finalize c = rmd_output (hasher_s (hasher_pad rmd_Transform WriteLE64 c))"

definition rmd_Reset :: "rmd_regs hasher \<Rightarrow> rmd_regs hasher" where
  "rmd_Reset c = c\<lparr>hasher_bytes := 0, hasher_s := rmd_Initialize\<rparr>"

subsection \<open>The hash of a message\<close>

definition ripemd160 :: "byte list \<Rightarrow> byte list" where
  "ripemd160 xs = rmd_output (hasher_chunks rmd_Transform rmd_Initialize (xs @ hash_padding WriteLE64 xs))"

definition rmd_written :: "rmd_regs hasher \<Rightarrow> byte list \<Rightarrow> bool" where
  "rmd_written = hasher_written rmd_Transform rmd_Initialize"

lemma rmd_written_new: "length garbage = 64 \<Longrightarrow> rmd_written (CRIPEMD160 garbage) []"
  by (simp add: rmd_written_def CRIPEMD160_def hasher_written_new)

lemma rmd_Write_written: "rmd_written c xs \<Longrightarrow> rmd_written (rmd_Write c ys) (xs @ ys)"
  by (simp add: rmd_written_def rmd_Write_def hasher_Write_written)

lemma rmd_written_reset: "rmd_written c xs \<Longrightarrow> rmd_written (rmd_Reset c) []"
  by (simp add: rmd_written_def rmd_Reset_def hasher_written_def)

theorem ripemd160_stream: "rmd_written c xs \<Longrightarrow> rmd_Finalize c = ripemd160 xs"
  by (simp add: rmd_written_def rmd_Finalize_def ripemd160_def hasher_pad_written)

lemma length_ripemd160 [simp]: "length (ripemd160 xs) = 20"
  by (simp add: ripemd160_def rmd_output_def WriteLE32_def split: prod.splits)

end
