(* ===== verification/Hash_Writer.thy ===== *)
theory Hash_Writer
  imports Codec_Write Ripemd160
begin

text \<open>
  The hashers of \<^verbatim>\<open>hash.h\<close> and \<^verbatim>\<open>hash.cpp\<close>: the double hash \<open>CHash256\<close>, the script hash \<open>CHash160\<close>, the
  hashing stream \<open>HashWriter\<close> with its tagged variant, and the size prefix of \<^verbatim>\<open>serialize.h\<close>.

  A \<open>HashWriter\<close> is its SHA-256 object; the content its constructor leaves in the buffer does not
  matter (\<open>sha256_stream\<close>), and zeros stand for it. Serialising a value into the stream is a
  sequence of writes, in the style of \<open>Codec_Write\<close>, and the stream interprets the locale \<open>byte_sink\<close>.
\<close>

definition CHash256_Finalize :: "csha256 \<Rightarrow> byte list" where
  "CHash256_Finalize sha =
     (let buf = Finalize sha in Finalize (sha_Write (Reset (Finalize_state sha)) buf))"

definition CHash160_Finalize :: "csha256 \<Rightarrow> byte list" where
  "CHash160_Finalize sha =
     (let buf = Finalize sha in rmd_Finalize (rmd_Write (CRIPEMD160 (replicate 64 0)) buf))"

definition HashWriter :: csha256 where
  "HashWriter = CSHA256 (replicate 64 0)"

definition HashWriter_write :: "csha256 \<Rightarrow> byte list \<Rightarrow> csha256" where
  "HashWriter_write ctx src = sha_Write ctx src"

definition GetHash :: "csha256 \<Rightarrow> byte list" where
  "GetHash ctx =
     (let result = Finalize ctx in Finalize (sha_Write (Reset (Finalize_state ctx)) result))"

definition GetSHA256 :: "csha256 \<Rightarrow> byte list" where
  "GetSHA256 ctx = Finalize ctx"

definition SHA256Uint256 :: "byte list \<Rightarrow> byte list" where
  "SHA256Uint256 input = Finalize (sha_Write (CSHA256 (replicate 64 0)) (take 32 input))"

definition TaggedHash :: "byte list \<Rightarrow> csha256" where
  "TaggedHash tag =
     (let taghash = Finalize (sha_Write (CSHA256 (replicate 64 0)) tag) in
      HashWriter_write (HashWriter_write HashWriter taghash) taghash)"

definition WriteCompactSize :: "('s \<Rightarrow> byte list \<Rightarrow> 's) \<Rightarrow> u64 \<Rightarrow> 's \<Rightarrow> 's" where
  "WriteCompactSize put nSize os =
     (if nSize < 253 then put os [ucast nSize]
      else if nSize \<le> 0xffff then put (put os [253]) (write_little_endian (ucast nSize :: u16) 2)
      else if nSize \<le> 0xffffffff then put (put os [254]) (write_little_endian (ucast nSize :: u32) 4)
      else put (put os [255]) (write_little_endian nSize 8))"

subsection \<open>What they compute\<close>

interpretation hash_writer: byte_sink HashWriter_write sha_written
  by unfold_locales (simp add: HashWriter_write_def sha_Write_written)

lemma sha_written_zeros: "sha_written (CSHA256 (replicate 64 0)) []"
  by (simp add: sha_written_new)

lemma HashWriter_new: "sha_written HashWriter []"
  by (simp add: HashWriter_def sha_written_zeros)

lemma Finalize_once: "Finalize (sha_Write (CSHA256 (replicate 64 0)) xs) = sha256 xs"
  using sha256_stream [OF sha_Write_written [OF sha_written_zeros]] by simp

lemma sha_written_again:
  assumes "sha_written ctx xs"
  shows "sha_written (sha_Write (Reset (Finalize_state ctx)) ys) ys"
proof -
  have "\<exists>zs. sha_written (Finalize_state ctx) zs"
    unfolding Finalize_state_def using assms sha_Write_written by blast
  then obtain zs where "sha_written (Finalize_state ctx) zs" ..
  from sha_Write_written [OF sha_written_reset [OF this]] show ?thesis by simp
qed

lemma GetSHA256_written: "sha_written ctx xs \<Longrightarrow> GetSHA256 ctx = sha256 xs"
  by (simp add: GetSHA256_def sha256_stream)

theorem GetHash_written: "sha_written ctx xs \<Longrightarrow> GetHash ctx = double_sha256 xs"
  by (simp add: GetHash_def Let_def sha256_stream sha256_stream [OF sha_written_again] double_sha256_def)

lemma CHash256_written: "sha_written sha xs \<Longrightarrow> CHash256_Finalize sha = double_sha256 xs"
  using GetHash_written [of sha xs] by (simp add: CHash256_Finalize_def GetHash_def)

lemma ripemd160_once: "rmd_Finalize (rmd_Write (CRIPEMD160 (replicate 64 0)) xs) = ripemd160 xs"
  using ripemd160_stream [OF rmd_Write_written [OF rmd_written_new]] by simp

lemma CHash160_written: "sha_written sha xs \<Longrightarrow> CHash160_Finalize sha = ripemd160 (sha256 xs)"
  by (simp add: CHash160_Finalize_def Let_def sha256_stream ripemd160_once)

lemma SHA256Uint256_eq: "length h = 32 \<Longrightarrow> SHA256Uint256 h = sha256 h"
  by (simp add: SHA256Uint256_def Finalize_once)

lemma TaggedHash_written: "sha_written (TaggedHash tag) (sha256 tag @ sha256 tag)"
  using hash_writer.written_write [OF hash_writer.written_write [OF HashWriter_new]]
  by (simp add: TaggedHash_def Let_def Finalize_once)

text \<open>The size prefix is that of the protocol codec.\<close>

lemma WriteCompactSize_eq: "WriteCompactSize put v os = write_compact_size put v os"
  by (simp add: WriteCompactSize_def write_compact_size_def write_byte_def write_little_def write_bytes_def)

end
