(* ===== verification/Pubkey.thy ===== *)
theory Pubkey
  imports Hash_Writer
begin

text \<open>
  Public keys and signatures (\<^verbatim>\<open>pubkey.h\<close>, \<^verbatim>\<open>pubkey.cpp\<close>): the key container, the permissive DER parser,
  and the calls into libsecp256k1.

  That library is not part of the repository. Its functions are the fields of a record, the argument
  \<open>secp\<close> of the definitions; its opaque objects are byte arrays in its interface and byte lists here.
\<close>

record secp256k1 =
  signature_parse_compact :: "byte list \<Rightarrow> bool \<times> byte list"
  signature_normalize :: "byte list \<Rightarrow> bool \<times> byte list"
  ecdsa_verify :: "byte list \<Rightarrow> byte list \<Rightarrow> byte list \<Rightarrow> bool"
  ec_pubkey_parse :: "byte list \<Rightarrow> byte list option"
  xonly_pubkey_parse :: "byte list \<Rightarrow> byte list option"
  schnorrsig_verify :: "byte list \<Rightarrow> byte list \<Rightarrow> byte list \<Rightarrow> bool"
  xonly_pubkey_tweak_add_check :: "byte list \<Rightarrow> bool \<Rightarrow> byte list \<Rightarrow> byte list \<Rightarrow> bool"

subsection \<open>Keys\<close>

definition GetLen :: "byte \<Rightarrow> nat" where
  "GetLen chHeader =
     (if chHeader = 2 \<or> chHeader = 3 then 33
      else if chHeader = 4 \<or> chHeader = 6 \<or> chHeader = 7 then 65 else 0)"

text \<open>A key is its bytes; the invalid key is the header \<open>0xff\<close>.\<close>

definition CPubKey :: "byte list \<Rightarrow> byte list" where
  "CPubKey bs =
     (let len = (if bs = [] then 0 else GetLen (hd bs)) in
      if len \<noteq> 0 \<and> len = length bs then bs else [0xff])"

definition pubkey_size :: "byte list \<Rightarrow> nat" where
  "pubkey_size vch = GetLen (hd vch)"

definition pubkey_IsValid :: "byte list \<Rightarrow> bool" where
  "pubkey_IsValid vch \<longleftrightarrow> pubkey_size vch > 0"

subsection \<open>The permissive signature parser\<close>

text \<open>Skipping zero bytes from a position, at most so many; the rest of the count and the position.\<close>

fun skip_zeros :: "byte list \<Rightarrow> nat \<Rightarrow> nat \<Rightarrow> nat \<times> nat" where
  "skip_zeros input 0 pos = (0, pos)"
| "skip_zeros input (Suc n) pos =
     (if input ! pos = 0 then skip_zeros input n (pos + 1) else (Suc n, pos))"

definition read_length :: "byte list \<Rightarrow> nat \<Rightarrow> nat \<Rightarrow> nat" where
  "read_length input lenbyte pos = foldl (\<lambda>len b. size_wrap (len * 256 + unat b)) 0 (take lenbyte (drop pos input))"

text \<open>The length of an integer, with the position after it. \<^term>\<open>None\<close> is a return of zero.\<close>

definition der_length :: "byte list \<Rightarrow> nat \<Rightarrow> (nat \<times> nat) option" where
  "der_length input pos0 =
     (if pos0 = length input then None
      else
       (let lenbyte = unat (input ! pos0); pos = pos0 + 1 in
        if lenbyte \<ge> 0x80 then
          (if lenbyte - 0x80 > length input - pos then None
           else (case skip_zeros input (lenbyte - 0x80) pos of (lenbyte', pos') \<Rightarrow>
             if lenbyte' \<ge> 4 then None
             else Some (read_length input lenbyte' pos', pos' + lenbyte')))
        else Some (lenbyte, pos)))"

text \<open>An integer: its tag, its length and its bytes. The result is its length and its position.\<close>

definition der_integer :: "byte list \<Rightarrow> nat \<Rightarrow> (nat \<times> nat) option" where
  "der_integer input pos =
     (if pos = length input \<or> input ! pos \<noteq> 0x02 then None
      else (case der_length input (pos + 1) of
          None \<Rightarrow> None
        | Some (len, pos') \<Rightarrow> if len > length input - pos' then None else Some (len, pos')))"

definition der_sequence :: "byte list \<Rightarrow> nat option" where
  "der_sequence input =
     (if input = [] \<or> input ! 0 \<noteq> 0x30 then None
      else if length input = 1 then None
      else
       (let lenbyte = unat (input ! 1) in
        if lenbyte \<ge> 0x80 then
          (if lenbyte - 0x80 > length input - 2 then None else Some (2 + (lenbyte - 0x80)))
        else Some 2))"

text \<open>One half of the compact signature; \<^term>\<open>None\<close> marks an overflow.\<close>

definition copy_value :: "byte list \<Rightarrow> nat \<Rightarrow> nat \<Rightarrow> byte list option" where
  "copy_value input len pos =
     (case skip_zeros input len pos of (len', pos') \<Rightarrow>
        if len' > 32 then None
        else Some (replicate (32 - len') 0 @ take len' (drop pos' input)))"

definition ecdsa_signature_parse_der_lax :: "secp256k1 \<Rightarrow> byte list \<Rightarrow> bool \<times> byte list" where
  "ecdsa_signature_parse_der_lax secp input =
     (let zero_sig = snd (signature_parse_compact secp (replicate 64 0)) in
      case der_sequence input of
        None \<Rightarrow> (False, zero_sig)
      | Some pos \<Rightarrow>
        (case der_integer input pos of
           None \<Rightarrow> (False, zero_sig)
         | Some (rlen, rpos) \<Rightarrow>
           (case der_integer input (rpos + rlen) of
              None \<Rightarrow> (False, zero_sig)
            | Some (slen, spos) \<Rightarrow>
              (case (copy_value input rlen rpos, copy_value input slen spos) of
                 (Some r, Some s) \<Rightarrow>
                   (case signature_parse_compact secp (r @ s) of (ok, sig) \<Rightarrow>
                      (True, if ok then sig else zero_sig))
               | _ \<Rightarrow> (True, zero_sig)))))"

subsection \<open>Verification\<close>

definition pubkey_Verify :: "secp256k1 \<Rightarrow> byte list \<Rightarrow> byte list \<Rightarrow> byte list \<Rightarrow> bool" where
  "pubkey_Verify secp vch hash vchSig =
     (if \<not> pubkey_IsValid vch then False
      else (case ec_pubkey_parse secp (take (pubkey_size vch) vch) of
          None \<Rightarrow> False
        | Some pubkey \<Rightarrow>
            (case ecdsa_signature_parse_der_lax secp vchSig of (ok, sig) \<Rightarrow>
               if \<not> ok then False
               else ecdsa_verify secp (snd (signature_normalize secp sig)) hash pubkey)))"

definition CheckLowS :: "secp256k1 \<Rightarrow> byte list \<Rightarrow> bool" where
  "CheckLowS secp vchSig =
     (case ecdsa_signature_parse_der_lax secp vchSig of (ok, sig) \<Rightarrow>
        if \<not> ok then False else \<not> fst (signature_normalize secp sig))"

definition VerifySchnorr :: "secp256k1 \<Rightarrow> byte list \<Rightarrow> byte list \<Rightarrow> byte list \<Rightarrow> bool option" where
  "VerifySchnorr secp keydata msg sigbytes =
     (if length sigbytes \<noteq> 64 then None
      else (case xonly_pubkey_parse secp keydata of
          None \<Rightarrow> Some False
        | Some pubkey \<Rightarrow> Some (schnorrsig_verify secp sigbytes msg pubkey)))"

definition HASHER_TAPTWEAK :: csha256 where
  "HASHER_TAPTWEAK = TaggedHash (map (of_nat \<circ> of_char) ''TapTweak'')"

definition ComputeTapTweakHash :: "byte list \<Rightarrow> byte list option \<Rightarrow> byte list" where
  "ComputeTapTweakHash keydata merkle_root =
     (case merkle_root of
        None \<Rightarrow> GetSHA256 (HashWriter_write HASHER_TAPTWEAK keydata)
      | Some root \<Rightarrow> GetSHA256 (HashWriter_write (HashWriter_write HASHER_TAPTWEAK keydata) root))"

definition CheckTapTweak :: "secp256k1 \<Rightarrow> byte list \<Rightarrow> byte list \<Rightarrow> byte list \<Rightarrow> bool \<Rightarrow> bool" where
  "CheckTapTweak secp keydata internal merkle_root parity =
     (case xonly_pubkey_parse secp internal of
        None \<Rightarrow> False
      | Some internal_key \<Rightarrow>
          xonly_pubkey_tweak_add_check secp keydata parity internal_key
            (ComputeTapTweakHash internal (Some merkle_root)))"

lemma CPubKey_valid: "pubkey_IsValid (CPubKey bs) \<Longrightarrow> CPubKey bs = bs \<and> length bs = pubkey_size bs"
  by (auto simp: CPubKey_def pubkey_IsValid_def pubkey_size_def Let_def GetLen_def split: if_splits)

end
