(* ===== verification/Script_Encoding.thy ===== *)
theory Script_Encoding
  imports Script_Core Script_Flags Pubkey
begin

text \<open>
  The helpers of \<^verbatim>\<open>script/interpreter.cpp\<close> before the interpreter loop: truth values, the encoding rules
  for keys and signatures, the removal of a signature from a script, and the condition stack.

  \<^descr> Results. An operation of the interpreter either continues, fails with a script error, throws
    the number error that \<open>EvalScript\<close> reports as \<open>SCRIPT_ERR_SCRIPTNUM\<close>, throws another exception,
    or aborts. Aborting is a failed assertion or an access outside a container. The last two are
    outcomes of the model so that their absence is a theorem.
\<close>

subsection \<open>Outcomes\<close>

datatype 'a exec = Ok 'a | Err ScriptError | Num_error | Thrown | Aborted

primrec exec_bind :: "'a exec \<Rightarrow> ('a \<Rightarrow> 'b exec) \<Rightarrow> 'b exec" where
  "exec_bind (Ok x) f = f x"
| "exec_bind (Err e) f = Err e"
| "exec_bind Num_error f = Num_error"
| "exec_bind Thrown f = Thrown"
| "exec_bind Aborted f = Aborted"

definition exec_assert :: "bool \<Rightarrow> 'a exec \<Rightarrow> 'a exec" where
  "exec_assert b m = (if b then m else Aborted)"

text \<open>An outcome that is neither an exception nor an abort.\<close>

primrec safe :: "'a exec \<Rightarrow> bool" where
  "safe (Ok x) = True"
| "safe (Err e) = True"
| "safe Num_error = True"
| "safe Thrown = False"
| "safe Aborted = False"

named_theorems exec_simps \<open>outcomes of sequences of operations\<close>

lemma exec_bind_Ok [exec_simps]: "exec_bind m f = Ok y \<longleftrightarrow> (\<exists>x. m = Ok x \<and> f x = Ok y)"
  by (cases m) auto

lemma exec_bind_Err [exec_simps]: "exec_bind m f = Err e \<longleftrightarrow> m = Err e \<or> (\<exists>x. m = Ok x \<and> f x = Err e)"
  by (cases m) auto

lemma exec_bind_assoc: "exec_bind (exec_bind m f) g = exec_bind m (\<lambda>x. exec_bind (f x) g)"
  by (cases m) simp_all

lemma exec_bind_cong [fundef_cong]:
  "m = m' \<Longrightarrow> (\<And>x. m' = Ok x \<Longrightarrow> f x = f' x) \<Longrightarrow> exec_bind m f = exec_bind m' f'"
  by (cases m') auto

lemma safe_bind [intro]: "safe m \<Longrightarrow> (\<And>x. m = Ok x \<Longrightarrow> safe (f x)) \<Longrightarrow> safe (exec_bind m f)"
  by (cases m) auto

lemma exec_assert_simps [exec_simps, simp]:
  "exec_assert True m = m" "exec_assert False m = Aborted"
  by (simp_all add: exec_assert_def)

subsection \<open>Truth values\<close>

fun CastToBool :: "byte list \<Rightarrow> bool" where
  "CastToBool [] = False"
| "CastToBool (b # bs) =
     (if b \<noteq> 0 then (if bs = [] \<and> b = 0x80 then False else True) else CastToBool bs)"

subsection \<open>Keys and signatures\<close>

definition IsCompressedOrUncompressedPubKey :: "byte list \<Rightarrow> bool" where
  "IsCompressedOrUncompressedPubKey vchPubKey =
     (if length vchPubKey < 33 then False
      else if vchPubKey ! 0 = 0x04 then length vchPubKey = 65
      else if vchPubKey ! 0 = 0x02 \<or> vchPubKey ! 0 = 0x03 then length vchPubKey = 33
      else False)"

definition IsCompressedPubKey :: "byte list \<Rightarrow> bool" where
  "IsCompressedPubKey vchPubKey =
     (if length vchPubKey \<noteq> 33 then False
      else if vchPubKey ! 0 \<noteq> 0x02 \<and> vchPubKey ! 0 \<noteq> 0x03 then False else True)"

definition IsValidSignatureEncoding :: "byte list \<Rightarrow> bool" where
  "IsValidSignatureEncoding sig =
     (if length sig < 9 then False
      else if length sig > 73 then False
      else if sig ! 0 \<noteq> 0x30 then False
      else if unat (sig ! 1) \<noteq> length sig - 3 then False
      else
       (let lenR = unat (sig ! 3) in
        if 5 + lenR \<ge> length sig then False
        else
         (let lenS = unat (sig ! (5 + lenR)) in
          if lenR + lenS + 7 \<noteq> length sig then False
          else if sig ! 2 \<noteq> 0x02 then False
          else if lenR = 0 then False
          else if sig ! 4 AND 0x80 \<noteq> 0 then False
          else if lenR > 1 \<and> sig ! 4 = 0x00 \<and> \<not> (sig ! 5 AND 0x80 \<noteq> 0) then False
          else if sig ! (lenR + 4) \<noteq> 0x02 then False
          else if lenS = 0 then False
          else if sig ! (lenR + 6) AND 0x80 \<noteq> 0 then False
          else if lenS > 1 \<and> sig ! (lenR + 6) = 0x00 \<and> \<not> (sig ! (lenR + 7) AND 0x80 \<noteq> 0) then False
          else True)))"

text \<open>A check that returns false sets an error: the result is that error.\<close>

definition IsLowDERSignature :: "secp256k1 \<Rightarrow> byte list \<Rightarrow> ScriptError option" where
  "IsLowDERSignature secp vchSig =
     (if \<not> IsValidSignatureEncoding vchSig then Some SCRIPT_ERR_SIG_DER
      else if \<not> CheckLowS secp (take (length vchSig - 1) vchSig) then Some SCRIPT_ERR_SIG_HIGH_S
      else None)"

definition IsDefinedHashtypeSignature :: "byte list \<Rightarrow> bool" where
  "IsDefinedHashtypeSignature vchSig =
     (if length vchSig = 0 then False
      else
       (let nHashType = vchSig ! (length vchSig - 1) AND NOT 0x80 in
        if nHashType < 1 \<or> nHashType > 3 then False else True))"

definition CheckSignatureEncoding ::
  "secp256k1 \<Rightarrow> byte list \<Rightarrow> script_verify_flags \<Rightarrow> ScriptError option" where
  "CheckSignatureEncoding secp vchSig flags =
     (if length vchSig = 0 then None
      else if (flag_set flags SCRIPT_VERIFY_DERSIG \<or> flag_set flags SCRIPT_VERIFY_LOW_S \<or>
          flag_set flags SCRIPT_VERIFY_STRICTENC) \<and> \<not> IsValidSignatureEncoding vchSig
        then Some SCRIPT_ERR_SIG_DER
      else if flag_set flags SCRIPT_VERIFY_LOW_S \<and> IsLowDERSignature secp vchSig \<noteq> None
        then IsLowDERSignature secp vchSig
      else if flag_set flags SCRIPT_VERIFY_STRICTENC \<and> \<not> IsDefinedHashtypeSignature vchSig
        then Some SCRIPT_ERR_SIG_HASHTYPE
      else None)"

datatype SigVersion = BASE | WITNESS_V0 | TAPROOT | TAPSCRIPT

definition CheckPubKeyEncoding ::
  "byte list \<Rightarrow> script_verify_flags \<Rightarrow> SigVersion \<Rightarrow> ScriptError option" where
  "CheckPubKeyEncoding vchPubKey flags sigversion =
     (if flag_set flags SCRIPT_VERIFY_STRICTENC \<and> \<not> IsCompressedOrUncompressedPubKey vchPubKey
        then Some SCRIPT_ERR_PUBKEYTYPE
      else if flag_set flags SCRIPT_VERIFY_WITNESS_PUBKEYTYPE \<and> sigversion = WITNESS_V0 \<and>
          \<not> IsCompressedPubKey vchPubKey
        then Some SCRIPT_ERR_WITNESS_PUBKEYTYPE
      else None)"

subsection \<open>Removing a signature from a script\<close>

text \<open>The inner loop: whole occurrences of the pattern at the position, and how many were skipped.\<close>

function skip_matches :: "byte list \<Rightarrow> byte list \<Rightarrow> nat \<Rightarrow> nat \<Rightarrow> nat \<times> nat" where
  "skip_matches script b pc nFound =
     (if b \<noteq> [] \<and> length script - pc \<ge> length b \<and> take (length b) (drop pc script) = b
      then skip_matches script b (pc + length b) (nFound + 1) else (pc, nFound))"
  by auto
termination
proof (relation "measure (\<lambda>(script, b, pc, nFound). length script - pc)")
  fix script b :: "byte list" and pc nFound :: nat
  assume "b \<noteq> [] \<and> length script - pc \<ge> length b \<and> take (length b) (drop pc script) = b"
  then have "0 < length b" "length b \<le> length script - pc" by simp_all
  then show "((script, b, pc + length b, nFound + 1), script, b, pc, nFound)
      \<in> measure (\<lambda>(script, b, pc, nFound). length script - pc)"
    unfolding in_measure prod.case by linarith
qed simp

declare skip_matches.simps [simp del]

lemma skip_matches_le: "skip_matches script b pc n = (pc', n') \<Longrightarrow> pc \<le> pc' \<and> n \<le> n'"
proof (induction script b pc n rule: skip_matches.induct)
  case (1 script b pc n)
  show ?case
  proof (cases "b \<noteq> [] \<and> length script - pc \<ge> length b \<and> take (length b) (drop pc script) = b")
    case True
    then show ?thesis using 1 by (auto simp: skip_matches.simps [of script b pc n])
  next
    case False
    then show ?thesis using 1(2) by (simp only: skip_matches.simps [of script b pc n] if_False prod.inject) simp
  qed
qed

lemma delete_step:
  assumes "skip_matches script b pc n = (pc', n')" and "GetScriptOp script pc' = (True, pc'', opcode, data)"
  shows "length script - pc'' < length script - pc"
proof -
  have "pc' < length script" using assms(2) GetScriptOp_end [of script pc'] by (cases "length script \<le> pc'") auto
  with GetScriptOp_bounds [OF assms(2) this] skip_matches_le [OF assms(1)] show ?thesis by linarith
qed

text \<open>
  The outer loop copies what lies between matches. It ends at the first opcode that cannot be read;
  the result is the copied bytes, the start of the part not yet copied and the count.
\<close>

function delete_loop ::
  "byte list \<Rightarrow> byte list \<Rightarrow> byte list \<Rightarrow> nat \<Rightarrow> nat \<Rightarrow> nat \<Rightarrow> byte list \<times> nat \<times> nat" where
  "delete_loop script b result pc2 pc nFound =
     (case skip_matches script b pc nFound of (pc', nFound') \<Rightarrow>
        case GetScriptOp script pc' of (ok, pc'', opcode, data) \<Rightarrow>
          if ok then delete_loop script b (result @ take (pc - pc2) (drop pc2 script)) pc' pc'' nFound'
          else (result @ take (pc - pc2) (drop pc2 script), pc', nFound'))"
  by auto
termination
  by (relation "measure (\<lambda>(script, b, result, pc2, pc, nFound). length script - pc)")
    (auto simp: delete_step [OF sym sym])

declare delete_loop.simps [simp del]

definition FindAndDelete :: "byte list \<Rightarrow> byte list \<Rightarrow> byte list \<times> nat" where
  "FindAndDelete script b =
     (if b = [] then (script, 0)
      else (case delete_loop script b [] 0 0 0 of (result, pc2, nFound) \<Rightarrow>
        if nFound > 0 then (result @ drop pc2 script, nFound) else (script, nFound)))"

subsection \<open>The condition stack\<close>

record ConditionStack =
  m_stack_size :: u32
  m_first_false_pos :: u32

definition NO_FALSE :: u32 where
  "NO_FALSE = 0xffffffff"

definition cond_new :: ConditionStack where
  "cond_new = \<lparr>m_stack_size = 0, m_first_false_pos = NO_FALSE\<rparr>"

definition cond_empty :: "ConditionStack \<Rightarrow> bool" where
  "cond_empty c \<longleftrightarrow> m_stack_size c = 0"

definition all_true :: "ConditionStack \<Rightarrow> bool" where
  "all_true c \<longleftrightarrow> m_first_false_pos c = NO_FALSE"

definition cond_push_back :: "bool \<Rightarrow> ConditionStack \<Rightarrow> ConditionStack" where
  "cond_push_back f c =
     (let c' = (if m_first_false_pos c = NO_FALSE \<and> \<not> f
        then c\<lparr>m_first_false_pos := m_stack_size c\<rparr> else c)
      in c'\<lparr>m_stack_size := m_stack_size c' + 1\<rparr>)"

definition cond_pop_back :: "ConditionStack \<Rightarrow> ConditionStack exec" where
  "cond_pop_back c =
     exec_assert (m_stack_size c > 0)
       (let c' = c\<lparr>m_stack_size := m_stack_size c - 1\<rparr> in
        Ok (if m_first_false_pos c' = m_stack_size c' then c'\<lparr>m_first_false_pos := NO_FALSE\<rparr> else c'))"

definition toggle_top :: "ConditionStack \<Rightarrow> ConditionStack exec" where
  "toggle_top c =
     exec_assert (m_stack_size c > 0)
       (Ok (if m_first_false_pos c = NO_FALSE then c\<lparr>m_first_false_pos := m_stack_size c - 1\<rparr>
         else if m_first_false_pos c = m_stack_size c - 1 then c\<lparr>m_first_false_pos := NO_FALSE\<rparr>
         else c))"

subsection \<open>What the condition stack stands for\<close>

text \<open>
  The booleans of the open conditionals, outermost first. The two counters are determined by them;
  as long as the counters do not wrap, every operation is the obvious one on the list.
\<close>

definition cond_of :: "bool list \<Rightarrow> ConditionStack" where
  "cond_of bs =
     \<lparr>m_stack_size = of_nat (length bs),
      m_first_false_pos = (if list_all id bs then NO_FALSE else of_nat (length (takeWhile id bs)))\<rparr>"

lemma of_nat_u32_eq: "m < 2 ^ 32 \<Longrightarrow> n < 2 ^ 32 \<Longrightarrow> (of_nat m :: u32) = of_nat n \<longleftrightarrow> m = n"
proof
  assume m: "m < 2 ^ 32" and n: "n < 2 ^ 32" and e: "(of_nat m :: u32) = of_nat n"
  have "unat (of_nat m :: u32) = m" by (rule unat_of_nat_small) (use m in simp)
  moreover have "unat (of_nat n :: u32) = n" by (rule unat_of_nat_small) (use n in simp)
  ultimately show "m = n" using e by metis
qed (simp only:)

lemma of_nat_u32_pos: "n < 2 ^ 32 - 1 \<Longrightarrow> 0 < n \<Longrightarrow> (0 :: u32) < of_nat n"
proof -
  assume n: "n < 2 ^ 32 - 1" "0 < n"
  then have "n < 2 ^ 32" by linarith
  then have "(of_nat n :: u32) = of_nat 0 \<longleftrightarrow> n = 0" by (rule of_nat_u32_eq) simp
  with n show ?thesis by (simp only: word_gt_0 of_nat_0) simp
qed

lemma no_false_of_nat: "NO_FALSE = of_nat (2 ^ 32 - 1)"
  by (simp add: NO_FALSE_def)

lemma of_nat_no_false: "n < 2 ^ 32 - 1 \<Longrightarrow> (of_nat n :: u32) \<noteq> NO_FALSE"
  unfolding no_false_of_nat by (subst of_nat_u32_eq) auto

lemma first_false_less: "\<not> list_all id bs \<Longrightarrow> length (takeWhile id bs) < length bs"
  by (induction bs) auto

lemma first_false_word:
  assumes "length cs < 2 ^ 32 - 1" and "\<not> list_all id cs"
  shows "(of_nat (length (takeWhile id cs)) :: u32) \<noteq> of_nat (length cs)"
    and "(of_nat (length (takeWhile id cs)) :: u32) \<noteq> NO_FALSE"
proof -
  have l: "length (takeWhile id cs) < length cs" using assms(2) by (rule first_false_less)
  then have "length (takeWhile id cs) < 2 ^ 32" "length cs < 2 ^ 32" using assms(1) by linarith+
  from of_nat_u32_eq [OF this] l show "(of_nat (length (takeWhile id cs)) :: u32) \<noteq> of_nat (length cs)" by simp
  show "(of_nat (length (takeWhile id cs)) :: u32) \<noteq> NO_FALSE"
    using l assms(1) by (intro of_nat_no_false) linarith
qed

lemma takeWhile_snoc: "takeWhile P (xs @ [x]) = (if list_all P xs then (if P x then xs @ [x] else xs) else takeWhile P xs)"
  by (induction xs) auto

lemma all_true_cond_of: "length bs < 2 ^ 32 \<Longrightarrow> all_true (cond_of bs) \<longleftrightarrow> list_all id bs"
  using first_false_less [of bs] of_nat_no_false [of "length (takeWhile id bs)"]
  by (auto simp: all_true_def cond_of_def)

lemma cond_empty_cond_of: "length bs < 2 ^ 32 \<Longrightarrow> cond_empty (cond_of bs) \<longleftrightarrow> bs = []"
  using of_nat_u32_eq [of "length bs" 0] by (simp add: cond_empty_def cond_of_def)

lemma cond_new_cond_of: "cond_new = cond_of []"
  by (simp add: cond_new_def cond_of_def)

theorem cond_push_back_list: "length bs < 2 ^ 32 - 1 \<Longrightarrow> cond_push_back f (cond_of bs) = cond_of (bs @ [f])"
  using first_false_less [of bs] of_nat_no_false [of "length (takeWhile id bs)"]
  by (auto simp: cond_push_back_def cond_of_def Let_def takeWhile_snoc)

theorem cond_pop_back_list:
  assumes "length bs < 2 ^ 32 - 1" and "bs \<noteq> []"
  shows "cond_pop_back (cond_of bs) = Ok (cond_of (butlast bs))"
proof -
  obtain cs b where bs: "bs = cs @ [b]" using assms(2) by (cases bs rule: rev_cases) auto
  have len: "length cs < 2 ^ 32 - 1" using assms(1) bs by simp
  have pos: "(0 :: u32) < of_nat (length bs)" using assms by (intro of_nat_u32_pos) simp_all
  note f = first_false_word [OF len]
  have n: "NO_FALSE \<noteq> of_nat (length cs)" using of_nat_no_false [OF len] by auto
  show ?thesis using pos f n
    by (auto simp: bs cond_pop_back_def cond_of_def Let_def takeWhile_snoc)
qed

theorem toggle_top_list:
  assumes "length bs < 2 ^ 32 - 1" and "bs \<noteq> []"
  shows "toggle_top (cond_of bs) = Ok (cond_of (butlast bs @ [\<not> last bs]))"
proof -
  obtain cs b where bs: "bs = cs @ [b]" using assms(2) by (cases bs rule: rev_cases) auto
  have len: "length cs < 2 ^ 32 - 1" using assms(1) bs by simp
  have pos: "(0 :: u32) < of_nat (length bs)" using assms by (intro of_nat_u32_pos) simp_all
  note f = first_false_word [OF len]
  have n: "(of_nat (length cs) :: u32) \<noteq> NO_FALSE" using of_nat_no_false [OF len] .
  show ?thesis using pos f n
    by (auto simp: bs toggle_top_def cond_of_def Let_def takeWhile_snoc)
qed

end
