(* ===== verification/Sha1.thy ===== *)
theory Sha1
  imports Hash_Buffer
begin

text \<open>
  SHA-1 (\<^verbatim>\<open>crypto/sha1.cpp\<close>). The sixteen schedule variables are a list that slides by one word per
  round; a round renames the registers one place to the right.
\<close>

subsection \<open>The code\<close>

type_synonym sha1_regs = "u32 \<times> u32 \<times> u32 \<times> u32 \<times> u32"

definition sha1_f1 :: "u32 \<Rightarrow> u32 \<Rightarrow> u32 \<Rightarrow> u32" where "sha1_f1 b c d = d XOR (b AND (c XOR d))"
definition sha1_f2 :: "u32 \<Rightarrow> u32 \<Rightarrow> u32 \<Rightarrow> u32" where "sha1_f2 b c d = b XOR c XOR d"
definition sha1_f3 :: "u32 \<Rightarrow> u32 \<Rightarrow> u32 \<Rightarrow> u32" where "sha1_f3 b c d = (b AND c) OR (d AND (b OR c))"

definition sha1_left :: "u32 \<Rightarrow> u32" where
  "sha1_left x = push_bit 1 x OR drop_bit 31 x"

definition sha1_Initialize :: sha1_regs where
  "sha1_Initialize = (0x67452301, 0xEFCDAB89, 0x98BADCFE, 0x10325476, 0xC3D2E1F0)"

text \<open>\<open>Round\<close> on \<open>(a, b, c, d, e)\<close>, followed by the renaming of the registers for the next call.\<close>

definition sha1_Round :: "(u32 \<Rightarrow> u32 \<Rightarrow> u32 \<Rightarrow> u32) \<Rightarrow> u32 \<Rightarrow> u32 \<Rightarrow> sha1_regs \<Rightarrow> sha1_regs" where
  "sha1_Round f k w s =
     (case s of (a, b, c, d, e) \<Rightarrow>
        (e + ((push_bit 5 a OR drop_bit 27 a) + f b c d + k + w), a, push_bit 30 b OR drop_bit 2 b, c, d))"

text \<open>The function and the constant of each of the eighty rounds.\<close>

definition sha1_round_functions :: "((u32 \<Rightarrow> u32 \<Rightarrow> u32 \<Rightarrow> u32) \<times> u32) list" where
  "sha1_round_functions =
     replicate 20 (sha1_f1, 0x5A827999) @ replicate 20 (sha1_f2, 0x6ED9EBA1) @
     replicate 20 (sha1_f3, 0x8F1BBCDC) @ replicate 20 (sha1_f2, 0xCA62C1D6)"

definition sha1_slide :: "u32 list \<Rightarrow> u32 list" where
  "sha1_slide ws = tl ws @ [sha1_left (hd ws XOR ws ! 13 XOR ws ! 8 XOR ws ! 2)]"

fun sha1_rounds ::
  "((u32 \<Rightarrow> u32 \<Rightarrow> u32 \<Rightarrow> u32) \<times> u32) list \<Rightarrow> u32 list \<Rightarrow> sha1_regs \<Rightarrow> sha1_regs" where
  "sha1_rounds [] ws s = s"
| "sha1_rounds ((f, k) # later) ws s = sha1_rounds later (sha1_slide ws) (sha1_Round f k (hd ws) s)"

definition sha1_Transform :: "sha1_regs \<Rightarrow> byte list \<Rightarrow> sha1_regs" where
  "sha1_Transform s chunk =
     (case s of (s0, s1, s2, s3, s4) \<Rightarrow>
      case sha1_rounds sha1_round_functions (chunk_words chunk) s of (a, b, c, d, e) \<Rightarrow>
        (s0 + a, s1 + b, s2 + c, s3 + d, s4 + e))"

definition CSHA1 :: "byte list \<Rightarrow> sha1_regs hasher" where
  "CSHA1 garbage = \<lparr>hasher_s = sha1_Initialize, hasher_buf = garbage, hasher_bytes = 0\<rparr>"

definition sha1_Write :: "sha1_regs hasher \<Rightarrow> byte list \<Rightarrow> sha1_regs hasher" where
  "sha1_Write c data = hasher_Write sha1_Transform c data"

definition sha1_output :: "sha1_regs \<Rightarrow> byte list" where
  "sha1_output s = (case s of (s0, s1, s2, s3, s4) \<Rightarrow>
     WriteBE32 s0 @ WriteBE32 s1 @ WriteBE32 s2 @ WriteBE32 s3 @ WriteBE32 s4)"

definition sha1_Finalize :: "sha1_regs hasher \<Rightarrow> byte list" where
  "sha1_Finalize c = sha1_output (hasher_s (hasher_pad sha1_Transform WriteBE64 c))"

definition sha1_Reset :: "sha1_regs hasher \<Rightarrow> sha1_regs hasher" where
  "sha1_Reset c = c\<lparr>hasher_bytes := 0, hasher_s := sha1_Initialize\<rparr>"

subsection \<open>The hash of a message\<close>

definition sha1 :: "byte list \<Rightarrow> byte list" where
  "sha1 xs = sha1_output (hasher_chunks sha1_Transform sha1_Initialize (xs @ hash_padding WriteBE64 xs))"

definition sha1_written :: "sha1_regs hasher \<Rightarrow> byte list \<Rightarrow> bool" where
  "sha1_written = hasher_written sha1_Transform sha1_Initialize"

lemma sha1_written_new: "length garbage = 64 \<Longrightarrow> sha1_written (CSHA1 garbage) []"
  by (simp add: sha1_written_def CSHA1_def hasher_written_new)

lemma sha1_Write_written: "sha1_written c xs \<Longrightarrow> sha1_written (sha1_Write c ys) (xs @ ys)"
  by (simp add: sha1_written_def sha1_Write_def hasher_Write_written)

lemma sha1_written_reset: "sha1_written c xs \<Longrightarrow> sha1_written (sha1_Reset c) []"
  by (simp add: sha1_written_def sha1_Reset_def hasher_written_def)

theorem sha1_stream: "sha1_written c xs \<Longrightarrow> sha1_Finalize c = sha1 xs"
  by (simp add: sha1_written_def sha1_Finalize_def sha1_def hasher_pad_written)

lemma length_sha1 [simp]: "length (sha1 xs) = 20"
  by (simp add: sha1_def sha1_output_def WriteBE32_def split: prod.splits)

end
