(* ===== verification/Eval_Script.thy ===== *)
theory Eval_Script
  imports Script_Encoding Sha1
begin

text \<open>
  The script interpreter: \<open>EvalScript\<close> and the signature operations of \<^verbatim>\<open>script/interpreter.cpp\<close>.

  \<^descr> State. The local variables of \<open>EvalScript\<close> and the objects it was given by reference are the
    fields of \<open>eval_state\<close>; the script position is an argument of the loop. A stack is a list with
    the top of the stack first, so \<open>stacktop stack i\<close> is the source's \<open>stacktop(-i)\<close>.
  \<^descr> Checker. The virtual functions of \<open>BaseSignatureChecker\<close> are the fields of a record. They may
    change the state of the checker (a cache), which is threaded through with type \<open>'c\<close>.
  \<^descr> Outcomes. Reading outside a stack throws, as \<open>vector::at\<close> and \<open>popstack\<close> do; a failed assertion,
    an invalid iterator and signed overflow abort.
\<close>

subsection \<open>State\<close>

record ScriptExecutionData =
  m_tapleaf_hash_init :: bool
  m_tapleaf_hash :: "byte list"
  m_codeseparator_pos_init :: bool
  m_codeseparator_pos :: u32
  m_annex_init :: bool
  m_annex_present :: bool
  m_annex_hash :: "byte list"
  m_validation_weight_left_init :: bool
  m_validation_weight_left :: i64
  m_output_hash :: "byte list option"

text \<open>
  A new object. The fields guarded by a flag that is not set are not initialised; some value stands
  for them, and the code asserts the flag before it reads one.
\<close>

definition new_execdata :: ScriptExecutionData where
  "new_execdata =
     \<lparr>m_tapleaf_hash_init = False, m_tapleaf_hash = replicate 32 0, m_codeseparator_pos_init = False,
      m_codeseparator_pos = 0, m_annex_init = False, m_annex_present = False, m_annex_hash = replicate 32 0,
      m_validation_weight_left_init = False, m_validation_weight_left = 0, m_output_hash = None\<rparr>"

text \<open>
  The result of the Schnorr check: a failure with the error it set, if any, or success with the
  changed execution data.
\<close>

record 'c BaseSignatureChecker =
  CheckECDSASignature :: "byte list \<Rightarrow> byte list \<Rightarrow> byte list \<Rightarrow> SigVersion \<Rightarrow> 'c \<Rightarrow> (bool \<times> 'c) exec"
  CheckSchnorrSignature ::
    "byte list \<Rightarrow> byte list \<Rightarrow> SigVersion \<Rightarrow> ScriptExecutionData \<Rightarrow> 'c \<Rightarrow>
     (ScriptError option + ScriptExecutionData \<times> 'c) exec"
  CheckLockTime :: "i64 \<Rightarrow> bool"
  CheckSequence :: "i64 \<Rightarrow> bool"

record 'c eval_env =
  env_secp :: secp256k1
  env_script :: "byte list"
  env_flags :: script_verify_flags
  env_checker :: "'c BaseSignatureChecker"
  env_sigversion :: SigVersion

record 'c eval_state =
  ev_stack :: "byte list list"
  ev_altstack :: "byte list list"
  ev_vfExec :: ConditionStack
  ev_pbegincodehash :: nat
  ev_nOpCount :: nat
  ev_opcode_pos :: u32
  ev_execdata :: ScriptExecutionData
  ev_checker :: 'c

abbreviation env_flag :: "'c eval_env \<Rightarrow> script_verify_flag_name \<Rightarrow> bool" where
  "env_flag env f \<equiv> flag_set (env_flags env) f"

abbreviation fRequireMinimal :: "'c eval_env \<Rightarrow> bool" where
  "fRequireMinimal env \<equiv> env_flag env SCRIPT_VERIFY_MINIMALDATA"

subsection \<open>Stacks and numbers\<close>

definition stacktop :: "'a list \<Rightarrow> nat \<Rightarrow> 'a exec" where
  "stacktop stack i = (if 1 \<le> i \<and> i \<le> length stack then Ok (stack ! (i - 1)) else Thrown)"

fun popstack :: "'a list \<Rightarrow> 'a list exec" where
  "popstack [] = Thrown"
| "popstack (x # xs) = Ok xs"

text \<open>\<open>stack.erase(stack.end()-i, stack.end()-j)\<close>.\<close>

definition stack_erase :: "'a list \<Rightarrow> nat \<Rightarrow> nat \<Rightarrow> 'a list exec" where
  "stack_erase stack i j = exec_assert (j \<le> i \<and> i \<le> length stack) (Ok (take j stack @ drop i stack))"

definition stack_swap :: "'a list \<Rightarrow> nat \<Rightarrow> nat \<Rightarrow> 'a list exec" where
  "stack_swap stack i j =
     exec_bind (stacktop stack i) (\<lambda>a. exec_bind (stacktop stack j) (\<lambda>b.
       Ok (stack[i - 1 := b, j - 1 := a])))"

definition need :: "nat \<Rightarrow> 'a list \<Rightarrow> 'b exec \<Rightarrow> 'b exec" where
  "need n stack m = (if length stack < n then Err SCRIPT_ERR_INVALID_STACK_OPERATION else m)"

definition CScriptNum :: "byte list \<Rightarrow> bool \<Rightarrow> nat \<Rightarrow> i64 exec" where
  "CScriptNum vch minimal nMaxNumSize =
     (case script_num vch minimal nMaxNumSize of None \<Rightarrow> Num_error | Some n \<Rightarrow> Ok n)"

definition num_add_assign :: "i64 \<Rightarrow> i64 \<Rightarrow> i64 exec" where
  "num_add_assign m_value rhs =
     exec_assert (rhs = 0 \<or> (0 <s rhs \<and> m_value \<le>s 0x7fffffffffffffff - rhs) \<or>
         (rhs <s 0 \<and> 0x8000000000000000 - rhs \<le>s m_value)) (Ok (m_value + rhs))"

definition num_sub_assign :: "i64 \<Rightarrow> i64 \<Rightarrow> i64 exec" where
  "num_sub_assign m_value rhs =
     exec_assert (rhs = 0 \<or> (0 <s rhs \<and> 0x8000000000000000 + rhs \<le>s m_value) \<or>
         (rhs <s 0 \<and> m_value \<le>s 0x7fffffffffffffff + rhs)) (Ok (m_value - rhs))"

definition num_negate :: "i64 \<Rightarrow> i64 exec" where
  "num_negate m_value = exec_assert (m_value \<noteq> 0x8000000000000000) (Ok (- m_value))"

definition num_add :: "i64 \<Rightarrow> i64 \<Rightarrow> i64 exec" where
  "num_add a b = exec_assert (sint (a + b) = sint a + sint b) (Ok (a + b))"

definition num_sub :: "i64 \<Rightarrow> i64 \<Rightarrow> i64 exec" where
  "num_sub a b = exec_assert (sint (a - b) = sint a - sint b) (Ok (a - b))"

definition vchFalse :: "byte list" where "vchFalse = []"
definition vchTrue :: "byte list" where "vchTrue = [1]"

definition vch_bool :: "bool \<Rightarrow> byte list" where
  "vch_bool b = (if b then vchTrue else vchFalse)"

subsection \<open>Operations on the stack alone\<close>

definition eval_pick_roll :: "byte \<Rightarrow> bool \<Rightarrow> byte list list \<Rightarrow> byte list list exec" where
  "eval_pick_roll opcode minimal stack =
     need 2 stack (exec_bind (stacktop stack 1) (\<lambda>top. exec_bind (CScriptNum top minimal 4) (\<lambda>bn.
       exec_bind (popstack stack) (\<lambda>stack.
         let n = getint bn in
         if n < 0 \<or> n \<ge> int (length stack) then Err SCRIPT_ERR_INVALID_STACK_OPERATION
         else exec_bind (stacktop stack (nat n + 1)) (\<lambda>vch.
           exec_bind (if opcode = OP_ROLL then stack_erase stack (nat n + 1) (nat n) else Ok stack) (\<lambda>stack.
             Ok (vch # stack)))))))"

definition eval_stack_op :: "byte \<Rightarrow> bool \<Rightarrow> byte list list \<Rightarrow> byte list list exec" where
  "eval_stack_op opcode minimal stack =
     (if opcode = OP_2DROP then need 2 stack (exec_bind (popstack stack) popstack)
      else if opcode = OP_2DUP then
        need 2 stack (exec_bind (stacktop stack 2) (\<lambda>vch1. exec_bind (stacktop stack 1) (\<lambda>vch2.
          Ok (vch2 # vch1 # stack))))
      else if opcode = OP_3DUP then
        need 3 stack (exec_bind (stacktop stack 3) (\<lambda>vch1. exec_bind (stacktop stack 2) (\<lambda>vch2.
          exec_bind (stacktop stack 1) (\<lambda>vch3. Ok (vch3 # vch2 # vch1 # stack)))))
      else if opcode = OP_2OVER then
        need 4 stack (exec_bind (stacktop stack 4) (\<lambda>vch1. exec_bind (stacktop stack 3) (\<lambda>vch2.
          Ok (vch2 # vch1 # stack))))
      else if opcode = OP_2ROT then
        need 6 stack (exec_bind (stacktop stack 6) (\<lambda>vch1. exec_bind (stacktop stack 5) (\<lambda>vch2.
          exec_bind (stack_erase stack 6 4) (\<lambda>stack. Ok (vch2 # vch1 # stack)))))
      else if opcode = OP_2SWAP then
        need 4 stack (exec_bind (stack_swap stack 4 2) (\<lambda>stack. stack_swap stack 3 1))
      else if opcode = OP_IFDUP then
        need 1 stack (exec_bind (stacktop stack 1) (\<lambda>vch.
          Ok (if CastToBool vch then vch # stack else stack)))
      else if opcode = OP_DEPTH then Ok (serialize_num (of_nat (length stack)) # stack)
      else if opcode = OP_DROP then need 1 stack (popstack stack)
      else if opcode = OP_DUP then need 1 stack (exec_bind (stacktop stack 1) (\<lambda>vch. Ok (vch # stack)))
      else if opcode = OP_NIP then need 2 stack (stack_erase stack 2 1)
      else if opcode = OP_OVER then need 2 stack (exec_bind (stacktop stack 2) (\<lambda>vch. Ok (vch # stack)))
      else if opcode = OP_PICK \<or> opcode = OP_ROLL then eval_pick_roll opcode minimal stack
      else if opcode = OP_ROT then
        need 3 stack (exec_bind (stack_swap stack 3 2) (\<lambda>stack. stack_swap stack 2 1))
      else if opcode = OP_SWAP then need 2 stack (stack_swap stack 2 1)
      else if opcode = OP_TUCK then
        need 2 stack (exec_bind (stacktop stack 1) (\<lambda>vch.
          exec_assert (2 \<le> length stack) (Ok (take 2 stack @ vch # drop 2 stack))))
      else
        need 1 stack (exec_bind (stacktop stack 1) (\<lambda>vch. Ok (serialize_num (of_nat (length vch)) # stack))))"

definition eval_equal :: "byte \<Rightarrow> byte list list \<Rightarrow> byte list list exec" where
  "eval_equal opcode stack =
     need 2 stack (exec_bind (stacktop stack 2) (\<lambda>vch1. exec_bind (stacktop stack 1) (\<lambda>vch2.
       let fEqual = (vch1 = vch2) in
       exec_bind (popstack stack) (\<lambda>stack. exec_bind (popstack stack) (\<lambda>stack.
         let stack = vch_bool fEqual # stack in
         if opcode = OP_EQUALVERIFY then
           (if fEqual then popstack stack else Err SCRIPT_ERR_EQUALVERIFY)
         else Ok stack)))))"

definition unary_num :: "byte \<Rightarrow> i64 \<Rightarrow> i64 exec" where
  "unary_num opcode bn =
     (if opcode = OP_1ADD then num_add_assign bn 1
      else if opcode = OP_1SUB then num_sub_assign bn 1
      else if opcode = OP_NEGATE then num_negate bn
      else if opcode = OP_ABS then (if bn <s 0 then num_negate bn else Ok bn)
      else if opcode = OP_NOT then Ok (of_bool (bn = 0))
      else if opcode = OP_0NOTEQUAL then Ok (of_bool (bn \<noteq> 0))
      else Aborted)"

definition eval_unary :: "byte \<Rightarrow> bool \<Rightarrow> byte list list \<Rightarrow> byte list list exec" where
  "eval_unary opcode minimal stack =
     need 1 stack (exec_bind (stacktop stack 1) (\<lambda>top. exec_bind (CScriptNum top minimal 4) (\<lambda>bn.
       exec_bind (unary_num opcode bn) (\<lambda>bn. exec_bind (popstack stack) (\<lambda>stack.
         Ok (serialize_num bn # stack))))))"

definition binary_num :: "byte \<Rightarrow> i64 \<Rightarrow> i64 \<Rightarrow> i64 exec" where
  "binary_num opcode bn1 bn2 =
     (if opcode = OP_ADD then num_add bn1 bn2
      else if opcode = OP_SUB then num_sub bn1 bn2
      else if opcode = OP_BOOLAND then Ok (of_bool (bn1 \<noteq> 0 \<and> bn2 \<noteq> 0))
      else if opcode = OP_BOOLOR then Ok (of_bool (bn1 \<noteq> 0 \<or> bn2 \<noteq> 0))
      else if opcode = OP_NUMEQUAL then Ok (of_bool (bn1 = bn2))
      else if opcode = OP_NUMEQUALVERIFY then Ok (of_bool (bn1 = bn2))
      else if opcode = OP_NUMNOTEQUAL then Ok (of_bool (bn1 \<noteq> bn2))
      else if opcode = OP_LESSTHAN then Ok (of_bool (bn1 <s bn2))
      else if opcode = OP_GREATERTHAN then Ok (of_bool (bn2 <s bn1))
      else if opcode = OP_LESSTHANOREQUAL then Ok (of_bool (bn1 \<le>s bn2))
      else if opcode = OP_GREATERTHANOREQUAL then Ok (of_bool (bn2 \<le>s bn1))
      else if opcode = OP_MIN then Ok (if bn1 <s bn2 then bn1 else bn2)
      else if opcode = OP_MAX then Ok (if bn2 <s bn1 then bn1 else bn2)
      else Aborted)"

definition eval_binary :: "byte \<Rightarrow> bool \<Rightarrow> byte list list \<Rightarrow> byte list list exec" where
  "eval_binary opcode minimal stack =
     need 2 stack (exec_bind (stacktop stack 2) (\<lambda>top2. exec_bind (CScriptNum top2 minimal 4) (\<lambda>bn1.
       exec_bind (stacktop stack 1) (\<lambda>top1. exec_bind (CScriptNum top1 minimal 4) (\<lambda>bn2.
         exec_bind (binary_num opcode bn1 bn2) (\<lambda>bn.
           exec_bind (popstack stack) (\<lambda>stack. exec_bind (popstack stack) (\<lambda>stack.
             let stack = serialize_num bn # stack in
             if opcode = OP_NUMEQUALVERIFY then
               exec_bind (stacktop stack 1) (\<lambda>top.
                 if CastToBool top then popstack stack else Err SCRIPT_ERR_NUMEQUALVERIFY)
             else Ok stack))))))))"

definition eval_within :: "bool \<Rightarrow> byte list list \<Rightarrow> byte list list exec" where
  "eval_within minimal stack =
     need 3 stack (exec_bind (stacktop stack 3) (\<lambda>top3. exec_bind (CScriptNum top3 minimal 4) (\<lambda>bn1.
       exec_bind (stacktop stack 2) (\<lambda>top2. exec_bind (CScriptNum top2 minimal 4) (\<lambda>bn2.
         exec_bind (stacktop stack 1) (\<lambda>top1. exec_bind (CScriptNum top1 minimal 4) (\<lambda>bn3.
           let fValue = (bn2 \<le>s bn1 \<and> bn1 <s bn3) in
           exec_bind (popstack stack) (\<lambda>stack. exec_bind (popstack stack) (\<lambda>stack. exec_bind (popstack stack) (\<lambda>stack.
             Ok (vch_bool fValue # stack)))))))))))"

text \<open>
  The constructors of the hashers leave their buffers uninitialised. The model fixes some content;
  \<open>hashers_any_buffer\<close> shows that it does not matter.
\<close>

lemma hashers_any_buffer:
  assumes "length garbage = 64"
  shows "rmd_Finalize (rmd_Write (CRIPEMD160 garbage) vch) = rmd_Finalize (rmd_Write (CRIPEMD160 (replicate 64 0)) vch)"
    and "sha1_Finalize (sha1_Write (CSHA1 garbage) vch) = sha1_Finalize (sha1_Write (CSHA1 (replicate 64 0)) vch)"
    and "Finalize (sha_Write (CSHA256 garbage) vch) = Finalize (sha_Write (CSHA256 (replicate 64 0)) vch)"
    and "CHash160_Finalize (sha_Write (CSHA256 garbage) vch) = CHash160_Finalize (sha_Write (CSHA256 (replicate 64 0)) vch)"
    and "CHash256_Finalize (sha_Write (CSHA256 garbage) vch) = CHash256_Finalize (sha_Write (CSHA256 (replicate 64 0)) vch)"
proof -
  note sha = sha_Write_written [OF sha_written_new [OF assms], of vch]
    sha_Write_written [OF sha_written_zeros, of vch]
  show "Finalize (sha_Write (CSHA256 garbage) vch) = Finalize (sha_Write (CSHA256 (replicate 64 0)) vch)"
    by (simp add: sha256_stream [OF sha(1)] sha256_stream [OF sha(2)])
  show "CHash160_Finalize (sha_Write (CSHA256 garbage) vch) = CHash160_Finalize (sha_Write (CSHA256 (replicate 64 0)) vch)"
    by (simp add: CHash160_written [OF sha(1)] CHash160_written [OF sha(2)])
  show "CHash256_Finalize (sha_Write (CSHA256 garbage) vch) = CHash256_Finalize (sha_Write (CSHA256 (replicate 64 0)) vch)"
    by (simp add: CHash256_written [OF sha(1)] CHash256_written [OF sha(2)])
  have "length (replicate 64 (0 :: byte)) = 64" by simp
  note zeros = rmd_written_new [OF this] sha1_written_new [OF this]
  show "rmd_Finalize (rmd_Write (CRIPEMD160 garbage) vch) = rmd_Finalize (rmd_Write (CRIPEMD160 (replicate 64 0)) vch)"
    using ripemd160_stream [OF rmd_Write_written [OF rmd_written_new [OF assms], of vch]]
      ripemd160_stream [OF rmd_Write_written [OF zeros(1), of vch]] by simp
  show "sha1_Finalize (sha1_Write (CSHA1 garbage) vch) = sha1_Finalize (sha1_Write (CSHA1 (replicate 64 0)) vch)"
    using sha1_stream [OF sha1_Write_written [OF sha1_written_new [OF assms], of vch]]
      sha1_stream [OF sha1_Write_written [OF zeros(2), of vch]] by simp
qed

definition script_hash :: "byte \<Rightarrow> byte list \<Rightarrow> byte list" where
  "script_hash opcode vch =
     (if opcode = OP_RIPEMD160 then rmd_Finalize (rmd_Write (CRIPEMD160 (replicate 64 0)) vch)
      else if opcode = OP_SHA1 then sha1_Finalize (sha1_Write (CSHA1 (replicate 64 0)) vch)
      else if opcode = OP_SHA256 then Finalize (sha_Write (CSHA256 (replicate 64 0)) vch)
      else if opcode = OP_HASH160 then CHash160_Finalize (sha_Write (CSHA256 (replicate 64 0)) vch)
      else CHash256_Finalize (sha_Write (CSHA256 (replicate 64 0)) vch))"

definition eval_hash :: "byte \<Rightarrow> byte list list \<Rightarrow> byte list list exec" where
  "eval_hash opcode stack =
     need 1 stack (exec_bind (stacktop stack 1) (\<lambda>vch.
       exec_bind (popstack stack) (\<lambda>stack. Ok (script_hash opcode vch # stack))))"

subsection \<open>Signature operations\<close>

definition EvalChecksigPreTapscript ::
  "'c eval_env \<Rightarrow> byte list \<Rightarrow> byte list \<Rightarrow> 'c eval_state \<Rightarrow> (bool \<times> 'c eval_state) exec" where
  "EvalChecksigPreTapscript env vchSig vchPubKey st =
     exec_assert (env_sigversion env = BASE \<or> env_sigversion env = WITNESS_V0)
       (let scriptCode = drop (ev_pbegincodehash st) (env_script env) in
        case (if env_sigversion env = BASE then FindAndDelete scriptCode (push_data vchSig) else (scriptCode, 0)) of
          (scriptCode, found) \<Rightarrow>
            if found > 0 \<and> env_flag env SCRIPT_VERIFY_CONST_SCRIPTCODE then Err SCRIPT_ERR_SIG_FINDANDDELETE
            else (case CheckSignatureEncoding (env_secp env) vchSig (env_flags env) of
                Some e \<Rightarrow> Err e
              | None \<Rightarrow>
                (case CheckPubKeyEncoding vchPubKey (env_flags env) (env_sigversion env) of
                   Some e \<Rightarrow> Err e
                 | None \<Rightarrow>
                   exec_bind (CheckECDSASignature (env_checker env) vchSig vchPubKey scriptCode (env_sigversion env)
                       (ev_checker st)) (\<lambda>(fSuccess, c).
                     if \<not> fSuccess \<and> env_flag env SCRIPT_VERIFY_NULLFAIL \<and> length vchSig \<noteq> 0
                     then Err SCRIPT_ERR_SIG_NULLFAIL
                     else Ok (fSuccess, st\<lparr>ev_checker := c\<rparr>)))))"

text \<open>The sigops ratio test, made for every nonempty signature.\<close>

definition spend_weight :: "ScriptExecutionData \<Rightarrow> ScriptExecutionData exec" where
  "spend_weight execdata =
     exec_assert (m_validation_weight_left_init execdata)
       (let weight_left = m_validation_weight_left execdata - VALIDATION_WEIGHT_PER_SIGOP_PASSED in
        if weight_left <s 0 then Err SCRIPT_ERR_TAPSCRIPT_VALIDATION_WEIGHT
        else Ok (execdata\<lparr>m_validation_weight_left := weight_left\<rparr>))"

definition EvalChecksigTapscript ::
  "'c eval_env \<Rightarrow> byte list \<Rightarrow> byte list \<Rightarrow> 'c eval_state \<Rightarrow> (bool \<times> 'c eval_state) exec" where
  "EvalChecksigTapscript env sig pubkey st =
     exec_assert (env_sigversion env = TAPSCRIPT)
       (let success = (sig \<noteq> []) in
        exec_bind (if success then spend_weight (ev_execdata st) else Ok (ev_execdata st)) (\<lambda>execdata.
          if length pubkey = 0 then Err SCRIPT_ERR_TAPSCRIPT_EMPTY_PUBKEY
          else if length pubkey = 32 then
            (if success then
               exec_bind (CheckSchnorrSignature (env_checker env) sig pubkey (env_sigversion env) execdata (ev_checker st))
                 (\<lambda>r. case r of
                    Inl e \<Rightarrow> Err (case e of None \<Rightarrow> SCRIPT_ERR_UNKNOWN_ERROR | Some e \<Rightarrow> e)
                  | Inr (execdata, c) \<Rightarrow> Ok (success, st\<lparr>ev_execdata := execdata, ev_checker := c\<rparr>))
             else Ok (success, st\<lparr>ev_execdata := execdata\<rparr>))
          else if env_flag env SCRIPT_VERIFY_DISCOURAGE_UPGRADABLE_PUBKEYTYPE
            then Err SCRIPT_ERR_DISCOURAGE_UPGRADABLE_PUBKEYTYPE
          else Ok (success, st\<lparr>ev_execdata := execdata\<rparr>)))"

definition EvalChecksig ::
  "'c eval_env \<Rightarrow> byte list \<Rightarrow> byte list \<Rightarrow> 'c eval_state \<Rightarrow> (bool \<times> 'c eval_state) exec" where
  "EvalChecksig env sig pubkey st =
     (case env_sigversion env of
        BASE \<Rightarrow> EvalChecksigPreTapscript env sig pubkey st
      | WITNESS_V0 \<Rightarrow> EvalChecksigPreTapscript env sig pubkey st
      | TAPSCRIPT \<Rightarrow> EvalChecksigTapscript env sig pubkey st
      | TAPROOT \<Rightarrow> Aborted)"

definition eval_checksig :: "'c eval_env \<Rightarrow> byte \<Rightarrow> 'c eval_state \<Rightarrow> 'c eval_state exec" where
  "eval_checksig env opcode st =
     need 2 (ev_stack st) (exec_bind (stacktop (ev_stack st) 2) (\<lambda>vchSig.
       exec_bind (stacktop (ev_stack st) 1) (\<lambda>vchPubKey.
         exec_bind (EvalChecksig env vchSig vchPubKey st) (\<lambda>(fSuccess, st).
           exec_bind (popstack (ev_stack st)) (\<lambda>stack. exec_bind (popstack stack) (\<lambda>stack.
             let stack = vch_bool fSuccess # stack in
             exec_bind (if opcode = OP_CHECKSIGVERIFY
                 then (if fSuccess then popstack stack else Err SCRIPT_ERR_CHECKSIGVERIFY) else Ok stack) (\<lambda>stack.
               Ok (st\<lparr>ev_stack := stack\<rparr>))))))))"

definition eval_checksigadd :: "'c eval_env \<Rightarrow> 'c eval_state \<Rightarrow> 'c eval_state exec" where
  "eval_checksigadd env st =
     (if env_sigversion env = BASE \<or> env_sigversion env = WITNESS_V0 then Err SCRIPT_ERR_BAD_OPCODE
      else need 3 (ev_stack st) (exec_bind (stacktop (ev_stack st) 3) (\<lambda>sig.
        exec_bind (stacktop (ev_stack st) 2) (\<lambda>top2. exec_bind (CScriptNum top2 (fRequireMinimal env) 4) (\<lambda>num.
          exec_bind (stacktop (ev_stack st) 1) (\<lambda>pubkey.
            exec_bind (EvalChecksig env sig pubkey st) (\<lambda>(success, st).
              exec_bind (popstack (ev_stack st)) (\<lambda>stack. exec_bind (popstack stack) (\<lambda>stack.
                exec_bind (popstack stack) (\<lambda>stack.
                  exec_bind (num_add num (if success then 1 else 0)) (\<lambda>num.
                    Ok (st\<lparr>ev_stack := serialize_num num # stack\<rparr>))))))))))))"

text \<open>\<open>CHECKMULTISIG\<close>: the signatures are dropped from the script code one after the other.\<close>

fun multisig_code ::
  "'c eval_env \<Rightarrow> byte list list \<Rightarrow> nat \<Rightarrow> nat \<Rightarrow> byte list \<Rightarrow> byte list exec" where
  "multisig_code env stack pos 0 scriptCode = Ok scriptCode"
| "multisig_code env stack pos (Suc n) scriptCode =
     exec_bind (stacktop stack pos) (\<lambda>vchSig.
       if env_sigversion env = BASE then
         (case FindAndDelete scriptCode (push_data vchSig) of (scriptCode, found) \<Rightarrow>
            if found > 0 \<and> env_flag env SCRIPT_VERIFY_CONST_SCRIPTCODE then Err SCRIPT_ERR_SIG_FINDANDDELETE
            else multisig_code env stack (pos + 1) n scriptCode)
       else multisig_code env stack (pos + 1) n scriptCode)"

text \<open>Matching signatures with keys, in order.\<close>

function multisig_loop ::
  "'c eval_env \<Rightarrow> byte list list \<Rightarrow> byte list \<Rightarrow> nat \<Rightarrow> nat \<Rightarrow> nat \<Rightarrow> nat \<Rightarrow> 'c \<Rightarrow> (bool \<times> 'c) exec" where
  "multisig_loop env stack scriptCode isig ikey nSigsCount nKeysCount c =
     (if nSigsCount = 0 then Ok (True, c)
      else exec_bind (stacktop stack isig) (\<lambda>vchSig. exec_bind (stacktop stack ikey) (\<lambda>vchPubKey.
        case CheckSignatureEncoding (env_secp env) vchSig (env_flags env) of
          Some e \<Rightarrow> Err e
        | None \<Rightarrow>
          (case CheckPubKeyEncoding vchPubKey (env_flags env) (env_sigversion env) of
             Some e \<Rightarrow> Err e
           | None \<Rightarrow>
             exec_bind (CheckECDSASignature (env_checker env) vchSig vchPubKey scriptCode (env_sigversion env) c)
               (\<lambda>(fOk, c).
                 let isig = (if fOk then isig + 1 else isig);
                     nSigsCount = (if fOk then nSigsCount - 1 else nSigsCount) in
                 if int nSigsCount > int nKeysCount - 1 then Ok (False, c)
                 else multisig_loop env stack scriptCode isig (ikey + 1) nSigsCount (nKeysCount - 1) c)))))"
  by auto
termination
  by (relation "measure (\<lambda>(env, stack, code, isig, ikey, nSigsCount, nKeysCount, c). nKeysCount + nSigsCount)")
    (auto split: if_splits)

declare multisig_loop.simps [simp del]

text \<open>Popping the arguments; the signatures come after \<open>ikey2\<close> items.\<close>

fun multisig_cleanup :: "'c eval_env \<Rightarrow> bool \<Rightarrow> nat \<Rightarrow> nat \<Rightarrow> byte list list \<Rightarrow> byte list list exec" where
  "multisig_cleanup env fSuccess 0 ikey2 stack = Ok stack"
| "multisig_cleanup env fSuccess (Suc n) ikey2 stack =
     exec_bind (if \<not> fSuccess \<and> env_flag env SCRIPT_VERIFY_NULLFAIL \<and> ikey2 = 0
         then stacktop stack 1 else Ok []) (\<lambda>top.
       if top \<noteq> [] then Err SCRIPT_ERR_SIG_NULLFAIL
       else exec_bind (popstack stack) (\<lambda>stack. multisig_cleanup env fSuccess n (ikey2 - 1) stack))"

text \<open>The extra item that the operation consumes, and the result.\<close>

definition multisig_finish :: "'c eval_env \<Rightarrow> byte \<Rightarrow> bool \<Rightarrow> byte list list \<Rightarrow> byte list list exec" where
  "multisig_finish env opcode fSuccess stack =
     need 1 stack (exec_bind (stacktop stack 1) (\<lambda>dummy.
       if env_flag env SCRIPT_VERIFY_NULLDUMMY \<and> length dummy \<noteq> 0 then Err SCRIPT_ERR_SIG_NULLDUMMY
       else exec_bind (popstack stack) (\<lambda>stack.
         let stack = vch_bool fSuccess # stack in
         if opcode = OP_CHECKMULTISIGVERIFY
         then (if fSuccess then popstack stack else Err SCRIPT_ERR_CHECKMULTISIGVERIFY)
         else Ok stack)))"

text \<open>The operation once both counts are known; \<open>i\<close> is the position of the number of signatures.\<close>

definition multisig_run :: "'c eval_env \<Rightarrow> byte \<Rightarrow> nat \<Rightarrow> nat \<Rightarrow> 'c eval_state \<Rightarrow> 'c eval_state exec" where
  "multisig_run env opcode nKeysCount nSigsCount st =
     (let ikey = 2; ikey2 = nKeysCount + 2; isig = nKeysCount + 3; i = nKeysCount + 3 + nSigsCount in
      need i (ev_stack st)
        (exec_bind (multisig_code env (ev_stack st) isig nSigsCount (drop (ev_pbegincodehash st) (env_script env)))
          (\<lambda>scriptCode.
            exec_bind (multisig_loop env (ev_stack st) scriptCode isig ikey nSigsCount nKeysCount (ev_checker st))
              (\<lambda>(fSuccess, c).
                exec_bind (multisig_cleanup env fSuccess (i - 1) ikey2 (ev_stack st)) (\<lambda>stack.
                  exec_bind (multisig_finish env opcode fSuccess stack) (\<lambda>stack.
                    Ok (st\<lparr>ev_stack := stack, ev_checker := c\<rparr>)))))))"

definition eval_checkmultisig :: "'c eval_env \<Rightarrow> byte \<Rightarrow> 'c eval_state \<Rightarrow> 'c eval_state exec" where
  "eval_checkmultisig env opcode st =
     (if env_sigversion env = TAPSCRIPT then Err SCRIPT_ERR_TAPSCRIPT_CHECKMULTISIG
      else need 1 (ev_stack st) (exec_bind (stacktop (ev_stack st) 1) (\<lambda>top.
        exec_bind (CScriptNum top (fRequireMinimal env) 4) (\<lambda>bn.
          let nKeysCount = getint bn in
          if nKeysCount < 0 \<or> nKeysCount > int MAX_PUBKEYS_PER_MULTISIG then Err SCRIPT_ERR_PUBKEY_COUNT
          else
           (let st = st\<lparr>ev_nOpCount := ev_nOpCount st + nat nKeysCount\<rparr> in
            if ev_nOpCount st > MAX_OPS_PER_SCRIPT then Err SCRIPT_ERR_OP_COUNT
            else need (nat nKeysCount + 2) (ev_stack st)
              (exec_bind (stacktop (ev_stack st) (nat nKeysCount + 2)) (\<lambda>top.
                exec_bind (CScriptNum top (fRequireMinimal env) 4) (\<lambda>bn.
                  let nSigsCount = getint bn in
                  if nSigsCount < 0 \<or> nSigsCount > nKeysCount then Err SCRIPT_ERR_SIG_COUNT
                  else multisig_run env opcode (nat nKeysCount) (nat nSigsCount) st))))))))"

subsection \<open>Control\<close>

definition eval_locktime :: "'c eval_env \<Rightarrow> 'c eval_state \<Rightarrow> 'c eval_state exec" where
  "eval_locktime env st =
     (if \<not> env_flag env SCRIPT_VERIFY_CHECKLOCKTIMEVERIFY then Ok st
      else need 1 (ev_stack st) (exec_bind (stacktop (ev_stack st) 1) (\<lambda>top.
        exec_bind (CScriptNum top (fRequireMinimal env) 5) (\<lambda>nLockTime.
          if nLockTime <s 0 then Err SCRIPT_ERR_NEGATIVE_LOCKTIME
          else if \<not> CheckLockTime (env_checker env) nLockTime then Err SCRIPT_ERR_UNSATISFIED_LOCKTIME
          else Ok st))))"

definition eval_sequence :: "'c eval_env \<Rightarrow> 'c eval_state \<Rightarrow> 'c eval_state exec" where
  "eval_sequence env st =
     (if \<not> env_flag env SCRIPT_VERIFY_CHECKSEQUENCEVERIFY then Ok st
      else need 1 (ev_stack st) (exec_bind (stacktop (ev_stack st) 1) (\<lambda>top.
        exec_bind (CScriptNum top (fRequireMinimal env) 5) (\<lambda>nSequence.
          if nSequence <s 0 then Err SCRIPT_ERR_NEGATIVE_LOCKTIME
          else if nSequence AND push_bit 31 1 \<noteq> 0 then Ok st
          else if \<not> CheckSequence (env_checker env) nSequence then Err SCRIPT_ERR_UNSATISFIED_LOCKTIME
          else Ok st))))"

definition eval_if :: "'c eval_env \<Rightarrow> byte \<Rightarrow> bool \<Rightarrow> 'c eval_state \<Rightarrow> 'c eval_state exec" where
  "eval_if env opcode fExec st =
     (if \<not> fExec then Ok (st\<lparr>ev_vfExec := cond_push_back False (ev_vfExec st)\<rparr>)
      else need 1 (ev_stack st) (exec_bind (stacktop (ev_stack st) 1) (\<lambda>vch.
        if env_sigversion env = TAPSCRIPT \<and> (length vch > 1 \<or> (length vch = 1 \<and> vch ! 0 \<noteq> 1))
          then Err SCRIPT_ERR_TAPSCRIPT_MINIMALIF
        else if env_sigversion env = WITNESS_V0 \<and> env_flag env SCRIPT_VERIFY_MINIMALIF \<and>
            (length vch > 1 \<or> (length vch = 1 \<and> vch ! 0 \<noteq> 1))
          then Err SCRIPT_ERR_MINIMALIF
        else
         (let fValue = (if opcode = OP_NOTIF then \<not> CastToBool vch else CastToBool vch) in
          exec_bind (popstack (ev_stack st)) (\<lambda>stack.
            Ok (st\<lparr>ev_stack := stack, ev_vfExec := cond_push_back fValue (ev_vfExec st)\<rparr>))))))"

definition eval_else :: "'c eval_state \<Rightarrow> 'c eval_state exec" where
  "eval_else st =
     (if cond_empty (ev_vfExec st) then Err SCRIPT_ERR_UNBALANCED_CONDITIONAL
      else exec_bind (toggle_top (ev_vfExec st)) (\<lambda>v. Ok (st\<lparr>ev_vfExec := v\<rparr>)))"

definition eval_endif :: "'c eval_state \<Rightarrow> 'c eval_state exec" where
  "eval_endif st =
     (if cond_empty (ev_vfExec st) then Err SCRIPT_ERR_UNBALANCED_CONDITIONAL
      else exec_bind (cond_pop_back (ev_vfExec st)) (\<lambda>v. Ok (st\<lparr>ev_vfExec := v\<rparr>)))"

definition eval_verify :: "byte list list \<Rightarrow> byte list list exec" where
  "eval_verify stack =
     need 1 stack (exec_bind (stacktop stack 1) (\<lambda>top.
       if CastToBool top then popstack stack else Err SCRIPT_ERR_VERIFY))"

definition eval_toaltstack :: "'c eval_state \<Rightarrow> 'c eval_state exec" where
  "eval_toaltstack st =
     need 1 (ev_stack st) (exec_bind (stacktop (ev_stack st) 1) (\<lambda>vch.
       exec_bind (popstack (ev_stack st)) (\<lambda>stack.
         Ok (st\<lparr>ev_stack := stack, ev_altstack := vch # ev_altstack st\<rparr>))))"

definition eval_fromaltstack :: "'c eval_state \<Rightarrow> 'c eval_state exec" where
  "eval_fromaltstack st =
     (if length (ev_altstack st) < 1 then Err SCRIPT_ERR_INVALID_ALTSTACK_OPERATION
      else exec_bind (stacktop (ev_altstack st) 1) (\<lambda>vch.
        exec_bind (popstack (ev_altstack st)) (\<lambda>altstack.
          Ok (st\<lparr>ev_stack := vch # ev_stack st, ev_altstack := altstack\<rparr>))))"

subsection \<open>The loop\<close>

definition on_stack :: "'c eval_state \<Rightarrow> byte list list exec \<Rightarrow> 'c eval_state exec" where
  "on_stack st m = exec_bind m (\<lambda>stack. Ok (st\<lparr>ev_stack := stack\<rparr>))"

text \<open>The \<open>switch\<close>. The position after the opcode is needed by \<open>OP_CODESEPARATOR\<close> alone.\<close>

definition eval_opcode :: "'c eval_env \<Rightarrow> nat \<Rightarrow> byte \<Rightarrow> bool \<Rightarrow> 'c eval_state \<Rightarrow> 'c eval_state exec" where
  "eval_opcode env pc opcode fExec st =
     (if opcode = OP_1NEGATE \<or> (OP_1 \<le> opcode \<and> opcode \<le> OP_16) then
        Ok (st\<lparr>ev_stack := serialize_num (word_of_int (int (unat opcode) - 0x50)) # ev_stack st\<rparr>)
      else if opcode = OP_NOP then Ok st
      else if opcode = OP_CHECKLOCKTIMEVERIFY then eval_locktime env st
      else if opcode = OP_CHECKSEQUENCEVERIFY then eval_sequence env st
      else if opcode = OP_NOP1 \<or> (OP_NOP4 \<le> opcode \<and> opcode \<le> OP_NOP10) then
        (if env_flag env SCRIPT_VERIFY_DISCOURAGE_UPGRADABLE_NOPS then Err SCRIPT_ERR_DISCOURAGE_UPGRADABLE_NOPS
         else Ok st)
      else if opcode = OP_IF \<or> opcode = OP_NOTIF then eval_if env opcode fExec st
      else if opcode = OP_ELSE then eval_else st
      else if opcode = OP_ENDIF then eval_endif st
      else if opcode = OP_VERIFY then on_stack st (eval_verify (ev_stack st))
      else if opcode = OP_RETURN then Err SCRIPT_ERR_OP_RETURN
      else if opcode = OP_TOALTSTACK then eval_toaltstack st
      else if opcode = OP_FROMALTSTACK then eval_fromaltstack st
      else if (OP_2DROP \<le> opcode \<and> opcode \<le> OP_TUCK) \<or> opcode = OP_SIZE then
        on_stack st (eval_stack_op opcode (fRequireMinimal env) (ev_stack st))
      else if opcode = OP_EQUAL \<or> opcode = OP_EQUALVERIFY then on_stack st (eval_equal opcode (ev_stack st))
      else if opcode = OP_1ADD \<or> opcode = OP_1SUB \<or> opcode = OP_NEGATE \<or> opcode = OP_ABS \<or> opcode = OP_NOT \<or>
          opcode = OP_0NOTEQUAL then
        on_stack st (eval_unary opcode (fRequireMinimal env) (ev_stack st))
      else if opcode = OP_ADD \<or> opcode = OP_SUB \<or> (OP_BOOLAND \<le> opcode \<and> opcode \<le> OP_MAX) then
        on_stack st (eval_binary opcode (fRequireMinimal env) (ev_stack st))
      else if opcode = OP_WITHIN then on_stack st (eval_within (fRequireMinimal env) (ev_stack st))
      else if OP_RIPEMD160 \<le> opcode \<and> opcode \<le> OP_HASH256 then on_stack st (eval_hash opcode (ev_stack st))
      else if opcode = OP_CODESEPARATOR then
        Ok (st\<lparr>ev_pbegincodehash := pc,
          ev_execdata := (ev_execdata st)\<lparr>m_codeseparator_pos := ev_opcode_pos st\<rparr>\<rparr>)
      else if opcode = OP_CHECKSIG \<or> opcode = OP_CHECKSIGVERIFY then eval_checksig env opcode st
      else if opcode = OP_CHECKSIGADD then eval_checksigadd env st
      else if opcode = OP_CHECKMULTISIG \<or> opcode = OP_CHECKMULTISIGVERIFY then eval_checkmultisig env opcode st
      else Err SCRIPT_ERR_BAD_OPCODE)"

definition disabled_opcode :: "byte \<Rightarrow> bool" where
  "disabled_opcode opcode \<longleftrightarrow>
     opcode = OP_CAT \<or> opcode = OP_SUBSTR \<or> opcode = OP_LEFT \<or> opcode = OP_RIGHT \<or> opcode = OP_INVERT \<or>
     opcode = OP_AND \<or> opcode = OP_OR \<or> opcode = OP_XOR \<or> opcode = OP_2MUL \<or> opcode = OP_2DIV \<or>
     opcode = OP_MUL \<or> opcode = OP_DIV \<or> opcode = OP_MOD \<or> opcode = OP_LSHIFT \<or> opcode = OP_RSHIFT"

text \<open>A push or the \<open>switch\<close>, unless the instruction is in a branch that is not executed.\<close>

definition eval_instruction :: "'c eval_env \<Rightarrow> nat \<Rightarrow> byte \<Rightarrow> byte list \<Rightarrow> 'c eval_state \<Rightarrow> 'c eval_state exec" where
  "eval_instruction env pc opcode vchPushValue st =
     (let fExec = all_true (ev_vfExec st) in
      if fExec \<and> opcode \<le> OP_PUSHDATA4 then
        (case (if fRequireMinimal env then CheckMinimalPush vchPushValue opcode else Some True) of
           None \<Rightarrow> Aborted
         | Some minimal \<Rightarrow>
             if \<not> minimal then Err SCRIPT_ERR_MINIMALDATA
             else Ok (st\<lparr>ev_stack := vchPushValue # ev_stack st\<rparr>))
      else if fExec \<or> (OP_IF \<le> opcode \<and> opcode \<le> OP_ENDIF) then eval_opcode env pc opcode fExec st
      else Ok st)"

text \<open>The assertion of \<open>CheckMinimalPush\<close> is guarded by the test of its caller.\<close>

lemma eval_instruction_eq:
  "eval_instruction env pc opcode vchPushValue st =
     (let fExec = all_true (ev_vfExec st) in
      if fExec \<and> opcode \<le> OP_PUSHDATA4 then
        (if fRequireMinimal env \<and> CheckMinimalPush vchPushValue opcode = Some False then Err SCRIPT_ERR_MINIMALDATA
         else Ok (st\<lparr>ev_stack := vchPushValue # ev_stack st\<rparr>))
      else if fExec \<or> (OP_IF \<le> opcode \<and> opcode \<le> OP_ENDIF) then eval_opcode env pc opcode fExec st
      else Ok st)"
  using CheckMinimalPush_total [of opcode vchPushValue]
  by (auto simp: eval_instruction_def Let_def split: option.splits)

definition check_stack_size :: "'c eval_state \<Rightarrow> 'c eval_state exec" where
  "check_stack_size st =
     (if length (ev_stack st) + length (ev_altstack st) > MAX_STACK_SIZE then Err SCRIPT_ERR_STACK_SIZE
      else Ok (st\<lparr>ev_opcode_pos := ev_opcode_pos st + 1\<rparr>))"

text \<open>One round of the loop, after the instruction was read.\<close>

definition eval_step :: "'c eval_env \<Rightarrow> nat \<Rightarrow> byte \<Rightarrow> byte list \<Rightarrow> 'c eval_state \<Rightarrow> 'c eval_state exec" where
  "eval_step env pc opcode vchPushValue st =
     (if length vchPushValue > MAX_SCRIPT_ELEMENT_SIZE then Err SCRIPT_ERR_PUSH_SIZE
      else
       (let counted = ((env_sigversion env = BASE \<or> env_sigversion env = WITNESS_V0) \<and> opcode > OP_16);
            st = (if counted then st\<lparr>ev_nOpCount := ev_nOpCount st + 1\<rparr> else st) in
        if counted \<and> ev_nOpCount st > MAX_OPS_PER_SCRIPT then Err SCRIPT_ERR_OP_COUNT
        else if disabled_opcode opcode then Err SCRIPT_ERR_DISABLED_OPCODE
        else if opcode = OP_CODESEPARATOR \<and> env_sigversion env = BASE \<and> env_flag env SCRIPT_VERIFY_CONST_SCRIPTCODE
          then Err SCRIPT_ERR_OP_CODESEPARATOR
        else exec_bind (eval_instruction env pc opcode vchPushValue st) check_stack_size))"

function eval_loop :: "'c eval_env \<Rightarrow> nat \<Rightarrow> 'c eval_state \<Rightarrow> 'c eval_state exec" where
  "eval_loop env pc st =
     (if pc < length (env_script env) then
       (case GetScriptOp (env_script env) pc of (ok, pc', opcode, vchPushValue) \<Rightarrow>
          if \<not> ok then Err SCRIPT_ERR_BAD_OPCODE
          else exec_bind (eval_step env pc' opcode vchPushValue st) (eval_loop env pc'))
      else Ok st)"
  by auto
termination
  by (relation "measure (\<lambda>(env, pc, st). length (env_script env) - pc)") (auto dest!: GetScriptOp_bounds [OF sym])

declare eval_loop.simps [simp del]

text \<open>The two \<open>catch\<close> clauses.\<close>

primrec eval_catch :: "'a exec \<Rightarrow> 'a exec" where
  "eval_catch (Ok x) = Ok x"
| "eval_catch (Err e) = Err e"
| "eval_catch Num_error = Err SCRIPT_ERR_SCRIPTNUM"
| "eval_catch Thrown = Err SCRIPT_ERR_UNKNOWN_ERROR"
| "eval_catch Aborted = Aborted"

text \<open>The local variables on entry.\<close>

definition eval_init :: "byte list list \<Rightarrow> ScriptExecutionData \<Rightarrow> 'c \<Rightarrow> 'c eval_state" where
  "eval_init stack execdata c =
     \<lparr>ev_stack = stack, ev_altstack = [], ev_vfExec = cond_new, ev_pbegincodehash = 0, ev_nOpCount = 0,
      ev_opcode_pos = 0,
      ev_execdata = execdata\<lparr>m_codeseparator_pos := 0xFFFFFFFF, m_codeseparator_pos_init := True\<rparr>,
      ev_checker = c\<rparr>"

text \<open>The result is what the reference arguments hold on return: the stack, the execution data and the checker.\<close>

definition EvalScript ::
  "'c eval_env \<Rightarrow> byte list list \<Rightarrow> ScriptExecutionData \<Rightarrow> 'c \<Rightarrow> (byte list list \<times> ScriptExecutionData \<times> 'c) exec" where
  "EvalScript env stack execdata c =
     exec_assert (env_sigversion env = BASE \<or> env_sigversion env = WITNESS_V0 \<or> env_sigversion env = TAPSCRIPT)
       (if (env_sigversion env = BASE \<or> env_sigversion env = WITNESS_V0) \<and> length (env_script env) > MAX_SCRIPT_SIZE
        then Err SCRIPT_ERR_SCRIPT_SIZE
        else exec_bind (eval_catch (eval_loop env 0 (eval_init stack execdata c)))
          (\<lambda>st. if \<not> cond_empty (ev_vfExec st) then Err SCRIPT_ERR_UNBALANCED_CONDITIONAL
            else Ok (ev_stack st, ev_execdata st, ev_checker st)))"

text \<open>The checker of the base class, which accepts nothing.\<close>

definition base_signature_checker :: "unit BaseSignatureChecker" where
  "base_signature_checker =
     \<lparr>CheckECDSASignature = (\<lambda>scriptSig vchPubKey scriptCode sigversion c. Ok (False, c)),
      CheckSchnorrSignature = (\<lambda>sig pubkey sigversion execdata c. Ok (Inl None)),
      CheckLockTime = (\<lambda>nLockTime. False), CheckSequence = (\<lambda>nSequence. False)\<rparr>"

end
