(* ===== verification/Eval_Safety.thy ===== *)
theory Eval_Safety
  imports Eval_Script
begin

text \<open>
  What every run of the interpreter guarantees, whatever the script and the stack it starts from: no
  exception other than the number error, no failed assertion, no access outside a stack and no signed
  overflow; and the limits on the size of the stacks and of their elements.

  The signature checker enters through the locale \<open>safe_checker\<close>.
\<close>

subsection \<open>Sizes of numbers\<close>

lemma length_serialize_loop: "length (serialize_loop n) \<le> 8"
proof (cases "n = 0")
  case False
  let ?r = "serialize_loop n"
  have r: "?r \<noteq> []" "last ?r \<noteq> 0" using serialize_loop_last [OF False] by auto
  then have "0 < unat (last ?r)" by (simp add: unat_gt_0)
  then have "256 ^ (length ?r - 1) * 1 \<le> 256 ^ (length ?r - 1) * unat (last ?r)" by (intro mult_le_mono2) simp
  also have "\<dots> \<le> bytes_val (butlast ?r @ [last ?r])" by (simp add: bytes_val_append)
  also have "\<dots> < 2 ^ 64" using r unat64_upper [of n] by (simp add: serialize_loop_val)
  finally have "(256 :: nat) ^ (length ?r - 1) < 256 ^ 8" by simp
  then have "length ?r - 1 < 8" by (rule power_less_imp_less_exp [rotated]) simp
  then show ?thesis by simp
qed (simp add: serialize_loop.simps)

lemma length_serialize_num: "length (serialize_num v) \<le> 9"
  using length_serialize_loop [of "if v <s 0 then NOT v + 1 else v"]
  by (auto simp: serialize_num_def Let_def)

lemma CScriptNum_Ok:
  assumes "CScriptNum vch minimal n = Ok v" and "n \<le> 8"
  shows "sint v = num_val vch" "\<bar>sint v\<bar> < 2 ^ (8 * n - 1)"
  using assms script_num_value [of vch minimal n v] by (auto simp: CScriptNum_def split: option.splits)

lemma safe_CScriptNum [simp]: "safe (CScriptNum vch minimal n)"
  by (simp add: CScriptNum_def split: option.split)

subsection \<open>Operations on the stack alone\<close>

definition elements_ok :: "byte list list \<Rightarrow> bool" where
  "elements_ok stack \<longleftrightarrow> (\<forall>v\<in>set stack. length v \<le> MAX_SCRIPT_ELEMENT_SIZE)"

text \<open>An operation that is safe and keeps the element limit.\<close>

definition stack_safe :: "byte list list exec \<Rightarrow> bool" where
  "stack_safe m \<longleftrightarrow> safe m \<and> (\<forall>s. m = Ok s \<longrightarrow> elements_ok s)"

lemma elements_ok_simps [simp]:
  "elements_ok []" "elements_ok (v # s) \<longleftrightarrow> length v \<le> MAX_SCRIPT_ELEMENT_SIZE \<and> elements_ok s"
  "elements_ok (s @ s') \<longleftrightarrow> elements_ok s \<and> elements_ok s'"
  by (auto simp: elements_ok_def)

lemma elements_ok_take_drop: "elements_ok s \<Longrightarrow> elements_ok (take n s)" "elements_ok s \<Longrightarrow> elements_ok (drop n s)"
  by (auto simp: elements_ok_def dest: in_set_takeD in_set_dropD)

lemma elements_ok_nth: "elements_ok s \<Longrightarrow> i < length s \<Longrightarrow> length (s ! i) \<le> MAX_SCRIPT_ELEMENT_SIZE"
  by (simp add: elements_ok_def)

lemma small_elements [simp]:
  "length (serialize_num v) \<le> MAX_SCRIPT_ELEMENT_SIZE" "length (vch_bool b) \<le> MAX_SCRIPT_ELEMENT_SIZE"
  using length_serialize_num [of v] by (auto simp: script_limits vch_bool_def vchTrue_def vchFalse_def)

lemma stack_safe_simps [simp]:
  "stack_safe (Ok s) \<longleftrightarrow> elements_ok s" "stack_safe (Err e)" "stack_safe Num_error"
  "\<not> stack_safe Thrown" "\<not> stack_safe Aborted"
  by (simp_all add: stack_safe_def)

lemma stack_safe_bind: "safe m \<Longrightarrow> (\<And>x. m = Ok x \<Longrightarrow> stack_safe (f x)) \<Longrightarrow> stack_safe (exec_bind m f)"
  by (cases m) simp_all

text \<open>After the size check, the items that the operation names are there.\<close>

lemma need_cases:
  "(\<And>a r. stack = a # r \<Longrightarrow> stack_safe m) \<Longrightarrow> stack_safe (need 1 stack m)"
  "(\<And>a b r. stack = a # b # r \<Longrightarrow> stack_safe m) \<Longrightarrow> stack_safe (need 2 stack m)"
  "(\<And>a b c r. stack = a # b # c # r \<Longrightarrow> stack_safe m) \<Longrightarrow> stack_safe (need 3 stack m)"
  "(\<And>a b c d r. stack = a # b # c # d # r \<Longrightarrow> stack_safe m) \<Longrightarrow> stack_safe (need 4 stack m)"
  "(\<And>a b c d e f r. stack = a # b # c # d # e # f # r \<Longrightarrow> stack_safe m) \<Longrightarrow> stack_safe (need 6 stack m)"
  "(\<And>a r. stack = a # r \<Longrightarrow> stack_safe m) \<Longrightarrow> stack_safe (need (Suc 0) stack m)"
  by (auto simp: need_def not_less numeral_eq_Suc Suc_le_length_iff neq_Nil_conv)

lemma stacktop_simps [simp]:
  "stacktop (a # r) 1 = Ok a" "stacktop (a # r) (Suc 0) = Ok a" "stacktop (a # b # r) 2 = Ok b"
  "stacktop (a # b # c # r) 3 = Ok c"
  "stacktop (a # b # c # d # r) 4 = Ok d" "stacktop (a # b # c # d # e # r) 5 = Ok e"
  "stacktop (a # b # c # d # e # f # r) 6 = Ok f"
  by (simp_all add: stacktop_def)

lemma stack_swap_simps [simp]:
  "stack_swap (a # b # r) 2 1 = Ok (b # a # r)" "stack_swap (a # b # c # r) 3 2 = Ok (a # c # b # r)"
  "stack_swap (a # b # c # r) 3 1 = Ok (c # b # a # r)" "stack_swap (a # b # c # d # r) 4 2 = Ok (a # d # c # b # r)"
  "stack_swap (a # b # r) 2 (Suc 0) = Ok (b # a # r)" "stack_swap (a # b # c # r) 3 (Suc 0) = Ok (c # b # a # r)"
  by (simp_all add: stack_swap_def)

lemma stack_erase_simps [simp]:
  "stack_erase (a # b # r) 2 1 = Ok (a # r)" "stack_erase (a # b # r) 2 (Suc 0) = Ok (a # r)"
  "stack_erase (a # b # c # d # e # f # r) 6 4 = Ok (a # b # c # d # r)"
  by (simp_all add: stack_erase_def)

lemma num_assign_safe:
  "\<bar>sint v\<bar> < 2 ^ 31 \<Longrightarrow> safe (num_add_assign v 1) \<and> safe (num_sub_assign v 1) \<and> safe (num_negate v)"
proof -
  assume v: "\<bar>sint v\<bar> < 2 ^ 31"
  have "sint (0x7ffffffffffffffe :: i64) = 0x7ffffffffffffffe" "sint (0x8000000000000001 :: i64) = - 0x7fffffffffffffff"
    "sint (0x8000000000000000 :: i64) = - 0x8000000000000000"
    by simp_all
  then have "v \<le>s 0x7ffffffffffffffe" "0x8000000000000001 \<le>s v" "v \<noteq> 0x8000000000000000"
    using v by (auto simp: word_sle_eq)
  then show ?thesis by (simp add: num_add_assign_def num_sub_assign_def num_negate_def word_sless_alt exec_assert_def)
qed

lemma num_add_safe:
  assumes "\<bar>sint a\<bar> < 2 ^ 31" and "\<bar>sint b\<bar> < 2 ^ 31"
  shows "safe (num_add a b) \<and> safe (num_sub a b)"
proof -
  have "sint (a + b) = sint a + sint b" "sint (a - b) = sint a - sint b"
    using assms by (intro sint_plus_exact sint_minus_exact; simp)+
  then show ?thesis by (simp add: num_add_def num_sub_def)
qed


lemma sint_of_bool: "sint (of_bool b :: i64) = of_bool b"
  by simp

lemma unary_num_safe:
  assumes "\<bar>sint v\<bar> < 2 ^ 31"
    and "opcode = OP_1ADD \<or> opcode = OP_1SUB \<or> opcode = OP_NEGATE \<or> opcode = OP_ABS \<or> opcode = OP_NOT \<or> opcode = OP_0NOTEQUAL"
  shows "safe (unary_num opcode v)"
  using num_assign_safe [OF assms(1)] assms(2) by (auto simp: unary_num_def)

lemma binary_opcode_cases:
  "OP_BOOLAND \<le> opcode \<and> opcode \<le> OP_MAX \<Longrightarrow>
     opcode = OP_BOOLAND \<or> opcode = OP_BOOLOR \<or> opcode = OP_NUMEQUAL \<or> opcode = OP_NUMEQUALVERIFY \<or>
     opcode = OP_NUMNOTEQUAL \<or> opcode = OP_LESSTHAN \<or> opcode = OP_GREATERTHAN \<or> opcode = OP_LESSTHANOREQUAL \<or>
     opcode = OP_GREATERTHANOREQUAL \<or> opcode = OP_MIN \<or> opcode = OP_MAX"
proof -
  assume "OP_BOOLAND \<le> opcode \<and> opcode \<le> OP_MAX"
  then have "154 \<le> unat opcode" "unat opcode \<le> 164" by (simp_all add: word_le_nat_alt)
  then have "unat opcode = 154 \<or> unat opcode = 155 \<or> unat opcode = 156 \<or> unat opcode = 157 \<or> unat opcode = 158 \<or>
      unat opcode = 159 \<or> unat opcode = 160 \<or> unat opcode = 161 \<or> unat opcode = 162 \<or> unat opcode = 163 \<or>
      unat opcode = 164" by presburger
  then show ?thesis by (simp add: word_unat_eq_iff)
qed

lemma binary_num_safe:
  assumes "\<bar>sint a\<bar> < 2 ^ 31" and "\<bar>sint b\<bar> < 2 ^ 31"
    and "opcode = OP_ADD \<or> opcode = OP_SUB \<or> (OP_BOOLAND \<le> opcode \<and> opcode \<le> OP_MAX)"
  shows "safe (binary_num opcode a b)"
  using assms(3) num_add_safe [OF assms(1,2)]
  by (elim disjE) (auto simp: binary_num_def dest!: binary_opcode_cases)

lemma eval_pick_roll_safe: "elements_ok stack \<Longrightarrow> stack_safe (eval_pick_roll opcode minimal stack)"
  unfolding eval_pick_roll_def
proof (rule need_cases, goal_cases)
  case (1 a b r)
  then show ?case
    by (auto simp: Let_def stacktop_def stack_erase_def not_less not_le nat_less_iff elements_ok_take_drop
      intro!: stack_safe_bind elements_ok_nth)
qed

lemma eval_stack_op_safe: "elements_ok stack \<Longrightarrow> stack_safe (eval_stack_op opcode minimal stack)"
  unfolding eval_stack_op_def
  by (auto simp: eval_pick_roll_safe intro!: need_cases)

lemma eval_equal_safe: "elements_ok stack \<Longrightarrow> stack_safe (eval_equal opcode stack)"
  unfolding eval_equal_def by (auto simp: Let_def intro!: need_cases)

lemma eval_unary_safe:
  "elements_ok stack \<Longrightarrow>
     opcode = OP_1ADD \<or> opcode = OP_1SUB \<or> opcode = OP_NEGATE \<or> opcode = OP_ABS \<or> opcode = OP_NOT \<or> opcode = OP_0NOTEQUAL \<Longrightarrow>
     stack_safe (eval_unary opcode minimal stack)"
  unfolding eval_unary_def
  by (auto intro!: need_cases stack_safe_bind dest!: CScriptNum_Ok(2) intro: unary_num_safe)

lemma eval_binary_safe:
  "elements_ok stack \<Longrightarrow>
     opcode = OP_ADD \<or> opcode = OP_SUB \<or> (OP_BOOLAND \<le> opcode \<and> opcode \<le> OP_MAX) \<Longrightarrow>
     stack_safe (eval_binary opcode minimal stack)"
  unfolding eval_binary_def
proof (rule need_cases, goal_cases)
  case (1 a b r)
  then have ok: "elements_ok r" by simp
  show ?case
    unfolding 1(3) stacktop_simps exec_bind.simps
  proof (intro stack_safe_bind safe_CScriptNum, goal_cases)
    case (1 bn1 bn2)
    show ?case
      using CScriptNum_Ok(2) [OF 1(1)] CScriptNum_Ok(2) [OF 1(2)]
        \<open>opcode = OP_ADD \<or> opcode = OP_SUB \<or> (OP_BOOLAND \<le> opcode \<and> opcode \<le> OP_MAX)\<close>
      by (intro binary_num_safe) simp_all
  qed (use ok in \<open>auto simp: Let_def\<close>)
qed

lemma eval_within_safe: "elements_ok stack \<Longrightarrow> stack_safe (eval_within minimal stack)"
  unfolding eval_within_def by (auto simp: Let_def intro!: need_cases stack_safe_bind)

lemma length_script_hash: "length (script_hash opcode vch) \<le> 32"
  using sha1_stream [OF sha1_Write_written [OF sha1_written_new]]
  by (simp add: script_hash_def Finalize_once ripemd160_once CHash160_written [OF sha_Write_written [OF sha_written_zeros]]
      CHash256_written [OF sha_Write_written [OF sha_written_zeros]])

lemma eval_hash_safe: "elements_ok stack \<Longrightarrow> stack_safe (eval_hash opcode stack)"
proof -
  have "length (script_hash opcode vch) \<le> MAX_SCRIPT_ELEMENT_SIZE" for vch
    using length_script_hash [of opcode vch] by (simp add: script_limits)
  then show "elements_ok stack \<Longrightarrow> stack_safe (eval_hash opcode stack)"
    unfolding eval_hash_def by (auto intro!: need_cases)
qed

lemma eval_verify_safe: "elements_ok stack \<Longrightarrow> stack_safe (eval_verify stack)"
  unfolding eval_verify_def by (auto intro!: need_cases)

subsection \<open>What a signature checker promises\<close>

text \<open>The fields of the execution data that the signature hash of a version reads are set.\<close>

definition execdata_ready :: "SigVersion \<Rightarrow> ScriptExecutionData \<Rightarrow> bool" where
  "execdata_ready sigversion execdata \<longleftrightarrow>
     m_annex_init execdata \<and>
     (sigversion = TAPSCRIPT \<longrightarrow>
       m_tapleaf_hash_init execdata \<and> m_codeseparator_pos_init execdata \<and> m_validation_weight_left_init execdata)"

text \<open>
  The checks return: an ECDSA check for the versions that have one, a Schnorr check of a 32-byte key
  when the execution data is ready, and it leaves the data ready.
\<close>

locale safe_checker =
  fixes checker :: "'c BaseSignatureChecker"
  assumes ecdsa_safe:
      "sigversion = BASE \<or> sigversion = WITNESS_V0 \<Longrightarrow> safe (CheckECDSASignature checker sig key code sigversion c)"
    and schnorr_safe:
      "length key = 32 \<Longrightarrow> sigversion = TAPROOT \<or> sigversion = TAPSCRIPT \<Longrightarrow> execdata_ready sigversion ed \<Longrightarrow>
         safe (CheckSchnorrSignature checker sig key sigversion ed c)"
    and schnorr_ready:
      "CheckSchnorrSignature checker sig key sigversion ed c = Ok (Inr (ed', c')) \<Longrightarrow>
         execdata_ready sigversion ed \<Longrightarrow> execdata_ready sigversion ed'"

definition state_inv :: "'c eval_env \<Rightarrow> 'c eval_state \<Rightarrow> bool" where
  "state_inv env st \<longleftrightarrow>
     elements_ok (ev_stack st) \<and> elements_ok (ev_altstack st) \<and>
     (env_sigversion env = TAPSCRIPT \<longrightarrow> execdata_ready TAPSCRIPT (ev_execdata st))"

definition state_safe :: "'c eval_env \<Rightarrow> 'c eval_state exec \<Rightarrow> bool" where
  "state_safe env m \<longleftrightarrow> safe m \<and> (\<forall>st. m = Ok st \<longrightarrow> state_inv env st)"

lemma state_safe_simps [simp]:
  "state_safe env (Ok st) \<longleftrightarrow> state_inv env st" "state_safe env (Err e)" "state_safe env Num_error"
  "\<not> state_safe env Thrown" "\<not> state_safe env Aborted"
  by (simp_all add: state_safe_def)

lemma state_safe_bind: "safe m \<Longrightarrow> (\<And>x. m = Ok x \<Longrightarrow> state_safe env (f x)) \<Longrightarrow> state_safe env (exec_bind m f)"
  by (cases m) simp_all

lemma state_safe_bind_stack:
  "stack_safe m \<Longrightarrow> (\<And>s. elements_ok s \<Longrightarrow> state_safe env (f s)) \<Longrightarrow> state_safe env (exec_bind m f)"
  by (cases m) simp_all

lemma state_safe_need: "(n \<le> length stack \<Longrightarrow> state_safe env m) \<Longrightarrow> state_safe env (need n stack m)"
  by (simp add: need_def)

lemma need_state_cases:
  "(\<And>a r. stack = a # r \<Longrightarrow> state_safe env m) \<Longrightarrow> state_safe env (need 1 stack m)"
  "(\<And>a b r. stack = a # b # r \<Longrightarrow> state_safe env m) \<Longrightarrow> state_safe env (need 2 stack m)"
  "(\<And>a b c r. stack = a # b # c # r \<Longrightarrow> state_safe env m) \<Longrightarrow> state_safe env (need 3 stack m)"
  "(\<And>a r. stack = a # r \<Longrightarrow> state_safe env m) \<Longrightarrow> state_safe env (need (Suc 0) stack m)"
  by (auto simp: need_def not_less numeral_eq_Suc Suc_le_length_iff neq_Nil_conv)

lemma on_stack_safe: "state_inv env st \<Longrightarrow> stack_safe m \<Longrightarrow> state_safe env (on_stack st m)"
  by (cases m) (auto simp: on_stack_def state_inv_def)

lemma eval_locktime_safe: "state_inv env st \<Longrightarrow> state_safe env (eval_locktime env st)"
  unfolding eval_locktime_def by (auto intro!: need_state_cases state_safe_bind)

lemma eval_sequence_safe: "state_inv env st \<Longrightarrow> state_safe env (eval_sequence env st)"
  unfolding eval_sequence_def by (auto intro!: need_state_cases state_safe_bind)

lemma eval_if_safe: "state_inv env st \<Longrightarrow> state_safe env (eval_if env opcode fExec st)"
  unfolding eval_if_def by (auto simp: Let_def state_inv_def intro!: need_state_cases)

lemma cond_not_empty: "\<not> cond_empty c \<Longrightarrow> 0 < m_stack_size c"
  by (simp add: cond_empty_def word_gt_0)

lemma eval_else_safe: "state_inv env st \<Longrightarrow> state_safe env (eval_else st) \<and> state_safe env (eval_endif st)"
  by (auto simp: eval_else_def eval_endif_def toggle_top_def cond_pop_back_def Let_def state_inv_def cond_not_empty)

lemma eval_altstack_safe: "state_inv env st \<Longrightarrow> state_safe env (eval_toaltstack st) \<and> state_safe env (eval_fromaltstack st)"
  by (cases "ev_altstack st") (auto simp: eval_toaltstack_def eval_fromaltstack_def state_inv_def intro!: need_state_cases)

subsection \<open>Signature operations\<close>

text \<open>Checking a signature changes only the execution data and the checker.\<close>

lemma schnorr_result_Ok:
  "(case r of Inl e \<Rightarrow> Err (f e) | Inr (ed, c) \<Rightarrow> Ok (g ed c)) = Ok y \<longleftrightarrow> (\<exists>ed c. r = Inr (ed, c) \<and> y = g ed c)"
  by (auto split: sum.split)

lemma EvalChecksig_frame:
  assumes "EvalChecksig env sig key st = Ok (b, st')"
  shows "ev_stack st' = ev_stack st \<and> ev_altstack st' = ev_altstack st \<and> ev_vfExec st' = ev_vfExec st \<and>
    ev_pbegincodehash st' = ev_pbegincodehash st \<and> ev_nOpCount st' = ev_nOpCount st \<and> ev_opcode_pos st' = ev_opcode_pos st"
proof (cases "env_sigversion env = TAPSCRIPT")
  case True
  with assms show ?thesis
    unfolding EvalChecksig_def EvalChecksigTapscript_def Let_def
    by (auto simp: exec_simps schnorr_result_Ok split: if_splits)
next
  case False
  with assms show ?thesis
    unfolding EvalChecksig_def EvalChecksigPreTapscript_def Let_def
    by (auto simp: exec_simps exec_assert_def split: SigVersion.splits if_splits option.splits prod.splits)
qed

lemma multisig_code_safe: "pos + n \<le> Suc (length stack) \<Longrightarrow> 1 \<le> pos \<Longrightarrow> safe (multisig_code env stack pos n code)"
proof (induction n arbitrary: pos code)
  case (Suc n)
  then show ?case by (auto simp: stacktop_def split: prod.split)
qed simp

lemma multisig_cleanup_safe:
  "n \<le> length stack \<Longrightarrow> elements_ok stack \<Longrightarrow> stack_safe (multisig_cleanup env ok n ikey2 stack)"
proof (induction n arbitrary: ikey2 stack)
  case (Suc n)
  obtain a r where "stack = a # r" using Suc.prems by (cases stack) auto
  then show ?case using Suc by auto
qed simp

lemma multisig_cleanup_length:
  "multisig_cleanup env ok n ikey2 stack = Ok stack' \<Longrightarrow> length stack' + n = length stack"
proof (induction n arbitrary: ikey2 stack)
  case (Suc n)
  then show ?case by (cases stack) (auto simp: exec_simps split: if_splits)
qed simp

context safe_checker
begin

lemma spend_weight_safe: "m_validation_weight_left_init ed \<Longrightarrow> safe (spend_weight ed)"
  by (simp add: spend_weight_def Let_def)

lemma spend_weight_ready: "spend_weight ed = Ok ed' \<Longrightarrow> execdata_ready sv ed \<Longrightarrow> execdata_ready sv ed'"
  by (auto simp: spend_weight_def Let_def exec_assert_def execdata_ready_def split: if_splits)

lemma EvalChecksigTapscript_safe:
  assumes "env_checker env = checker" "env_sigversion env = TAPSCRIPT" "execdata_ready TAPSCRIPT (ev_execdata st)"
  shows "safe (EvalChecksigTapscript env sig key st)"
    and "EvalChecksigTapscript env sig key st = Ok (b, st') \<Longrightarrow> execdata_ready TAPSCRIPT (ev_execdata st')"
proof -
  define start where "start = (if sig \<noteq> [] then spend_weight (ev_execdata st) else Ok (ev_execdata st))"
  have s: "safe start" using assms(3) by (simp add: start_def spend_weight_safe execdata_ready_def)
  have r: "start = Ok ed \<Longrightarrow> execdata_ready TAPSCRIPT ed" for ed
    using assms(3) spend_weight_ready [of "ev_execdata st"] by (auto simp: start_def split: if_splits)
  have c: "start = Ok ed \<Longrightarrow> length key = 32 \<Longrightarrow> safe (CheckSchnorrSignature checker sig key TAPSCRIPT ed c)" for ed c
    using r by (intro schnorr_safe) simp_all
  show "safe (EvalChecksigTapscript env sig key st)"
    unfolding EvalChecksigTapscript_def Let_def start_def [symmetric] assms(1,2)
    by (auto intro!: safe_bind s c split: sum.split prod.split)
  show "EvalChecksigTapscript env sig key st = Ok (b, st') \<Longrightarrow> execdata_ready TAPSCRIPT (ev_execdata st')"
    unfolding EvalChecksigTapscript_def Let_def start_def [symmetric] assms(1,2)
    by (auto simp: exec_simps r schnorr_result_Ok dest: schnorr_ready split: if_splits)
qed

lemma EvalChecksig_safe:
  assumes "env_checker env = checker" "env_sigversion env \<noteq> TAPROOT" "state_inv env st"
  shows "safe (EvalChecksig env sig key st)"
    and "EvalChecksig env sig key st = Ok (b, st') \<Longrightarrow> state_inv env st' \<and> ev_stack st' = ev_stack st"
proof -
  have pre: "safe (EvalChecksigPreTapscript env sig key st)" if "env_sigversion env = BASE \<or> env_sigversion env = WITNESS_V0"
    unfolding EvalChecksigPreTapscript_def assms(1) using that
    by (auto simp: Let_def intro!: safe_bind ecdsa_safe split: option.split prod.split)
  have tap: "env_sigversion env = TAPSCRIPT \<Longrightarrow> execdata_ready TAPSCRIPT (ev_execdata st)"
    using assms(3) by (simp add: state_inv_def)
  show "safe (EvalChecksig env sig key st)"
    using pre EvalChecksigTapscript_safe(1) [OF assms(1) _ tap] assms(2)
    by (simp add: EvalChecksig_def split: SigVersion.split)
  assume e: "EvalChecksig env sig key st = Ok (b, st')"
  note EvalChecksig_frame [OF e]
  moreover have "env_sigversion env = TAPSCRIPT \<Longrightarrow> execdata_ready TAPSCRIPT (ev_execdata st')"
    using e EvalChecksigTapscript_safe(2) [OF assms(1) _ tap] by (simp add: EvalChecksig_def)
  ultimately show "state_inv env st' \<and> ev_stack st' = ev_stack st" using assms(3) by (auto simp: state_inv_def)
qed

lemma state_inv_stack: "state_inv env st \<Longrightarrow> elements_ok s \<Longrightarrow> state_inv env (st\<lparr>ev_stack := s\<rparr>)"
  by (simp add: state_inv_def)

lemma eval_checksig_safe:
  assumes "env_checker env = checker" "env_sigversion env \<noteq> TAPROOT" "state_inv env st"
  shows "state_safe env (eval_checksig env opcode st)"
  unfolding eval_checksig_def
proof (rule need_state_cases, goal_cases)
  case (1 a b r)
  have "elements_ok r" using assms(3) 1 by (simp add: state_inv_def)
  moreover have "state_inv env st' \<and> ev_stack st' = a # b # r" if "EvalChecksig env b a st = Ok (ok, st')" for ok st'
    using EvalChecksig_safe(2) [OF assms that] 1 by simp
  ultimately show ?case
    unfolding 1 stacktop_simps exec_bind.simps
    by (auto simp: Let_def state_inv_stack intro!: state_safe_bind EvalChecksig_safe(1) [OF assms] split: if_splits)
qed

lemma eval_checksigadd_safe:
  assumes "env_checker env = checker" "env_sigversion env \<noteq> TAPROOT" "state_inv env st"
  shows "state_safe env (eval_checksigadd env st)"
proof -
  have "state_safe env (need 3 (ev_stack st) (exec_bind (stacktop (ev_stack st) 3) (\<lambda>sig.
        exec_bind (stacktop (ev_stack st) 2) (\<lambda>top2. exec_bind (CScriptNum top2 (fRequireMinimal env) 4) (\<lambda>num.
          exec_bind (stacktop (ev_stack st) 1) (\<lambda>pubkey.
            exec_bind (EvalChecksig env sig pubkey st) (\<lambda>(success, st).
              exec_bind (popstack (ev_stack st)) (\<lambda>stack. exec_bind (popstack stack) (\<lambda>stack.
                exec_bind (popstack stack) (\<lambda>stack.
                  exec_bind (num_add num (if success then 1 else 0)) (\<lambda>num.
                    Ok (st\<lparr>ev_stack := serialize_num num # stack\<rparr>))))))))))))"
  proof (rule need_state_cases, goal_cases)
    case (1 a b c r)
    have ok: "elements_ok r" using assms(3) 1 by (simp add: state_inv_def)
    have st: "state_inv env st' \<and> ev_stack st' = a # b # c # r" if "EvalChecksig env c a st = Ok (ok, st')" for ok st'
      using EvalChecksig_safe(2) [OF assms that] 1 by simp
    have add: "CScriptNum b m 4 = Ok num \<Longrightarrow> safe (num_add num (if s then 1 else 0))" for m num s
      using CScriptNum_Ok(2) [of b m 4 num] num_add_safe [of num "if s then 1 else 0"] by simp
    show ?case
      unfolding 1 stacktop_simps exec_bind.simps
      by (auto simp: ok state_inv_stack dest!: st intro!: state_safe_bind EvalChecksig_safe(1) [OF assms] add)
  qed
  then show ?thesis by (simp add: eval_checksigadd_def)
qed

lemma multisig_loop_safe:
  assumes "env_checker env = checker" "env_sigversion env = BASE \<or> env_sigversion env = WITNESS_V0"
    and "1 \<le> isig" "isig + nSigs \<le> Suc (length stack)" "1 \<le> ikey" "ikey + nKeys \<le> Suc (length stack)" "nSigs \<le> nKeys"
  shows "safe (multisig_loop env stack code isig ikey nSigs nKeys c)"
  using assms(3-7)
proof (induction nKeys arbitrary: isig ikey nSigs c)
  case (Suc n)
  show ?case
  proof (cases "nSigs = 0")
    case False
    have s: "stacktop stack isig = Ok (stack ! (isig - 1))" "stacktop stack ikey = Ok (stack ! (ikey - 1))"
      using Suc.prems False by (auto simp: stacktop_def)
    have e: "safe (CheckECDSASignature (env_checker env) sig key code (env_sigversion env) c)" for sig key
      using assms(2) unfolding assms(1) by (rule ecdsa_safe)
    have rec: "m \<le> n \<Longrightarrow> 1 \<le> j \<Longrightarrow> j + m \<le> Suc (length stack) \<Longrightarrow> safe (multisig_loop env stack code j (Suc ikey) m n c)"
      for m j c using Suc.prems(4) by (intro Suc.IH) auto
    show ?thesis
      unfolding multisig_loop.simps [of env stack code isig] s exec_bind.simps Let_def
      using Suc.prems False by (auto intro!: safe_bind e rec split: option.split)
  qed (simp add: multisig_loop.simps)
qed (simp add: multisig_loop.simps)

lemma multisig_finish_safe: "elements_ok stack \<Longrightarrow> stack_safe (multisig_finish env opcode ok stack)"
  unfolding multisig_finish_def by (auto simp: Let_def intro!: need_cases)

lemma multisig_run_safe:
  assumes "env_checker env = checker" "env_sigversion env = BASE \<or> env_sigversion env = WITNESS_V0" "state_inv env st"
    and "nSigs \<le> nKeys"
  shows "state_safe env (multisig_run env opcode nKeys nSigs st)"
  unfolding multisig_run_def Let_def
proof (rule state_safe_need)
  assume len: "nKeys + 3 + nSigs \<le> length (ev_stack st)"
  have el: "elements_ok (ev_stack st)" using assms(3) by (simp add: state_inv_def)
  have inv: "elements_ok s \<Longrightarrow> state_inv env (st\<lparr>ev_stack := s, ev_checker := c\<rparr>)" for s c
    using assms(2,3) by (auto simp: state_inv_def)
  have clean: "stack_safe (multisig_cleanup env ok (nKeys + 3 + nSigs - 1) k (ev_stack st))" for ok k
    using len el by (intro multisig_cleanup_safe) auto
  show "state_safe env (exec_bind (multisig_code env (ev_stack st) (nKeys + 3) nSigs (drop (ev_pbegincodehash st) (env_script env)))
      (\<lambda>scriptCode. exec_bind (multisig_loop env (ev_stack st) scriptCode (nKeys + 3) 2 nSigs nKeys (ev_checker st))
        (\<lambda>(fSuccess, c). exec_bind (multisig_cleanup env fSuccess (nKeys + 3 + nSigs - 1) (nKeys + 2) (ev_stack st))
          (\<lambda>stack. exec_bind (multisig_finish env opcode fSuccess stack)
            (\<lambda>stack. Ok (st\<lparr>ev_stack := stack, ev_checker := c\<rparr>))))))"
  proof (intro state_safe_bind, goal_cases)
    case 1
    show ?case using len by (intro multisig_code_safe) auto
  next
    case (2 code)
    show ?case using len assms(4) by (intro multisig_loop_safe [OF assms(1,2)]) auto
  next
    case (3 code r)
    show ?case
      unfolding case_prod_beta
      by (intro state_safe_bind_stack clean multisig_finish_safe) (simp_all add: inv)
  qed
qed

lemma eval_checkmultisig_safe:
  assumes "env_checker env = checker" "env_sigversion env \<noteq> TAPROOT" "state_inv env st"
  shows "state_safe env (eval_checkmultisig env opcode st)"
proof (cases "env_sigversion env = TAPSCRIPT")
  case False
  then have sv: "env_sigversion env = BASE \<or> env_sigversion env = WITNESS_V0"
    using assms(2) by (cases "env_sigversion env") auto
  have inv: "state_inv env (st\<lparr>ev_nOpCount := n\<rparr>)" for n using assms(3) by (simp add: state_inv_def)
  have top: "1 \<le> i \<Longrightarrow> i \<le> length s \<Longrightarrow> safe (stacktop s i)" for i and s :: "byte list list" by (simp add: stacktop_def)
  show ?thesis
    unfolding eval_checkmultisig_def Let_def using False
    by (auto intro!: state_safe_need state_safe_bind multisig_run_safe [OF assms(1) sv] inv top nat_mono)
qed (simp add: eval_checkmultisig_def)

lemma eval_opcode_safe:
  assumes "env_checker env = checker" "env_sigversion env \<noteq> TAPROOT" "state_inv env st"
  shows "state_safe env (eval_opcode env pc opcode fExec st)"
proof -
  have el: "elements_ok (ev_stack st)" using assms(3) by (simp add: state_inv_def)
  have cs: "state_inv env (st\<lparr>ev_pbegincodehash := pc,
      ev_execdata := (ev_execdata st)\<lparr>m_codeseparator_pos := p\<rparr>\<rparr>)" for p
    using assms(3) by (simp add: state_inv_def execdata_ready_def)
  note ops = assms(3) el state_inv_stack [OF assms(3)] cs eval_locktime_safe eval_sequence_safe eval_if_safe
    eval_else_safe eval_altstack_safe on_stack_safe eval_verify_safe eval_stack_op_safe eval_equal_safe
    eval_unary_safe eval_binary_safe eval_within_safe eval_hash_safe eval_checksig_safe [OF assms]
    eval_checksigadd_safe [OF assms] eval_checkmultisig_safe [OF assms]
  show ?thesis unfolding eval_opcode_def by (simp add: ops)
qed

lemma eval_instruction_safe:
  assumes "env_checker env = checker" "env_sigversion env \<noteq> TAPROOT" "state_inv env st" "length data \<le> MAX_SCRIPT_ELEMENT_SIZE"
  shows "state_safe env (eval_instruction env pc opcode data st)"
  using assms(3,4) eval_opcode_safe [OF assms(1-3)]
  by (simp add: eval_instruction_eq Let_def state_inv_stack state_inv_def)

lemma state_safe_if:
  "(b \<Longrightarrow> state_safe env m) \<Longrightarrow> (\<not> b \<Longrightarrow> state_safe env m') \<Longrightarrow> state_safe env (if b then m else m')"
  by simp

lemma check_stack_size_safe: "state_safe env m \<Longrightarrow> state_safe env (exec_bind m check_stack_size)"
  by (cases m) (simp_all add: check_stack_size_def state_inv_def)

lemma check_stack_size_Ok: "check_stack_size st = Ok st' \<Longrightarrow> length (ev_stack st') + length (ev_altstack st') \<le> MAX_STACK_SIZE"
  by (auto simp: check_stack_size_def split: if_splits)

lemma eval_step_safe:
  assumes "env_checker env = checker" "env_sigversion env \<noteq> TAPROOT" "state_inv env st"
  shows "state_safe env (eval_step env pc opcode data st)"
    and "eval_step env pc opcode data st = Ok st' \<Longrightarrow> length (ev_stack st') + length (ev_altstack st') \<le> MAX_STACK_SIZE"
proof -
  have "state_inv env (if counted then st\<lparr>ev_nOpCount := n\<rparr> else st)" for counted n
    using assms(3) by (simp add: state_inv_def)
  note inv = check_stack_size_safe [OF eval_instruction_safe [OF assms(1,2) this]]
  show "state_safe env (eval_step env pc opcode data st)"
    unfolding eval_step_def Let_def by (intro state_safe_if inv) (simp_all add: not_less)
  show "eval_step env pc opcode data st = Ok st' \<Longrightarrow> length (ev_stack st') + length (ev_altstack st') \<le> MAX_STACK_SIZE"
    unfolding eval_step_def Let_def
    by (simp only: exec_bind_Ok exec.distinct exec.inject split: if_splits) (auto dest: check_stack_size_Ok)
qed

lemma eval_loop_safe:
  assumes "env_checker env = checker" "env_sigversion env \<noteq> TAPROOT" "state_inv env st"
  shows "state_safe env (eval_loop env pc st)"
    and "eval_loop env pc st = Ok st' \<Longrightarrow> pc < length (env_script env) \<or> length (ev_stack st) + length (ev_altstack st) \<le> MAX_STACK_SIZE \<Longrightarrow>
      length (ev_stack st') + length (ev_altstack st') \<le> MAX_STACK_SIZE"
proof -
  have "state_safe env (eval_loop env pc st) \<and>
      (\<forall>st'. eval_loop env pc st = Ok st' \<longrightarrow>
        pc < length (env_script env) \<or> length (ev_stack st) + length (ev_altstack st) \<le> MAX_STACK_SIZE \<longrightarrow>
        length (ev_stack st') + length (ev_altstack st') \<le> MAX_STACK_SIZE)"
    using assms
  proof (induction env pc st rule: eval_loop.induct)
    case (1 env pc st)
    show ?case
    proof (cases "pc < length (env_script env)")
      case True
      obtain ok pc' opcode data where g: "GetScriptOp (env_script env) pc = (ok, pc', opcode, data)" by (metis prod_cases4)
      show ?thesis
      proof (cases "ok \<and> (\<exists>s. eval_step env pc' opcode data st = Ok s)")
        case step: True
        then obtain s where s: "eval_step env pc' opcode data st = Ok s" by blast
        have "state_inv env s" using eval_step_safe(1) [OF 1(2-4), of pc' opcode data] s by simp
        with 1(1) [OF True g [symmetric] refl refl _ s] step 1(2,3) eval_step_safe(2) [OF 1(2-4) s]
        show ?thesis by (simp add: eval_loop.simps [of env pc] True g s)
      next
        case False
        then show ?thesis
          using eval_step_safe(1) [OF 1(2-4), of pc' opcode data]
          by (cases "eval_step env pc' opcode data st") (auto simp: eval_loop.simps [of env pc] True g)
      qed
    next
      case False
      then show ?thesis using 1(4) by (simp add: eval_loop.simps [of env pc])
    qed
  qed
  then show "state_safe env (eval_loop env pc st)"
    "eval_loop env pc st = Ok st' \<Longrightarrow> pc < length (env_script env) \<or> length (ev_stack st) + length (ev_altstack st) \<le> MAX_STACK_SIZE \<Longrightarrow>
      length (ev_stack st') + length (ev_altstack st') \<le> MAX_STACK_SIZE"
    by blast+
qed

text \<open>
  A run of the interpreter reads only inside its stacks and fails no assertion, so the handler for
  unexpected exceptions is never entered.
\<close>

lemma EvalScript_safe:
  assumes "env_checker env = checker" "env_sigversion env \<noteq> TAPROOT" "elements_ok stack"
    and ready: "env_sigversion env = TAPSCRIPT \<Longrightarrow>
      m_annex_init execdata \<and> m_tapleaf_hash_init execdata \<and> m_validation_weight_left_init execdata"
  shows "safe (eval_loop env 0 (eval_init stack execdata c))"
    and "safe (EvalScript env stack execdata c)"
    and "EvalScript env stack execdata c = Ok (stack', execdata', c') \<Longrightarrow> elements_ok stack'"
    and "EvalScript env stack execdata c = Ok (stack', execdata', c') \<Longrightarrow>
      env_script env \<noteq> [] \<or> length stack \<le> MAX_STACK_SIZE \<Longrightarrow> length stack' \<le> MAX_STACK_SIZE"
proof -
  have inv: "state_inv env (eval_init stack execdata c)"
    using assms(3) ready by (simp add: state_inv_def eval_init_def elements_ok_def execdata_ready_def)
  note loop = eval_loop_safe [OF assms(1,2) inv, of 0]
  show *: "safe (eval_loop env 0 (eval_init stack execdata c))" using loop(1) by (simp add: state_safe_def)
  have sv: "env_sigversion env = BASE \<or> env_sigversion env = WITNESS_V0 \<or> env_sigversion env = TAPSCRIPT"
    using assms(2) by (cases "env_sigversion env") simp_all
  show "safe (EvalScript env stack execdata c)"
    using * sv by (cases "eval_loop env 0 (eval_init stack execdata c)") (simp_all add: EvalScript_def exec_simps)
  assume r: "EvalScript env stack execdata c = Ok (stack', execdata', c')"
  then obtain st where st: "eval_loop env 0 (eval_init stack execdata c) = Ok st" "stack' = ev_stack st"
    by (cases "eval_loop env 0 (eval_init stack execdata c)") (auto simp: EvalScript_def exec_simps sv split: if_splits)
  show "elements_ok stack'" using loop(1) st by (simp add: state_inv_def)
  show "env_script env \<noteq> [] \<or> length stack \<le> MAX_STACK_SIZE \<Longrightarrow> length stack' \<le> MAX_STACK_SIZE"
    using loop(2) [OF st(1)] st(2) by (auto simp: eval_init_def)
qed

end

interpretation base_checker: safe_checker base_signature_checker
  by unfold_locales (simp_all add: base_signature_checker_def)

end
