(* ===== verification/Sighash.thy ===== *)
theory Sighash
  imports Eval_Safety Script_Validation
begin

text \<open>
  Signature hashes and the signature checker of a transaction, from \<^verbatim>\<open>script/interpreter.cpp\<close>: the
  serialization of the part of a transaction that a signature covers, the data precomputed for a
  transaction, the cache of hash midstates, and \<open>GenericTransactionSignatureChecker\<close>.

  Values are serialized into a \<open>HashWriter\<close> by the functions of \<^verbatim>\<open>serialize.h\<close>. A pointer that may be
  null is an \<open>option\<close>. The cache is a field that the checker changes through a \<open>mutable\<close> member: it is
  the checker state that the interpreter threads through.
\<close>

subsection \<open>Serialization\<close>

definition ser_writedata :: "nat \<Rightarrow> 'a::len word \<Rightarrow> csha256 \<Rightarrow> csha256" where
  "ser_writedata n obj s = HashWriter_write s (write_little_endian obj n)"

definition Serialize_bytes :: "byte list \<Rightarrow> csha256 \<Rightarrow> csha256" where
  "Serialize_bytes v os =
     (let os = WriteCompactSize HashWriter_write (of_nat (length v)) os in
      if v \<noteq> [] then HashWriter_write os v else os)"

definition Serialize_outpoint :: "core_outpoint \<Rightarrow> csha256 \<Rightarrow> csha256" where
  "Serialize_outpoint obj s = ser_writedata 4 (core_n obj) (HashWriter_write s (core_hash obj))"

definition Serialize_txout :: "core_tx_out \<Rightarrow> csha256 \<Rightarrow> csha256" where
  "Serialize_txout obj s = Serialize_bytes (core_script_pub_key obj) (ser_writedata 8 (core_value obj) s)"

definition CTxOut_null :: core_tx_out where
  "CTxOut_null = \<lparr>core_value = - 1, core_script_pub_key = []\<rparr>"

subsection \<open>The transaction as it is signed\<close>

abbreviation (input) SIGHASH_ALL :: byte where "SIGHASH_ALL \<equiv> 1"
abbreviation (input) SIGHASH_NONE :: i32 where "SIGHASH_NONE \<equiv> 2"
abbreviation (input) SIGHASH_SINGLE :: i32 where "SIGHASH_SINGLE \<equiv> 3"
abbreviation (input) SIGHASH_ANYONECANPAY :: i32 where "SIGHASH_ANYONECANPAY \<equiv> 0x80"
abbreviation (input) SIGHASH_DEFAULT :: byte where "SIGHASH_DEFAULT \<equiv> 0"

record CTransactionSignatureSerializer =
  txTo :: core_transaction
  scriptCode :: "byte list"
  nIn :: u32
  fAnyoneCanPay :: bool
  fHashSingle :: bool
  fHashNone :: bool

definition new_serializer :: "core_transaction \<Rightarrow> byte list \<Rightarrow> u32 \<Rightarrow> i32 \<Rightarrow> CTransactionSignatureSerializer" where
  "new_serializer tx code i nHashType =
     \<lparr>txTo = tx, scriptCode = code, nIn = i,
      fAnyoneCanPay = (nHashType AND SIGHASH_ANYONECANPAY \<noteq> 0),
      fHashSingle = (nHashType AND 0x1f = SIGHASH_SINGLE),
      fHashNone = (nHashType AND 0x1f = SIGHASH_NONE)\<rparr>"

text \<open>The two loops over the instructions of the script; the second returns its two positions.\<close>

function count_separators :: "byte list \<Rightarrow> nat \<Rightarrow> u32 \<Rightarrow> u32" where
  "count_separators code it n =
     (if it < length code then
       (case GetScriptOp code it of (ok, it', opcode, data) \<Rightarrow>
          if ok then count_separators code it' (if opcode = OP_CODESEPARATOR then n + 1 else n) else n)
      else n)"
  by pat_completeness auto
termination
  by (relation "measure (\<lambda>(code, it, n). length code - it)") (auto dest!: GetScriptOp_bounds [OF sym])

function write_runs :: "byte list \<Rightarrow> nat \<Rightarrow> nat \<Rightarrow> csha256 \<Rightarrow> csha256 \<times> nat \<times> nat" where
  "write_runs code itBegin it s =
     (if it < length code then
       (case GetScriptOp code it of (ok, it', opcode, data) \<Rightarrow>
          if ok then
            (if opcode = OP_CODESEPARATOR
             then write_runs code it' it' (HashWriter_write s (take (it' - itBegin - 1) (drop itBegin code)))
             else write_runs code itBegin it' s)
          else (s, itBegin, it'))
      else (s, itBegin, it))"
  by pat_completeness auto
termination
  by (relation "measure (\<lambda>(code, itBegin, it, s). length code - it)") (auto dest!: GetScriptOp_bounds [OF sym])

declare count_separators.simps [simp del] write_runs.simps [simp del]

definition SerializeScriptCode :: "CTransactionSignatureSerializer \<Rightarrow> csha256 \<Rightarrow> csha256" where
  "SerializeScriptCode t s =
     (let code = scriptCode t;
          s = WriteCompactSize HashWriter_write (of_nat (length code) - ucast (count_separators code 0 0)) s
      in case write_runs code 0 0 s of (s, itBegin, it) \<Rightarrow>
        if itBegin \<noteq> length code then HashWriter_write s (take (it - itBegin) (drop itBegin code)) else s)"

definition SerializeInput :: "CTransactionSignatureSerializer \<Rightarrow> u32 \<Rightarrow> csha256 \<Rightarrow> csha256" where
  "SerializeInput t nInput s =
     (let nInput = (if fAnyoneCanPay t then nIn t else nInput);
          txin = core_vin (txTo t) ! unat nInput;
          s = Serialize_outpoint (core_prevout txin) s;
          s = (if nInput \<noteq> nIn t then Serialize_bytes [] s else SerializeScriptCode t s)
      in if nInput \<noteq> nIn t \<and> (fHashSingle t \<or> fHashNone t) then ser_writedata 4 (0 :: i32) s
         else ser_writedata 4 (core_sequence txin) s)"

definition SerializeOutput :: "CTransactionSignatureSerializer \<Rightarrow> u32 \<Rightarrow> csha256 \<Rightarrow> csha256" where
  "SerializeOutput t nOutput s =
     (if fHashSingle t \<and> nOutput \<noteq> nIn t then Serialize_txout CTxOut_null s
      else Serialize_txout (core_vout (txTo t) ! unat nOutput) s)"

definition Serialize_signing :: "CTransactionSignatureSerializer \<Rightarrow> csha256 \<Rightarrow> csha256" where
  "Serialize_signing t s =
     (let s = ser_writedata 4 (core_version (txTo t)) s;
          nInputs = (if fAnyoneCanPay t then 1 else of_nat (length (core_vin (txTo t)))) :: u32;
          s = WriteCompactSize HashWriter_write (ucast nInputs) s;
          s = fold (\<lambda>k. SerializeInput t (of_nat k)) [0..<unat nInputs] s;
          nOutputs = (if fHashNone t then 0 else if fHashSingle t then nIn t + 1
            else of_nat (length (core_vout (txTo t)))) :: u32;
          s = WriteCompactSize HashWriter_write (ucast nOutputs) s;
          s = fold (\<lambda>k. SerializeOutput t (of_nat k)) [0..<unat nOutputs] s
      in ser_writedata 4 (core_lock_time (txTo t)) s)"

subsection \<open>Data precomputed for a transaction\<close>

definition GetPrevoutsSHA256 :: "core_transaction \<Rightarrow> byte list" where
  "GetPrevoutsSHA256 tx = GetSHA256 (fold (Serialize_outpoint \<circ> core_prevout) (core_vin tx) HashWriter)"

definition GetSequencesSHA256 :: "core_transaction \<Rightarrow> byte list" where
  "GetSequencesSHA256 tx = GetSHA256 (fold (ser_writedata 4 \<circ> core_sequence) (core_vin tx) HashWriter)"

definition GetOutputsSHA256 :: "core_transaction \<Rightarrow> byte list" where
  "GetOutputsSHA256 tx = GetSHA256 (fold Serialize_txout (core_vout tx) HashWriter)"

definition GetSpentAmountsSHA256 :: "core_tx_out list \<Rightarrow> byte list" where
  "GetSpentAmountsSHA256 outputs_spent = GetSHA256 (fold (ser_writedata 8 \<circ> core_value) outputs_spent HashWriter)"

definition GetSpentScriptsSHA256 :: "core_tx_out list \<Rightarrow> byte list" where
  "GetSpentScriptsSHA256 outputs_spent =
     GetSHA256 (fold (Serialize_bytes \<circ> core_script_pub_key) outputs_spent HashWriter)"

record PrecomputedTransactionData =
  m_prevouts_single_hash :: "byte list"
  m_sequences_single_hash :: "byte list"
  m_outputs_single_hash :: "byte list"
  m_spent_amounts_single_hash :: "byte list"
  m_spent_scripts_single_hash :: "byte list"
  m_bip341_taproot_ready :: bool
  hashPrevouts :: "byte list"
  hashSequence :: "byte list"
  hashOutputs :: "byte list"
  m_bip143_segwit_ready :: bool
  m_spent_outputs :: "core_tx_out list"
  m_spent_outputs_ready :: bool

definition uint256_zero :: "byte list" where "uint256_zero = replicate 32 0"
definition uint256_ONE :: "byte list" where "uint256_ONE = 1 # replicate 31 0"

definition new_txdata :: PrecomputedTransactionData where
  "new_txdata =
     \<lparr>m_prevouts_single_hash = uint256_zero, m_sequences_single_hash = uint256_zero,
      m_outputs_single_hash = uint256_zero, m_spent_amounts_single_hash = uint256_zero,
      m_spent_scripts_single_hash = uint256_zero, m_bip341_taproot_ready = False,
      hashPrevouts = uint256_zero, hashSequence = uint256_zero, hashOutputs = uint256_zero,
      m_bip143_segwit_ready = False, m_spent_outputs = [], m_spent_outputs_ready = False\<rparr>"

abbreviation (input) WITNESS_V1_TAPROOT_SIZE :: nat where "WITNESS_V1_TAPROOT_SIZE \<equiv> 32"

text \<open>The loop over the inputs; the pair is \<open>uses_bip143_segwit\<close> and \<open>uses_bip341_taproot\<close>.\<close>

fun uses_features :: "core_transaction \<Rightarrow> PrecomputedTransactionData \<Rightarrow> nat list \<Rightarrow> bool \<times> bool \<Rightarrow> bool \<times> bool" where
  "uses_features tx d [] uses = uses"
| "uses_features tx d (inpos # rest) (segwit, taproot) =
     (if segwit \<and> taproot then (segwit, taproot)
      else if core_script_witness (core_vin tx ! inpos) \<noteq> [] then
        (let script = core_script_pub_key (m_spent_outputs d ! inpos) in
         if m_spent_outputs_ready d \<and> length script = 2 + WITNESS_V1_TAPROOT_SIZE \<and> script ! 0 = OP_1
         then uses_features tx d rest (segwit, True)
         else uses_features tx d rest (True, taproot))
      else uses_features tx d rest (segwit, taproot))"

definition Init ::
  "PrecomputedTransactionData \<Rightarrow> core_transaction \<Rightarrow> core_tx_out list \<Rightarrow> bool \<Rightarrow> PrecomputedTransactionData exec" where
  "Init d tx spent_outputs force =
     exec_assert (\<not> m_spent_outputs_ready d)
      (let d = d\<lparr>m_spent_outputs := spent_outputs\<rparr> in
       exec_assert (spent_outputs \<noteq> [] \<longrightarrow> length spent_outputs = length (core_vin tx))
        (let d = (if spent_outputs \<noteq> [] then d\<lparr>m_spent_outputs_ready := True\<rparr> else d) in
         case uses_features tx d [0..<length (core_vin tx)] (force, force) of (segwit, taproot) \<Rightarrow>
           let d = (if segwit \<or> taproot then
                 d\<lparr>m_prevouts_single_hash := GetPrevoutsSHA256 tx, m_sequences_single_hash := GetSequencesSHA256 tx,
                   m_outputs_single_hash := GetOutputsSHA256 tx\<rparr> else d);
               d = (if segwit then
                 d\<lparr>hashPrevouts := SHA256Uint256 (m_prevouts_single_hash d),
                   hashSequence := SHA256Uint256 (m_sequences_single_hash d),
                   hashOutputs := SHA256Uint256 (m_outputs_single_hash d), m_bip143_segwit_ready := True\<rparr> else d)
           in Ok (if taproot \<and> m_spent_outputs_ready d then
                 d\<lparr>m_spent_amounts_single_hash := GetSpentAmountsSHA256 (m_spent_outputs d),
                   m_spent_scripts_single_hash := GetSpentScriptsSHA256 (m_spent_outputs d),
                   m_bip341_taproot_ready := True\<rparr> else d)))"

subsection \<open>The hash signed by a Schnorr signature\<close>

definition HASHER_TAPSIGHASH :: csha256 where
  "HASHER_TAPSIGHASH = TaggedHash (map (of_nat \<circ> of_char) ''TapSighash'')"

datatype MissingDataBehavior = ASSERT_FAIL | FAIL

primrec HandleMissingData :: "MissingDataBehavior \<Rightarrow> bool exec" where
  "HandleMissingData ASSERT_FAIL = Aborted"
| "HandleMissingData FAIL = Ok False"

definition schnorr_tx_data ::
  "PrecomputedTransactionData \<Rightarrow> core_transaction \<Rightarrow> byte \<Rightarrow> byte \<Rightarrow> csha256 \<Rightarrow> csha256" where
  "schnorr_tx_data cache tx output_type input_type ss =
     (let ss = ser_writedata 4 (core_lock_time tx) (ser_writedata 4 (core_version tx) ss);
          ss = (if input_type \<noteq> ucast SIGHASH_ANYONECANPAY then
              HashWriter_write (HashWriter_write (HashWriter_write (HashWriter_write ss
                (m_prevouts_single_hash cache)) (m_spent_amounts_single_hash cache))
                (m_spent_scripts_single_hash cache)) (m_sequences_single_hash cache) else ss)
      in if output_type = SIGHASH_ALL then HashWriter_write ss (m_outputs_single_hash cache) else ss)"

definition schnorr_input_data ::
  "PrecomputedTransactionData \<Rightarrow> core_transaction \<Rightarrow> u32 \<Rightarrow> ScriptExecutionData \<Rightarrow> byte \<Rightarrow> byte \<Rightarrow> csha256 \<Rightarrow> csha256" where
  "schnorr_input_data cache tx in_pos execdata ext_flag input_type ss =
     (let have_annex = m_annex_present execdata;
          ss = ser_writedata 1 (push_bit 1 ext_flag + (if have_annex then 1 else 0)) ss;
          txin = core_vin tx ! unat in_pos;
          ss = (if input_type = ucast SIGHASH_ANYONECANPAY then
              ser_writedata 4 (core_sequence txin)
                (Serialize_txout (m_spent_outputs cache ! unat in_pos) (Serialize_outpoint (core_prevout txin) ss))
            else ser_writedata 4 in_pos ss)
      in if have_annex then HashWriter_write ss (m_annex_hash execdata) else ss)"

definition schnorr_script_data :: "SigVersion \<Rightarrow> ScriptExecutionData \<Rightarrow> csha256 \<Rightarrow> csha256 exec" where
  "schnorr_script_data sigversion execdata ss =
     (if sigversion = TAPSCRIPT then
        exec_assert (m_tapleaf_hash_init execdata)
         (exec_assert (m_codeseparator_pos_init execdata)
           (Ok (ser_writedata 4 (m_codeseparator_pos execdata)
             (ser_writedata 1 (0 :: byte) (HashWriter_write ss (m_tapleaf_hash execdata))))))
      else Ok ss)"

text \<open>The result is \<open>None\<close> when the function returns false.\<close>

definition SignatureHashSchnorr ::
  "ScriptExecutionData \<Rightarrow> core_transaction \<Rightarrow> u32 \<Rightarrow> byte \<Rightarrow> SigVersion \<Rightarrow> PrecomputedTransactionData \<Rightarrow>
   MissingDataBehavior \<Rightarrow> (byte list \<times> ScriptExecutionData) option exec" where
  "SignatureHashSchnorr execdata tx in_pos hash_type sigversion cache mdb =
     exec_assert (sigversion = TAPROOT \<or> sigversion = TAPSCRIPT)
      (exec_assert (unat in_pos < length (core_vin tx))
       (if \<not> (m_bip341_taproot_ready cache \<and> m_spent_outputs_ready cache)
        then exec_bind (HandleMissingData mdb) (\<lambda>b. Ok None)
        else
         (let ext_flag = (if sigversion = TAPROOT then 0 else 1);
              output_type = (if hash_type = SIGHASH_DEFAULT then SIGHASH_ALL else hash_type AND 3);
              input_type = hash_type AND 0x80
          in if \<not> (hash_type \<le> 0x03 \<or> (0x81 \<le> hash_type \<and> hash_type \<le> 0x83)) then Ok None
          else exec_assert (m_annex_init execdata)
           (let ss = ser_writedata 1 hash_type (ser_writedata 1 (0 :: byte) HASHER_TAPSIGHASH);
                ss = schnorr_tx_data cache tx output_type input_type ss;
                ss = schnorr_input_data cache tx in_pos execdata ext_flag input_type ss
            in if output_type = ucast SIGHASH_SINGLE \<and> unat in_pos \<ge> length (core_vout tx) then Ok None
            else
             (let output_hash = (case m_output_hash execdata of
                    None \<Rightarrow> GetSHA256 (Serialize_txout (core_vout tx ! unat in_pos) HashWriter) | Some h \<Rightarrow> h);
                  execdata = (if output_type = ucast SIGHASH_SINGLE then execdata\<lparr>m_output_hash := Some output_hash\<rparr>
                    else execdata);
                  ss = (if output_type = ucast SIGHASH_SINGLE then HashWriter_write ss output_hash else ss)
              in exec_bind (schnorr_script_data sigversion execdata ss)
                (\<lambda>ss. Ok (Some (GetSHA256 ss, execdata))))))))"

subsection \<open>The hash signed by an ECDSA signature\<close>

type_synonym SigHashCache = "(byte list \<times> csha256) option list"

definition new_sighash_cache :: SigHashCache where
  "new_sighash_cache = replicate 6 None"

definition CacheIndex :: "i32 \<Rightarrow> nat" where
  "CacheIndex hash_type =
     3 * of_bool (hash_type AND SIGHASH_ANYONECANPAY \<noteq> 0) +
     2 * of_bool (hash_type AND 0x1f = SIGHASH_SINGLE) + 1 * of_bool (hash_type AND 0x1f = SIGHASH_NONE)"

definition Cache_Load :: "SigHashCache \<Rightarrow> i32 \<Rightarrow> byte list \<Rightarrow> csha256 option" where
  "Cache_Load cache hash_type script_code =
     (case cache ! CacheIndex hash_type of
        None \<Rightarrow> None
      | Some (code, writer) \<Rightarrow> if script_code = code then Some writer else None)"

definition Cache_Store :: "SigHashCache \<Rightarrow> i32 \<Rightarrow> byte list \<Rightarrow> csha256 \<Rightarrow> SigHashCache" where
  "Cache_Store cache hash_type script_code writer = cache[CacheIndex hash_type := Some (script_code, writer)]"

definition witness_v0_writer ::
  "byte list \<Rightarrow> core_transaction \<Rightarrow> u32 \<Rightarrow> i32 \<Rightarrow> i64 \<Rightarrow> PrecomputedTransactionData option \<Rightarrow> csha256" where
  "witness_v0_writer code tx i nHashType amount cache =
     (let cacheready = (case cache of None \<Rightarrow> None | Some d \<Rightarrow> if m_bip143_segwit_ready d then Some d else None);
          anyone = (nHashType AND SIGHASH_ANYONECANPAY \<noteq> 0);
          base = nHashType AND 0x1f;
          txin = core_vin tx ! unat i;
          prevouts = (if \<not> anyone then
              (case cacheready of Some d \<Rightarrow> hashPrevouts d | None \<Rightarrow> SHA256Uint256 (GetPrevoutsSHA256 tx))
            else uint256_zero);
          sequence = (if \<not> anyone \<and> base \<noteq> SIGHASH_SINGLE \<and> base \<noteq> SIGHASH_NONE then
              (case cacheready of Some d \<Rightarrow> hashSequence d | None \<Rightarrow> SHA256Uint256 (GetSequencesSHA256 tx))
            else uint256_zero);
          outputs = (if base \<noteq> SIGHASH_SINGLE \<and> base \<noteq> SIGHASH_NONE then
              (case cacheready of Some d \<Rightarrow> hashOutputs d | None \<Rightarrow> SHA256Uint256 (GetOutputsSHA256 tx))
            else if base = SIGHASH_SINGLE \<and> unat i < length (core_vout tx) then
              GetHash (Serialize_txout (core_vout tx ! unat i) HashWriter)
            else uint256_zero);
          ss = ser_writedata 4 (core_version tx) HashWriter;
          ss = HashWriter_write (HashWriter_write ss prevouts) sequence;
          ss = Serialize_outpoint (core_prevout txin) ss;
          ss = ser_writedata 8 amount (Serialize_bytes code ss);
          ss = HashWriter_write (ser_writedata 4 (core_sequence txin) ss) outputs
      in ser_writedata 4 (core_lock_time tx) ss)"

definition SignatureHash ::
  "byte list \<Rightarrow> core_transaction \<Rightarrow> u32 \<Rightarrow> i32 \<Rightarrow> i64 \<Rightarrow> SigVersion \<Rightarrow> PrecomputedTransactionData option \<Rightarrow>
   SigHashCache option \<Rightarrow> (byte list \<times> SigHashCache option) exec" where
  "SignatureHash code tx i nHashType amount sigversion cache sighash_cache =
     exec_assert (unat i < length (core_vin tx))
      (if sigversion \<noteq> WITNESS_V0 \<and> nHashType AND 0x1f = SIGHASH_SINGLE \<and> unat i \<ge> length (core_vout tx)
       then Ok (uint256_ONE, sighash_cache)
       else
        (case Option.bind sighash_cache (\<lambda>c. Cache_Load c nHashType code) of
           Some ss \<Rightarrow> Ok (GetHash (ser_writedata 4 nHashType ss), sighash_cache)
         | None \<Rightarrow>
            (let ss = (if sigversion = WITNESS_V0 then witness_v0_writer code tx i nHashType amount cache
                  else Serialize_signing (new_serializer tx code i nHashType) HashWriter);
                 sighash_cache = map_option (\<lambda>c. Cache_Store c nHashType code ss) sighash_cache
             in Ok (GetHash (ser_writedata 4 nHashType ss), sighash_cache))))"

subsection \<open>The checker\<close>

record TransactionSignatureChecker =
  ck_txTo :: core_transaction
  ck_mdb :: MissingDataBehavior
  ck_nIn :: u32
  ck_amount :: i64
  ck_txdata :: "PrecomputedTransactionData option"

definition tx_CheckECDSASignature ::
  "secp256k1 \<Rightarrow> TransactionSignatureChecker \<Rightarrow> byte list \<Rightarrow> byte list \<Rightarrow> byte list \<Rightarrow> SigVersion \<Rightarrow> SigHashCache \<Rightarrow>
   (bool \<times> SigHashCache) exec" where
  "tx_CheckECDSASignature secp ck vchSigIn vchPubKey code sigversion c =
     (let pubkey = CPubKey vchPubKey in
      if \<not> pubkey_IsValid pubkey then Ok (False, c)
      else if vchSigIn = [] then Ok (False, c)
      else if sigversion = WITNESS_V0 \<and> ck_amount ck <s 0 then exec_bind (HandleMissingData (ck_mdb ck)) (\<lambda>b. Ok (b, c))
      else exec_bind
        (SignatureHash code (ck_txTo ck) (ck_nIn ck) (ucast (last vchSigIn)) (ck_amount ck) sigversion (ck_txdata ck) (Some c))
        (\<lambda>(sighash, c'). Ok (pubkey_Verify secp pubkey sighash (butlast vchSigIn), the c')))"

definition schnorr_verdict ::
  "secp256k1 \<Rightarrow> byte list \<Rightarrow> byte list \<Rightarrow> 'c \<Rightarrow> (byte list \<times> ScriptExecutionData) option \<Rightarrow>
   (ScriptError option + ScriptExecutionData \<times> 'c) exec" where
  "schnorr_verdict secp sig pubkey c r =
     (case r of
        None \<Rightarrow> Ok (Inl (Some SCRIPT_ERR_SCHNORR_SIG_HASHTYPE))
      | Some (sighash, execdata) \<Rightarrow>
          (case VerifySchnorr secp pubkey sighash sig of
             None \<Rightarrow> Aborted
           | Some ok \<Rightarrow> Ok (if ok then Inr (execdata, c) else Inl (Some SCRIPT_ERR_SCHNORR_SIG))))"

definition tx_CheckSchnorrSignature ::
  "secp256k1 \<Rightarrow> TransactionSignatureChecker \<Rightarrow> byte list \<Rightarrow> byte list \<Rightarrow> SigVersion \<Rightarrow> ScriptExecutionData \<Rightarrow> 'c \<Rightarrow>
   (ScriptError option + ScriptExecutionData \<times> 'c) exec" where
  "tx_CheckSchnorrSignature secp ck sig pubkey_in sigversion execdata c =
     exec_assert (sigversion = TAPROOT \<or> sigversion = TAPSCRIPT)
      (exec_assert (length pubkey_in = 32)
       (if length sig \<noteq> 64 \<and> length sig \<noteq> 65 then Ok (Inl (Some SCRIPT_ERR_SCHNORR_SIG_SIZE))
        else
         (let hashtype = (if length sig = 65 then last sig else SIGHASH_DEFAULT);
              sig' = (if length sig = 65 then butlast sig else sig)
          in if length sig = 65 \<and> hashtype = SIGHASH_DEFAULT then Ok (Inl (Some SCRIPT_ERR_SCHNORR_SIG_HASHTYPE))
          else (case ck_txdata ck of
              None \<Rightarrow> exec_bind (HandleMissingData (ck_mdb ck)) (\<lambda>b. Ok (Inl None))
            | Some txdata \<Rightarrow> exec_bind
                (SignatureHashSchnorr execdata (ck_txTo ck) (ck_nIn ck) hashtype sigversion txdata (ck_mdb ck))
                (schnorr_verdict secp sig' pubkey_in c)))))"

abbreviation (input) SEQUENCE_FINAL :: u32 where "SEQUENCE_FINAL \<equiv> 0xffffffff"
abbreviation (input) SEQUENCE_LOCKTIME_DISABLE_FLAG :: i64 where "SEQUENCE_LOCKTIME_DISABLE_FLAG \<equiv> 0x80000000"
abbreviation (input) SEQUENCE_LOCKTIME_TYPE_FLAG :: i64 where "SEQUENCE_LOCKTIME_TYPE_FLAG \<equiv> 0x400000"
abbreviation (input) SEQUENCE_LOCKTIME_MASK :: i64 where "SEQUENCE_LOCKTIME_MASK \<equiv> 0xffff"

definition tx_CheckLockTime :: "TransactionSignatureChecker \<Rightarrow> i64 \<Rightarrow> bool" where
  "tx_CheckLockTime ck nLockTime =
     (let tx = ck_txTo ck; threshold = ucast LOCKTIME_THRESHOLD :: i64 in
      if \<not> ((core_lock_time tx < LOCKTIME_THRESHOLD \<and> nLockTime <s threshold) \<or>
            (core_lock_time tx \<ge> LOCKTIME_THRESHOLD \<and> threshold \<le>s nLockTime)) then False
      else if ucast (core_lock_time tx) <s nLockTime then False
      else if SEQUENCE_FINAL = core_sequence (core_vin tx ! unat (ck_nIn ck)) then False
      else True)"

definition tx_CheckSequence :: "TransactionSignatureChecker \<Rightarrow> i64 \<Rightarrow> bool" where
  "tx_CheckSequence ck nSequence =
     (let tx = ck_txTo ck;
          txToSequence = ucast (core_sequence (core_vin tx ! unat (ck_nIn ck))) :: i64
      in if core_version tx < 2 then False
      else if txToSequence AND SEQUENCE_LOCKTIME_DISABLE_FLAG \<noteq> 0 then False
      else
       (let nLockTimeMask = SEQUENCE_LOCKTIME_TYPE_FLAG OR SEQUENCE_LOCKTIME_MASK;
            txToSequenceMasked = txToSequence AND nLockTimeMask;
            nSequenceMasked = nSequence AND nLockTimeMask
        in if \<not> ((txToSequenceMasked <s SEQUENCE_LOCKTIME_TYPE_FLAG \<and> nSequenceMasked <s SEQUENCE_LOCKTIME_TYPE_FLAG) \<or>
              (SEQUENCE_LOCKTIME_TYPE_FLAG \<le>s txToSequenceMasked \<and> SEQUENCE_LOCKTIME_TYPE_FLAG \<le>s nSequenceMasked)) then False
        else if txToSequenceMasked <s nSequenceMasked then False
        else True))"

definition transaction_signature_checker ::
  "secp256k1 \<Rightarrow> TransactionSignatureChecker \<Rightarrow> SigHashCache BaseSignatureChecker" where
  "transaction_signature_checker secp ck =
     \<lparr>CheckECDSASignature = tx_CheckECDSASignature secp ck, CheckSchnorrSignature = tx_CheckSchnorrSignature secp ck,
      CheckLockTime = tx_CheckLockTime ck, CheckSequence = tx_CheckSequence ck\<rparr>"

end
