(* ===== verification/Verify_Script.thy ===== *)
theory Verify_Script
  imports Sighash
begin

text \<open>
  \<open>VerifyScript\<close> of \<^verbatim>\<open>script/interpreter.cpp\<close>: the execution of a witness script, taproot commitments,
  witness programs, the sequence of the two scripts with the P2SH and witness extensions, and the
  count of signature operations in a witness.

  A function that returns false with an error is \<open>Err\<close>; one that returns true gives the state of the
  checker. The stack of a witness is in the order of the source, with the top last; \<open>rev\<close> turns it
  into a stack of the interpreter.
\<close>

subsection \<open>Witness scripts\<close>

text \<open>The scan for \<open>OP_SUCCESS\<close>: \<open>Ok True\<close> when the script succeeds at once.\<close>

function scan_success :: "script_verify_flags \<Rightarrow> byte list \<Rightarrow> nat \<Rightarrow> bool exec" where
  "scan_success flags script pc =
     (if pc < length script then
       (case GetScriptOp script pc of (ok, pc', opcode, data) \<Rightarrow>
          if \<not> ok then Err SCRIPT_ERR_BAD_OPCODE
          else if IsOpSuccess opcode then
            (if flag_set flags SCRIPT_VERIFY_DISCOURAGE_OP_SUCCESS then Err SCRIPT_ERR_DISCOURAGE_OP_SUCCESS else Ok True)
          else scan_success flags script pc')
      else Ok False)"
  by pat_completeness auto
termination
  by (relation "measure (\<lambda>(flags, script, pc). length script - pc)") (auto dest!: GetScriptOp_bounds [OF sym])

declare scan_success.simps [simp del]

definition run_witness_script ::
  "'c eval_env \<Rightarrow> byte list list \<Rightarrow> ScriptExecutionData \<Rightarrow> 'c \<Rightarrow> 'c exec" where
  "run_witness_script env stack execdata c =
     (if list_ex (\<lambda>elem. length elem > MAX_SCRIPT_ELEMENT_SIZE) stack then Err SCRIPT_ERR_PUSH_SIZE
      else exec_bind (EvalScript env stack execdata c) (\<lambda>(stack, execdata, c).
        if length stack \<noteq> 1 then Err SCRIPT_ERR_CLEANSTACK
        else if \<not> CastToBool (hd stack) then Err SCRIPT_ERR_EVAL_FALSE
        else Ok c))"

definition ExecuteWitnessScript ::
  "'c eval_env \<Rightarrow> byte list list \<Rightarrow> ScriptExecutionData \<Rightarrow> 'c \<Rightarrow> 'c exec" where
  "ExecuteWitnessScript env stack_span execdata c =
     (let stack = rev stack_span in
      if env_sigversion env = TAPSCRIPT then
        exec_bind (scan_success (env_flags env) (env_script env) 0) (\<lambda>success.
          if success then Ok c
          else if length stack > MAX_STACK_SIZE then Err SCRIPT_ERR_STACK_SIZE
          else run_witness_script env stack execdata c)
      else run_witness_script env stack execdata c)"

subsection \<open>Taproot commitments\<close>

abbreviation (input) TAPROOT_LEAF_MASK :: byte where "TAPROOT_LEAF_MASK \<equiv> 0xfe"
abbreviation (input) TAPROOT_LEAF_TAPSCRIPT :: byte where "TAPROOT_LEAF_TAPSCRIPT \<equiv> 0xc0"
abbreviation (input) TAPROOT_CONTROL_BASE_SIZE :: nat where "TAPROOT_CONTROL_BASE_SIZE \<equiv> 33"
abbreviation (input) TAPROOT_CONTROL_NODE_SIZE :: nat where "TAPROOT_CONTROL_NODE_SIZE \<equiv> 32"
abbreviation (input) TAPROOT_CONTROL_MAX_SIZE :: nat where "TAPROOT_CONTROL_MAX_SIZE \<equiv> 4129"

definition HASHER_TAPLEAF :: csha256 where
  "HASHER_TAPLEAF = TaggedHash (map (of_nat \<circ> of_char) ''TapLeaf'')"

definition HASHER_TAPBRANCH :: csha256 where
  "HASHER_TAPBRANCH = TaggedHash (map (of_nat \<circ> of_char) ''TapBranch'')"

definition ComputeTapleafHash :: "byte \<Rightarrow> byte list \<Rightarrow> byte list" where
  "ComputeTapleafHash leaf_version script =
     GetSHA256 (HashWriter_write
       (WriteCompactSize HashWriter_write (of_nat (length script)) (ser_writedata 1 leaf_version HASHER_TAPLEAF)) script)"

text \<open>\<open>std::lexicographical_compare\<close>.\<close>

fun lexicographical_compare :: "byte list \<Rightarrow> byte list \<Rightarrow> bool" where
  "lexicographical_compare a [] = False"
| "lexicographical_compare [] (y # b) = True"
| "lexicographical_compare (x # a) (y # b) =
     (if x < y then True else if y < x then False else lexicographical_compare a b)"

definition ComputeTapbranchHash :: "byte list \<Rightarrow> byte list \<Rightarrow> byte list" where
  "ComputeTapbranchHash a b =
     (if lexicographical_compare a b then GetSHA256 (HashWriter_write (HashWriter_write HASHER_TAPBRANCH a) b)
      else GetSHA256 (HashWriter_write (HashWriter_write HASHER_TAPBRANCH b) a))"

definition control_node :: "byte list \<Rightarrow> nat \<Rightarrow> byte list" where
  "control_node control i =
     take TAPROOT_CONTROL_NODE_SIZE (drop (TAPROOT_CONTROL_BASE_SIZE + TAPROOT_CONTROL_NODE_SIZE * i) control)"

definition ComputeTaprootMerkleRoot :: "byte list \<Rightarrow> byte list \<Rightarrow> byte list exec" where
  "ComputeTaprootMerkleRoot control tapleaf_hash =
     exec_assert (length control \<ge> TAPROOT_CONTROL_BASE_SIZE \<and> length control \<le> TAPROOT_CONTROL_MAX_SIZE \<and>
         (length control - TAPROOT_CONTROL_BASE_SIZE) mod TAPROOT_CONTROL_NODE_SIZE = 0)
       (let path_len = (length control - TAPROOT_CONTROL_BASE_SIZE) div TAPROOT_CONTROL_NODE_SIZE in
        Ok (fold (\<lambda>i k. ComputeTapbranchHash k (control_node control i)) [0..<path_len] tapleaf_hash))"

text \<open>The keys are objects of 32 bytes, and constructing one from a span of another size fails an assertion.\<close>

definition VerifyTaprootCommitment :: "secp256k1 \<Rightarrow> byte list \<Rightarrow> byte list \<Rightarrow> byte list \<Rightarrow> bool exec" where
  "VerifyTaprootCommitment secp control program tapleaf_hash =
     exec_assert (length control \<ge> TAPROOT_CONTROL_BASE_SIZE)
      (exec_assert (length program \<ge> 32)
       (let p = take (TAPROOT_CONTROL_BASE_SIZE - 1) (drop 1 control) in
        exec_assert (length program = 32)
         (exec_bind (ComputeTaprootMerkleRoot control tapleaf_hash) (\<lambda>merkle_root.
            Ok (CheckTapTweak secp program p merkle_root (control ! 0 AND 1 \<noteq> 0))))))"

subsection \<open>Witness programs\<close>

abbreviation (input) WITNESS_V0_SCRIPTHASH_SIZE :: nat where "WITNESS_V0_SCRIPTHASH_SIZE \<equiv> 32"
abbreviation (input) WITNESS_V0_KEYHASH_SIZE :: nat where "WITNESS_V0_KEYHASH_SIZE \<equiv> 20"

definition GetSizeOfCompactSize :: "u64 \<Rightarrow> u64" where
  "GetSizeOfCompactSize nSize =
     (if nSize < 253 then 1 else if nSize \<le> 0xffff then 1 + 2 else if nSize \<le> 0xffffffff then 1 + 4 else 1 + 8)"

text \<open>\<open>::GetSerializeSize\<close> of a vector of byte vectors.\<close>

definition GetSerializeSize :: "byte list list \<Rightarrow> u64" where
  "GetSerializeSize stack =
     fold (\<lambda>item m_size. m_size + GetSizeOfCompactSize (of_nat (length item)) + of_nat (length item)) stack
       (GetSizeOfCompactSize (of_nat (length stack)))"

record 'c verify_env =
  ve_secp :: secp256k1
  ve_flags :: script_verify_flags
  ve_checker :: "'c BaseSignatureChecker"

abbreviation ve_flag :: "'c verify_env \<Rightarrow> script_verify_flag_name \<Rightarrow> bool" where
  "ve_flag ve f \<equiv> flag_set (ve_flags ve) f"

definition script_env :: "'c verify_env \<Rightarrow> SigVersion \<Rightarrow> byte list \<Rightarrow> 'c eval_env" where
  "script_env ve sigversion script =
     \<lparr>env_secp = ve_secp ve, env_script = script, env_flags = ve_flags ve, env_checker = ve_checker ve,
      env_sigversion = sigversion\<rparr>"

definition verify_witness_v0 :: "'c verify_env \<Rightarrow> byte list list \<Rightarrow> byte list \<Rightarrow> 'c \<Rightarrow> 'c exec" where
  "verify_witness_v0 ve stack program c =
     (if length program = WITNESS_V0_SCRIPTHASH_SIZE then
        (if length stack = 0 then Err SCRIPT_ERR_WITNESS_PROGRAM_WITNESS_EMPTY
         else
          (let exec_script = last stack;
               hash_exec_script = Finalize (sha_Write (CSHA256 (replicate 64 0)) exec_script)
           in if hash_exec_script \<noteq> take 32 program then Err SCRIPT_ERR_WITNESS_PROGRAM_MISMATCH
           else ExecuteWitnessScript (script_env ve WITNESS_V0 exec_script) (butlast stack) new_execdata c))
      else if length program = WITNESS_V0_KEYHASH_SIZE then
        (if length stack \<noteq> 2 then Err SCRIPT_ERR_WITNESS_PROGRAM_MISMATCH
         else ExecuteWitnessScript
           (script_env ve WITNESS_V0 ([OP_DUP, OP_HASH160] @ push_data program @ [OP_EQUALVERIFY, OP_CHECKSIG]))
           stack new_execdata c)
      else Err SCRIPT_ERR_WITNESS_PROGRAM_WRONG_LENGTH)"

text \<open>The annex: what remains of the stack, and the execution data.\<close>

definition drop_annex :: "byte list list \<Rightarrow> byte list list \<times> ScriptExecutionData" where
  "drop_annex stack =
     (if length stack \<ge> 2 \<and> last stack \<noteq> [] \<and> hd (last stack) = ANNEX_TAG then
        (butlast stack, new_execdata\<lparr>m_annex_hash := GetSHA256 (Serialize_bytes (last stack) HashWriter),
           m_annex_present := True, m_annex_init := True\<rparr>)
      else (stack, new_execdata\<lparr>m_annex_present := False, m_annex_init := True\<rparr>))"

definition verify_script_path ::
  "'c verify_env \<Rightarrow> byte list list \<Rightarrow> byte list list \<Rightarrow> ScriptExecutionData \<Rightarrow> byte list \<Rightarrow> 'c \<Rightarrow> 'c exec" where
  "verify_script_path ve witness stack execdata program c =
     (let control = last stack; script = last (butlast stack); stack = butlast (butlast stack) in
      if length control < TAPROOT_CONTROL_BASE_SIZE \<or> length control > TAPROOT_CONTROL_MAX_SIZE \<or>
          (length control - TAPROOT_CONTROL_BASE_SIZE) mod TAPROOT_CONTROL_NODE_SIZE \<noteq> 0
      then Err SCRIPT_ERR_TAPROOT_WRONG_CONTROL_SIZE
      else
       (let tapleaf_hash = ComputeTapleafHash (control ! 0 AND TAPROOT_LEAF_MASK) script;
            execdata = execdata\<lparr>m_tapleaf_hash := tapleaf_hash\<rparr>
        in exec_bind (VerifyTaprootCommitment (ve_secp ve) control program tapleaf_hash) (\<lambda>committed.
          if \<not> committed then Err SCRIPT_ERR_WITNESS_PROGRAM_MISMATCH
          else if control ! 0 AND TAPROOT_LEAF_MASK = TAPROOT_LEAF_TAPSCRIPT then
            ExecuteWitnessScript (script_env ve TAPSCRIPT script) stack
              (execdata\<lparr>m_tapleaf_hash_init := True,
                m_validation_weight_left := GetSerializeSize witness + VALIDATION_WEIGHT_OFFSET,
                m_validation_weight_left_init := True\<rparr>) c
          else if ve_flag ve SCRIPT_VERIFY_DISCOURAGE_UPGRADABLE_TAPROOT_VERSION
          then Err SCRIPT_ERR_DISCOURAGE_UPGRADABLE_TAPROOT_VERSION
          else Ok c)))"

text \<open>When the key-path check fails without setting an error, the one set by \<open>VerifyScript\<close> remains.\<close>

definition verify_taproot :: "'c verify_env \<Rightarrow> byte list list \<Rightarrow> byte list \<Rightarrow> 'c \<Rightarrow> 'c exec" where
  "verify_taproot ve witness program c =
     (if \<not> ve_flag ve SCRIPT_VERIFY_TAPROOT then Ok c
      else if length witness = 0 then Err SCRIPT_ERR_WITNESS_PROGRAM_WITNESS_EMPTY
      else (case drop_annex witness of (stack, execdata) \<Rightarrow>
        if length stack = 1 then
          exec_bind (CheckSchnorrSignature (ve_checker ve) (hd stack) program TAPROOT execdata c) (\<lambda>r.
            case r of
              Inl e \<Rightarrow> Err (case e of None \<Rightarrow> SCRIPT_ERR_UNKNOWN_ERROR | Some e \<Rightarrow> e)
            | Inr (execdata', c') \<Rightarrow> Ok c')
        else verify_script_path ve witness stack execdata program c))"

definition VerifyWitnessProgram ::
  "'c verify_env \<Rightarrow> byte list list \<Rightarrow> nat \<Rightarrow> byte list \<Rightarrow> bool \<Rightarrow> 'c \<Rightarrow> 'c exec" where
  "VerifyWitnessProgram ve witness witversion program is_p2sh c =
     (if witversion = 0 then verify_witness_v0 ve witness program c
      else if witversion = 1 \<and> length program = WITNESS_V1_TAPROOT_SIZE \<and> \<not> is_p2sh then verify_taproot ve witness program c
      else if \<not> is_p2sh \<and> IsPayToAnchor witversion program then Ok c
      else if ve_flag ve SCRIPT_VERIFY_DISCOURAGE_UPGRADABLE_WITNESS_PROGRAM
      then Err SCRIPT_ERR_DISCOURAGE_UPGRADABLE_WITNESS_PROGRAM
      else Ok c)"

subsection \<open>Both scripts\<close>

definition eval_base :: "'c verify_env \<Rightarrow> byte list \<Rightarrow> byte list list \<Rightarrow> 'c \<Rightarrow> (byte list list \<times> 'c) exec" where
  "eval_base ve script stack c =
     exec_bind (EvalScript (script_env ve BASE script) stack new_execdata c) (\<lambda>(stack, execdata, c). Ok (stack, c))"

text \<open>\<open>stack.resize(1)\<close>, which keeps the bottom of the stack.\<close>

definition resize_one :: "byte list list \<Rightarrow> byte list list" where
  "resize_one stack = (if stack = [] then [[]] else [last stack])"

definition check_top :: "byte list list \<Rightarrow> 'a exec \<Rightarrow> 'a exec" where
  "check_top stack k =
     (if stack = [] then Err SCRIPT_ERR_EVAL_FALSE
      else if \<not> CastToBool (hd stack) then Err SCRIPT_ERR_EVAL_FALSE else k)"

text \<open>The result of the two extensions: the stack, whether there was a witness program, the checker.\<close>

definition verify_bare_witness ::
  "'c verify_env \<Rightarrow> byte list \<Rightarrow> byte list \<Rightarrow> byte list list \<Rightarrow> byte list list \<Rightarrow> 'c \<Rightarrow> (byte list list \<times> bool \<times> 'c) exec" where
  "verify_bare_witness ve scriptSig scriptPubKey witness stack c =
     (case (if ve_flag ve SCRIPT_VERIFY_WITNESS then IsWitnessProgram scriptPubKey else None) of
        None \<Rightarrow> Ok (stack, False, c)
      | Some (witnessversion, witnessprogram) \<Rightarrow>
          if length scriptSig \<noteq> 0 then Err SCRIPT_ERR_WITNESS_MALLEATED
          else exec_bind (VerifyWitnessProgram ve witness witnessversion witnessprogram False c)
            (\<lambda>c. Ok (resize_one stack, True, c)))"

definition verify_p2sh_witness ::
  "'c verify_env \<Rightarrow> byte list \<Rightarrow> byte list \<Rightarrow> byte list list \<Rightarrow> byte list list \<Rightarrow> bool \<Rightarrow> 'c \<Rightarrow>
   (byte list list \<times> bool \<times> 'c) exec" where
  "verify_p2sh_witness ve scriptSig pubKey2 witness stack hadWitness c =
     (case (if ve_flag ve SCRIPT_VERIFY_WITNESS then IsWitnessProgram pubKey2 else None) of
        None \<Rightarrow> Ok (stack, hadWitness, c)
      | Some (witnessversion, witnessprogram) \<Rightarrow>
          if scriptSig \<noteq> push_data pubKey2 then Err SCRIPT_ERR_WITNESS_MALLEATED_P2SH
          else exec_bind (VerifyWitnessProgram ve witness witnessversion witnessprogram True c)
            (\<lambda>c. Ok (resize_one stack, True, c)))"

definition verify_p2sh ::
  "'c verify_env \<Rightarrow> byte list \<Rightarrow> byte list \<Rightarrow> byte list list \<Rightarrow> byte list list \<Rightarrow> byte list list \<Rightarrow> bool \<Rightarrow> 'c \<Rightarrow>
   (byte list list \<times> bool \<times> 'c) exec" where
  "verify_p2sh ve scriptSig scriptPubKey witness stackCopy stack hadWitness c =
     (if ve_flag ve SCRIPT_VERIFY_P2SH \<and> IsPayToScriptHash scriptPubKey then
        (if \<not> IsPushOnly scriptSig then Err SCRIPT_ERR_SIG_PUSHONLY
         else exec_assert (stackCopy \<noteq> [])
          (let pubKey2 = hd stackCopy in
           exec_bind (eval_base ve pubKey2 (tl stackCopy) c) (\<lambda>(stack, c).
             check_top stack (verify_p2sh_witness ve scriptSig pubKey2 witness stack hadWitness c))))
      else Ok (stack, hadWitness, c))"

definition verify_end :: "'c verify_env \<Rightarrow> byte list list \<Rightarrow> byte list list \<Rightarrow> bool \<Rightarrow> 'c \<Rightarrow> 'c exec" where
  "verify_end ve witness stack hadWitness c =
     exec_assert (ve_flag ve SCRIPT_VERIFY_CLEANSTACK \<longrightarrow> ve_flag ve SCRIPT_VERIFY_P2SH \<and> ve_flag ve SCRIPT_VERIFY_WITNESS)
      (if ve_flag ve SCRIPT_VERIFY_CLEANSTACK \<and> length stack \<noteq> 1 then Err SCRIPT_ERR_CLEANSTACK
       else if ve_flag ve SCRIPT_VERIFY_WITNESS then
         exec_assert (ve_flag ve SCRIPT_VERIFY_P2SH)
          (if \<not> hadWitness \<and> witness \<noteq> [] then Err SCRIPT_ERR_WITNESS_UNEXPECTED else Ok c)
       else Ok c)"

text \<open>What follows a successful run of the two scripts.\<close>

definition verify_extensions ::
  "'c verify_env \<Rightarrow> byte list \<Rightarrow> byte list \<Rightarrow> byte list list \<Rightarrow> byte list list \<Rightarrow> byte list list \<times> 'c \<Rightarrow> 'c exec" where
  "verify_extensions ve scriptSig scriptPubKey witness stackCopy = (\<lambda>(stack, c).
     check_top stack
       (exec_bind (verify_bare_witness ve scriptSig scriptPubKey witness stack c) (\<lambda>(stack, hadWitness, c).
         exec_bind (verify_p2sh ve scriptSig scriptPubKey witness stackCopy stack hadWitness c)
           (\<lambda>(stack, hadWitness, c). verify_end ve witness stack hadWitness c))))"

definition VerifyScript ::
  "'c verify_env \<Rightarrow> byte list \<Rightarrow> byte list \<Rightarrow> byte list list option \<Rightarrow> 'c \<Rightarrow> 'c exec" where
  "VerifyScript ve scriptSig scriptPubKey witness c =
     (let witness = (case witness of None \<Rightarrow> [] | Some w \<Rightarrow> w) in
      if ve_flag ve SCRIPT_VERIFY_SIGPUSHONLY \<and> \<not> IsPushOnly scriptSig then Err SCRIPT_ERR_SIG_PUSHONLY
      else exec_bind (eval_base ve scriptSig [] c) (\<lambda>(stack, c).
        let stackCopy = (if ve_flag ve SCRIPT_VERIFY_P2SH then stack else []) in
        exec_bind (eval_base ve scriptPubKey stack c) (verify_extensions ve scriptSig scriptPubKey witness stackCopy)))"

subsection \<open>Signature operations in a witness\<close>

definition WitnessSigOps :: "nat \<Rightarrow> byte list \<Rightarrow> byte list list \<Rightarrow> nat" where
  "WitnessSigOps witversion witprogram witness =
     (if witversion = 0 \<and> length witprogram = WITNESS_V0_KEYHASH_SIZE then 1
      else if witversion = 0 \<and> length witprogram = WITNESS_V0_SCRIPTHASH_SIZE \<and> length witness > 0
      then unat (GetSigOpCount (last witness) True) else 0)"

function last_push :: "byte list \<Rightarrow> nat \<Rightarrow> byte list \<Rightarrow> byte list" where
  "last_push script pc data =
     (if pc < length script then
       (case GetScriptOp script pc of (ok, pc', opcode, data') \<Rightarrow> last_push script pc' data')
      else data)"
  by pat_completeness auto
termination
  by (relation "measure (\<lambda>(script, pc, data). length script - pc)") (auto dest!: GetScriptOp_bounds [OF sym])

declare last_push.simps [simp del]

definition CountWitnessSigOps :: "byte list \<Rightarrow> byte list \<Rightarrow> byte list list \<Rightarrow> script_verify_flags \<Rightarrow> nat exec" where
  "CountWitnessSigOps scriptSig scriptPubKey witness flags =
     (if \<not> flag_set flags SCRIPT_VERIFY_WITNESS then Ok 0
      else exec_assert (flag_set flags SCRIPT_VERIFY_P2SH)
       (case IsWitnessProgram scriptPubKey of
          Some (witnessversion, witnessprogram) \<Rightarrow> Ok (WitnessSigOps witnessversion witnessprogram witness)
        | None \<Rightarrow>
           if IsPayToScriptHash scriptPubKey \<and> IsPushOnly scriptSig then
             (case IsWitnessProgram (last_push scriptSig 0 []) of
                Some (witnessversion, witnessprogram) \<Rightarrow> Ok (WitnessSigOps witnessversion witnessprogram witness)
              | None \<Rightarrow> Ok 0)
           else Ok 0))"

end
