(* ===== verification/Verify_Safety.thy ===== *)
theory Verify_Safety
  imports Verify_Script
begin

text \<open>
  No run of \<open>VerifyScript\<close> fails an assertion or lets an exception escape, whatever the two scripts and the
  witness are. The checker of a transaction keeps the contract of \<open>safe_checker\<close> for every input index in
  range; the P2SH branch never sees an empty copy of the stack; the flags the library requests meet
  the implications that \<open>VerifyScript\<close> asserts between them.
\<close>

subsection \<open>The checker of a transaction\<close>

lemma SignatureHash_safe: "unat i < length (core_vin tx) \<Longrightarrow> safe (SignatureHash code tx i ht amt sv d c)"
  by (simp add: SignatureHash_def Let_def split: option.split)

lemma exec_assert_Ok [exec_simps]: "exec_assert b m = Ok x \<longleftrightarrow> b \<and> m = Ok x"
  by (simp add: exec_assert_def)

lemma SignatureHashSchnorr_safe:
  assumes "unat i < length (core_vin tx)" "sv = TAPROOT \<or> sv = TAPSCRIPT" "execdata_ready sv ed"
  shows "safe (SignatureHashSchnorr ed tx i ht sv d FAIL)"
  using assms by (auto simp: SignatureHashSchnorr_def Let_def execdata_ready_def schnorr_script_data_def)

lemma SignatureHashSchnorr_ready:
  "SignatureHashSchnorr ed tx i ht sv d mdb = Ok (Some (h, ed')) \<Longrightarrow> execdata_ready sv ed \<Longrightarrow> execdata_ready sv ed'"
  by (auto simp: SignatureHashSchnorr_def Let_def execdata_ready_def exec_simps split: if_splits)

lemma schnorr_verdict_safe: "length sig = 64 \<Longrightarrow> safe (schnorr_verdict secp sig key c r)"
  by (auto simp: schnorr_verdict_def VerifySchnorr_def split: option.split)

lemma schnorr_verdict_Inr: "schnorr_verdict secp sig key c r = Ok (Inr (ed, c')) \<Longrightarrow> \<exists>h. r = Some (h, ed)"
  by (auto simp: schnorr_verdict_def split: option.splits if_splits)

lemma tx_CheckSchnorrSignature_safe:
  assumes "unat (ck_nIn ck) < length (core_vin (ck_txTo ck))" "ck_mdb ck = FAIL"
    and "length key = 32" "sv = TAPROOT \<or> sv = TAPSCRIPT" "execdata_ready sv ed"
  shows "safe (tx_CheckSchnorrSignature secp ck sig key sv ed c)"
  using assms(2-4) SignatureHashSchnorr_safe [OF assms(1,4,5)]
  by (auto simp: tx_CheckSchnorrSignature_def Let_def split: option.split intro!: safe_bind schnorr_verdict_safe)

lemma tx_CheckSchnorrSignature_ready:
  assumes "tx_CheckSchnorrSignature secp ck sig key sv ed c = Ok (Inr (ed', c'))" "execdata_ready sv ed"
  shows "execdata_ready sv ed'"
proof -
  have "\<exists>ht d mdb h. SignatureHashSchnorr ed (ck_txTo ck) (ck_nIn ck) ht sv d mdb = Ok (Some (h, ed'))"
    using assms(1) unfolding tx_CheckSchnorrSignature_def Let_def
    by (simp only: exec_simps split: if_splits option.splits) (blast dest: schnorr_verdict_Inr)+
  then show ?thesis using SignatureHashSchnorr_ready assms(2) by blast
qed

lemma tx_CheckECDSASignature_safe:
  assumes "unat (ck_nIn ck) < length (core_vin (ck_txTo ck))" "ck_mdb ck = FAIL"
  shows "safe (tx_CheckECDSASignature secp ck sig key code sv c)"
  using SignatureHash_safe [OF assms(1)] assms(2)
  by (auto simp: tx_CheckECDSASignature_def Let_def intro!: safe_bind)

theorem transaction_checker_safe:
  assumes "unat (ck_nIn ck) < length (core_vin (ck_txTo ck))" "ck_mdb ck = FAIL"
  shows "safe_checker (transaction_signature_checker secp ck)"
  by unfold_locales
    (simp_all add: transaction_signature_checker_def tx_CheckECDSASignature_safe [OF assms]
      tx_CheckSchnorrSignature_safe [OF assms] tx_CheckSchnorrSignature_ready)

subsection \<open>Both scripts\<close>

text \<open>
  The script of a script-hash output fails on an empty stack, so the stack that is restored for the
  redeem script has an element.
\<close>

lemma p2sh_empty_stack:
  assumes "IsPayToScriptHash scriptPubKey"
  shows "eval_base ve scriptPubKey [] c \<noteq> Ok r"
proof -
  from assms have len: "length scriptPubKey = 23" and op: "scriptPubKey ! 0 = OP_HASH160"
    by (simp_all add: IsPayToScriptHash_def)
  have get: "GetScriptOp scriptPubKey 0 = (True, 1, OP_HASH160, [])"
    using len op by (simp add: GetScriptOp_def)
  have "eval_loop (script_env ve BASE scriptPubKey) 0 (eval_init [] new_execdata c) = Err SCRIPT_ERR_INVALID_STACK_OPERATION"
    using len
    by (subst eval_loop.simps)
      (simp add: script_env_def get eval_step_def Let_def eval_instruction_eq eval_opcode_def eval_init_def
        script_limits disabled_opcode_def cond_new_def all_true_def eval_hash_def on_stack_def need_def)
  then show ?thesis by (simp add: eval_base_def EvalScript_def script_env_def exec_simps)
qed

lemma script_env_simps [simp]:
  "env_secp (script_env ve sv script) = ve_secp ve" "env_script (script_env ve sv script) = script"
  "env_flags (script_env ve sv script) = ve_flags ve" "env_checker (script_env ve sv script) = ve_checker ve"
  "env_sigversion (script_env ve sv script) = sv"
  by (simp_all add: script_env_def)

lemma scan_success_safe: "safe (scan_success flags script pc)"
proof (induction flags script pc rule: scan_success.induct)
  case (1 flags script pc)
  then show ?case by (auto simp: scan_success.simps [of flags script pc] split: prod.split)
qed

lemma drop_annex_ready: "drop_annex witness = (stack, ed) \<Longrightarrow> m_annex_init ed"
  by (auto simp: drop_annex_def split: if_splits)

lemma check_top_safe: "(stack \<noteq> [] \<Longrightarrow> safe m) \<Longrightarrow> safe (check_top stack m)"
  by (simp add: check_top_def)

lemma verify_end_safe:
  assumes "flag_set (ve_flags ve) SCRIPT_VERIFY_WITNESS \<Longrightarrow> flag_set (ve_flags ve) SCRIPT_VERIFY_P2SH"
    and "flag_set (ve_flags ve) SCRIPT_VERIFY_CLEANSTACK \<Longrightarrow> flag_set (ve_flags ve) SCRIPT_VERIFY_WITNESS"
  shows "safe (verify_end ve witness stack hadWitness c)"
  using assms by (auto simp: verify_end_def exec_assert_def)

context safe_checker
begin

lemma eval_base_safe:
  assumes "ve_checker ve = checker" "elements_ok stack"
  shows "safe (eval_base ve script stack c)"
    and "eval_base ve script stack c = Ok (stack', c') \<Longrightarrow> elements_ok stack'"
proof -
  note run = EvalScript_safe [of "script_env ve BASE script", OF _ _ assms(2), of new_execdata c, simplified, OF assms(1)]
  show "safe (eval_base ve script stack c)"
    using run(2) by (auto simp: eval_base_def intro!: safe_bind)
  show "eval_base ve script stack c = Ok (stack', c') \<Longrightarrow> elements_ok stack'"
    using run(3) by (auto simp: eval_base_def exec_simps)
qed

lemma run_witness_script_safe:
  assumes "env_checker env = checker" "env_sigversion env \<noteq> TAPROOT"
    and "env_sigversion env = TAPSCRIPT \<Longrightarrow>
      m_annex_init execdata \<and> m_tapleaf_hash_init execdata \<and> m_validation_weight_left_init execdata"
  shows "safe (run_witness_script env stack execdata c)"
proof (cases "elements_ok stack")
  case True
  with EvalScript_safe(2) [OF assms(1,2) True assms(3)]
  show ?thesis by (auto simp: run_witness_script_def intro!: safe_bind)
next
  case False
  then show ?thesis by (auto simp: run_witness_script_def elements_ok_def list_ex_iff)
qed

lemma ExecuteWitnessScript_safe:
  assumes "env_checker env = checker" "env_sigversion env \<noteq> TAPROOT"
    and "env_sigversion env = TAPSCRIPT \<Longrightarrow>
      m_annex_init execdata \<and> m_tapleaf_hash_init execdata \<and> m_validation_weight_left_init execdata"
  shows "safe (ExecuteWitnessScript env stack execdata c)"
  using run_witness_script_safe [OF assms] scan_success_safe
  by (auto simp: ExecuteWitnessScript_def Let_def intro!: safe_bind)

lemma verify_witness_v0_safe: "ve_checker ve = checker \<Longrightarrow> safe (verify_witness_v0 ve stack program c)"
  by (auto simp: verify_witness_v0_def Let_def intro!: ExecuteWitnessScript_safe)

lemma verify_script_path_safe:
  assumes "ve_checker ve = checker" "length program = 32" "m_annex_init execdata"
  shows "safe (verify_script_path ve witness stack execdata program c)"
  using assms
  by (auto simp: verify_script_path_def Let_def VerifyTaprootCommitment_def ComputeTaprootMerkleRoot_def not_less
      intro!: safe_bind ExecuteWitnessScript_safe)

lemma verify_taproot_safe:
  assumes "ve_checker ve = checker" "length program = 32"
  shows "safe (verify_taproot ve witness program c)"
proof -
  obtain stack ed where d: "drop_annex witness = (stack, ed)" by fastforce
  have "execdata_ready TAPROOT ed" using drop_annex_ready [OF d] by (simp add: execdata_ready_def)
  with schnorr_safe [OF assms(2), of TAPROOT ed] verify_script_path_safe [OF assms drop_annex_ready [OF d]]
  show ?thesis
    by (auto simp: verify_taproot_def d assms(1) split: sum.split intro!: safe_bind)
qed

lemma VerifyWitnessProgram_safe:
  "ve_checker ve = checker \<Longrightarrow> safe (VerifyWitnessProgram ve witness version program is_p2sh c)"
  by (simp add: VerifyWitnessProgram_def verify_witness_v0_safe verify_taproot_safe)

lemma verify_bare_witness_safe:
  "ve_checker ve = checker \<Longrightarrow> safe (verify_bare_witness ve scriptSig scriptPubKey witness stack c)"
  by (auto simp: verify_bare_witness_def split: option.split intro!: safe_bind VerifyWitnessProgram_safe)

lemma verify_p2sh_witness_safe:
  "ve_checker ve = checker \<Longrightarrow> safe (verify_p2sh_witness ve scriptSig pubKey2 witness stack hadWitness c)"
  by (auto simp: verify_p2sh_witness_def split: option.split intro!: safe_bind VerifyWitnessProgram_safe)

lemma verify_p2sh_safe:
  assumes "ve_checker ve = checker" "IsPayToScriptHash scriptPubKey \<Longrightarrow> ve_flag ve SCRIPT_VERIFY_P2SH \<Longrightarrow> stackCopy \<noteq> []"
    and "elements_ok stackCopy"
  shows "safe (verify_p2sh ve scriptSig scriptPubKey witness stackCopy stack hadWitness c)"
proof (cases "ve_flag ve SCRIPT_VERIFY_P2SH \<and> IsPayToScriptHash scriptPubKey")
  case True
  with assms(2,3) obtain s r where s: "stackCopy = s # r" "elements_ok r" by (cases stackCopy) auto
  then show ?thesis
    using eval_base_safe(1) [OF assms(1) s(2)] verify_p2sh_witness_safe [OF assms(1)]
    by (auto simp: verify_p2sh_def Let_def intro!: safe_bind check_top_safe)
qed (auto simp: verify_p2sh_def)

lemma verify_extensions_safe:
  assumes "ve_checker ve = checker" "IsPayToScriptHash scriptPubKey \<Longrightarrow> ve_flag ve SCRIPT_VERIFY_P2SH \<Longrightarrow> stackCopy \<noteq> []"
    and "elements_ok stackCopy"
    and "flag_set (ve_flags ve) SCRIPT_VERIFY_WITNESS \<Longrightarrow> flag_set (ve_flags ve) SCRIPT_VERIFY_P2SH"
    and "flag_set (ve_flags ve) SCRIPT_VERIFY_CLEANSTACK \<Longrightarrow> flag_set (ve_flags ve) SCRIPT_VERIFY_WITNESS"
  shows "safe (verify_extensions ve scriptSig scriptPubKey witness stackCopy sc)"
  using verify_bare_witness_safe [OF assms(1)] verify_p2sh_safe [OF assms(1-3)] verify_end_safe [OF assms(4,5)]
  by (auto simp: verify_extensions_def split: prod.split intro!: safe_bind check_top_safe)

text \<open>
  No assertion fails and nothing is read out of range, when the flags are consistent: the witness
  rules require those of script hashes, and the clean-stack rule requires both.
\<close>

theorem VerifyScript_safe:
  assumes "ve_checker ve = checker"
    and "flag_set (ve_flags ve) SCRIPT_VERIFY_WITNESS \<Longrightarrow> flag_set (ve_flags ve) SCRIPT_VERIFY_P2SH"
    and "flag_set (ve_flags ve) SCRIPT_VERIFY_CLEANSTACK \<Longrightarrow> flag_set (ve_flags ve) SCRIPT_VERIFY_WITNESS"
  shows "safe (VerifyScript ve scriptSig scriptPubKey witness c)"
proof -
  note base = eval_base_safe [OF assms(1)]
  have second: "safe (exec_bind (eval_base ve scriptPubKey stack c)
      (verify_extensions ve scriptSig scriptPubKey w (if ve_flag ve SCRIPT_VERIFY_P2SH then stack else [])))"
    if "elements_ok stack" for stack c w
  proof (rule safe_bind [OF base(1) [OF that]], rule verify_extensions_safe [OF assms(1) _ _ assms(2,3)])
    fix r
    assume "eval_base ve scriptPubKey stack c = Ok r" "IsPayToScriptHash scriptPubKey" "ve_flag ve SCRIPT_VERIFY_P2SH"
    then show "(if ve_flag ve SCRIPT_VERIFY_P2SH then stack else []) \<noteq> []"
      using p2sh_empty_stack [of scriptPubKey ve c r] by auto
  qed (simp_all add: that)
  have "safe (exec_bind (eval_base ve scriptSig [] c) (\<lambda>(stack, c). exec_bind (eval_base ve scriptPubKey stack c)
      (verify_extensions ve scriptSig scriptPubKey w (if ve_flag ve SCRIPT_VERIFY_P2SH then stack else []))))" for w
    by (rule safe_bind [OF base(1)]) (auto simp only: split_paired_all prod.case elements_ok_simps intro: second dest: base(2) [rotated])
  then show ?thesis by (simp only: VerifyScript_def Let_def safe.simps split: if_split) simp
qed

end

end
