(* ===== verification/Eval_Refine.thy ===== *)
theory Eval_Refine
  imports Eval_Safety
begin

text \<open>
  Two signature checkers that give the same answers give the same runs of the interpreter. The locale
  \<open>checker_refinement\<close> relates a checker with internal state, such as a cache, to a plain one that
  leaves its state alone. Answers agree for one signature version as long as the state satisfies an
  invariant, and the answers of the first checker keep that invariant.
\<close>

subsection \<open>Related outcomes\<close>

text \<open>The second outcome is the image of the first, whose result has a property.\<close>

definition sim :: "('a \<Rightarrow> bool) \<Rightarrow> ('a \<Rightarrow> 'b) \<Rightarrow> 'a exec \<Rightarrow> 'b exec \<Rightarrow> bool" where
  "sim P g m m' \<longleftrightarrow> m' = map_exec g m \<and> (\<forall>x. m = Ok x \<longrightarrow> P x)"

lemma sim_simps [simp]:
  "sim P g (Ok x) (Ok y) \<longleftrightarrow> y = g x \<and> P x" "sim P g (Err e) (Err e') \<longleftrightarrow> e = e'"
  "sim P g Num_error Num_error" "sim P g Thrown Thrown" "sim P g Aborted Aborted"
  by (auto simp: sim_def)

lemma sim_bind:
  assumes "sim P g m m'" "\<And>x. m = Ok x \<Longrightarrow> P x \<Longrightarrow> sim Q h (f x) (f' (g x))"
  shows "sim Q h (exec_bind m f) (exec_bind m' f')"
  using assms by (cases m) (auto simp: sim_def)

lemma sim_bind_same: "(\<And>x. m = Ok x \<Longrightarrow> sim Q h (f x) (f' x)) \<Longrightarrow> sim Q h (exec_bind m f) (exec_bind m f')"
  by (cases m) auto

lemma sim_need: "(n \<le> length stack \<Longrightarrow> sim P g m m') \<Longrightarrow> sim P g (need n stack m) (need n stack m')"
  by (simp add: need_def)

lemma sim_assert: "(b \<Longrightarrow> sim P g m m') \<Longrightarrow> sim P g (exec_assert b m) (exec_assert b m')"
  by (simp add: exec_assert_def)

lemma sim_if:
  "(b \<Longrightarrow> sim P g m m') \<Longrightarrow> (\<not> b \<Longrightarrow> sim P g n n') \<Longrightarrow> sim P g (if b then m else n) (if b then m' else n')"
  by simp

lemma sim_catch: "sim P g m m' \<Longrightarrow> sim P g (eval_catch m) (eval_catch m')"
  by (cases m) (auto simp: sim_def)

lemmas sim_rules = sim_bind_same sim_need sim_assert sim_if

subsection \<open>Related checkers\<close>

locale checker_refinement =
  fixes checker plain :: "'c BaseSignatureChecker" and ok :: "'c \<Rightarrow> bool" and sigversion :: SigVersion
  assumes ecdsa: "ok c \<Longrightarrow> sim (ok \<circ> snd) (apsnd (\<lambda>_. d)) (CheckECDSASignature checker sig key code sigversion c)
        (CheckECDSASignature plain sig key code sigversion d)"
    and schnorr: "ok c \<Longrightarrow> sim (\<lambda>r. \<forall>x. r = Inr x \<longrightarrow> ok (snd x)) (map_sum id (apsnd (\<lambda>_. d)))
        (CheckSchnorrSignature checker sig key sv execdata c) (CheckSchnorrSignature plain sig key sv execdata d)"
    and same_locktime: "CheckLockTime plain = CheckLockTime checker"
    and same_sequence: "CheckSequence plain = CheckSequence checker"
begin

definition state_sim :: "'c \<Rightarrow> 'c eval_state exec \<Rightarrow> 'c eval_state exec \<Rightarrow> bool" where
  "state_sim d = sim (ok \<circ> ev_checker) (ev_checker_update (\<lambda>_. d))"

definition flag_sim :: "'c \<Rightarrow> (bool \<times> 'c eval_state) exec \<Rightarrow> (bool \<times> 'c eval_state) exec \<Rightarrow> bool" where
  "flag_sim d = sim (ok \<circ> ev_checker \<circ> snd) (apsnd (ev_checker_update (\<lambda>_. d)))"

lemma ecdsa_version:
  "ok c \<Longrightarrow> sv = sigversion \<Longrightarrow> sim (ok \<circ> snd) (apsnd (\<lambda>_. d)) (CheckECDSASignature checker sig key code sv c)
     (CheckECDSASignature plain sig key code sv d)"
  by (simp add: ecdsa)

text \<open>The environment with the plain checker.\<close>

abbreviation plain_env :: "'c eval_env \<Rightarrow> 'c eval_env" where
  "plain_env env \<equiv> env\<lparr>env_checker := plain\<rparr>"

abbreviation plain_state :: "'c \<Rightarrow> 'c eval_state \<Rightarrow> 'c eval_state" where
  "plain_state d st \<equiv> st\<lparr>ev_checker := d\<rparr>"

lemma on_stack_sim: "ok (ev_checker st) \<Longrightarrow> state_sim d (on_stack st m) (on_stack (plain_state d st) m)"
  unfolding state_sim_def on_stack_def by (intro sim_rules) simp

lemma on_stack_sim_state:
  "ok (ev_checker st) \<Longrightarrow> state_sim d (on_stack st m) (on_stack (plain_state d st) m')" if "m = m'"
  using on_stack_sim that by simp

lemma state_sim_if:
  "(b \<Longrightarrow> state_sim d m m') \<Longrightarrow> (\<not> b \<Longrightarrow> state_sim d n n') \<Longrightarrow>
     state_sim d (if b then m else n) (if b then m' else n')"
  by simp

lemma control_sim:
  assumes "ok (ev_checker st)" "env_checker env = checker"
  shows "state_sim d (eval_locktime env st) (eval_locktime (plain_env env) (plain_state d st))"
    and "state_sim d (eval_sequence env st) (eval_sequence (plain_env env) (plain_state d st))"
    and "state_sim d (eval_if env opcode fExec st) (eval_if (plain_env env) opcode fExec (plain_state d st))"
    and "state_sim d (eval_else st) (eval_else (plain_state d st))"
    and "state_sim d (eval_endif st) (eval_endif (plain_state d st))"
    and "state_sim d (eval_toaltstack st) (eval_toaltstack (plain_state d st))"
    and "state_sim d (eval_fromaltstack st) (eval_fromaltstack (plain_state d st))"
  using assms
  by (auto simp: state_sim_def eval_locktime_def eval_sequence_def eval_if_def eval_else_def eval_endif_def Let_def
      eval_toaltstack_def eval_fromaltstack_def same_locktime same_sequence intro!: sim_rules)

lemma EvalChecksigPreTapscript_sim:
  assumes "ok (ev_checker st)" "env_checker env = checker" "env_sigversion env = sigversion"
  shows "flag_sim d (EvalChecksigPreTapscript env sig key st) (EvalChecksigPreTapscript (plain_env env) sig key (plain_state d st))"
  by (auto simp: flag_sim_def EvalChecksigPreTapscript_def Let_def assms(2,3)
      intro!: sim_assert sim_bind [OF ecdsa_version [OF assms(1)]] split: prod.split option.split)

lemma EvalChecksigTapscript_sim:
  assumes "ok (ev_checker st)" "env_checker env = checker"
  shows "flag_sim d (EvalChecksigTapscript env sig key st) (EvalChecksigTapscript (plain_env env) sig key (plain_state d st))"
  by (auto simp: flag_sim_def EvalChecksigTapscript_def Let_def assms
      intro!: sim_assert sim_bind_same sim_bind [OF schnorr [OF assms(1)]] split: sum.split)

lemma EvalChecksig_sim:
  assumes "ok (ev_checker st)" "env_checker env = checker" "env_sigversion env = sigversion"
  shows "flag_sim d (EvalChecksig env sig key st) (EvalChecksig (plain_env env) sig key (plain_state d st))"
  using EvalChecksigPreTapscript_sim [OF assms] EvalChecksigTapscript_sim [OF assms(1,2)]
  by (simp add: EvalChecksig_def flag_sim_def split: SigVersion.split)

lemma checksig_sim:
  assumes "ok (ev_checker st)" "env_checker env = checker" "env_sigversion env = sigversion"
  shows "state_sim d (eval_checksig env opcode st) (eval_checksig (plain_env env) opcode (plain_state d st))"
    and "state_sim d (eval_checksigadd env st) (eval_checksigadd (plain_env env) (plain_state d st))"
  using EvalChecksig_sim [OF assms, unfolded flag_sim_def]
  by (auto simp: state_sim_def eval_checksig_def eval_checksigadd_def Let_def intro!: sim_rules sim_bind)

lemma multisig_same:
  "multisig_code (plain_env env) stack pos n code = multisig_code env stack pos n code"
  "multisig_cleanup (plain_env env) fSuccess n ikey2 stack = multisig_cleanup env fSuccess n ikey2 stack"
  "multisig_finish (plain_env env) opcode fSuccess stack = multisig_finish env opcode fSuccess stack"
proof -
  show "multisig_code (plain_env env) stack pos n code = multisig_code env stack pos n code"
    by (induction n arbitrary: pos code) (simp_all cong: if_cong)
  have "multisig_cleanup (plain_env env) fSuccess n = multisig_cleanup env fSuccess n"
    by (induction n) (auto intro!: ext cong: if_cong)
  then show "multisig_cleanup (plain_env env) fSuccess n ikey2 stack = multisig_cleanup env fSuccess n ikey2 stack"
    by simp
qed (simp add: multisig_finish_def)

lemma multisig_loop_sim:
  assumes "ok c" "env_checker env = checker" "env_sigversion env = sigversion"
  shows "sim (ok \<circ> snd) (apsnd (\<lambda>_. d)) (multisig_loop env stack code isig ikey nSigs nKeys c)
    (multisig_loop (plain_env env) stack code isig ikey nSigs nKeys d)"
  using assms
proof (induction env stack code isig ikey nSigs nKeys c rule: multisig_loop.induct)
  case (1 env stack code isig ikey nSigs nKeys c)
  show ?case
    unfolding multisig_loop.simps [of _ _ _ _ _ nSigs]
    using 1(1,2)
    by (auto simp: Let_def 1(3,4) intro!: sim_bind_same sim_bind [OF ecdsa_version [OF 1(2)]] split: option.split)
qed

lemma checkmultisig_sim:
  assumes "ok (ev_checker st)" "env_checker env = checker" "env_sigversion env = sigversion"
  shows "state_sim d (eval_checkmultisig env opcode st) (eval_checkmultisig (plain_env env) opcode (plain_state d st))"
proof -
  have run: "state_sim d (multisig_run env opcode k n s) (multisig_run (plain_env env) opcode k n (plain_state d s))"
    if "ok (ev_checker s)" for k n s
    by (auto simp: state_sim_def multisig_run_def Let_def multisig_same
        intro!: sim_rules sim_bind [OF multisig_loop_sim [OF that assms(2,3)]])
  have counted: "(plain_state d st)\<lparr>ev_nOpCount := m\<rparr> = plain_state d (st\<lparr>ev_nOpCount := m\<rparr>)" for m by simp
  show ?thesis
    unfolding eval_checkmultisig_def Let_def counted state_sim_def
    using run [unfolded state_sim_def] assms(1) by (auto intro!: sim_rules)
qed

lemma eval_opcode_sim:
  assumes "ok (ev_checker st)" "env_checker env = checker" "env_sigversion env = sigversion"
  shows "state_sim d (eval_opcode env pc opcode fExec st) (eval_opcode (plain_env env) pc opcode fExec (plain_state d st))"
  unfolding eval_opcode_def
  by (intro state_sim_if on_stack_sim_state control_sim [OF assms(1,2)] checksig_sim checkmultisig_sim)
    (simp_all add: state_sim_def assms)

lemma eval_step_sim:
  assumes "ok (ev_checker st)" "env_checker env = checker" "env_sigversion env = sigversion"
  shows "state_sim d (eval_step env pc opcode data st) (eval_step (plain_env env) pc opcode data (plain_state d st))"
proof -
  have instr: "state_sim d (eval_instruction env pc opcode data s) (eval_instruction (plain_env env) pc opcode data (plain_state d s))"
    if "ok (ev_checker s)" for s
    unfolding eval_instruction_eq Let_def using eval_opcode_sim [OF that assms(2,3)] that
    by (simp add: state_sim_def)
  have limit: "state_sim d (exec_bind m check_stack_size) (exec_bind m' check_stack_size)" if "state_sim d m m'" for m m'
    using that unfolding state_sim_def by (rule sim_bind) (auto simp: check_stack_size_def)
  define s where "s = (if (env_sigversion env = BASE \<or> env_sigversion env = WITNESS_V0) \<and> opcode > OP_16
    then st\<lparr>ev_nOpCount := ev_nOpCount st + 1\<rparr> else st)"
  have plain: "(if (env_sigversion (plain_env env) = BASE \<or> env_sigversion (plain_env env) = WITNESS_V0) \<and> opcode > OP_16
    then (plain_state d st)\<lparr>ev_nOpCount := ev_nOpCount (plain_state d st) + 1\<rparr> else plain_state d st) = plain_state d s"
    by (simp add: s_def)
  have same: "ev_nOpCount (plain_state d s) = ev_nOpCount s" "env_sigversion (plain_env env) = env_sigversion env"
    "env_flags (plain_env env) = env_flags env" by simp_all
  have "ok (ev_checker s)" using assms(1) by (simp add: s_def)
  then show ?thesis
    unfolding eval_step_def Let_def unfolding plain unfolding s_def [symmetric] same
    by (intro state_sim_if limit instr) (simp_all add: state_sim_def)
qed

lemma eval_loop_sim:
  assumes "ok (ev_checker st)" "env_checker env = checker" "env_sigversion env = sigversion"
  shows "state_sim d (eval_loop env pc st) (eval_loop (plain_env env) pc (plain_state d st))"
  using assms
proof (induction env pc st rule: eval_loop.induct)
  case (1 env pc st)
  obtain b pc' opcode data where g: "GetScriptOp (env_script env) pc = (b, pc', opcode, data)" by (metis prod_cases4)
  show ?case
    unfolding eval_loop.simps [of _ pc]
    using eval_step_sim [OF 1(2-4), of d pc' opcode data] 1(1) [OF _ g [symmetric] refl refl] 1(2-4)
    by (auto simp: g state_sim_def intro!: sim_bind)
qed

lemma EvalScript_sim:
  assumes "ok c" "env_checker env = checker" "env_sigversion env = sigversion"
  shows "sim (ok \<circ> snd \<circ> snd) (apsnd (apsnd (\<lambda>_. d))) (EvalScript env stack execdata c)
    (EvalScript (plain_env env) stack execdata d)"
proof -
  have "sim (ok \<circ> ev_checker) (ev_checker_update (\<lambda>_. d)) (eval_loop env 0 (eval_init stack execdata c))
      (eval_loop (plain_env env) 0 (eval_init stack execdata d))"
    using eval_loop_sim [OF _ assms(2,3), of "eval_init stack execdata c" d 0] assms(1)
    by (simp add: state_sim_def eval_init_def)
  note run = sim_bind [OF sim_catch [OF this]]
  have same: "env_sigversion (plain_env env) = env_sigversion env" "env_script (plain_env env) = env_script env" by simp_all
  show ?thesis
    unfolding EvalScript_def same by (intro sim_assert sim_if run) auto
qed

end

end
