(* ===== verification/Sighash_Cache.thy ===== *)
theory Sighash_Cache
  imports Verify_Script Eval_Refine
begin

text \<open>
  The cache of signature-hash midstates has no influence on the verdict of \<open>VerifyScript\<close>.

  An entry of the cache is found by the script code and three bits of the hash type. The source does
  not distinguish the two signature versions that share the cache, because no input can use both.
  Here that remark is proved: when a witness program runs, the scripts that ran before it contain no
  signature operation, so the cache is still empty.
\<close>

subsection \<open>What an entry holds\<close>

definition sighash_writer ::
  "TransactionSignatureChecker \<Rightarrow> SigVersion \<Rightarrow> byte list \<Rightarrow> i32 \<Rightarrow> csha256" where
  "sighash_writer ck sv code ht =
     (if sv = WITNESS_V0 then witness_v0_writer code (ck_txTo ck) (ck_nIn ck) ht (ck_amount ck) (ck_txdata ck)
      else Serialize_signing (new_serializer (ck_txTo ck) code (ck_nIn ck) ht) HashWriter)"

definition cache_ok :: "TransactionSignatureChecker \<Rightarrow> SigVersion \<Rightarrow> SigHashCache \<Rightarrow> bool" where
  "cache_ok ck sv c \<longleftrightarrow> length c = 6 \<and>
     (\<forall>ht code w. c ! CacheIndex ht = Some (code, w) \<longrightarrow> w = sighash_writer ck sv code ht)"

lemma CacheIndex_less: "CacheIndex ht < 6"
  by (auto simp: CacheIndex_def of_bool_def)

text \<open>The index determines all that the covered part of the transaction depends on.\<close>

lemma CacheIndex_eq:
  assumes "CacheIndex ht = CacheIndex ht'"
  shows "(ht AND 0x80 \<noteq> 0) = (ht' AND 0x80 \<noteq> 0)" "(ht AND 0x1f = 3) = (ht' AND 0x1f = 3)"
    "(ht AND 0x1f = 2) = (ht' AND 0x1f = 2)"
  using assms by (auto simp: CacheIndex_def of_bool_def split: if_splits)

lemma sighash_writer_index: "CacheIndex ht = CacheIndex ht' \<Longrightarrow> sighash_writer ck sv code ht = sighash_writer ck sv code ht'"
  using CacheIndex_eq [of ht ht']
  by (simp add: sighash_writer_def witness_v0_writer_def new_serializer_def Let_def)

lemma cache_ok_new: "cache_ok ck sv new_sighash_cache"
  by (simp add: cache_ok_def new_sighash_cache_def CacheIndex_less)

lemma cache_ok_load: "cache_ok ck sv c \<Longrightarrow> Cache_Load c ht code = Some w \<Longrightarrow> w = sighash_writer ck sv code ht"
  by (auto simp: cache_ok_def Cache_Load_def split: option.splits if_splits)

lemma cache_ok_store: "cache_ok ck sv c \<Longrightarrow> cache_ok ck sv (Cache_Store c ht code (sighash_writer ck sv code ht))"
  by (auto simp: cache_ok_def Cache_Store_def nth_list_update CacheIndex_less intro: sighash_writer_index)

subsection \<open>A checker without a cache\<close>

definition plain_CheckECDSASignature ::
  "secp256k1 \<Rightarrow> TransactionSignatureChecker \<Rightarrow> byte list \<Rightarrow> byte list \<Rightarrow> byte list \<Rightarrow> SigVersion \<Rightarrow> 'c \<Rightarrow> (bool \<times> 'c) exec" where
  "plain_CheckECDSASignature secp ck sig key code sv c =
     (if \<not> pubkey_IsValid (CPubKey key) \<or> sig = [] then Ok (False, c)
      else if sv = WITNESS_V0 \<and> ck_amount ck <s 0 then exec_bind (HandleMissingData (ck_mdb ck)) (\<lambda>b. Ok (b, c))
      else exec_bind
        (SignatureHash code (ck_txTo ck) (ck_nIn ck) (ucast (last sig)) (ck_amount ck) sv (ck_txdata ck) None)
        (\<lambda>(sighash, _). Ok (pubkey_Verify secp (CPubKey key) sighash (butlast sig), c)))"

definition plain_signature_checker ::
  "secp256k1 \<Rightarrow> TransactionSignatureChecker \<Rightarrow> SigHashCache BaseSignatureChecker" where
  "plain_signature_checker secp ck =
     (transaction_signature_checker secp ck)\<lparr>CheckECDSASignature := plain_CheckECDSASignature secp ck\<rparr>"

lemma SignatureHash_cached:
  assumes "cache_ok ck sv c"
  shows "sim (cache_ok ck sv \<circ> the \<circ> snd) (apsnd (\<lambda>_. None))
    (SignatureHash code (ck_txTo ck) (ck_nIn ck) ht (ck_amount ck) sv (ck_txdata ck) (Some c))
    (SignatureHash code (ck_txTo ck) (ck_nIn ck) ht (ck_amount ck) sv (ck_txdata ck) None)"
proof -
  have w: "(if sv = WITNESS_V0 then witness_v0_writer code (ck_txTo ck) (ck_nIn ck) ht (ck_amount ck) (ck_txdata ck)
      else Serialize_signing (new_serializer (ck_txTo ck) code (ck_nIn ck) ht) HashWriter) = sighash_writer ck sv code ht"
    by (simp add: sighash_writer_def)
  show ?thesis
    unfolding SignatureHash_def w Let_def
    using assms cache_ok_load [OF assms, of ht code] cache_ok_store [OF assms, of ht code]
    by (cases "Cache_Load c ht code") (auto intro!: sim_assert)
qed

lemma plain_ecdsa:
  assumes "cache_ok ck sv c"
  shows "sim (cache_ok ck sv \<circ> snd) (apsnd (\<lambda>_. d)) (tx_CheckECDSASignature secp ck sig key code sv c)
    (plain_CheckECDSASignature secp ck sig key code sv d)"
  using assms
  by (auto simp: tx_CheckECDSASignature_def plain_CheckECDSASignature_def Let_def
      intro!: sim_bind_same sim_bind [OF SignatureHash_cached [OF assms]])

lemma schnorr_stateless:
  assumes "cache_ok ck v c"
  shows "sim (\<lambda>r. \<forall>x. r = Inr x \<longrightarrow> cache_ok ck v (snd x)) (map_sum id (apsnd (\<lambda>_. d)))
    (tx_CheckSchnorrSignature secp ck sig key sv ed c) (tx_CheckSchnorrSignature secp ck sig key sv ed d)"
  unfolding tx_CheckSchnorrSignature_def Let_def schnorr_verdict_def
  using assms by (auto split: option.split intro!: sim_assert sim_bind_same)

interpretation cached: checker_refinement
  "transaction_signature_checker secp ck" "plain_signature_checker secp ck" "cache_ok ck sv" sv for secp ck sv
  using plain_ecdsa schnorr_stateless
  by unfold_locales (simp_all add: transaction_signature_checker_def plain_signature_checker_def)

subsection \<open>Scripts without signature operations\<close>

definition checks_signature :: "byte \<Rightarrow> bool" where
  "checks_signature opcode \<longleftrightarrow> opcode = OP_CHECKSIG \<or> opcode = OP_CHECKSIGVERIFY \<or>
     opcode = OP_CHECKMULTISIG \<or> opcode = OP_CHECKMULTISIGVERIFY \<or> opcode = OP_CHECKSIGADD"

function sig_free :: "byte list \<Rightarrow> nat \<Rightarrow> bool" where
  "sig_free script pc \<longleftrightarrow>
     (pc < length script \<longrightarrow>
       (case GetScriptOp script pc of (ok, pc', opcode, data) \<Rightarrow>
          ok \<longrightarrow> \<not> checks_signature opcode \<and> sig_free script pc'))"
  by pat_completeness auto
termination
  by (relation "measure (\<lambda>(script, pc). length script - pc)") (auto dest!: GetScriptOp_bounds [OF sym])

declare sig_free.simps [simp del]

definition keeps_checker :: "'c \<Rightarrow> 'c eval_state exec \<Rightarrow> bool" where
  "keeps_checker c m \<longleftrightarrow> (\<forall>st. m = Ok st \<longrightarrow> ev_checker st = c)"

lemma keeps_checker_simps [simp]:
  "keeps_checker c (Ok st) \<longleftrightarrow> ev_checker st = c" "keeps_checker c (Err e)" "keeps_checker c Num_error"
  "keeps_checker c Thrown" "keeps_checker c Aborted"
  by (simp_all add: keeps_checker_def)

lemma keeps_checker_intros:
  "(\<And>x. m = Ok x \<Longrightarrow> keeps_checker c (f x)) \<Longrightarrow> keeps_checker c (exec_bind m f)"
  "keeps_checker c m' \<Longrightarrow> keeps_checker c (need n stack m')"
  "(b \<Longrightarrow> keeps_checker c m') \<Longrightarrow> (\<not> b \<Longrightarrow> keeps_checker c m'') \<Longrightarrow> keeps_checker c (if b then m' else m'')"
  by (cases m; simp) (simp_all add: need_def)

lemma control_keeps:
  "keeps_checker (ev_checker st) (eval_locktime env st)" "keeps_checker (ev_checker st) (eval_sequence env st)"
  "keeps_checker (ev_checker st) (eval_if env opcode fExec st)" "keeps_checker (ev_checker st) (eval_else st)"
  "keeps_checker (ev_checker st) (eval_endif st)" "keeps_checker (ev_checker st) (eval_toaltstack st)"
  "keeps_checker (ev_checker st) (eval_fromaltstack st)" "keeps_checker (ev_checker st) (on_stack st m)"
  by (auto simp: eval_locktime_def eval_sequence_def eval_if_def eval_else_def eval_endif_def Let_def
      eval_toaltstack_def eval_fromaltstack_def on_stack_def intro!: keeps_checker_intros)

lemma eval_opcode_keeps: "\<not> checks_signature opcode \<Longrightarrow> keeps_checker (ev_checker st) (eval_opcode env pc opcode fExec st)"
  unfolding eval_opcode_def
  by (intro keeps_checker_intros control_keeps) (simp_all add: checks_signature_def)

lemma eval_step_keeps:
  assumes "\<not> checks_signature opcode"
  shows "eval_step env pc opcode data st = Ok st' \<Longrightarrow> ev_checker st' = ev_checker st"
proof -
  have "keeps_checker (ev_checker s) (eval_instruction env pc opcode data s)" for s
    unfolding eval_instruction_eq Let_def by (intro keeps_checker_intros eval_opcode_keeps assms) simp_all
  then have *: "keeps_checker (ev_checker s) (exec_bind (eval_instruction env pc opcode data s) check_stack_size)" for s
    by (intro keeps_checker_intros) (auto simp: keeps_checker_def check_stack_size_def split: if_splits)
  have "keeps_checker (ev_checker st) (exec_bind (eval_instruction env pc opcode data (if b then st\<lparr>ev_nOpCount := n\<rparr> else st)) check_stack_size)" for b n
    using * [of st] * [of "st\<lparr>ev_nOpCount := n\<rparr>"] by simp
  then have "keeps_checker (ev_checker st) (eval_step env pc opcode data st)"
    unfolding eval_step_def Let_def by (intro keeps_checker_intros(3)) simp_all
  then show "eval_step env pc opcode data st = Ok st' \<Longrightarrow> ev_checker st' = ev_checker st"
    by (simp add: keeps_checker_def)
qed

lemma eval_loop_keeps: "sig_free (env_script env) pc \<Longrightarrow> eval_loop env pc st = Ok st' \<Longrightarrow> ev_checker st' = ev_checker st"
proof (induction env pc st rule: eval_loop.induct)
  case (1 env pc st)
  obtain b pc' opcode data where g: "GetScriptOp (env_script env) pc = (b, pc', opcode, data)" by (metis prod_cases4)
  show ?case
  proof (cases "pc < length (env_script env)")
    case True
    then obtain s where b: b and s: "eval_step env pc' opcode data st = Ok s" "eval_loop env pc' s = Ok st'"
      using 1(3) by (auto simp: eval_loop.simps [of env pc] g exec_simps split: if_splits)
    have f: "\<not> checks_signature opcode" "sig_free (env_script env) pc'"
      using 1(2) True b by (auto simp: sig_free.simps [of _ pc] g)
    from 1(1) [OF True g [symmetric] refl refl _ s(1) f(2) s(2)] b eval_step_keeps [OF f(1) s(1)] show ?thesis by simp
  next
    case False
    then show ?thesis using 1(3) by (simp add: eval_loop.simps [of env pc])
  qed
qed

lemma EvalScript_keeps: "sig_free (env_script env) 0 \<Longrightarrow> EvalScript env stack ed c = Ok (stack', ed', c') \<Longrightarrow> c' = c"
  using eval_loop_keeps [of env 0 "eval_init stack ed c"]
  by (cases "eval_loop env 0 (eval_init stack ed c)")
    (auto simp: EvalScript_def exec_simps eval_init_def exec_assert_def split: if_splits)

lemma eval_base_keeps: "sig_free script 0 \<Longrightarrow> eval_base ve script stack c = Ok (stack', c') \<Longrightarrow> c' = c"
  by (auto simp: eval_base_def exec_simps script_env_def dest!: EvalScript_keeps [rotated])

lemma push_only_sig_free: "IsPushOnly_from script pc \<Longrightarrow> sig_free script pc"
proof (induction script pc rule: sig_free.induct)
  case (1 script pc)
  obtain b pc' opcode data where g: "GetScriptOp script pc = (b, pc', opcode, data)" by (metis prod_cases4)
  from 1(2) have "pc < length script \<Longrightarrow> b \<and> opcode \<le> OP_16 \<and> IsPushOnly_from script pc'"
    by (subst (asm) IsPushOnly_from.simps) (auto simp: g split: if_splits)
  with 1(1) [OF _ g [symmetric] refl refl] show ?case
    by (subst sig_free.simps) (auto simp: g checks_signature_def not_le word_le_nat_alt word_less_nat_alt)
qed

lemma p2sh_sig_free: "IsPayToScriptHash script \<Longrightarrow> sig_free script 0"
  by (simp add: IsPayToScriptHash_def sig_free.simps [of _ 0] sig_free.simps [of _ "Suc 0"] sig_free.simps [of _ 22] sig_free.simps [of _ 23] GetScriptOp_def take_push_def checks_signature_def)

lemma witness_program_push_only:
  assumes "IsWitnessProgram script = Some p"
  shows "IsPushOnly script"
proof -
  from assms have len: "4 \<le> length script" "length script \<le> 42" "unat (script ! 1) + 2 = length script"
    and op: "script ! 0 = OP_0 \<or> (OP_1 \<le> script ! 0 \<and> script ! 0 \<le> OP_16)"
    by (auto simp: IsWitnessProgram_def split: if_splits)
  have "script ! 1 < OP_PUSHDATA1" using len by (simp add: word_less_nat_alt)
  moreover from this have "script ! 1 \<le> OP_PUSHDATA4" by (simp add: word_less_nat_alt word_le_nat_alt)
  ultimately have "\<exists>d. GetScriptOp script 1 = (True, length script, script ! 1, d)"
    using len by (auto simp: GetScriptOp_def Let_def take_push_def)
  moreover have "\<exists>d. GetScriptOp script 0 = (True, 1, script ! 0, d)"
    using op len by (auto simp: GetScriptOp_def Let_def take_push_def word_le_nat_alt)
  ultimately show ?thesis
    using op len \<open>script ! 1 < OP_PUSHDATA1\<close>
    by (auto simp: IsPushOnly_def IsPushOnly_from.simps [of script 0] IsPushOnly_from.simps [of script "Suc 0"]
        IsPushOnly_from.simps [of script "length script"] word_le_nat_alt word_less_nat_alt)
qed

lemma witness_not_p2sh: "IsWitnessProgram script = Some p \<Longrightarrow> \<not> IsPayToScriptHash script"
  by (auto simp: IsWitnessProgram_def IsPayToScriptHash_def split: if_splits)

subsection \<open>The verdict does not depend on the cache\<close>

text \<open>The verification environments with and without the cache.\<close>

definition cached_env :: "secp256k1 \<Rightarrow> script_verify_flags \<Rightarrow> TransactionSignatureChecker \<Rightarrow> SigHashCache verify_env" where
  "cached_env secp flags ck = \<lparr>ve_secp = secp, ve_flags = flags, ve_checker = transaction_signature_checker secp ck\<rparr>"

definition plain_verify_env :: "secp256k1 \<Rightarrow> script_verify_flags \<Rightarrow> TransactionSignatureChecker \<Rightarrow> SigHashCache verify_env" where
  "plain_verify_env secp flags ck = \<lparr>ve_secp = secp, ve_flags = flags, ve_checker = plain_signature_checker secp ck\<rparr>"

lemma verify_env_simps [simp]:
  "ve_secp (cached_env secp flags ck) = secp" "ve_secp (plain_verify_env secp flags ck) = secp"
  "ve_flags (cached_env secp flags ck) = flags" "ve_flags (plain_verify_env secp flags ck) = flags"
  "script_env (plain_verify_env secp flags ck) sv script =
     (script_env (cached_env secp flags ck) sv script)\<lparr>env_checker := plain_signature_checker secp ck\<rparr>"
  "ve_checker (cached_env secp flags ck) = transaction_signature_checker secp ck"
  "ve_checker (plain_verify_env secp flags ck) = plain_signature_checker secp ck"
  by (simp_all add: cached_env_def plain_verify_env_def script_env_def)

lemma eval_base_sim:
  assumes "cache_ok ck BASE c"
  shows "sim (cache_ok ck BASE \<circ> snd) (apsnd (\<lambda>_. d)) (eval_base (cached_env secp flags ck) script stack c)
    (eval_base (plain_verify_env secp flags ck) script stack d)"
  unfolding eval_base_def verify_env_simps
  by (rule sim_bind [OF cached.EvalScript_sim [OF assms]]) (auto simp: script_env_def)

lemma run_witness_script_sim:
  assumes "cache_ok ck (env_sigversion env) c" "env_checker env = transaction_signature_checker secp ck"
  shows "sim (\<lambda>_. True) (\<lambda>_. d) (run_witness_script env stack ed c)
    (run_witness_script (env\<lparr>env_checker := plain_signature_checker secp ck\<rparr>) stack ed d)"
  unfolding run_witness_script_def
  by (rule sim_if [OF _ sim_bind [OF cached.EvalScript_sim [OF assms refl]]]) auto

lemma ExecuteWitnessScript_sim:
  assumes "cache_ok ck (env_sigversion env) c" "env_checker env = transaction_signature_checker secp ck"
  shows "sim (\<lambda>_. True) (\<lambda>_. d) (ExecuteWitnessScript env stack ed c)
    (ExecuteWitnessScript (env\<lparr>env_checker := plain_signature_checker secp ck\<rparr>) stack ed d)"
  using run_witness_script_sim [OF assms]
  by (auto simp: ExecuteWitnessScript_def Let_def intro!: sim_bind_same)

text \<open>A witness program starts with the empty cache, which is right for every signature version.\<close>

lemma witness_script_sim:
  "sim (\<lambda>_. True) (\<lambda>_. d) (ExecuteWitnessScript (script_env (cached_env secp flags ck) sv script) stack ed new_sighash_cache)
     (ExecuteWitnessScript (script_env (plain_verify_env secp flags ck) sv script) stack ed d)"
  unfolding verify_env_simps by (rule ExecuteWitnessScript_sim) (simp_all add: cache_ok_new script_env_def)

lemma VerifyWitnessProgram_sim:
  "sim (\<lambda>_. True) (\<lambda>_. d) (VerifyWitnessProgram (cached_env secp flags ck) witness version program is_p2sh new_sighash_cache)
     (VerifyWitnessProgram (plain_verify_env secp flags ck) witness version program is_p2sh d)"
proof -
  have v0: "sim (\<lambda>_. True) (\<lambda>_. d) (verify_witness_v0 (cached_env secp flags ck) witness program new_sighash_cache)
      (verify_witness_v0 (plain_verify_env secp flags ck) witness program d)"
    using witness_script_sim by (auto simp: verify_witness_v0_def Let_def simp del: verify_env_simps(5))
  have path: "sim (\<lambda>_. True) (\<lambda>_. d)
      (verify_script_path (cached_env secp flags ck) witness stack ed program new_sighash_cache)
      (verify_script_path (plain_verify_env secp flags ck) witness stack ed program d)" for stack ed
    using witness_script_sim
    by (auto simp: verify_script_path_def Let_def simp del: verify_env_simps(5) intro!: sim_bind_same)
  have key: "sim (\<lambda>r. \<forall>x. r = Inr x \<longrightarrow> cache_ok ck TAPROOT (snd x)) (map_sum id (apsnd (\<lambda>_. d)))
      (CheckSchnorrSignature (transaction_signature_checker secp ck) sig key sv ed new_sighash_cache)
      (CheckSchnorrSignature (plain_signature_checker secp ck) sig key sv ed d)" for sig key sv ed
    by (rule cached.schnorr) (rule cache_ok_new)
  have "sim (\<lambda>_. True) (\<lambda>_. d) (verify_taproot (cached_env secp flags ck) witness program new_sighash_cache)
      (verify_taproot (plain_verify_env secp flags ck) witness program d)"
    using path by (auto simp: verify_taproot_def split: prod.split sum.split intro!: sim_bind [OF key])
  with v0 show ?thesis by (simp add: VerifyWitnessProgram_def)
qed

lemma verify_bare_witness_sim:
  assumes "IsWitnessProgram scriptPubKey \<noteq> None \<Longrightarrow> scriptSig = [] \<Longrightarrow> c = new_sighash_cache"
  shows "sim (\<lambda>x. IsPayToScriptHash scriptPubKey \<longrightarrow> snd (snd x) = c) (apsnd (apsnd (\<lambda>_. d)))
    (verify_bare_witness (cached_env secp flags ck) scriptSig scriptPubKey witness stack c)
    (verify_bare_witness (plain_verify_env secp flags ck) scriptSig scriptPubKey witness stack d)"
  using assms witness_not_p2sh [of scriptPubKey]
  by (auto simp: verify_bare_witness_def split: option.split intro!: sim_bind [OF VerifyWitnessProgram_sim])

lemma verify_p2sh_witness_sim:
  assumes "IsWitnessProgram pubKey2 \<noteq> None \<Longrightarrow> c = new_sighash_cache"
  shows "sim (\<lambda>_. True) (apsnd (apsnd (\<lambda>_. d)))
    (verify_p2sh_witness (cached_env secp flags ck) scriptSig pubKey2 witness stack hadWitness c)
    (verify_p2sh_witness (plain_verify_env secp flags ck) scriptSig pubKey2 witness stack hadWitness d)"
  using assms
  by (auto simp: verify_p2sh_witness_def split: option.split intro!: sim_bind [OF VerifyWitnessProgram_sim])

lemma check_top_sim: "sim Q g m m' \<Longrightarrow> sim Q g (check_top stack m) (check_top stack m')"
  by (simp add: check_top_def)

lemma verify_p2sh_sim:
  assumes "IsPayToScriptHash scriptPubKey \<Longrightarrow> IsPushOnly scriptSig \<Longrightarrow> c = new_sighash_cache"
  shows "sim (\<lambda>_. True) (apsnd (apsnd (\<lambda>_. d)))
    (verify_p2sh (cached_env secp flags ck) scriptSig scriptPubKey witness stackCopy stack hadWitness c)
    (verify_p2sh (plain_verify_env secp flags ck) scriptSig scriptPubKey witness stackCopy stack hadWitness d)"
proof -
  have "sim (\<lambda>_. True) (apsnd (apsnd (\<lambda>_. d)))
      (exec_bind (eval_base (cached_env secp flags ck) script st new_sighash_cache) (\<lambda>(s, c).
        check_top s (verify_p2sh_witness (cached_env secp flags ck) scriptSig script witness s hadWitness c)))
      (exec_bind (eval_base (plain_verify_env secp flags ck) script st d) (\<lambda>(s, c).
        check_top s (verify_p2sh_witness (plain_verify_env secp flags ck) scriptSig script witness s hadWitness c)))"
    for script st
    by (rule sim_bind [OF eval_base_sim [OF cache_ok_new]])
      (auto intro!: check_top_sim verify_p2sh_witness_sim
        dest: eval_base_keeps [OF push_only_sig_free [OF witness_program_push_only [unfolded IsPushOnly_def]]])
  with assms show ?thesis
    by (auto simp: verify_p2sh_def Let_def intro!: sim_assert)
qed

lemma verify_extensions_sim:
  assumes "IsWitnessProgram scriptPubKey \<noteq> None \<Longrightarrow> scriptSig = [] \<Longrightarrow> c = new_sighash_cache"
    and "IsPayToScriptHash scriptPubKey \<Longrightarrow> IsPushOnly scriptSig \<Longrightarrow> c = new_sighash_cache"
  shows "sim (\<lambda>_. True) (\<lambda>_. d) (verify_extensions (cached_env secp flags ck) scriptSig scriptPubKey witness stackCopy (stack, c))
    (verify_extensions (plain_verify_env secp flags ck) scriptSig scriptPubKey witness stackCopy (stack, d))"
  using assms(2)
  by (auto simp: verify_extensions_def verify_end_def
      intro!: check_top_sim sim_bind [OF verify_bare_witness_sim [OF assms(1)]] sim_bind [OF verify_p2sh_sim] sim_assert)

lemma VerifyScript_sim:
  "sim (\<lambda>_. True) (\<lambda>_. d) (VerifyScript (cached_env secp flags ck) scriptSig scriptPubKey witness new_sighash_cache)
     (VerifyScript (plain_verify_env secp flags ck) scriptSig scriptPubKey witness d)"
proof -
  have sig: "c = new_sighash_cache" if "IsPushOnly scriptSig"
    "eval_base (cached_env secp flags ck) scriptSig [] new_sighash_cache = Ok (stack, c)" for stack c
    using eval_base_keeps [OF push_only_sig_free that(2)] that(1) by (simp add: IsPushOnly_def)
  have pub: "c' = c" if "IsWitnessProgram scriptPubKey \<noteq> None \<or> IsPayToScriptHash scriptPubKey"
    "eval_base (cached_env secp flags ck) scriptPubKey stack c = Ok (stack', c')" for stack c stack' c'
    using that(1)
  proof
    assume "IsPayToScriptHash scriptPubKey"
    from eval_base_keeps [OF p2sh_sig_free [OF this] that(2)] show ?thesis .
  next
    assume "IsWitnessProgram scriptPubKey \<noteq> None"
    then obtain p where "IsWitnessProgram scriptPubKey = Some p" by blast
    from eval_base_keeps [OF push_only_sig_free [OF witness_program_push_only [OF this, unfolded IsPushOnly_def]] that(2)]
    show ?thesis .
  qed
  have second: "sim (\<lambda>_. True) (\<lambda>_. d)
      (exec_bind (eval_base (cached_env secp flags ck) scriptPubKey stack c)
        (verify_extensions (cached_env secp flags ck) scriptSig scriptPubKey w stackCopy))
      (exec_bind (eval_base (plain_verify_env secp flags ck) scriptPubKey stack d)
        (verify_extensions (plain_verify_env secp flags ck) scriptSig scriptPubKey w stackCopy))"
    if "cache_ok ck BASE c" "IsPushOnly scriptSig \<Longrightarrow> c = new_sighash_cache" for w stackCopy stack c
  proof (rule sim_bind [OF eval_base_sim [OF that(1)]])
    fix x assume run: "eval_base (cached_env secp flags ck) scriptPubKey stack c = Ok x"
    obtain stack' c' where x: "x = (stack', c')" by fastforce
    have "IsPushOnly []" unfolding IsPushOnly_def by (subst IsPushOnly_from.simps) simp
    then have "IsWitnessProgram scriptPubKey \<noteq> None \<Longrightarrow> scriptSig = [] \<Longrightarrow> c' = new_sighash_cache"
      "IsPayToScriptHash scriptPubKey \<Longrightarrow> IsPushOnly scriptSig \<Longrightarrow> c' = new_sighash_cache"
      using that(2) pub run unfolding x by metis+
    then show "sim (\<lambda>_. True) (\<lambda>_. d) (verify_extensions (cached_env secp flags ck) scriptSig scriptPubKey w stackCopy x)
        (verify_extensions (plain_verify_env secp flags ck) scriptSig scriptPubKey w stackCopy (apsnd (\<lambda>_. d) x))"
      unfolding x apsnd_conv by (rule verify_extensions_sim)
  qed
  have "sim (\<lambda>_. True) (\<lambda>_. d)
      (exec_bind (eval_base (cached_env secp flags ck) scriptSig [] new_sighash_cache) (\<lambda>(stack, c).
        exec_bind (eval_base (cached_env secp flags ck) scriptPubKey stack c)
          (verify_extensions (cached_env secp flags ck) scriptSig scriptPubKey w (if flag_set flags SCRIPT_VERIFY_P2SH then stack else []))))
      (exec_bind (eval_base (plain_verify_env secp flags ck) scriptSig [] d) (\<lambda>(stack, c).
        exec_bind (eval_base (plain_verify_env secp flags ck) scriptPubKey stack c)
          (verify_extensions (plain_verify_env secp flags ck) scriptSig scriptPubKey w (if flag_set flags SCRIPT_VERIFY_P2SH then stack else []))))" for w
    by (rule sim_bind [OF eval_base_sim [OF cache_ok_new]]) (use sig second in auto)
  then show ?thesis unfolding VerifyScript_def Let_def verify_env_simps by (intro sim_if) simp_all
qed

text \<open>
  With and without the cache the verdict is the same: success, or the same error.
\<close>

theorem VerifyScript_uncached:
  "map_exec (\<lambda>_. ()) (VerifyScript (cached_env secp flags ck) scriptSig scriptPubKey witness new_sighash_cache) =
   map_exec (\<lambda>_. ()) (VerifyScript (plain_verify_env secp flags ck) scriptSig scriptPubKey witness d)"
  using VerifyScript_sim [of d secp flags ck scriptSig scriptPubKey witness]
  by (simp add: sim_def exec.map_comp comp_def)

end
