(* ===== verification/Sighash_Preimage.thy ===== *)
theory Sighash_Preimage
  imports Sighash
begin

text \<open>
  What a signature commits to. \<open>SignatureHash\<close> is the double hash of a message that is given here as
  bytes: for the original version the serialization of a modified copy of the transaction, which is
  how the rule was first written, and for version 0 witnesses the fields listed in BIP 143. Precomputed data
  changes nothing.
\<close>

subsection \<open>Serialization into a hasher\<close>

named_theorems hash_written \<open>what a serializer adds to the hashed bytes\<close>

lemma written_ser_writedata [hash_written]:
  "sha_written s xs \<Longrightarrow> sha_written (ser_writedata n v s) (xs @ write_little_endian v n)"
  by (simp add: ser_writedata_def hash_writer.written_write)

lemma written_WriteCompactSize [hash_written]:
  "sha_written s xs \<Longrightarrow> sha_written (WriteCompactSize HashWriter_write v s) (xs @ compact_size_bytes v)"
  by (simp add: WriteCompactSize_eq hash_writer.written_compact_size)

lemma written_Serialize_bytes [hash_written]:
  "sha_written s xs \<Longrightarrow> sha_written (Serialize_bytes v s) (xs @ var_bytes v)"
  using hash_writer.written_write [OF written_WriteCompactSize, of s xs "of_nat (length v)" v] written_WriteCompactSize [of s xs 0]
  by (auto simp: Serialize_bytes_def var_bytes_def Let_def)

text \<open>The types of the interpreter and those of the protocol codec have the same encoding.\<close>

definition outpoint_bytes :: "core_outpoint \<Rightarrow> byte list" where
  "outpoint_bytes p = core_hash p @ write_little_endian (core_n p) 4"

definition from_core_output :: "core_tx_out \<Rightarrow> tx_output" where
  "from_core_output out = \<lparr>output_value = core_value out, output_script = core_script_pub_key out\<rparr>"

lemma written_Serialize_outpoint [hash_written]:
  "sha_written s xs \<Longrightarrow> sha_written (Serialize_outpoint p s) (xs @ outpoint_bytes p)"
  using written_ser_writedata [OF hash_writer.written_write [of s xs "core_hash p"], of 4 "core_n p"]
  by (simp add: Serialize_outpoint_def outpoint_bytes_def)

lemma written_Serialize_txout [hash_written]:
  "sha_written s xs \<Longrightarrow> sha_written (Serialize_txout out s) (xs @ output_bytes (from_core_output out))"
  using written_Serialize_bytes [OF written_ser_writedata [of s xs 8 "core_value out"], of "core_script_pub_key out"]
  by (simp add: Serialize_txout_def output_bytes_def from_core_output_def)

subsection \<open>The script code\<close>

text \<open>A script whose instructions can all be read, and the script without its code separators.\<close>

function parses :: "byte list \<Rightarrow> nat \<Rightarrow> bool" where
  "parses code pc \<longleftrightarrow>
     (pc < length code \<longrightarrow> (case GetScriptOp code pc of (ok, pc', opcode, data) \<Rightarrow> ok \<and> parses code pc'))"
  by pat_completeness auto
termination
  by (relation "measure (\<lambda>(code, pc). length code - pc)") (auto dest!: GetScriptOp_bounds [OF sym])

function strip_separators :: "byte list \<Rightarrow> nat \<Rightarrow> byte list" where
  "strip_separators code pc =
     (if pc < length code then
       (case GetScriptOp code pc of (ok, pc', opcode, data) \<Rightarrow>
          (if opcode = OP_CODESEPARATOR then [] else take (pc' - pc) (drop pc code)) @ strip_separators code pc')
      else [])"
  by pat_completeness auto
termination
  by (relation "measure (\<lambda>(code, pc). length code - pc)") (auto dest!: GetScriptOp_bounds [OF sym])

function separators :: "byte list \<Rightarrow> nat \<Rightarrow> nat" where
  "separators code pc =
     (if pc < length code then
       (case GetScriptOp code pc of (ok, pc', opcode, data) \<Rightarrow>
          (if opcode = OP_CODESEPARATOR then 1 else 0) + separators code pc')
      else 0)"
  by pat_completeness auto
termination
  by (relation "measure (\<lambda>(code, pc). length code - pc)") (auto dest!: GetScriptOp_bounds [OF sym])

declare parses.simps [simp del] strip_separators.simps [simp del] separators.simps [simp del]

lemma separator_width:
  assumes "GetScriptOp code pc = (ok, pc', OP_CODESEPARATOR, data)" "pc < length code"
  shows "pc' = pc + 1"
  using assms by (auto simp: GetScriptOp_def take_push_def Let_def split: if_splits)

lemma count_separators_eq: "parses code pc \<Longrightarrow> count_separators code pc n = n + of_nat (separators code pc)"
proof (induction code pc n rule: count_separators.induct)
  case (1 code pc n)
  obtain ok pc' opcode data where g: "GetScriptOp code pc = (ok, pc', opcode, data)" by (metis prod_cases4)
  with 1(2) have p: "pc < length code \<Longrightarrow> ok \<and> parses code pc'" by (simp add: parses.simps [of code pc])
  with 1(1) [OF _ g [symmetric] refl refl] show ?case
    by (auto simp: count_separators.simps [of code pc] separators.simps [of code pc] g)
qed

lemma length_strip_separators:
  "parses code pc \<Longrightarrow> pc \<le> length code \<Longrightarrow> length (strip_separators code pc) + separators code pc = length code - pc"
proof (induction code pc rule: strip_separators.induct)
  case (1 code pc)
  obtain ok pc' opcode data where g: "GetScriptOp code pc = (ok, pc', opcode, data)" by (metis prod_cases4)
  show ?case
  proof (cases "pc < length code")
    case True
    from 1(2) True g have p: "ok" "parses code pc'" by (simp_all add: parses.simps [of code pc])
    have b: "pc < pc'" "pc' \<le> length code" using GetScriptOp_bounds [OF g True] by simp_all
    from 1(1) [OF True g [symmetric] refl refl p(2) b(2)] separator_width [of code pc ok pc' data] True b g
    show ?thesis by (auto simp: strip_separators.simps [of code pc] separators.simps [of code pc])
  next
    case False
    then show ?thesis by (simp add: strip_separators.simps [of code pc] separators.simps [of code pc])
  qed
qed

text \<open>What the second loop and the final write add.\<close>

lemma write_runs_written:
  assumes "parses code it" "b \<le> it" "it \<le> length code" "sha_written s xs"
  shows "\<exists>s' b'. write_runs code b it s = (s', b', length code) \<and> b' \<le> length code \<and>
    (\<exists>ys. sha_written s' ys \<and> ys @ drop b' code = xs @ take (it - b) (drop b code) @ strip_separators code it)"
  using assms
proof (induction code b it s arbitrary: xs rule: write_runs.induct)
  case (1 code b it s)
  obtain ok it' opcode data where g: "GetScriptOp code it = (ok, it', opcode, data)" by (metis prod_cases4)
  show ?case
  proof (cases "it < length code")
    case True
    from 1(3) True g have p: "ok" "parses code it'" by (simp_all add: parses.simps [of code it])
    have b: "it < it'" "it' \<le> length code" using GetScriptOp_bounds [OF g True] by simp_all
    show ?thesis
    proof (cases "opcode = OP_CODESEPARATOR")
      case sep: True
      then have it': "it' = it + 1" using separator_width g True by blast
      have "sha_written (HashWriter_write s (take (it' - b - 1) (drop b code))) (xs @ take (it - b) (drop b code))"
        using hash_writer.written_write [OF 1(6)] it' by simp
      from 1(1) [OF True g [symmetric] refl refl p(1) sep p(2) order_refl b(2) this]
      show ?thesis using p(1) sep True
        by (simp add: write_runs.simps [of code b it] strip_separators.simps [of code it] g)
    next
      case False
      have "take (it' - b) (drop b code) = take (it - b) (drop b code) @ take (it' - it) (drop it code)"
        using b(1) 1(4) take_add [of "it - b" "it' - it" "drop b code"] by simp
      with 1(2) [OF True g [symmetric] refl refl p(1) False p(2) _ b(2) 1(6)] b(1) 1(4) False p(1) True
      show ?thesis by (simp add: write_runs.simps [of code b it] strip_separators.simps [of code it] g)
    qed
  next
    case False
    with 1(5) have "it = length code" by simp
    with 1(4,6) show ?thesis
      by (auto simp: write_runs.simps [of code b "length code"] strip_separators.simps [of code "length code"])
  qed
qed

lemma widen_of_nat: "k < 2 ^ 32 \<Longrightarrow> ucast (of_nat k :: u32) = (of_nat k :: u64)"
  by (simp add: unsigned_of_nat take_bit_nat_eq_self)

lemma written_SerializeScriptCode:
  assumes "parses (scriptCode t) 0" "length (scriptCode t) < 2 ^ 32" "sha_written s xs"
  shows "sha_written (SerializeScriptCode t s) (xs @ var_bytes (strip_separators (scriptCode t) 0))"
proof -
  let ?code = "scriptCode t"
  have len: "length (strip_separators ?code 0) + separators ?code 0 = length ?code"
    using length_strip_separators [OF assms(1)] by simp
  have "ucast (of_nat (separators ?code 0) :: u32) = (of_nat (separators ?code 0) :: u64)"
    by (rule widen_of_nat) (use len assms(2) in simp)
  then have size: "of_nat (length ?code) - ucast (count_separators ?code 0 0) = (of_nat (length (strip_separators ?code 0)) :: u64)"
    using len [symmetric] by (simp add: count_separators_eq [OF assms(1)])
  obtain s' b' ys where runs: "write_runs ?code 0 0 (WriteCompactSize HashWriter_write (of_nat (length (strip_separators ?code 0))) s) = (s', b', length ?code)"
    and b': "b' \<le> length ?code" and ys: "sha_written s' ys"
      "ys @ drop b' ?code = xs @ compact_size_bytes (of_nat (length (strip_separators ?code 0))) @ strip_separators ?code 0"
    using write_runs_written [OF assms(1) order_refl _ written_WriteCompactSize [OF assms(3)]] by fastforce
  show ?thesis
    using hash_writer.written_write [OF ys(1), of "drop b' ?code"] ys b'
    by (auto simp: SerializeScriptCode_def Let_def size runs var_bytes_def)
qed

subsection \<open>The original signature hash\<close>

text \<open>
  The modified copy of the transaction. Other inputs lose their scripts, and their sequence numbers
  when not all outputs are signed; with \<open>ANYONECANPAY\<close> they are dropped. Of the outputs, all, none, or
  those up to the one with the index of the input are kept, the earlier ones blanked.
\<close>

definition signing_input :: "core_transaction \<Rightarrow> byte list \<Rightarrow> nat \<Rightarrow> bool \<Rightarrow> nat \<Rightarrow> tx_input" where
  "signing_input tx code i partial k =
     (let txin = core_vin tx ! k in
      \<lparr>previous_output = Outpoint (core_hash (core_prevout txin)) (core_n (core_prevout txin)),
       input_script = (if k = i then strip_separators code 0 else []),
       input_sequence = (if k \<noteq> i \<and> partial then 0 else core_sequence txin), input_witness = []\<rparr>)"

definition blank_output :: tx_output where
  "blank_output = \<lparr>output_value = - 1, output_script = []\<rparr>"

definition signing_transaction :: "core_transaction \<Rightarrow> byte list \<Rightarrow> nat \<Rightarrow> i32 \<Rightarrow> transaction" where
  "signing_transaction tx code i ht =
     (let single = (ht AND 0x1f = SIGHASH_SINGLE); none = (ht AND 0x1f = SIGHASH_NONE) in
      \<lparr>tx_version = core_version tx,
       tx_inputs = (if ht AND SIGHASH_ANYONECANPAY \<noteq> 0 then [signing_input tx code i (single \<or> none) i]
         else map (signing_input tx code i (single \<or> none)) [0..<length (core_vin tx)]),
       tx_outputs = (if none then []
         else if single then replicate i blank_output @ [from_core_output (core_vout tx ! i)]
         else map from_core_output (core_vout tx)),
       tx_locktime = core_lock_time tx\<rparr>)"

lemma signing_transaction_simps [simp]:
  "tx_version (signing_transaction tx code i ht) = core_version tx"
  "tx_locktime (signing_transaction tx code i ht) = core_lock_time tx"
  by (simp_all add: signing_transaction_def Let_def)

lemma written_SerializeInput:
  assumes "parses code 0" "length code < 2 ^ 32" "k < 2 ^ 32" "sha_written s xs"
  shows "sha_written (SerializeInput (new_serializer tx code i ht) (of_nat k) s)
    (xs @ input_bytes (signing_input tx code (unat i) (ht AND 0x1f = SIGHASH_SINGLE \<or> ht AND 0x1f = SIGHASH_NONE)
       (if ht AND SIGHASH_ANYONECANPAY \<noteq> 0 then unat i else k)))"
proof -
  let ?t = "new_serializer tx code i ht"
  define n where "n = (if ht AND SIGHASH_ANYONECANPAY \<noteq> 0 then i else of_nat k)"
  have k: "unat (of_nat k :: u32) = k" using assms(3) by (simp add: unat_of_nat take_bit_nat_eq_self)
  have n: "unat n = (if ht AND SIGHASH_ANYONECANPAY \<noteq> 0 then unat i else k)" by (simp add: n_def k)
  have eq: "n = i \<longleftrightarrow> unat n = unat i" by (simp add: word_unat_eq_iff)
  let ?s = "Serialize_outpoint (core_prevout (core_vin tx ! unat n)) s"
  let ?xs = "xs @ outpoint_bytes (core_prevout (core_vin tx ! unat n))"
  have code: "sha_written (SerializeScriptCode ?t ?s) (?xs @ var_bytes (strip_separators code 0))"
    using written_SerializeScriptCode [OF _ _ written_Serialize_outpoint [OF assms(4)], of ?t] assms(1,2)
    by (simp add: new_serializer_def)
  let ?partial = "ht AND 0x1f = SIGHASH_SINGLE \<or> ht AND 0x1f = SIGHASH_NONE"
  have body: "SerializeInput ?t (of_nat k) s =
      (if n = i then ser_writedata 4 (core_sequence (core_vin tx ! unat n)) (SerializeScriptCode ?t ?s)
       else ser_writedata 4 (if ?partial then 0 else core_sequence (core_vin tx ! unat n)) (Serialize_bytes [] ?s))"
    by (simp add: SerializeInput_def Let_def n_def new_serializer_def)
  have blank: "sha_written (Serialize_bytes [] ?s) (?xs @ var_bytes [])"
    by (intro hash_written assms(4))
  show ?thesis
    unfolding body n [symmetric]
    using written_ser_writedata [OF code, of 4 "core_sequence (core_vin tx ! unat n)"]
      written_ser_writedata [OF blank, of 4 "if ?partial then 0 else core_sequence (core_vin tx ! unat n)"]
    by (auto simp: signing_input_def Let_def input_bytes_def outpoint_bytes_def eq)
qed

lemma written_SerializeOutput:
  assumes "k < 2 ^ 32" "sha_written s xs"
  shows "sha_written (SerializeOutput (new_serializer tx code i ht) (of_nat k) s)
    (xs @ output_bytes (if ht AND 0x1f = SIGHASH_SINGLE \<and> k \<noteq> unat i then blank_output else from_core_output (core_vout tx ! k)))"
proof -
  have k: "unat (of_nat k :: u32) = k" using assms(1) by (simp add: unat_of_nat take_bit_nat_eq_self)
  have "blank_output = from_core_output CTxOut_null" by (simp add: blank_output_def from_core_output_def CTxOut_null_def)
  moreover have "of_nat k = i \<longleftrightarrow> k = unat i" using k by (metis word_unat_eq_iff)
  ultimately show ?thesis
    using written_Serialize_txout [OF assms(2), of CTxOut_null] written_Serialize_txout [OF assms(2), of "core_vout tx ! k"]
    by (simp add: SerializeOutput_def new_serializer_def k)
qed

lemma fold_written:
  assumes "\<And>k s xs. k \<in> set ks \<Longrightarrow> sha_written s xs \<Longrightarrow> sha_written (f k s) (xs @ enc k)" "sha_written s xs"
  shows "sha_written (fold f ks s) (xs @ concat (map enc ks))"
  using assms
proof (induction ks arbitrary: s xs)
  case (Cons k ks)
  from Cons.IH [OF Cons.prems(1) Cons.prems(1) [OF _ Cons.prems(2)]] show ?case by simp
qed simp

text \<open>
  The serializer with its conditions emits the plain serialization of the modified transaction.
\<close>

theorem written_Serialize_signing:
  assumes "parses code 0" "length code < 2 ^ 32" "unat i < length (core_vin tx)"
    and "length (core_vin tx) < 2 ^ 32" "length (core_vout tx) < 2 ^ 32"
    and single: "ht AND 0x1f = SIGHASH_SINGLE \<Longrightarrow> unat i < length (core_vout tx)"
    and "sha_written s xs"
  shows "sha_written (Serialize_signing (new_serializer tx code i ht) s)
    (xs @ transaction_bytes False (signing_transaction tx code (unat i) ht))"
proof -
  let ?t = "new_serializer tx code i ht"
  let ?single = "ht AND 0x1f = SIGHASH_SINGLE" and ?none = "ht AND 0x1f = SIGHASH_NONE"
  let ?in = "\<lambda>k. input_bytes (signing_input tx code (unat i) (?single \<or> ?none) (if ht AND SIGHASH_ANYONECANPAY \<noteq> 0 then unat i else k))"
  let ?out = "\<lambda>k. output_bytes (if ?single \<and> k \<noteq> unat i then blank_output else from_core_output (core_vout tx ! k))"
  define nI where "nI = (if ht AND SIGHASH_ANYONECANPAY \<noteq> 0 then 1 else length (core_vin tx))"
  define nO where "nO = (if ?none then 0 else if ?single then unat i + 1 else length (core_vout tx))"
  have txTo: "txTo ?t = tx" by (simp add: new_serializer_def)
  have nI: "nI < 2 ^ 32" "(if fAnyoneCanPay ?t then 1 else of_nat (length (core_vin (txTo ?t)))) = (of_nat nI :: u32)"
    using assms(4) by (simp_all add: nI_def new_serializer_def)
  have nO: "nO < 2 ^ 32" "(if fHashNone ?t then 0 else if fHashSingle ?t then nIn ?t + 1 else of_nat (length (core_vout (txTo ?t)))) = (of_nat nO :: u32)"
    using assms(5) single by (auto simp: nO_def new_serializer_def)
  have small: "unat (of_nat n :: u32) = n" "ucast (of_nat n :: u32) = (of_nat n :: u64)" if "n < 2 ^ 32" for n
    using that by (simp_all add: unat_of_nat take_bit_nat_eq_self widen_of_nat)
  have ins: "sha_written (fold (\<lambda>k. SerializeInput ?t (of_nat k)) [0..<nI] s') (ys @ concat (map ?in [0..<nI]))"
    if "sha_written s' ys" for s' ys
    by (rule fold_written [OF written_SerializeInput [OF assms(1,2)] that]) (use nI(1) in auto)
  have outs: "sha_written (fold (\<lambda>k. SerializeOutput ?t (of_nat k)) [0..<nO] s') (ys @ concat (map ?out [0..<nO]))"
    if "sha_written s' ys" for s' ys
    by (rule fold_written [OF written_SerializeOutput that]) (use nO(1) in auto)
  note w = written_ser_writedata [OF outs [OF written_WriteCompactSize [OF ins [OF written_WriteCompactSize [OF
      written_ser_writedata [OF assms(7)]]]]], of 4 "core_lock_time tx" "of_nat nO" "of_nat nI" 4 "core_version tx"]
  have "vector_bytes input_bytes (tx_inputs (signing_transaction tx code (unat i) ht)) =
      compact_size_bytes (of_nat nI) @ concat (map ?in [0..<nI])"
    by (auto simp: signing_transaction_def Let_def vector_bytes_def nI_def comp_def)
  moreover have "map output_bytes (tx_outputs (signing_transaction tx code (unat i) ht)) = map ?out [0..<nO]"
    by (rule nth_equalityI) (auto simp: signing_transaction_def Let_def nO_def nth_append)
  then have "vector_bytes output_bytes (tx_outputs (signing_transaction tx code (unat i) ht)) =
      compact_size_bytes (of_nat nO) @ concat (map ?out [0..<nO])"
    unfolding vector_bytes_def using map_eq_imp_length_eq by fastforce
  ultimately show ?thesis
    using w unfolding Serialize_signing_def Let_def nI(2) nO(2) small [OF nI(1)] small [OF nO(1)]
    by (simp add: transaction_bytes_def txTo)
qed

text \<open>What a new midstate leads to, whether or not it is stored.\<close>

lemma GetHash_ser: "sha_written s xs \<Longrightarrow> GetHash (ser_writedata 4 v s) = double_sha256 (xs @ write_little_endian v 4)"
  by (rule GetHash_written [OF written_ser_writedata])

theorem SignatureHash_base:
  assumes "parses code 0" "length code < 2 ^ 32" "unat i < length (core_vin tx)"
    and "length (core_vin tx) < 2 ^ 32" "length (core_vout tx) < 2 ^ 32"
  shows "SignatureHash code tx i ht amount BASE d None =
    Ok (if ht AND 0x1f = SIGHASH_SINGLE \<and> length (core_vout tx) \<le> unat i then uint256_ONE
        else double_sha256 (transaction_bytes False (signing_transaction tx code (unat i) ht) @ write_little_endian ht 4), None)"
proof (cases "ht AND 0x1f = SIGHASH_SINGLE \<and> length (core_vout tx) \<le> unat i")
  case False
  then have "ht AND 0x1f = SIGHASH_SINGLE \<Longrightarrow> unat i < length (core_vout tx)" by simp
  from written_Serialize_signing [OF assms this HashWriter_new]
  show ?thesis using False assms(3) by (auto simp: SignatureHash_def Let_def GetHash_ser)
qed (use assms(3) in \<open>auto simp: SignatureHash_def\<close>)

subsection \<open>The signature hash of version 0 witnesses\<close>

lemma GetPrevoutsSHA256_eq: "GetPrevoutsSHA256 tx = sha256 (concat (map (outpoint_bytes \<circ> core_prevout) (core_vin tx)))"
  unfolding GetPrevoutsSHA256_def
  by (rule GetSHA256_written, rule fold_written [of _ _ _ _ "[]", simplified]) (simp_all add: hash_written HashWriter_new)

lemma GetSequencesSHA256_eq: "GetSequencesSHA256 tx = sha256 (concat (map (\<lambda>i. write_little_endian (core_sequence i) 4) (core_vin tx)))"
  unfolding GetSequencesSHA256_def
  by (rule GetSHA256_written, rule fold_written [of _ _ _ _ "[]", simplified]) (simp_all add: hash_written HashWriter_new)

lemma GetOutputsSHA256_eq: "GetOutputsSHA256 tx = sha256 (concat (map (output_bytes \<circ> from_core_output) (core_vout tx)))"
  unfolding GetOutputsSHA256_def
  by (rule GetSHA256_written, rule fold_written [of _ _ _ _ "[]", simplified]) (simp_all add: hash_written HashWriter_new)

text \<open>The fields of BIP 143, in order.\<close>

definition bip143_message :: "byte list \<Rightarrow> core_transaction \<Rightarrow> nat \<Rightarrow> i32 \<Rightarrow> i64 \<Rightarrow> byte list" where
  "bip143_message code tx i ht amount =
     (let anyone = (ht AND SIGHASH_ANYONECANPAY \<noteq> 0); single = (ht AND 0x1f = SIGHASH_SINGLE);
          none = (ht AND 0x1f = SIGHASH_NONE); txin = core_vin tx ! i
      in write_little_endian (core_version tx) 4 @
        (if anyone then replicate 32 0 else double_sha256 (concat (map (outpoint_bytes \<circ> core_prevout) (core_vin tx)))) @
        (if anyone \<or> single \<or> none then replicate 32 0
         else double_sha256 (concat (map (\<lambda>i. write_little_endian (core_sequence i) 4) (core_vin tx)))) @
        outpoint_bytes (core_prevout txin) @ var_bytes code @ write_little_endian amount 8 @
        write_little_endian (core_sequence txin) 4 @
        (if \<not> single \<and> \<not> none then double_sha256 (concat (map (output_bytes \<circ> from_core_output) (core_vout tx)))
         else if single \<and> i < length (core_vout tx) then double_sha256 (output_bytes (from_core_output (core_vout tx ! i)))
         else replicate 32 0) @
        write_little_endian (core_lock_time tx) 4 @ write_little_endian ht 4)"

text \<open>Precomputed hashes are those of the transaction.\<close>

definition precomputed :: "core_transaction \<Rightarrow> PrecomputedTransactionData \<Rightarrow> bool" where
  "precomputed tx d \<longleftrightarrow> (m_bip143_segwit_ready d \<longrightarrow>
     hashPrevouts d = SHA256Uint256 (GetPrevoutsSHA256 tx) \<and> hashSequence d = SHA256Uint256 (GetSequencesSHA256 tx) \<and>
     hashOutputs d = SHA256Uint256 (GetOutputsSHA256 tx))"

lemma Init_precomputed:
  assumes "length spent_outputs = length (core_vin tx)"
  shows "\<exists>d. Init new_txdata tx spent_outputs force = Ok d \<and> precomputed tx d"
  using assms by (auto simp: Init_def new_txdata_def precomputed_def Let_def split: prod.split)

lemma witness_v0_writer_precomputed:
  "(\<And>d. cache = Some d \<Longrightarrow> precomputed tx d) \<Longrightarrow>
     witness_v0_writer code tx i ht amount cache = witness_v0_writer code tx i ht amount None"
  by (cases cache) (auto simp: witness_v0_writer_def precomputed_def Let_def)

theorem SignatureHash_witness_v0:
  assumes "unat i < length (core_vin tx)" "\<And>d. cache = Some d \<Longrightarrow> precomputed tx d"
  shows "SignatureHash code tx i ht amount WITNESS_V0 cache None = Ok (double_sha256 (bip143_message code tx (unat i) ht amount), None)"
proof -
  let ?txin = "core_vin tx ! unat i"
  have frame: "sha_written
      (ser_writedata 4 (core_lock_time tx) (HashWriter_write (ser_writedata 4 (core_sequence ?txin) (ser_writedata 8 amount
        (Serialize_bytes code (Serialize_outpoint (core_prevout ?txin) (HashWriter_write (HashWriter_write
          (ser_writedata 4 (core_version tx) HashWriter) p) s))))) out))
      (write_little_endian (core_version tx) 4 @ p @ s @ outpoint_bytes (core_prevout ?txin) @ var_bytes code @
        write_little_endian amount 8 @ write_little_endian (core_sequence ?txin) 4 @ out @ write_little_endian (core_lock_time tx) 4)"
    for p s out
    using written_ser_writedata [OF hash_writer.written_write [OF written_ser_writedata [OF written_ser_writedata [OF
      written_Serialize_bytes [OF written_Serialize_outpoint [OF hash_writer.written_write [OF hash_writer.written_write [OF
        written_ser_writedata [OF HashWriter_new]]]]]]]]] by simp
  have single: "GetHash (Serialize_txout out HashWriter) = double_sha256 (output_bytes (from_core_output out))" for out
    using GetHash_written [OF written_Serialize_txout [OF HashWriter_new]] by simp
  have "GetHash (ser_writedata 4 ht (witness_v0_writer code tx i ht amount None)) = double_sha256 (bip143_message code tx (unat i) ht amount)"
    unfolding witness_v0_writer_def Let_def GetHash_ser [OF frame]
    by (simp add: bip143_message_def Let_def GetPrevoutsSHA256_eq GetSequencesSHA256_eq GetOutputsSHA256_eq
        SHA256Uint256_eq single uint256_zero_def double_sha256_def)
  then show ?thesis
    using assms by (simp add: SignatureHash_def Let_def witness_v0_writer_precomputed [OF assms(2)])
qed

end
