(* ===== verification/Script_Check.thy ===== *)
theory Script_Check
  imports Verify_Safety Sighash_Cache Sighash_Preimage
begin

text \<open>
  The script check of the validation library, with the interpreter in place: \<open>core_interpreter\<close> is the
  part of \<open>verify_script\<close> that builds the signature checker and calls \<open>VerifyScript\<close>. The definitions of
  \<open>Script_Validation\<close> take it as their argument.

  The main result is that a check always ends with a verdict on the script. Neither an assertion nor
  an exception inside the interpreter can turn a spend into an operation failure.
\<close>

subsection \<open>The interpreter as the validation library calls it\<close>

definition core_checker :: "core_transaction \<Rightarrow> u32 \<Rightarrow> i64 \<Rightarrow> PrecomputedTransactionData \<Rightarrow> TransactionSignatureChecker" where
  "core_checker tx i spent_amount txdata =
     \<lparr>ck_txTo = tx, ck_mdb = FAIL, ck_nIn = i, ck_amount = spent_amount, ck_txdata = Some txdata\<rparr>"

definition core_outcome ::
  "secp256k1 \<Rightarrow> byte list \<Rightarrow> byte list \<Rightarrow> byte list list \<Rightarrow> script_verify_flags \<Rightarrow> core_transaction \<Rightarrow> u32 \<Rightarrow> i64 \<Rightarrow>
   core_tx_out list \<Rightarrow> SigHashCache exec" where
  "core_outcome secp scriptSig scriptPubKey witness flags tx i spent_amount spent_outputs =
     exec_bind (Init new_txdata tx spent_outputs False) (\<lambda>txdata.
       VerifyScript (cached_env secp flags (core_checker tx i spent_amount txdata)) scriptSig scriptPubKey (Some witness)
         new_sighash_cache)"

text \<open>
  The verdict. A failed assertion ends the process, which is not an outcome of the library; it is
  listed with the exceptions here, and \<open>core_outcome_safe\<close> shows that there are none of either.
\<close>

definition core_interpreter :: "secp256k1 \<Rightarrow> script_interpreter" where
  "core_interpreter secp scriptSig scriptPubKey witness flags tx i spent_amount spent_outputs =
     (case core_outcome secp scriptSig scriptPubKey witness flags tx i spent_amount spent_outputs of
        Ok c \<Rightarrow> Return True
      | Err e \<Rightarrow> Return False
      | Num_error \<Rightarrow> Throw
      | Thrown \<Rightarrow> Throw
      | Aborted \<Rightarrow> Throw)"

lemma core_flags_consistent:
  "flag_set (to_core_flags flags) SCRIPT_VERIFY_WITNESS \<Longrightarrow> flag_set (to_core_flags flags) SCRIPT_VERIFY_P2SH"
  "\<not> flag_set (to_core_flags flags) SCRIPT_VERIFY_CLEANSTACK"
  by (auto simp: to_core_flags_set)

theorem core_outcome_safe:
  assumes "unat i < length (core_vin tx)" "length spent_outputs = length (core_vin tx)"
  shows "safe (core_outcome secp scriptSig scriptPubKey witness (to_core_flags flags) tx i spent_amount spent_outputs)"
proof -
  obtain d where d: "Init new_txdata tx spent_outputs False = Ok d" using Init_precomputed [OF assms(2)] by blast
  let ?ck = "core_checker tx i spent_amount d"
  have "safe_checker (transaction_signature_checker secp ?ck)"
    by (rule transaction_checker_safe) (use assms(1) in \<open>simp_all add: core_checker_def\<close>)
  then have "safe (VerifyScript (cached_env secp (to_core_flags flags) ?ck) scriptSig scriptPubKey (Some witness) new_sighash_cache)"
    by (rule safe_checker.VerifyScript_safe) (simp_all add: core_flags_consistent)
  then show ?thesis by (simp add: core_outcome_def d)
qed

text \<open>The number error of the interpreter never leaves it.\<close>

lemma exec_bind_Num_error: "exec_bind m f = Num_error \<longleftrightarrow> m = Num_error \<or> (\<exists>x. m = Ok x \<and> f x = Num_error)"
  by (cases m) auto

lemma exec_assert_Num_error: "exec_assert b m = Num_error \<longleftrightarrow> b \<and> m = Num_error"
  by (simp add: exec_assert_def)

lemmas num_error_simps = exec_bind_Num_error exec_assert_Num_error

lemma EvalScript_no_num_error [simp]: "EvalScript env stack ed c \<noteq> Num_error"
  by (cases "eval_loop env 0 (eval_init stack ed c)") (auto simp: EvalScript_def num_error_simps)

lemma scan_success_no_num_error [simp]: "scan_success flags script pc \<noteq> Num_error"
proof (induction flags script pc rule: scan_success.induct)
  case (1 flags script pc)
  obtain ok pc' opcode data where g: "GetScriptOp script pc = (ok, pc', opcode, data)" by (metis prod_cases4)
  from 1 [OF _ g [symmetric] refl refl] show ?case by (simp add: scan_success.simps [of flags script pc] g)
qed

lemma witness_no_num_error [simp]: "ExecuteWitnessScript env stack ed c \<noteq> Num_error"
  by (auto simp: ExecuteWitnessScript_def run_witness_script_def Let_def num_error_simps)

lemma SignatureHashSchnorr_no_num_error [simp]: "SignatureHashSchnorr ed tx i ht sv d mdb \<noteq> Num_error"
  by (cases mdb) (simp_all add: SignatureHashSchnorr_def schnorr_script_data_def Let_def num_error_simps)

lemma schnorr_verdict_no_num_error [simp]: "schnorr_verdict secp sig key c r \<noteq> Num_error"
  by (simp add: schnorr_verdict_def split: option.split)

lemma schnorr_no_num_error [simp]: "tx_CheckSchnorrSignature secp ck sig key sv ed c \<noteq> Num_error"
  by (cases "ck_mdb ck") (simp_all add: tx_CheckSchnorrSignature_def Let_def num_error_simps split: option.split)

lemma verify_taproot_no_num_error [simp]: "verify_taproot (cached_env secp flags ck) witness program c \<noteq> Num_error"
  by (simp add: verify_taproot_def verify_script_path_def Let_def VerifyTaprootCommitment_def ComputeTaprootMerkleRoot_def
      num_error_simps transaction_signature_checker_def split: prod.split sum.split)

lemma VerifyWitnessProgram_no_num_error [simp]:
  "VerifyWitnessProgram (cached_env secp flags ck) witness version program is_p2sh c \<noteq> Num_error"
  by (simp add: VerifyWitnessProgram_def verify_witness_v0_def Let_def)

lemma eval_base_no_num_error [simp]: "eval_base ve script stack c \<noteq> Num_error"
  by (auto simp: eval_base_def num_error_simps)

lemma extensions_no_num_error [simp]:
  "verify_bare_witness (cached_env secp flags ck) scriptSig scriptPubKey witness stack c \<noteq> Num_error"
  "verify_p2sh_witness (cached_env secp flags ck) scriptSig script witness stack hadWitness c \<noteq> Num_error"
  "verify_p2sh (cached_env secp flags ck) scriptSig scriptPubKey witness stackCopy stack hadWitness c \<noteq> Num_error"
  "verify_end (cached_env secp flags ck) witness stack hadWitness c \<noteq> Num_error"
proof -
  show *: "verify_p2sh_witness (cached_env secp flags ck) scriptSig script witness stack hadWitness c \<noteq> Num_error"
    for script stack hadWitness c
    by (auto simp: verify_p2sh_witness_def num_error_simps split: option.split)
  show "verify_p2sh (cached_env secp flags ck) scriptSig scriptPubKey witness stackCopy stack hadWitness c \<noteq> Num_error"
    by (auto simp: verify_p2sh_def check_top_def Let_def num_error_simps *)
qed (auto simp: verify_bare_witness_def verify_end_def num_error_simps split: option.split)

lemma VerifyScript_no_num_error:
  "VerifyScript (cached_env secp flags ck) scriptSig scriptPubKey witness c \<noteq> Num_error"
proof -
  have "verify_extensions (cached_env secp flags ck) scriptSig scriptPubKey w stackCopy x \<noteq> Num_error" for w stackCopy x
    by (cases x) (simp add: verify_extensions_def check_top_def num_error_simps)
  then show ?thesis by (simp add: VerifyScript_def Let_def num_error_simps)
qed

theorem core_interpreter_returns:
  assumes "unat i < length (core_vin tx)" "length spent_outputs = length (core_vin tx)"
  shows "\<exists>ok. core_interpreter secp scriptSig scriptPubKey witness (to_core_flags flags) tx i spent_amount spent_outputs = Return ok"
proof -
  let ?m = "core_outcome secp scriptSig scriptPubKey witness (to_core_flags flags) tx i spent_amount spent_outputs"
  obtain d where "Init new_txdata tx spent_outputs False = Ok d" using Init_precomputed [OF assms(2)] by blast
  then have "?m \<noteq> Num_error" by (simp add: core_outcome_def VerifyScript_no_num_error)
  moreover have "safe ?m" by (rule core_outcome_safe [OF assms])
  ultimately show ?thesis by (cases ?m) (auto simp: core_interpreter_def)
qed

text \<open>Every well-formed request gets a verdict.\<close>

theorem verify_script_verdict:
  assumes "input_index < length (tx_inputs tx)" "length prevouts = length (tx_inputs tx)" "length (tx_inputs tx) < 2 ^ 32"
    and "prevouts ! input_index = \<lparr>output_value = spent_amount, output_script = previous_script\<rparr>"
  shows "verify_script (core_interpreter secp) previous_script spent_amount tx input_index flags prevouts
    \<in> {script_valid, script_rejected}"
proof -
  let ?tx = "to_core_transaction tx"
  have "unat (of_nat input_index :: u32) = input_index" using assms(1,3) by (simp add: unat_of_nat take_bit_nat_eq_self)
  then obtain ok where "core_interpreter secp (core_script_sig (core_vin ?tx ! input_index))
      (core_script_pub_key (to_core_tx_output (prevouts ! input_index))) (core_script_witness (core_vin ?tx ! input_index))
      (to_core_flags flags) ?tx (of_nat input_index) spent_amount (to_core_spent_outputs prevouts) = Return ok"
    using core_interpreter_returns [of "of_nat input_index" ?tx "to_core_spent_outputs prevouts"] assms(1,2)
    by (force simp: to_core_transaction_def to_core_spent_outputs_def)
  then show ?thesis using assms by (simp add: verify_script_def Let_def)
qed

text \<open>So the check of a transaction's scripts gives the result for the spends, or rejects a script.\<close>

theorem verify_scripts_loop_verdict:
  assumes "\<forall>k\<in>set indices. k < length (tx_inputs tx)" "length prevouts = length (tx_inputs tx)" "length (tx_inputs tx) < 2 ^ 32"
  shows "verify_scripts_loop (core_interpreter secp) tx flags prevouts spend_result indices
    \<in> {spend_result, invalid_script ''script interpreter rejected the input''}"
  using assms(1)
proof (induction indices)
  case (Cons k indices)
  have "verify_script (core_interpreter secp) (output_script (prevouts ! k)) (output_value (prevouts ! k)) tx k flags prevouts
      \<in> {script_valid, script_rejected}"
    by (rule verify_script_verdict) (use Cons.prems assms(2,3) in simp_all)
  with Cons show ?case by (auto simp: script_rejected_def)
qed simp

subsection \<open>Signature operations in a witness\<close>

lemma last_push_eq: "last_data_loop script pc data = Some d \<Longrightarrow> last_push script pc data = d"
proof (induction script pc data rule: last_push.induct)
  case (1 script pc data)
  obtain ok pc' opcode data' where g: "GetScriptOp script pc = (ok, pc', opcode, data')" by (metis prod_cases4)
  from 1(1) [OF _ g [symmetric] refl refl] 1(2) show ?case
    by (auto simp: last_push.simps [of script pc] last_data_loop.simps [of script pc] g split: if_splits)
qed

lemma WitnessSigOps_eq:
  assumes "\<forall>w\<in>set witness. length w < 2 ^ 32"
  shows "WitnessSigOps version program witness = program_sigop_count (Some (version, program)) witness mod 2 ^ 32"
  using assms sigop_count_agrees [of "last witness" True]
  by (auto simp: WitnessSigOps_def program_sigop_count_def opcode_defs witness_v0_keyhash_size_def witness_v0_scripthash_size_def)

text \<open>
  The count of the validation library is that of the interpreter, up to the width of the latter, when
  the flags that turn the rules on are set.
\<close>

theorem witness_sigops_agree:
  assumes "flags_contains flags p2sh_mask" "flags_contains flags witness_mask"
    and "length (input_script input) < 2 ^ 32" "\<forall>w\<in>set (input_witness input). length w < 2 ^ 32"
  shows "CountWitnessSigOps (input_script input) previous_script (input_witness input) (to_core_flags flags) =
    Ok (witness_sigop_count input previous_script flags mod 2 ^ 32)"
proof -
  have push: "IsPushOnly (input_script input) \<longleftrightarrow> last_pushed_script (input_script input) \<noteq> None"
    and last: "last_pushed_script (input_script input) = Some d \<Longrightarrow> last_push (input_script input) 0 [] = d" for d
    using push_only_last_data [of "input_script input" 0 "[]"] last_push_eq [of "input_script input" 0 "[]" d]
    by (simp_all add: IsPushOnly_def last_pushed_script_def last_data_agrees [OF assms(3)])
  have flags: "flag_set (to_core_flags flags) SCRIPT_VERIFY_WITNESS" "flag_set (to_core_flags flags) SCRIPT_VERIFY_P2SH"
    using assms(1,2) by (simp_all add: to_core_flags_set)
  show ?thesis
    using push last assms(1,2) WitnessSigOps_eq [OF assms(4)]
    by (auto simp: CountWitnessSigOps_def flags witness_sigop_count_def witness_program_agrees pay_to_script_hash_agrees
        program_sigop_count_def [of None] split: option.split)
qed

end
