(* ===== verification/Witness_Spend.thy ===== *)
theory Witness_Spend
  imports Script_Check
begin

text \<open>
  Who can spend an output locked to the hash of a public key by a version 0 witness program. The
  script check accepts a witness of a signature and a key exactly when the key has the hash, the
  encodings are right, and the signature is one of that key for the message of BIP 143. This runs through the
  whole interpreter: both scripts, the witness program, the implied script, the checker with its cache and
  the signature hash.
\<close>

subsection \<open>Running scripts step by step\<close>

lemma eval_loop_step:
  "GetScriptOp script pc = (True, pc', opcode, data) \<Longrightarrow> env_script env = script \<Longrightarrow> pc < length script \<Longrightarrow>
     eval_loop env pc st = exec_bind (eval_step env pc' opcode data st) (eval_loop env pc')"
  by (subst eval_loop.simps) simp

lemma eval_loop_end: "length (env_script env) \<le> pc \<Longrightarrow> eval_loop env pc st = Ok st"
  by (subst eval_loop.simps) simp

text \<open>A round that runs one instruction, far from the limits.\<close>

lemma eval_step_runs:
  assumes "all_true (ev_vfExec st)" "length data \<le> MAX_SCRIPT_ELEMENT_SIZE" "ev_nOpCount st < MAX_OPS_PER_SCRIPT"
    and "\<not> disabled_opcode opcode" "opcode \<noteq> OP_CODESEPARATOR" "OP_16 < opcode" "env_sigversion env = BASE \<or> env_sigversion env = WITNESS_V0"
  shows "eval_step env pc opcode data st =
    exec_bind (eval_opcode env pc opcode True (st\<lparr>ev_nOpCount := ev_nOpCount st + 1\<rparr>)) check_stack_size"
proof -
  have "\<not> opcode \<le> OP_PUSHDATA4" using assms(6) by (simp add: word_le_nat_alt word_less_nat_alt)
  then show ?thesis using assms by (auto simp: eval_step_def eval_instruction_eq Let_def)
qed

lemma eval_step_pushes:
  assumes "all_true (ev_vfExec st)" "length data \<le> MAX_SCRIPT_ELEMENT_SIZE" "opcode \<le> OP_PUSHDATA4"
    and "\<not> fRequireMinimal env"
  shows "eval_step env pc opcode data st = check_stack_size (st\<lparr>ev_stack := data # ev_stack st\<rparr>)"
proof -
  have "\<not> OP_16 < opcode" "opcode \<noteq> OP_CODESEPARATOR" "\<not> disabled_opcode opcode"
    using assms(3) by (auto simp: word_le_nat_alt word_less_nat_alt disabled_opcode_def)
  then show ?thesis using assms by (auto simp: eval_step_def eval_instruction_eq Let_def)
qed

subsection \<open>The two scripts\<close>

definition keyhash_program :: "byte list \<Rightarrow> byte list" where
  "keyhash_program h = [OP_0, 0x14] @ h"

definition keyhash_code :: "byte list \<Rightarrow> byte list" where
  "keyhash_code h = [OP_DUP, OP_HASH160, 0x14] @ h @ [OP_EQUALVERIFY, OP_CHECKSIG]"

lemma keyhash_program_parses:
  assumes "length h = 20"
  shows "IsWitnessProgram (keyhash_program h) = Some (0, h)" "\<not> IsPayToScriptHash (keyhash_program h)"
    "GetScriptOp (keyhash_program h) 0 = (True, 1, OP_0, [])" "GetScriptOp (keyhash_program h) 1 = (True, 22, 0x14, h)"
  using assms
  by (simp_all add: keyhash_program_def IsWitnessProgram_def IsPayToScriptHash_def GetScriptOp_def take_push_def Let_def)

lemma keyhash_code_parses:
  assumes "length h = 20"
  shows "GetScriptOp (keyhash_code h) 0 = (True, 1, OP_DUP, [])" "GetScriptOp (keyhash_code h) 1 = (True, 2, OP_HASH160, [])"
    "GetScriptOp (keyhash_code h) 2 = (True, 23, 0x14, h)" "GetScriptOp (keyhash_code h) 23 = (True, 24, OP_EQUALVERIFY, [])"
    "GetScriptOp (keyhash_code h) 24 = (True, 25, OP_CHECKSIG, [])"
  using assms
  by (simp_all add: keyhash_code_def GetScriptOp_def take_push_def Let_def nth_append)

lemma push_data_keyhash: "length h = 20 \<Longrightarrow> push_data h = 0x14 # h"
  by (simp add: push_data_def append_data_size_def)

text \<open>The output script pushes the version and the program.\<close>

lemma eval_keyhash_program:
  assumes "length h = 20" "\<not> ve_flag ve SCRIPT_VERIFY_MINIMALDATA"
  shows "eval_base ve (keyhash_program h) [] c = Ok ([h, []], c)"
proof -
  let ?env = "script_env ve BASE (keyhash_program h)"
  have len: "length (keyhash_program h) = 22" using assms(1) by (simp add: keyhash_program_def)
  have "\<exists>st. eval_loop ?env 0 (eval_init [] new_execdata c) = Ok st \<and> ev_stack st = [h, []] \<and> ev_checker st = c \<and> cond_empty (ev_vfExec st)"
    using assms(2) len
    by (simp add: eval_loop_step [OF keyhash_program_parses(3) [OF assms(1)]] eval_loop_step [OF keyhash_program_parses(4) [OF assms(1), simplified]]
      eval_step_pushes eval_init_def script_limits assms(1) check_stack_size_def eval_loop_end cond_new_def all_true_def cond_empty_def)
  then show ?thesis using len by (auto simp: eval_base_def EvalScript_def script_limits)
qed

text \<open>
  The implied script: hash the key, compare, check the signature. The signature check sees a state with
  the whole script as its code.
\<close>

lemma hash160_eq: "script_hash OP_HASH160 key = ripemd160 (sha256 key)"
  using CHash160_written [OF sha_Write_written [OF sha_written_zeros]] by (simp add: script_hash_def)

lemma check_stack_size_small:
  "length (ev_stack st) + length (ev_altstack st) \<le> 1000 \<Longrightarrow> check_stack_size st = Ok (st\<lparr>ev_opcode_pos := ev_opcode_pos st + 1\<rparr>)"
  by (simp add: check_stack_size_def script_limits)

lemma eval_opcode_keyhash:
  "ev_stack st = key # rest \<Longrightarrow> eval_opcode env pc OP_DUP True st = Ok (st\<lparr>ev_stack := key # key # rest\<rparr>)"
  "ev_stack st = key # rest \<Longrightarrow> eval_opcode env pc OP_HASH160 True st = Ok (st\<lparr>ev_stack := ripemd160 (sha256 key) # rest\<rparr>)"
  "ev_stack st = a # b # rest \<Longrightarrow> eval_opcode env pc OP_EQUALVERIFY True st =
     (if b = a then Ok (st\<lparr>ev_stack := rest\<rparr>) else Err SCRIPT_ERR_EQUALVERIFY)"
  "eval_opcode env pc OP_CHECKSIG True st = eval_checksig env OP_CHECKSIG st"
  by (simp_all add: eval_opcode_def on_stack_def eval_stack_op_def eval_hash_def eval_equal_def need_def stacktop_def hash160_eq)

lemma eval_keyhash_code:
  assumes "length h = 20" "env_script env = keyhash_code h" "env_sigversion env = WITNESS_V0" "\<not> fRequireMinimal env"
  shows "\<exists>st. ev_pbegincodehash st = 0 \<and> ev_checker st = c \<and> EvalScript env [key, sig] execdata c =
    (if ripemd160 (sha256 key) = h
     then exec_bind (eval_catch (EvalChecksig env sig key st)) (\<lambda>(ok, st'). Ok ([vch_bool ok], ev_execdata st', ev_checker st'))
     else Err SCRIPT_ERR_EQUALVERIFY)"
proof -
  note parse = keyhash_code_parses [OF assms(1)]
  have len: "length (keyhash_code h) = 25" using assms(1) by (simp add: keyhash_code_def)
  let ?start = "eval_init [key, sig] execdata c"
  let ?s = "?start\<lparr>ev_nOpCount := Suc (Suc (Suc (Suc 0))), ev_opcode_pos := 4\<rparr>"
  have true: "all_true cond_new" by (simp add: cond_new_def all_true_def)
  have loop: "eval_loop env 0 ?start = (if ripemd160 (sha256 key) = h
      then exec_bind (exec_bind (eval_checksig env OP_CHECKSIG ?s) check_stack_size) (eval_loop env 25) else Err SCRIPT_ERR_EQUALVERIFY)"
    using assms(2-4) len true
    by (simp add: eval_loop_step [OF parse(1)] eval_loop_step [OF parse(2) [simplified]] eval_loop_step [OF parse(3)]
        eval_loop_step [OF parse(4)] eval_loop_step [OF parse(5)] eval_step_runs eval_step_pushes script_limits assms(1)
        disabled_opcode_def eval_opcode_keyhash check_stack_size_small eval_init_def)
  define s where "s = ?s"
  have s: "ev_stack s = [key, sig]" "ev_altstack s = []" "ev_vfExec s = cond_new" "ev_pbegincodehash s = 0" "ev_checker s = c"
    by (simp_all add: s_def eval_init_def)
  have run: "eval_loop env 0 ?start = (if ripemd160 (sha256 key) = h
      then exec_bind (EvalChecksig env sig key s) (\<lambda>(ok, st'). Ok (st'\<lparr>ev_stack := [vch_bool ok], ev_opcode_pos := ev_opcode_pos st' + 1\<rparr>))
      else Err SCRIPT_ERR_EQUALVERIFY)"
    using EvalChecksig_frame [of env sig key s] len
    by (cases "EvalChecksig env sig key s")
      (auto simp: loop s_def [symmetric] eval_checksig_def need_def stacktop_def s check_stack_size_small eval_loop_end assms(2))
  have "EvalScript env [key, sig] execdata c =
    (if ripemd160 (sha256 key) = h
     then exec_bind (eval_catch (EvalChecksig env sig key s)) (\<lambda>(ok, st'). Ok ([vch_bool ok], ev_execdata st', ev_checker st'))
     else Err SCRIPT_ERR_EQUALVERIFY)"
    using EvalChecksig_frame [of env sig key s] len
    by (cases "EvalChecksig env sig key s")
      (auto simp: EvalScript_def run assms(2,3) script_limits s cond_new_def cond_empty_def)
  with s(4,5) show ?thesis by blast
qed

subsection \<open>The signature check\<close>

definition keyhash_authorised ::
  "secp256k1 \<Rightarrow> verification_flags \<Rightarrow> byte list \<Rightarrow> core_transaction \<Rightarrow> nat \<Rightarrow> i64 \<Rightarrow> byte list \<Rightarrow> byte list \<Rightarrow> bool" where
  "keyhash_authorised secp flags h tx i amount sig key \<longleftrightarrow>
     ripemd160 (sha256 key) = h \<and> length key \<le> 520 \<and> length sig \<le> 520 \<and> sig \<noteq> [] \<and>
     (flags_contains flags dersig_mask \<longrightarrow> IsValidSignatureEncoding sig) \<and>
     pubkey_IsValid (CPubKey key) \<and> 0 \<le>s amount \<and>
     pubkey_Verify secp (CPubKey key) (double_sha256 (bip143_message (keyhash_code h) tx i (ucast (last sig)) amount)) (butlast sig)"

lemma EvalChecksig_keyhash:
  assumes "unat (ck_nIn ck) < length (core_vin (ck_txTo ck))" "ck_mdb ck = FAIL" "\<And>d. ck_txdata ck = Some d \<Longrightarrow> precomputed (ck_txTo ck) d"
    and "ev_pbegincodehash st = 0"
  shows "EvalChecksig (script_env (plain_verify_env secp (to_core_flags flags) ck) WITNESS_V0 code) sig key st =
    (if sig \<noteq> [] \<and> flags_contains flags dersig_mask \<and> \<not> IsValidSignatureEncoding sig then Err SCRIPT_ERR_SIG_DER
     else Ok (sig \<noteq> [] \<and> pubkey_IsValid (CPubKey key) \<and> 0 \<le>s ck_amount ck \<and>
       pubkey_Verify secp (CPubKey key)
         (double_sha256 (bip143_message code (ck_txTo ck) (unat (ck_nIn ck)) (ucast (last sig)) (ck_amount ck))) (butlast sig), st))"
proof -
  have enc: "CheckSignatureEncoding secp sig (to_core_flags flags) =
      (if sig \<noteq> [] \<and> flags_contains flags dersig_mask \<and> \<not> IsValidSignatureEncoding sig then Some SCRIPT_ERR_SIG_DER else None)"
    "CheckPubKeyEncoding key (to_core_flags flags) WITNESS_V0 = None"
    by (simp_all add: CheckSignatureEncoding_def CheckPubKeyEncoding_def to_core_flags_set)
  have hash: "SignatureHash code (ck_txTo ck) (ck_nIn ck) ht (ck_amount ck) WITNESS_V0 (ck_txdata ck) None =
      Ok (double_sha256 (bip143_message code (ck_txTo ck) (unat (ck_nIn ck)) ht (ck_amount ck)), None)" for ht
    by (rule SignatureHash_witness_v0) (use assms in auto)
  have neg: "ck_amount ck <s 0 \<longleftrightarrow> \<not> 0 \<le>s ck_amount ck" by (simp add: word_sless_alt word_sle_eq not_le)
  have "plain_CheckECDSASignature secp ck sig key code WITNESS_V0 c =
      Ok (sig \<noteq> [] \<and> pubkey_IsValid (CPubKey key) \<and> 0 \<le>s ck_amount ck \<and>
        pubkey_Verify secp (CPubKey key)
         (double_sha256 (bip143_message code (ck_txTo ck) (unat (ck_nIn ck)) (ucast (last sig)) (ck_amount ck))) (butlast sig), c)" for c :: SigHashCache
    by (auto simp: plain_CheckECDSASignature_def neg hash assms(2))
  then show ?thesis
    by (simp add: EvalChecksig_def EvalChecksigPreTapscript_def script_env_def enc assms(4) plain_signature_checker_def
        to_core_flags_set)
qed

lemma witness_keyhash:
  assumes "length h = 20" "unat (ck_nIn ck) < length (core_vin (ck_txTo ck))" "ck_mdb ck = FAIL"
    "\<And>d. ck_txdata ck = Some d \<Longrightarrow> precomputed (ck_txTo ck) d"
  shows "(\<exists>c'. VerifyWitnessProgram (plain_verify_env secp (to_core_flags flags) ck) witness 0 h False c = Ok c') \<longleftrightarrow>
    (\<exists>sig key. witness = [sig, key] \<and> keyhash_authorised secp flags h (ck_txTo ck) (unat (ck_nIn ck)) (ck_amount ck) sig key)"
proof -
  let ?ve = "plain_verify_env secp (to_core_flags flags) ck" and ?code = "keyhash_code h"
  let ?env = "script_env ?ve WITNESS_V0 ?code"
  have code: "[OP_DUP, OP_HASH160] @ push_data h @ [OP_EQUALVERIFY, OP_CHECKSIG] = ?code"
    using assms(1) by (simp add: push_data_keyhash keyhash_code_def)
  have env: "env_script ?env = ?code" "env_sigversion ?env = WITNESS_V0" "\<not> fRequireMinimal ?env"
    by (simp_all add: script_env_def to_core_flags_set)
  have run: "(\<exists>c'. ExecuteWitnessScript ?env [sig, key] new_execdata c = Ok c') \<longleftrightarrow>
      keyhash_authorised secp flags h (ck_txTo ck) (unat (ck_nIn ck)) (ck_amount ck) sig key" for sig key
  proof -
    obtain st where st: "ev_pbegincodehash st = 0" and run: "EvalScript ?env [key, sig] new_execdata c =
      (if ripemd160 (sha256 key) = h
       then exec_bind (eval_catch (EvalChecksig ?env sig key st)) (\<lambda>(ok, st'). Ok ([vch_bool ok], ev_execdata st', ev_checker st'))
       else Err SCRIPT_ERR_EQUALVERIFY)"
      using eval_keyhash_code [OF assms(1) env, of c key sig new_execdata] by blast
    have cast: "CastToBool (vch_bool b) \<longleftrightarrow> b" for b
      by (cases b) (simp_all add: vch_bool_def vchTrue_def vchFalse_def)
    show ?thesis
      unfolding ExecuteWitnessScript_def run_witness_script_def env(2) Let_def
      by (auto simp: run EvalChecksig_keyhash [OF assms(2-4) st] cast keyhash_authorised_def script_limits simp del: verify_env_simps(5))
  qed
  have "length witness = 2 \<longleftrightarrow> (\<exists>sig key. witness = [sig, key])"
    by (auto simp: length_Suc_conv numeral_2_eq_2)
  then show ?thesis
    using assms(1) by (auto simp: run [symmetric] VerifyWitnessProgram_def verify_witness_v0_def code [simplified] simp del: verify_env_simps(5))
qed

subsection \<open>The whole check\<close>

lemma eval_base_empty: "eval_base ve [] stack c = Ok (stack, c)"
  by (simp add: eval_base_def EvalScript_def script_env_def eval_loop_end eval_init_def cond_new_def cond_empty_def script_limits)

lemma VerifyScript_keyhash:
  assumes "length h = 20" "unat (ck_nIn ck) < length (core_vin (ck_txTo ck))" "ck_mdb ck = FAIL"
    "\<And>d. ck_txdata ck = Some d \<Longrightarrow> precomputed (ck_txTo ck) d"
    and "flags_contains flags witness_mask \<or> flags_contains flags taproot_mask"
  shows "(\<exists>c'. VerifyScript (plain_verify_env secp (to_core_flags flags) ck) scriptSig (keyhash_program h) (Some witness) c = Ok c') \<longleftrightarrow>
    scriptSig = [] \<and> CastToBool h \<and>
    (\<exists>sig key. witness = [sig, key] \<and> keyhash_authorised secp flags h (ck_txTo ck) (unat (ck_nIn ck)) (ck_amount ck) sig key)"
proof -
  let ?ve = "plain_verify_env secp (to_core_flags flags) ck"
  note program = keyhash_program_parses [OF assms(1)]
  have flags: "flag_set (to_core_flags flags) SCRIPT_VERIFY_WITNESS" "flag_set (to_core_flags flags) SCRIPT_VERIFY_P2SH"
    "\<not> flag_set (to_core_flags flags) SCRIPT_VERIFY_SIGPUSHONLY" "\<not> flag_set (to_core_flags flags) SCRIPT_VERIFY_MINIMALDATA"
    "\<not> flag_set (to_core_flags flags) SCRIPT_VERIFY_CLEANSTACK"
    using assms(5) by (auto simp: to_core_flags_set)
  show ?thesis
  proof (cases "scriptSig = []")
    case True
    then have "(\<exists>c'. VerifyScript ?ve scriptSig (keyhash_program h) (Some witness) c = Ok c') \<longleftrightarrow>
        CastToBool h \<and> (\<exists>c'. VerifyWitnessProgram ?ve witness 0 h False c = Ok c')"
      by (auto simp: VerifyScript_def Let_def flags eval_base_empty eval_keyhash_program [OF assms(1)] verify_extensions_def
          exec_assert_def check_top_def verify_bare_witness_def program(1,2) verify_p2sh_def verify_end_def exec_bind_Ok
          simp del: verify_env_simps(5))
    also note witness_keyhash [OF assms(1-4), of secp flags witness c]
    finally show ?thesis using True by simp
  next
    case False
    then have "verify_extensions ?ve scriptSig (keyhash_program h) witness stackCopy x \<noteq> Ok c'" for stackCopy x c'
      by (cases x) (simp add: verify_extensions_def check_top_def verify_bare_witness_def flags program(1))
    then show ?thesis using False by (simp add: VerifyScript_def Let_def flags exec_bind_Ok split: prod.split)
  qed
qed

theorem core_interpreter_keyhash:
  assumes "length h = 20" "unat i < length (core_vin tx)" "length spent_outputs = length (core_vin tx)"
    and "flags_contains flags witness_mask \<or> flags_contains flags taproot_mask"
  shows "core_interpreter secp scriptSig (keyhash_program h) witness (to_core_flags flags) tx i amount spent_outputs = Return True \<longleftrightarrow>
    scriptSig = [] \<and> CastToBool h \<and>
    (\<exists>sig key. witness = [sig, key] \<and> keyhash_authorised secp flags h tx (unat i) amount sig key)"
proof -
  obtain d where d: "Init new_txdata tx spent_outputs False = Ok d" "precomputed tx d"
    using Init_precomputed [OF assms(3)] by blast
  let ?ck = "core_checker tx i amount d"
  have ok: "(\<exists>c. m = Ok c) \<longleftrightarrow> map_exec (\<lambda>_. ()) m = Ok ()" for m :: "SigHashCache exec"
    by (cases m) auto
  have "core_interpreter secp scriptSig (keyhash_program h) witness (to_core_flags flags) tx i amount spent_outputs = Return True \<longleftrightarrow>
      (\<exists>c. VerifyScript (cached_env secp (to_core_flags flags) ?ck) scriptSig (keyhash_program h) (Some witness) new_sighash_cache = Ok c)"
    by (simp add: core_interpreter_def core_outcome_def d(1) split: exec.split)
  also have "\<dots> \<longleftrightarrow> (\<exists>c. VerifyScript (plain_verify_env secp (to_core_flags flags) ?ck) scriptSig (keyhash_program h) (Some witness)
      new_sighash_cache = Ok c)"
    by (simp only: ok VerifyScript_uncached [of secp "to_core_flags flags" ?ck scriptSig "keyhash_program h" "Some witness" new_sighash_cache])
  also have "\<dots> \<longleftrightarrow> scriptSig = [] \<and> CastToBool h \<and>
      (\<exists>sig key. witness = [sig, key] \<and> keyhash_authorised secp flags h tx (unat i) amount sig key)"
    by (subst VerifyScript_keyhash) (use assms d(2) in \<open>simp_all add: core_checker_def\<close>)
  finally show ?thesis .
qed

text \<open>The check of the validation library on such an output.\<close>

theorem verify_script_keyhash:
  assumes "length h = 20" "input_index < length (tx_inputs tx)" "length prevouts = length (tx_inputs tx)"
    and "length (tx_inputs tx) < 2 ^ 32" "prevouts ! input_index = \<lparr>output_value = amount, output_script = keyhash_program h\<rparr>"
    and "flags_contains flags witness_mask \<or> flags_contains flags taproot_mask"
  shows "verify_script (core_interpreter secp) (keyhash_program h) amount tx input_index flags prevouts = script_valid \<longleftrightarrow>
    input_script (tx_inputs tx ! input_index) = [] \<and> CastToBool h \<and>
    (\<exists>sig key. input_witness (tx_inputs tx ! input_index) = [sig, key] \<and>
       keyhash_authorised secp flags h (to_core_transaction tx) input_index amount sig key)"
proof -
  let ?tx = "to_core_transaction tx" and ?in = "tx_inputs tx ! input_index"
  have i: "unat (of_nat input_index :: u32) = input_index" using assms(2,4) by (simp add: unat_of_nat take_bit_nat_eq_self)
  have "verify_script (core_interpreter secp) (keyhash_program h) amount tx input_index flags prevouts = script_valid \<longleftrightarrow>
      core_interpreter secp (input_script ?in) (keyhash_program h) (input_witness ?in) (to_core_flags flags) ?tx
        (of_nat input_index) amount (to_core_spent_outputs prevouts) = Return True"
    using assms(2-5)
    by (auto simp: verify_script_def Let_def to_core_transaction_def to_core_tx_input_def to_core_tx_output_def
        script_rejected_def script_failure_def split: call.split)
  then show ?thesis
    using core_interpreter_keyhash [OF assms(1), of "of_nat input_index" ?tx "to_core_spent_outputs prevouts" flags secp
        "input_script ?in" "input_witness ?in" amount] assms(2,3,6)
    by (simp add: i to_core_transaction_def to_core_spent_outputs_def)
qed

end
