(* ===== verification/Eval_Loop.thy ===== *)
theory Eval_Loop
  imports Eval_Script "HOL-Library.While_Combinator"
begin

text \<open>
  Termination of the interpreter's main loop. Here the loop is written with \<open>while_option\<close>, which gives
  \<open>None\<close> when a loop does not end: the condition \<open>pc < pend\<close>, the instruction read, the round. It always
  ends, and with the outcome of \<open>eval_loop\<close>.
\<close>

text \<open>The state of the loop is the position and the variables, or the outcome of an early exit.\<close>

definition loop_continues :: "'c eval_env \<Rightarrow> (nat \<times> 'c eval_state) exec \<Rightarrow> bool" where
  "loop_continues env x = (case x of Ok (pc, st) \<Rightarrow> pc < length (env_script env) | _ \<Rightarrow> False)"

definition loop_round :: "'c eval_env \<Rightarrow> (nat \<times> 'c eval_state) exec \<Rightarrow> (nat \<times> 'c eval_state) exec" where
  "loop_round env x = exec_bind x (\<lambda>(pc, st).
     case GetScriptOp (env_script env) pc of (ok, pc', opcode, data) \<Rightarrow>
       if \<not> ok then Err SCRIPT_ERR_BAD_OPCODE
       else exec_bind (eval_step env pc' opcode data st) (\<lambda>st. Ok (pc', st)))"

definition eval_while :: "'c eval_env \<Rightarrow> nat \<Rightarrow> 'c eval_state \<Rightarrow> (nat \<times> 'c eval_state) exec option" where
  "eval_while env pc st = while_option (loop_continues env) (loop_round env) (Ok (pc, st))"

lemma while_stops: "\<not> loop_continues env x \<Longrightarrow> while_option (loop_continues env) (loop_round env) x = Some x"
  by (subst while_option_unfold) simp

theorem eval_while_terminates:
  "\<exists>x. eval_while env pc st = Some x \<and> exec_bind x (\<lambda>(pc, st). Ok st) = eval_loop env pc st"
proof (induction env pc st rule: eval_loop.induct)
  case (1 env pc st)
  obtain ok pc' opcode data where g: "GetScriptOp (env_script env) pc = (ok, pc', opcode, data)" by (metis prod_cases4)
  show ?case
  proof (cases "pc < length (env_script env)")
    case True
    then have run: "eval_while env pc st = while_option (loop_continues env) (loop_round env) (loop_round env (Ok (pc, st)))"
      unfolding eval_while_def by (subst while_option_unfold) (simp add: loop_continues_def)
    show ?thesis
    proof (cases "ok \<and> (\<exists>s. eval_step env pc' opcode data st = Ok s)")
      case step: True
      then obtain s where s: "eval_step env pc' opcode data st = Ok s" by blast
      have "eval_while env pc st = eval_while env pc' s"
        unfolding run using step by (simp add: loop_round_def g s eval_while_def)
      with 1 [OF True g [symmetric] refl refl _ s] step show ?thesis
        by (simp add: eval_loop.simps [of env pc] True g s)
    next
      case False
      then have stop: "\<not> loop_continues env (loop_round env (Ok (pc, st)))"
        by (cases "eval_step env pc' opcode data st") (auto simp: loop_round_def g loop_continues_def)
      from False show ?thesis
        unfolding run while_stops [OF stop]
        by (cases "eval_step env pc' opcode data st") (auto simp: loop_round_def g eval_loop.simps [of env pc] True)
    qed
  next
    case False
    then show ?thesis
      by (simp add: eval_while_def while_stops loop_continues_def eval_loop.simps [of env pc])
  qed
qed

end
