(* ===== verification/Script_Samples.thy ===== *)
theory Script_Samples
  imports Samples Witness_Spend Eval_Loop
begin

text \<open>
  Inputs for the theorems about scripts: a signature library, a key and a signature in strict encoding,
  and transactions with one input. The sample library parses what it is given and accepts a signature
  when its two halves agree.
\<close>

definition sample_secp :: secp256k1 where
  "sample_secp =
     \<lparr>signature_parse_compact = (\<lambda>sig. (True, sig)), signature_normalize = (\<lambda>sig. (False, sig)),
      ecdsa_verify = (\<lambda>sig hash key. take 32 sig = drop 32 sig),
      ec_pubkey_parse = (\<lambda>key. Some key), xonly_pubkey_parse = (\<lambda>key. Some key),
      schnorrsig_verify = (\<lambda>sig hash key. take 32 sig = drop 32 sig),
      xonly_pubkey_tweak_add_check = (\<lambda>key parity internal tweak. key = internal)\<rparr>"

definition sample_key :: "byte list" where
  "sample_key = 2 # replicate 32 7"

definition sample_signature :: "byte list" where
  "sample_signature = [0x30, 0x06, 0x02, 0x01, 0x05, 0x02, 0x01, 0x05, 0x01]"

definition sample_keyhash :: "byte list" where
  "sample_keyhash = ripemd160 (sha256 sample_key)"

definition sample_witness_tx :: transaction where
  "sample_witness_tx = \<lparr>tx_version = 2, tx_inputs = [\<lparr>previous_output = Outpoint null_hash 0, input_script = [],
     input_sequence = 0, input_witness = [sample_signature, sample_key]\<rparr>],
     tx_outputs = [\<lparr>output_value = 1, output_script = []\<rparr>], tx_locktime = 0\<rparr>"

definition sample_checker :: TransactionSignatureChecker where
  "sample_checker = \<lparr>ck_txTo = to_core_transaction sample_witness_tx, ck_mdb = FAIL, ck_nIn = 0, ck_amount = 1,
     ck_txdata = None\<rparr>"

definition sample_env :: "SigHashCache eval_env" where
  "sample_env = script_env (cached_env sample_secp (to_core_flags known_mask) sample_checker) BASE [OP_DUP, OP_CHECKSIG]"

lemma sample_length_hash [simp]: "length sample_keyhash = 20"
  by (simp add: sample_keyhash_def)

lemma sample_core_tx [simp]:
  "length (core_vin (to_core_transaction sample_witness_tx)) = 1"
  "length (core_vout (to_core_transaction sample_witness_tx)) = 1"
  by (simp_all add: to_core_transaction_def sample_witness_tx_def)

lemma sample_flags: "flags_contains known_mask witness_mask" "flags_contains known_mask dersig_mask"
  by code_simp+

lemma sample_encoding: "IsValidSignatureEncoding sample_signature"
  by code_simp

lemma sample_verifies: "pubkey_Verify sample_secp (CPubKey sample_key) hash (butlast sample_signature)"
proof -
  have parse: "ecdsa_signature_parse_der_lax sample_secp (butlast sample_signature) =
      (True, replicate 31 0 @ [5] @ replicate 31 0 @ [5])"
    by code_simp
  have secp: "ec_pubkey_parse sample_secp k = Some k" "ecdsa_verify sample_secp sig m k \<longleftrightarrow> take 32 sig = drop 32 sig"
    "snd (signature_normalize sample_secp sig) = sig" for k sig m
    by (simp_all add: sample_secp_def)
  have "pubkey_IsValid (CPubKey sample_key)"
    by (simp add: sample_key_def CPubKey_def GetLen_def pubkey_IsValid_def pubkey_size_def)
  then show ?thesis by (simp add: pubkey_Verify_def parse secp)
qed

lemma sample_authorised: "keyhash_authorised sample_secp known_mask sample_keyhash tx i 1 sample_signature sample_key"
  by (simp add: keyhash_authorised_def sample_keyhash_def sample_encoding sample_verifies)
    (simp add: sample_key_def sample_signature_def CPubKey_def GetLen_def pubkey_IsValid_def pubkey_size_def word_sle_eq)

end
