(* ===== verification/Chain_Graph.thy ===== *)
theory Chain_Graph
  imports Header_Validation "HOL-Library.Monad_Syntax"
begin

text \<open>
  The block tree of \<^verbatim>\<open>src/src/bitcoin/chain_graph\<close>: headers linked to their parents, flags on each
  block, and the indexes kept over them (candidates, unlinked, failed and dirty blocks, the best header).

  A pointer to a node is its index in \<open>m_nodes\<close>. The hash index, a \<^verbatim>\<open>std::map\<close>, is an association list
  without duplicate keys. The loops that follow parents need not end on an arbitrary graph; they are
  partial functions, and \<^term>\<open>None\<close> is a loop that does not end. A failing allocation in \<open>add_header\<close> is not
  modelled.
\<close>

subsection \<open>Results\<close>

datatype graph_update_result = applied | duplicate_block | missing_parent | missing_block

datatype chain_graph_invariant =
    inv_ok
  | duplicate_hash
  | inv_missing_parent
  | height_mismatch
  | stale_candidate_index
  | stale_unlinked_index
  | stale_failed_index
  | stale_dirty_index
  | stale_hash_index
  | stale_best_header

record reorg_plan =
  disconnects :: "block_hash list"
  connects :: "block_hash list"

datatype reorg_plan_result = planned reorg_plan | plan_missing_block | ineligible_candidate

record active_chain =
  active_hashes :: "block_hash list"
  active_headers :: "block_header list"

subsection \<open>The graph\<close>

type_synonym chain_work = "byte list"

record graph_node =
  nd_hash :: block_hash
  nd_parent_hash :: block_hash
  nd_header :: block_header
  nd_height :: block_height
  nd_work :: chain_work
  nd_has_block_data :: bool
  nd_valid :: bool
  nd_failed :: bool
  nd_dirty :: bool

record block_index_graph =
  m_nodes :: "graph_node list"
  m_node_by_hash :: "(block_hash \<times> nat) list"
  m_candidates :: "block_hash list"
  m_unlinked :: "block_hash list"
  m_failed :: "block_hash list"
  m_dirty :: "block_hash list"
  m_has_best_header :: bool
  m_best_header :: block_hash

definition empty_graph :: block_index_graph where
  "empty_graph = \<lparr>m_nodes = [], m_node_by_hash = [], m_candidates = [], m_unlinked = [], m_failed = [], m_dirty = [],
     m_has_best_header = False, m_best_header = null_hash\<rparr>"

text \<open>The public view of a node has the same members.\<close>

type_synonym chain_graph_block = graph_node

definition block_for :: "graph_node \<Rightarrow> chain_graph_block" where
  "block_for source =
     \<lparr>nd_hash = nd_hash source, nd_parent_hash = nd_parent_hash source, nd_header = nd_header source,
      nd_height = nd_height source, nd_work = nd_work source, nd_has_block_data = nd_has_block_data source,
      nd_valid = nd_valid source, nd_failed = nd_failed source, nd_dirty = nd_dirty source\<rparr>"

definition is_genesis_parent :: "block_hash \<Rightarrow> bool" where
  "is_genesis_parent hash \<longleftrightarrow> \<not> hash_bool hash"

definition find_node :: "block_index_graph \<Rightarrow> block_hash \<Rightarrow> nat option" where
  "find_node g hash =
     (case map_of (m_node_by_hash g) hash of
        None \<Rightarrow> None
      | Some i \<Rightarrow>
          if i \<ge> length (m_nodes g) then None
          else if nd_hash (m_nodes g ! i) \<noteq> hash then None else Some i)"

subsection \<open>Following parents\<close>

partial_function (option) branch_failed :: "block_index_graph \<Rightarrow> nat \<Rightarrow> bool option" where
  "branch_failed g cursor =
     (let n = m_nodes g ! cursor in
      if nd_failed n then Some True
      else if is_genesis_parent (nd_parent_hash n) then Some False
      else (case find_node g (nd_parent_hash n) of
          None \<Rightarrow> Some True
        | Some parent \<Rightarrow> branch_failed g parent))"

partial_function (option) eligible_candidate :: "block_index_graph \<Rightarrow> nat \<Rightarrow> bool option" where
  "eligible_candidate g cursor =
     (let n = m_nodes g ! cursor in
      if nd_failed n \<or> \<not> nd_valid n \<or> \<not> nd_has_block_data n then Some False
      else if is_genesis_parent (nd_parent_hash n) then Some True
      else (case find_node g (nd_parent_hash n) of
          None \<Rightarrow> Some False
        | Some parent \<Rightarrow> eligible_candidate g parent))"

definition unlinked_candidate :: "block_index_graph \<Rightarrow> nat \<Rightarrow> bool option" where
  "unlinked_candidate g i =
     (if nd_valid (m_nodes g ! i) \<and> nd_has_block_data (m_nodes g ! i) then
        do { failed \<leftarrow> branch_failed g i;
             if failed then Some False
             else do { eligible \<leftarrow> eligible_candidate g i; Some (\<not> eligible) } }
      else Some False)"

partial_function (option) path_to_root :: "block_index_graph \<Rightarrow> nat \<Rightarrow> nat list option" where
  "path_to_root g cursor =
     (let n = m_nodes g ! cursor in
      if is_genesis_parent (nd_parent_hash n) then Some [cursor]
      else (case find_node g (nd_parent_hash n) of
          None \<Rightarrow> Some [cursor]
        | Some parent \<Rightarrow> do { rest \<leftarrow> path_to_root g parent; Some (cursor # rest) }))"

text \<open>The inner loop of \<open>invalidate\<close> and \<open>reconsider\<close>: does the block have this ancestor?\<close>

partial_function (option) has_ancestor :: "block_index_graph \<Rightarrow> block_hash \<Rightarrow> nat \<Rightarrow> bool option" where
  "has_ancestor g hash cursor =
     (let n = m_nodes g ! cursor in
      if is_genesis_parent (nd_parent_hash n) then Some False
      else (case find_node g (nd_parent_hash n) of
          None \<Rightarrow> Some False
        | Some parent \<Rightarrow>
            if nd_hash (m_nodes g ! parent) = hash then Some True else has_ancestor g hash parent))"

subsection \<open>Ordering\<close>

text \<open>The comparison of work, from the last byte to the first: is the left one greater?\<close>

fun work_greater_loop :: "chain_work \<Rightarrow> chain_work \<Rightarrow> nat \<Rightarrow> bool" where
  "work_greater_loop left right 0 = False"
| "work_greater_loop left right (Suc i) =
     (if left ! i \<noteq> right ! i then left ! i > right ! i else work_greater_loop left right i)"

definition work_greater :: "chain_work \<Rightarrow> chain_work \<Rightarrow> bool" where
  "work_greater left right = work_greater_loop left right 32"

definition better_tip :: "graph_node \<Rightarrow> graph_node \<Rightarrow> bool" where
  "better_tip left right =
     (if nd_work left \<noteq> nd_work right then work_greater (nd_work left) (nd_work right)
      else if nd_height left \<noteq> nd_height right then nd_height right <s nd_height left
      else nd_hash left < nd_hash right)"

text \<open>Sorting with a comparison: an insertion sort. Distinct blocks are never equivalent, so every sort agrees.\<close>

fun insert_by :: "('a \<Rightarrow> 'a \<Rightarrow> bool) \<Rightarrow> 'a \<Rightarrow> 'a list \<Rightarrow> 'a list" where
  "insert_by before x [] = [x]"
| "insert_by before x (y # ys) = (if before y x then y # insert_by before x ys else x # y # ys)"

definition sort_by :: "('a \<Rightarrow> 'a \<Rightarrow> bool) \<Rightarrow> 'a list \<Rightarrow> 'a list" where
  "sort_by before xs = foldr (insert_by before) xs []"

subsection \<open>The indexes\<close>

fun filter_loop :: "('a \<Rightarrow> bool option) \<Rightarrow> 'a list \<Rightarrow> 'a list option" where
  "filter_loop p [] = Some []"
| "filter_loop p (x # xs) =
     do { keep \<leftarrow> p x; rest \<leftarrow> filter_loop p xs; Some (if keep then x # rest else rest) }"

abbreviation node_indices :: "block_index_graph \<Rightarrow> nat list" where
  "node_indices g \<equiv> [0..<length (m_nodes g)]"

definition hashes_of :: "block_index_graph \<Rightarrow> nat list \<Rightarrow> block_hash list" where
  "hashes_of g nodes = map (\<lambda>i. nd_hash (m_nodes g ! i)) nodes"

definition recompute_candidates :: "block_index_graph \<Rightarrow> block_hash list option" where
  "recompute_candidates g =
     do { nodes \<leftarrow> filter_loop (eligible_candidate g) (node_indices g);
          Some (hashes_of g (sort_by (\<lambda>left right. better_tip (m_nodes g ! left) (m_nodes g ! right)) nodes)) }"

definition recompute_unlinked :: "block_index_graph \<Rightarrow> block_hash list option" where
  "recompute_unlinked g =
     do { nodes \<leftarrow> filter_loop (unlinked_candidate g) (node_indices g); Some (sort (hashes_of g nodes)) }"

definition recompute_failed :: "block_index_graph \<Rightarrow> block_hash list option" where
  "recompute_failed g =
     do { nodes \<leftarrow> filter_loop (branch_failed g) (node_indices g); Some (sort (hashes_of g nodes)) }"

definition recompute_dirty :: "block_index_graph \<Rightarrow> block_hash list" where
  "recompute_dirty g = sort (hashes_of g (filter (\<lambda>i. nd_dirty (m_nodes g ! i)) (node_indices g)))"

fun best_header_loop :: "block_index_graph \<Rightarrow> nat list \<Rightarrow> nat option \<Rightarrow> nat option option" where
  "best_header_loop g [] best = Some best"
| "best_header_loop g (i # is) best =
     do { failed \<leftarrow> branch_failed g i;
          best_header_loop g is
            (if failed then best
             else (case best of
                None \<Rightarrow> Some i
              | Some b \<Rightarrow> if better_tip (m_nodes g ! i) (m_nodes g ! b) then Some i else best)) }"

definition recompute_best_header :: "block_index_graph \<Rightarrow> chain_graph_block option option" where
  "recompute_best_header g =
     do { best \<leftarrow> best_header_loop g (node_indices g) None;
          Some (map_option (\<lambda>i. block_for (m_nodes g ! i)) best) }"

definition rebuild_indexes :: "block_index_graph \<Rightarrow> block_index_graph option" where
  "rebuild_indexes g =
     do { candidates \<leftarrow> recompute_candidates g;
          let g = g\<lparr>m_candidates := candidates\<rparr>;
          unlinked \<leftarrow> recompute_unlinked g;
          let g = g\<lparr>m_unlinked := unlinked\<rparr>;
          failed \<leftarrow> recompute_failed g;
          let g = g\<lparr>m_failed := failed\<rparr>;
          let g = g\<lparr>m_dirty := recompute_dirty g\<rparr>;
          best \<leftarrow> recompute_best_header g;
          Some (case best of
              Some block \<Rightarrow> g\<lparr>m_has_best_header := True, m_best_header := nd_hash block\<rparr>
            | None \<Rightarrow> g\<lparr>m_has_best_header := False, m_best_header := null_hash\<rparr>) }"

subsection \<open>Updates\<close>

definition emplace :: "'k \<Rightarrow> 'v \<Rightarrow> ('k \<times> 'v) list \<Rightarrow> ('k \<times> 'v) list" where
  "emplace k v m = (case map_of m k of None \<Rightarrow> m @ [(k, v)] | Some _ \<Rightarrow> m)"

definition update_node :: "nat \<Rightarrow> (graph_node \<Rightarrow> graph_node) \<Rightarrow> block_index_graph \<Rightarrow> block_index_graph" where
  "update_node i f g = g\<lparr>m_nodes := (m_nodes g)[i := f (m_nodes g ! i)]\<rparr>"

definition rebuilt :: "block_index_graph \<Rightarrow> (graph_update_result \<times> block_index_graph) option" where
  "rebuilt g = do { g \<leftarrow> rebuild_indexes g; Some (applied, g) }"

definition push_node :: "block_header \<Rightarrow> chain_work \<Rightarrow> block_height \<Rightarrow> block_index_graph \<Rightarrow> block_index_graph" where
  "push_node header work height g =
     g\<lparr>m_nodes := m_nodes g @
         [\<lparr>nd_hash = header_hash header, nd_parent_hash = previous_block_hash header, nd_header = header,
           nd_height = height, nd_work = work, nd_has_block_data = False, nd_valid = False, nd_failed = False,
           nd_dirty = True\<rparr>],
       m_node_by_hash := emplace (header_hash header) (length (m_nodes g)) (m_node_by_hash g)\<rparr>"

definition add_header ::
  "block_header \<Rightarrow> chain_work \<Rightarrow> block_index_graph \<Rightarrow> (graph_update_result \<times> block_index_graph) option" where
  "add_header header work g =
     (if find_node g (header_hash header) \<noteq> None then Some (duplicate_block, g)
      else if \<not> is_genesis_parent (previous_block_hash header) then
        (case find_node g (previous_block_hash header) of
           None \<Rightarrow> Some (missing_parent, g)
         | Some parent \<Rightarrow> rebuilt (push_node header work (nd_height (m_nodes g ! parent) + 1) g))
      else rebuilt (push_node header work 0 g))"

definition add_block_data :: "block_hash \<Rightarrow> block_index_graph \<Rightarrow> (graph_update_result \<times> block_index_graph) option" where
  "add_block_data hash g =
     (case find_node g hash of
        None \<Rightarrow> Some (missing_block, g)
      | Some i \<Rightarrow> rebuilt (update_node i (\<lambda>n. n\<lparr>nd_has_block_data := True, nd_dirty := True\<rparr>) g))"

definition mark_valid :: "block_hash \<Rightarrow> block_index_graph \<Rightarrow> (graph_update_result \<times> block_index_graph) option" where
  "mark_valid hash g =
     (case find_node g hash of
        None \<Rightarrow> Some (missing_block, g)
      | Some i \<Rightarrow> rebuilt (update_node i (\<lambda>n. n\<lparr>nd_valid := True, nd_dirty := True\<rparr>) g))"

fun invalidate_loop :: "block_hash \<Rightarrow> nat list \<Rightarrow> block_index_graph \<Rightarrow> block_index_graph option" where
  "invalidate_loop hash [] g = Some g"
| "invalidate_loop hash (i # is) g =
     do { descends \<leftarrow> has_ancestor g hash i;
          invalidate_loop hash is (if descends then update_node i (\<lambda>n. n\<lparr>nd_dirty := True\<rparr>) g else g) }"

definition invalidate :: "block_hash \<Rightarrow> block_index_graph \<Rightarrow> (graph_update_result \<times> block_index_graph) option" where
  "invalidate hash g =
     (case find_node g hash of
        None \<Rightarrow> Some (missing_block, g)
      | Some i \<Rightarrow>
          do { let g = update_node i (\<lambda>n. n\<lparr>nd_failed := True, nd_dirty := True\<rparr>) g;
               g \<leftarrow> invalidate_loop hash (node_indices g) g;
               rebuilt g })"

fun reconsider_loop :: "block_hash \<Rightarrow> nat list \<Rightarrow> block_index_graph \<Rightarrow> block_index_graph option" where
  "reconsider_loop hash [] g = Some g"
| "reconsider_loop hash (i # is) g =
     do { clear \<leftarrow> (if nd_hash (m_nodes g ! i) = hash then Some True else has_ancestor g hash i);
          reconsider_loop hash is
            (if clear then update_node i (\<lambda>n. n\<lparr>nd_failed := False, nd_dirty := True\<rparr>) g else g) }"

definition reconsider :: "block_hash \<Rightarrow> block_index_graph \<Rightarrow> (graph_update_result \<times> block_index_graph) option" where
  "reconsider hash g =
     (case find_node g hash of
        None \<Rightarrow> Some (missing_block, g)
      | Some i \<Rightarrow> do { g \<leftarrow> reconsider_loop hash (node_indices g) g; rebuilt g })"

definition mark_clean :: "block_hash \<Rightarrow> block_index_graph \<Rightarrow> (graph_update_result \<times> block_index_graph) option" where
  "mark_clean hash g =
     (case find_node g hash of
        None \<Rightarrow> Some (missing_block, g)
      | Some i \<Rightarrow> rebuilt (update_node i (\<lambda>n. n\<lparr>nd_dirty := False\<rparr>) g))"

subsection \<open>Queries\<close>

definition graph_find :: "block_index_graph \<Rightarrow> block_hash \<Rightarrow> chain_graph_block option" where
  "graph_find g hash = map_option (\<lambda>i. block_for (m_nodes g ! i)) (find_node g hash)"

definition best_header :: "block_index_graph \<Rightarrow> chain_graph_block option" where
  "best_header g = (if \<not> m_has_best_header g then None else graph_find g (m_best_header g))"

definition blocks :: "block_index_graph \<Rightarrow> chain_graph_block list" where
  "blocks g = sort_by (\<lambda>left right. nd_hash left < nd_hash right) (map block_for (m_nodes g))"

text \<open>Both lists of the active chain, tip first.\<close>

partial_function (option) active_loop ::
  "block_index_graph \<Rightarrow> nat option \<Rightarrow> (block_hash list \<times> block_header list) option" where
  "active_loop g cursor =
     (case cursor of
        None \<Rightarrow> Some ([], [])
      | Some i \<Rightarrow>
          let n = m_nodes g ! i in
          if is_genesis_parent (nd_parent_hash n) then Some ([nd_hash n], [nd_header n])
          else do { (hashes, headers) \<leftarrow> active_loop g (find_node g (nd_parent_hash n));
                    Some (nd_hash n # hashes, nd_header n # headers) })"

definition active :: "block_index_graph \<Rightarrow> active_chain option" where
  "active g =
     (if m_candidates g = [] then Some \<lparr>active_hashes = [], active_headers = []\<rparr>
      else do { (hashes, headers) \<leftarrow> active_loop g (find_node g (hd (m_candidates g)));
                Some \<lparr>active_hashes = rev hashes, active_headers = rev headers\<rparr> })"

definition plan_reorg_to :: "block_index_graph \<Rightarrow> block_hash \<Rightarrow> reorg_plan_result option" where
  "plan_reorg_to g target =
     (case find_node g target of
        None \<Rightarrow> Some plan_missing_block
      | Some target_node \<Rightarrow>
          do { eligible \<leftarrow> eligible_candidate g target_node;
               if \<not> eligible then Some ineligible_candidate
               else do { target_path \<leftarrow> path_to_root g target_node;
                 if m_candidates g = []
                 then Some (planned \<lparr>disconnects = [], connects = hashes_of g (rev target_path)\<rparr>)
                 else (case find_node g (hd (m_candidates g)) of
                     None \<Rightarrow> Some ineligible_candidate
                   | Some active_tip \<Rightarrow>
                       do { active_path \<leftarrow> path_to_root g active_tip;
                            case find (\<lambda>a. nd_hash (m_nodes g ! a) \<in> set (hashes_of g target_path)) active_path of
                              None \<Rightarrow> Some ineligible_candidate
                            | Some fork \<Rightarrow>
                                let differs = (\<lambda>a. nd_hash (m_nodes g ! a) \<noteq> nd_hash (m_nodes g ! fork)) in
                                Some (planned
                                  \<lparr>disconnects = hashes_of g (takeWhile differs active_path),
                                   connects = rev (hashes_of g (takeWhile differs target_path))\<rparr>) }) } })"

subsection \<open>The check of the indexes\<close>

fun check_nodes :: "block_index_graph \<Rightarrow> block_hash list \<Rightarrow> nat list \<Rightarrow> chain_graph_invariant" where
  "check_nodes g seen [] = inv_ok"
| "check_nodes g seen (i # is) =
     (let n = m_nodes g ! i in
      if nd_hash n \<in> set seen then duplicate_hash
      else if map_of (m_node_by_hash g) (nd_hash n) \<noteq> Some i then stale_hash_index
      else if is_genesis_parent (nd_parent_hash n) then
        (if nd_height n \<noteq> 0 then height_mismatch else check_nodes g (seen @ [nd_hash n]) is)
      else (case find_node g (nd_parent_hash n) of
          None \<Rightarrow> inv_missing_parent
        | Some parent \<Rightarrow>
            if nd_height n \<noteq> nd_height (m_nodes g ! parent) + 1 then height_mismatch
            else check_nodes g (seen @ [nd_hash n]) is))"

definition check_indexes :: "block_index_graph \<Rightarrow> chain_graph_invariant option" where
  "check_indexes g =
     do { candidates \<leftarrow> recompute_candidates g;
          if candidates \<noteq> m_candidates g then Some stale_candidate_index
          else do { unlinked \<leftarrow> recompute_unlinked g;
            if unlinked \<noteq> m_unlinked g then Some stale_unlinked_index
            else do { failed \<leftarrow> recompute_failed g;
              if failed \<noteq> m_failed g then Some stale_failed_index
              else if recompute_dirty g \<noteq> m_dirty g then Some stale_dirty_index
              else do { best \<leftarrow> recompute_best_header g;
                Some (if (best \<noteq> None) \<noteq> m_has_best_header g then stale_best_header
                  else if best \<noteq> None \<and> nd_hash (the best) \<noteq> m_best_header g then stale_best_header
                  else inv_ok) } } } }"

definition check_invariants :: "block_index_graph \<Rightarrow> chain_graph_invariant option" where
  "check_invariants g =
     (if length (m_node_by_hash g) \<noteq> length (m_nodes g) then Some stale_hash_index
      else
       (let nodes = check_nodes g [] (node_indices g) in
        if nodes \<noteq> inv_ok then Some nodes else check_indexes g))"

end
