(* ===== verification/Graph_Tree.thy ===== *)
theory Graph_Tree
  imports Chain_Graph
begin

text \<open>
  The tree behind a block index graph. In a graph built by its operations every parent precedes its
  children, so the loops that follow parents end, and the branch of a block, from the block to its root,
  says what each of them computes. The flags and the indexes do not matter for that.
\<close>

subsection \<open>Well-formed trees\<close>

definition node_ok :: "graph_node list \<Rightarrow> nat \<Rightarrow> bool" where
  "node_ok nodes i \<longleftrightarrow>
     (let n = nodes ! i in
      nd_hash n = header_hash (nd_header n) \<and> nd_parent_hash n = previous_block_hash (nd_header n) \<and> length (nd_work n) = 32 \<and>
      (if is_genesis_parent (nd_parent_hash n) then nd_height n = 0
       else \<exists>j<i. nd_hash (nodes ! j) = nd_parent_hash n \<and> nd_height n = nd_height (nodes ! j) + 1))"

definition tree_ok :: "block_index_graph \<Rightarrow> bool" where
  "tree_ok g \<longleftrightarrow>
     m_node_by_hash g = zip (map nd_hash (m_nodes g)) (node_indices g) \<and> distinct (map nd_hash (m_nodes g)) \<and>
     (\<forall>i<length (m_nodes g). node_ok (m_nodes g) i)"

lemma zip_indices: "(x, k) \<in> set (zip (map f xs) [0..<length xs]) \<longleftrightarrow> k < length xs \<and> f (xs ! k) = x"
proof
  assume "k < length xs \<and> f (xs ! k) = x"
  then show "(x, k) \<in> set (zip (map f xs) [0..<length xs])"
    by (intro in_set_zip [THEN iffD2] exI [of _ k]) simp
qed (auto simp: in_set_zip)

lemma find_node_iff:
  assumes "tree_ok g"
  shows "find_node g hash = Some i \<longleftrightarrow> i < length (m_nodes g) \<and> nd_hash (m_nodes g ! i) = hash"
proof -
  have K: "map_of (m_node_by_hash g) hash = Some k \<longleftrightarrow> k < length (m_nodes g) \<and> nd_hash (m_nodes g ! k) = hash" for k
    using assms by (simp add: tree_ok_def map_of_eq_Some_iff zip_indices)
  show ?thesis
  proof (cases "map_of (m_node_by_hash g) hash")
    case None
    with K [of i] show ?thesis by (simp add: find_node_def)
  next
    case (Some j)
    with K [of i] K [of j] show ?thesis by (auto simp: find_node_def)
  qed
qed

lemma node_okD: "tree_ok g \<Longrightarrow> i < length (m_nodes g) \<Longrightarrow> node_ok (m_nodes g) i"
  by (simp add: tree_ok_def)

lemma find_node_nth: "tree_ok g \<Longrightarrow> i < length (m_nodes g) \<Longrightarrow> find_node g (nd_hash (m_nodes g ! i)) = Some i"
  by (simp add: find_node_iff)

lemma find_node_None:
  assumes "tree_ok g"
  shows "find_node g hash = None \<longleftrightarrow> (\<forall>i<length (m_nodes g). nd_hash (m_nodes g ! i) \<noteq> hash)"
  using find_node_iff [OF assms, of hash] by (metis not_None_eq)

subsection \<open>Parents\<close>

definition parent_of :: "block_index_graph \<Rightarrow> nat \<Rightarrow> nat option" where
  "parent_of g i =
     (if is_genesis_parent (nd_parent_hash (m_nodes g ! i)) then None else find_node g (nd_parent_hash (m_nodes g ! i)))"

lemma parent_of_Some:
  assumes "tree_ok g" "i < length (m_nodes g)" "parent_of g i = Some j"
  shows "j < i" "j < length (m_nodes g)" "nd_hash (m_nodes g ! j) = nd_parent_hash (m_nodes g ! i)"
    "nd_height (m_nodes g ! i) = nd_height (m_nodes g ! j) + 1"
proof -
  have gen: "\<not> is_genesis_parent (nd_parent_hash (m_nodes g ! i))" and j: "find_node g (nd_parent_hash (m_nodes g ! i)) = Some j"
    using assms(3) by (auto simp: parent_of_def split: if_splits)
  obtain k where k: "k < i" "nd_hash (m_nodes g ! k) = nd_parent_hash (m_nodes g ! i)"
      "nd_height (m_nodes g ! i) = nd_height (m_nodes g ! k) + 1"
    using node_okD [OF assms(1,2)] gen unfolding node_ok_def Let_def by auto
  then have "k = j" using find_node_nth [OF assms(1), of k] assms(2) j by simp
  with k assms(2) show "j < i" "j < length (m_nodes g)" "nd_hash (m_nodes g ! j) = nd_parent_hash (m_nodes g ! i)"
    "nd_height (m_nodes g ! i) = nd_height (m_nodes g ! j) + 1" by auto
qed

lemma parent_of_None:
  assumes "tree_ok g" "i < length (m_nodes g)"
  shows "parent_of g i = None \<longleftrightarrow> is_genesis_parent (nd_parent_hash (m_nodes g ! i))"
proof (cases "is_genesis_parent (nd_parent_hash (m_nodes g ! i))")
  case False
  then obtain j where "j < i" "nd_hash (m_nodes g ! j) = nd_parent_hash (m_nodes g ! i)"
    using node_okD [OF assms] unfolding node_ok_def Let_def by auto
  then show ?thesis
    using find_node_nth [OF assms(1), of j] assms(2) False by (simp add: parent_of_def)
qed (simp add: parent_of_def)

lemma tree_induct [consumes 2, case_names node]:
  assumes "tree_ok g" "i < length (m_nodes g)"
    and "\<And>i. i < length (m_nodes g) \<Longrightarrow> (\<And>j. parent_of g i = Some j \<Longrightarrow> j < i \<and> j < length (m_nodes g) \<and> P j) \<Longrightarrow> P i"
  shows "P i"
  using assms(2)
proof (induction i rule: less_induct)
  case (less i)
  then show ?case using assms(3) [of i] parent_of_Some(1,2) [OF assms(1) less.prems] by blast
qed

subsection \<open>Branches\<close>

lemma path_to_root_parent:
  "path_to_root g i = (case parent_of g i of None \<Rightarrow> Some [i] | Some j \<Rightarrow> do { rest \<leftarrow> path_to_root g j; Some (i # rest) })"
  by (subst path_to_root.simps) (simp add: parent_of_def Let_def)

definition branch :: "block_index_graph \<Rightarrow> nat \<Rightarrow> nat list" where
  "branch g i = the (path_to_root g i)"

lemma path_to_root_branch: "tree_ok g \<Longrightarrow> i < length (m_nodes g) \<Longrightarrow> path_to_root g i = Some (branch g i)"
proof (induction i rule: tree_induct)
  case (node i)
  then obtain ps where "path_to_root g i = Some ps"
    by (cases "parent_of g i") (auto simp: path_to_root_parent [of g i])
  then show ?case by (simp add: branch_def)
qed

lemma branch_rec:
  assumes "tree_ok g" "i < length (m_nodes g)"
  shows "branch g i = i # (case parent_of g i of None \<Rightarrow> [] | Some j \<Rightarrow> branch g j)"
  using path_to_root_branch [OF assms] parent_of_Some(2) [OF assms] path_to_root_branch [OF assms(1)]
  by (simp add: path_to_root_parent [of g i] split: option.splits)

lemma branch_self: "tree_ok g \<Longrightarrow> i < length (m_nodes g) \<Longrightarrow> i \<in> set (branch g i)"
  by (simp add: branch_rec)

lemma branch_le:
  assumes "tree_ok g" "i < length (m_nodes g)"
  shows "a \<in> set (branch g i) \<Longrightarrow> a \<le> i"
  using assms
proof (induction i rule: tree_induct)
  case (node i)
  then show ?case using branch_rec [OF assms(1) node.hyps] by (fastforce split: option.splits)
qed

text \<open>The branch of an ancestor is the rest of the branch.\<close>

lemma branch_suffix:
  assumes "tree_ok g" "i < length (m_nodes g)" "a \<in> set (branch g i)"
  shows "\<exists>xs. branch g i = xs @ branch g a \<and> (\<forall>x\<in>set xs. a < x)"
  using assms
proof (induction i rule: tree_induct)
  case (node i)
  show ?case
  proof (cases "a = i")
    case True
    then show ?thesis by (intro exI [of _ "[]"]) simp
  next
    case False
    with node.prems branch_rec [OF assms(1) node.hyps] obtain j where j: "parent_of g i = Some j" "a \<in> set (branch g j)"
      by (auto split: option.splits)
    from node.IH [OF j(1)] j(2) obtain xs where xs: "branch g j = xs @ branch g a" "\<forall>x\<in>set xs. a < x" by blast
    have "a < i" using branch_le [OF assms(1) _ j(2)] node.IH [OF j(1)] by auto
    with xs show ?thesis
      using branch_rec [OF assms(1) node.hyps] j(1) by (intro exI [of _ "i # xs"]) simp
  qed
qed

lemma branch_headers:
  assumes "tree_ok g" "i < length (m_nodes g)"
  shows "contiguous (rev (map (\<lambda>a. nd_header (m_nodes g ! a)) (branch g i)))"
    and "is_genesis_parent (nd_parent_hash (m_nodes g ! last (branch g i)))"
    and "branch g i \<noteq> []"
    and "nd_height (m_nodes g ! i) = of_nat (length (branch g i) - 1)"
    and "set (branch g i) \<subseteq> {..<length (m_nodes g)}"
proof -
  let ?P = "\<lambda>i. contiguous (rev (map (\<lambda>a. nd_header (m_nodes g ! a)) (branch g i))) \<and>
    is_genesis_parent (nd_parent_hash (m_nodes g ! last (branch g i))) \<and> branch g i \<noteq> [] \<and> hd (branch g i) = i \<and>
    nd_height (m_nodes g ! i) = of_nat (length (branch g i) - 1) \<and> set (branch g i) \<subseteq> {..<length (m_nodes g)}"
  have "?P i" using assms
  proof (induction i rule: tree_induct)
    case (node i)
    have ok: "nd_hash (m_nodes g ! k) = header_hash (nd_header (m_nodes g ! k))"
        "nd_parent_hash (m_nodes g ! k) = previous_block_hash (nd_header (m_nodes g ! k))" if "k < length (m_nodes g)" for k
      using assms(1) that by (simp_all add: tree_ok_def node_ok_def Let_def)
    show ?case
    proof (cases "parent_of g i")
      case None
      then have "nd_height (m_nodes g ! i) = 0"
        using assms(1) node.hyps parent_of_None [OF assms(1) node.hyps] by (simp add: tree_ok_def node_ok_def Let_def)
      with None show ?thesis
        using branch_rec [OF assms(1) node.hyps] parent_of_None [OF assms(1) node.hyps] node.hyps by simp
    next
      case (Some j)
      note IH = node.IH [OF Some]
      have rec: "branch g i = i # branch g j" using branch_rec [OF assms(1) node.hyps] Some by simp
      have "previous_block_hash (nd_header (m_nodes g ! i)) = header_hash (nd_header (m_nodes g ! j))"
        using parent_of_Some(3) [OF assms(1) node.hyps Some] ok node.hyps IH by simp
      moreover have "last (rev (map (\<lambda>a. nd_header (m_nodes g ! a)) (branch g j))) = nd_header (m_nodes g ! j)"
        using IH by (simp add: last_rev hd_map)
      moreover have "of_nat (length (branch g i) - 1) = of_nat (length (branch g j) - 1) + (1 :: i32)"
        using IH by (cases "branch g j") (simp_all add: rec)
      ultimately show ?thesis
        using IH node.hyps parent_of_Some(4) [OF assms(1) node.hyps Some] by (simp add: rec contiguous_snoc)
    qed
  qed
  then show "contiguous (rev (map (\<lambda>a. nd_header (m_nodes g ! a)) (branch g i)))"
    "is_genesis_parent (nd_parent_hash (m_nodes g ! last (branch g i)))" "branch g i \<noteq> []"
    "nd_height (m_nodes g ! i) = of_nat (length (branch g i) - 1)" "set (branch g i) \<subseteq> {..<length (m_nodes g)}" by blast+
qed

subsection \<open>What the loops compute\<close>

definition failed_branch :: "block_index_graph \<Rightarrow> nat \<Rightarrow> bool" where
  "failed_branch g i \<longleftrightarrow> (\<exists>a\<in>set (branch g i). nd_failed (m_nodes g ! a))"

definition usable_branch :: "block_index_graph \<Rightarrow> nat \<Rightarrow> bool" where
  "usable_branch g i \<longleftrightarrow>
     (\<forall>a\<in>set (branch g i). \<not> nd_failed (m_nodes g ! a) \<and> nd_valid (m_nodes g ! a) \<and> nd_has_block_data (m_nodes g ! a))"

lemma parent_cases:
  assumes "tree_ok g" "i < length (m_nodes g)"
  obtains "parent_of g i = None" "is_genesis_parent (nd_parent_hash (m_nodes g ! i))" "branch g i = [i]"
  | j where "parent_of g i = Some j" "\<not> is_genesis_parent (nd_parent_hash (m_nodes g ! i))"
      "find_node g (nd_parent_hash (m_nodes g ! i)) = Some j" "branch g i = i # branch g j"
  using assms parent_of_None [OF assms] branch_rec [OF assms]
  by (cases "parent_of g i") (auto simp: parent_of_def split: if_splits)

lemma branch_failed_eq:
  assumes "tree_ok g" "i < length (m_nodes g)"
  shows "branch_failed g i = Some (failed_branch g i)"
  using assms
proof (induction i rule: tree_induct)
  case (node i)
  then show ?case
    by (cases rule: parent_cases [OF assms(1) node.hyps]) (auto simp: branch_failed.simps [of g i] Let_def failed_branch_def)
qed
lemma eligible_candidate_eq:
  assumes "tree_ok g" "i < length (m_nodes g)"
  shows "eligible_candidate g i = Some (usable_branch g i)"
  using assms
proof (induction i rule: tree_induct)
  case (node i)
  then show ?case
    by (cases rule: parent_cases [OF assms(1) node.hyps]) (auto simp: eligible_candidate.simps [of g i] Let_def usable_branch_def)
qed
lemma has_ancestor_eq:
  assumes "tree_ok g" "i < length (m_nodes g)" "k < length (m_nodes g)"
  shows "has_ancestor g (nd_hash (m_nodes g ! k)) i = Some (k \<noteq> i \<and> k \<in> set (branch g i))"
  using assms(1,2)
proof (induction i rule: tree_induct)
  case (node i)
  show ?case
  proof (cases rule: parent_cases [OF assms(1) node.hyps])
    case 1
    then show ?thesis by (subst has_ancestor.simps) (simp add: Let_def)
  next
    case (2 j)
    note IH = node.IH [OF 2(1)]
    have eq: "nd_hash (m_nodes g ! j) = nd_hash (m_nodes g ! k) \<longleftrightarrow> j = k"
      using find_node_nth [OF assms(1), of j] find_node_nth [OF assms(1,3)] IH by (metis option.inject)
    have ne: "k \<in> set (branch g j) \<Longrightarrow> k \<noteq> i" using branch_le [OF assms(1), of j k] IH by linarith
    have "has_ancestor g (nd_hash (m_nodes g ! k)) i =
        (if j = k then Some True else has_ancestor g (nd_hash (m_nodes g ! k)) j)"
      using 2 by (subst has_ancestor.simps) (simp add: Let_def eq)
    then show ?thesis
      using IH ne 2(4) branch_self [OF assms(1), of j] by (cases "j = k") auto
  qed
qed

lemma active_loop_eq:
  assumes "tree_ok g" "i < length (m_nodes g)"
  shows "active_loop g (Some i) = Some (hashes_of g (branch g i), map (\<lambda>a. nd_header (m_nodes g ! a)) (branch g i))"
  using assms
proof (induction i rule: tree_induct)
  case (node i)
  then show ?case
    by (cases rule: parent_cases [OF assms(1) node.hyps]) (auto simp: active_loop.simps [of g "Some i"] Let_def hashes_of_def)
qed

subsection \<open>Graphs on the same tree\<close>

definition skeleton :: "graph_node \<Rightarrow> block_hash \<times> block_hash \<times> block_header \<times> block_height \<times> chain_work" where
  "skeleton n = (nd_hash n, nd_parent_hash n, nd_header n, nd_height n, nd_work n)"

definition same_tree :: "block_index_graph \<Rightarrow> block_index_graph \<Rightarrow> bool" where
  "same_tree g g' \<longleftrightarrow> m_node_by_hash g' = m_node_by_hash g \<and> map skeleton (m_nodes g') = map skeleton (m_nodes g)"

lemma same_tree_refl [simp]: "same_tree g g" by (simp add: same_tree_def)

lemma same_tree_trans: "same_tree g g' \<Longrightarrow> same_tree g' g'' \<Longrightarrow> same_tree g g''" by (simp add: same_tree_def)

lemma same_tree_nth:
  assumes "same_tree g g'"
  shows "length (m_nodes g') = length (m_nodes g)"
    and "i < length (m_nodes g) \<Longrightarrow> nd_hash (m_nodes g' ! i) = nd_hash (m_nodes g ! i)"
    and "i < length (m_nodes g) \<Longrightarrow> nd_parent_hash (m_nodes g' ! i) = nd_parent_hash (m_nodes g ! i)"
    and "i < length (m_nodes g) \<Longrightarrow> nd_header (m_nodes g' ! i) = nd_header (m_nodes g ! i)"
    and "i < length (m_nodes g) \<Longrightarrow> nd_height (m_nodes g' ! i) = nd_height (m_nodes g ! i)"
    and "i < length (m_nodes g) \<Longrightarrow> nd_work (m_nodes g' ! i) = nd_work (m_nodes g ! i)"
proof -
  show len: "length (m_nodes g') = length (m_nodes g)"
    using assms by (auto simp: same_tree_def dest: map_eq_imp_length_eq)
  have "skeleton (m_nodes g' ! i) = skeleton (m_nodes g ! i)" if "i < length (m_nodes g)" for i
    using assms that len by (simp add: same_tree_def list_eq_iff_nth_eq)
  then show "i < length (m_nodes g) \<Longrightarrow> nd_hash (m_nodes g' ! i) = nd_hash (m_nodes g ! i)"
    "i < length (m_nodes g) \<Longrightarrow> nd_parent_hash (m_nodes g' ! i) = nd_parent_hash (m_nodes g ! i)"
    "i < length (m_nodes g) \<Longrightarrow> nd_header (m_nodes g' ! i) = nd_header (m_nodes g ! i)"
    "i < length (m_nodes g) \<Longrightarrow> nd_height (m_nodes g' ! i) = nd_height (m_nodes g ! i)"
    "i < length (m_nodes g) \<Longrightarrow> nd_work (m_nodes g' ! i) = nd_work (m_nodes g ! i)"
    by (simp_all add: skeleton_def)
qed

lemma same_tree_hashes: "same_tree g g' \<Longrightarrow> map nd_hash (m_nodes g') = map nd_hash (m_nodes g)"
  by (rule nth_equalityI) (simp_all add: same_tree_nth)

lemma same_tree_ok:
  assumes "same_tree g g'" "tree_ok g"
  shows "tree_ok g'"
proof -
  have "node_ok (m_nodes g') i" if "i < length (m_nodes g)" for i
    using node_okD [OF assms(2) that] that unfolding node_ok_def Let_def
    by (auto simp: same_tree_nth [OF assms(1)] split: if_splits)
  then show ?thesis
    using assms by (simp add: tree_ok_def same_tree_hashes same_tree_nth(1) [OF assms(1)]) (simp add: same_tree_def)
qed

lemma same_tree_branch:
  assumes "same_tree g g'" "tree_ok g" "i < length (m_nodes g)"
  shows "branch g' i = branch g i"
  using assms(2,3)
proof (induction i rule: tree_induct)
  case (node i)
  note ok = same_tree_ok [OF assms(1,2)]
  have "m_node_by_hash g' = m_node_by_hash g" using assms(1) by (simp add: same_tree_def)
  then have "find_node g' h = find_node g h" for h
    by (simp add: find_node_def same_tree_nth [OF assms(1)] split: option.split)
  then have parent: "parent_of g' i = parent_of g i"
    using node.hyps by (simp add: parent_of_def same_tree_nth [OF assms(1)])
  have "branch g' i = i # (case parent_of g i of None \<Rightarrow> [] | Some j \<Rightarrow> branch g' j)"
    using branch_rec [OF ok, of i] node.hyps by (simp add: same_tree_nth(1) [OF assms(1)] parent)
  then show ?case
    using node.IH branch_rec [OF assms(2) node.hyps] by (cases "parent_of g i") simp_all
qed

lemma same_tree_update:
  assumes "i < length (m_nodes g)" "\<And>n. skeleton (f n) = skeleton n"
  shows "same_tree g (update_node i f g)"
  using assms by (auto simp: same_tree_def update_node_def map_update intro!: list_update_same_conv [THEN iffD2])

end
