(* ===== verification/Graph_Index.thy ===== *)
theory Graph_Index
  imports Graph_Tree
begin

text \<open>
  The indexes of a block index graph and the operations that change it. On a well-formed tree every
  index can be recomputed, the operations return, and the graph they leave passes \<open>check_invariants\<close>.
\<close>

subsection \<open>Recomputing the indexes\<close>

lemma filter_loop_eq: "(\<And>x. x \<in> set xs \<Longrightarrow> p x = Some (q x)) \<Longrightarrow> filter_loop p xs = Some (filter q xs)"
  by (induction xs) auto

definition unlinked_branch :: "block_index_graph \<Rightarrow> nat \<Rightarrow> bool" where
  "unlinked_branch g i \<longleftrightarrow> nd_valid (m_nodes g ! i) \<and> nd_has_block_data (m_nodes g ! i) \<and> \<not> failed_branch g i \<and> \<not> usable_branch g i"

definition tip_before :: "block_index_graph \<Rightarrow> nat \<Rightarrow> nat \<Rightarrow> bool" where
  "tip_before g left right = better_tip (m_nodes g ! left) (m_nodes g ! right)"

definition best_fold :: "block_index_graph \<Rightarrow> nat list \<Rightarrow> nat option \<Rightarrow> nat option" where
  "best_fold g = fold (\<lambda>i best. case best of None \<Rightarrow> Some i | Some b \<Rightarrow> if tip_before g i b then Some i else best)"

lemma best_header_loop_eq:
  assumes "tree_ok g" "\<forall>i\<in>set is. i < length (m_nodes g)"
  shows "best_header_loop g is best = Some (best_fold g (filter (\<lambda>i. \<not> failed_branch g i) is) best)"
  using assms(2)
  by (induction "is" arbitrary: best)
    (simp_all add: best_fold_def branch_failed_eq [OF assms(1)] tip_before_def cong: option.case_cong if_cong)

lemma recompute_eq:
  assumes "tree_ok g"
  shows "recompute_candidates g = Some (hashes_of g (sort_by (tip_before g) (filter (usable_branch g) (node_indices g))))"
    and "recompute_unlinked g = Some (sort (hashes_of g (filter (unlinked_branch g) (node_indices g))))"
    and "recompute_failed g = Some (sort (hashes_of g (filter (failed_branch g) (node_indices g))))"
    and "recompute_best_header g =
      Some (map_option (\<lambda>i. block_for (m_nodes g ! i)) (best_fold g (filter (\<lambda>i. \<not> failed_branch g i) (node_indices g)) None))"
proof -
  have unlinked: "unlinked_candidate g i = Some (unlinked_branch g i)" if "i < length (m_nodes g)" for i
    using that by (auto simp: unlinked_candidate_def branch_failed_eq [OF assms] eligible_candidate_eq [OF assms] unlinked_branch_def)
  have loops: "filter_loop (eligible_candidate g) (node_indices g) = Some (filter (usable_branch g) (node_indices g))"
    "filter_loop (unlinked_candidate g) (node_indices g) = Some (filter (unlinked_branch g) (node_indices g))"
    "filter_loop (branch_failed g) (node_indices g) = Some (filter (failed_branch g) (node_indices g))"
    by (rule filter_loop_eq; simp add: eligible_candidate_eq [OF assms] unlinked branch_failed_eq [OF assms])+
  show "recompute_candidates g = Some (hashes_of g (sort_by (tip_before g) (filter (usable_branch g) (node_indices g))))"
    by (simp add: recompute_candidates_def loops tip_before_def [abs_def])
  show "recompute_unlinked g = Some (sort (hashes_of g (filter (unlinked_branch g) (node_indices g))))"
    "recompute_failed g = Some (sort (hashes_of g (filter (failed_branch g) (node_indices g))))"
    by (simp_all add: recompute_unlinked_def recompute_failed_def loops)
  show "recompute_best_header g =
      Some (map_option (\<lambda>i. block_for (m_nodes g ! i)) (best_fold g (filter (\<lambda>i. \<not> failed_branch g i) (node_indices g)) None))"
    by (simp add: recompute_best_header_def best_header_loop_eq [OF assms])
qed

text \<open>The indexes depend on the nodes and the hash index only.\<close>

lemma recompute_frame:
  assumes "tree_ok g" "m_nodes g' = m_nodes g" "m_node_by_hash g' = m_node_by_hash g"
  shows "tree_ok g'" "recompute_candidates g' = recompute_candidates g" "recompute_unlinked g' = recompute_unlinked g"
    "recompute_failed g' = recompute_failed g" "recompute_dirty g' = recompute_dirty g"
    "recompute_best_header g' = recompute_best_header g"
proof -
  show ok: "tree_ok g'" using assms by (simp add: tree_ok_def)
  have st: "same_tree g g'" using assms by (simp add: same_tree_def)
  have b: "failed_branch g' i = failed_branch g i" "usable_branch g' i = usable_branch g i" "unlinked_branch g' i = unlinked_branch g i"
    if "i < length (m_nodes g)" for i
    using that assms(2) by (simp_all add: failed_branch_def usable_branch_def unlinked_branch_def same_tree_branch [OF st assms(1)])
  have f: "filter (failed_branch g') (node_indices g) = filter (failed_branch g) (node_indices g)"
    "filter (usable_branch g') (node_indices g) = filter (usable_branch g) (node_indices g)"
    "filter (unlinked_branch g') (node_indices g) = filter (unlinked_branch g) (node_indices g)"
    "filter (\<lambda>i. \<not> failed_branch g' i) (node_indices g) = filter (\<lambda>i. \<not> failed_branch g i) (node_indices g)"
    by (auto intro!: filter_cong simp: b)
  have tip: "tip_before g' = tip_before g" using assms(2) by (simp add: fun_eq_iff tip_before_def)
  have best: "best_fold g' = best_fold g" unfolding best_fold_def tip by (rule refl)
  have h: "hashes_of g' = hashes_of g" using assms(2) by (simp add: fun_eq_iff hashes_of_def)
  show "recompute_candidates g' = recompute_candidates g" "recompute_unlinked g' = recompute_unlinked g"
    "recompute_failed g' = recompute_failed g" "recompute_best_header g' = recompute_best_header g"
    using recompute_eq [OF ok] recompute_eq [OF assms(1)] by (simp_all add: assms(2) f h tip best)
  show "recompute_dirty g' = recompute_dirty g" by (simp add: recompute_dirty_def assms(2) h)
qed

definition graph_ok :: "block_index_graph \<Rightarrow> bool" where
  "graph_ok g \<longleftrightarrow> tree_ok g \<and>
     recompute_candidates g = Some (m_candidates g) \<and> recompute_unlinked g = Some (m_unlinked g) \<and>
     recompute_failed g = Some (m_failed g) \<and> recompute_dirty g = m_dirty g \<and>
     (\<exists>best. recompute_best_header g = Some best \<and> m_has_best_header g = (best \<noteq> None) \<and>
        m_best_header g = (case best of Some block \<Rightarrow> nd_hash block | None \<Rightarrow> null_hash))"

lemma rebuild_indexes_ok:
  assumes "tree_ok g"
  shows "\<exists>g'. rebuild_indexes g = Some g' \<and> graph_ok g' \<and> m_nodes g' = m_nodes g \<and> m_node_by_hash g' = m_node_by_hash g"
proof -
  obtain c u f b where r: "recompute_candidates g = Some c" "recompute_unlinked g = Some u" "recompute_failed g = Some f"
      "recompute_best_header g = Some b"
    using recompute_eq [OF assms] by blast
  let ?c = "g\<lparr>m_candidates := c\<rparr>"
  let ?u = "?c\<lparr>m_unlinked := u\<rparr>"
  let ?f = "?u\<lparr>m_failed := f\<rparr>"
  let ?d = "?f\<lparr>m_dirty := recompute_dirty ?f\<rparr>"
  let ?b = "?d\<lparr>m_has_best_header := (b \<noteq> None), m_best_header := (case b of Some block \<Rightarrow> nd_hash block | None \<Rightarrow> null_hash)\<rparr>"
  note frame = recompute_frame [OF assms]
  have s: "recompute_unlinked ?c = Some u" "recompute_failed ?u = Some f" "recompute_best_header ?d = Some b"
    using frame(3) [of ?c] frame(4) [of ?u] frame(6) [of ?d] r by simp_all
  have "rebuild_indexes g = Some ?b"
    by (simp only: rebuild_indexes_def Let_def r s Option.bind.simps) (simp split: option.split)
  moreover have "graph_ok ?b"
    using frame(1) [of ?b] frame(2) [of ?b] frame(3) [of ?b] frame(4) [of ?b] frame(5) [of ?b] frame(5) [of ?f] frame(6) [of ?b] r
    by (simp add: graph_ok_def)
  ultimately show ?thesis by simp
qed

subsection \<open>The check\<close>

lemma check_nodes_ok:
  assumes "tree_ok g" "k \<le> length (m_nodes g)"
  shows "check_nodes g (map nd_hash (take k (m_nodes g))) [k..<length (m_nodes g)] = inv_ok"
  using assms(2)
proof (induction k rule: inc_induct)
  case (step k)
  let ?n = "m_nodes g ! k"
  have k: "[k..<length (m_nodes g)] = k # [Suc k..<length (m_nodes g)]" using step.hyps by (simp add: upt_conv_Cons)
  have take: "map nd_hash (take (Suc k) (m_nodes g)) = map nd_hash (take k (m_nodes g)) @ [nd_hash ?n]"
    using step.hyps by (simp add: take_Suc_conv_app_nth)
  have "distinct (map nd_hash (take (Suc k) (m_nodes g)))"
    using assms(1) distinct_take [of "map nd_hash (m_nodes g)" "Suc k"] by (simp add: tree_ok_def take_map)
  then have new: "nd_hash ?n \<notin> set (map nd_hash (take k (m_nodes g)))" by (simp add: take)
  have index: "map_of (m_node_by_hash g) (nd_hash ?n) = Some k"
    using find_node_nth [OF assms(1) step.hyps(2)] by (auto simp: find_node_def split: option.splits if_splits)
  show ?case
  proof (cases rule: parent_cases [OF assms(1) step.hyps(2)])
    case 1
    then have "nd_height ?n = 0" using node_okD [OF assms(1) step.hyps(2)] by (simp add: node_ok_def Let_def)
    with 1 step.IH new index show ?thesis by (simp add: k take [symmetric] Let_def)
  next
    case (2 j)
    then have "nd_height ?n = nd_height (m_nodes g ! j) + 1" using parent_of_Some(4) [OF assms(1) step.hyps(2)] by blast
    with 2 step.IH new index show ?thesis by (simp add: k take [symmetric] Let_def)
  qed
qed simp

theorem graph_ok_check:
  assumes "graph_ok g"
  shows "check_invariants g = Some inv_ok"
proof -
  have tree: "tree_ok g" using assms by (simp add: graph_ok_def)
  then have "length (m_node_by_hash g) = length (m_nodes g)" by (simp add: tree_ok_def)
  moreover have "check_indexes g = Some inv_ok"
    using assms by (auto simp: check_indexes_def graph_ok_def split: option.splits)
  ultimately show ?thesis
    using check_nodes_ok [OF tree, of 0] by (simp add: check_invariants_def)
qed

subsection \<open>The operations\<close>

lemma rebuilt_ok:
  "tree_ok g \<Longrightarrow> \<exists>g'. rebuilt g = Some (applied, g') \<and> graph_ok g' \<and> m_nodes g' = m_nodes g \<and> m_node_by_hash g' = m_node_by_hash g"
  using rebuild_indexes_ok [of g] by (auto simp: rebuilt_def)

lemma node_ok_append: "i < length nodes \<Longrightarrow> node_ok (nodes @ others) i \<longleftrightarrow> node_ok nodes i"
  unfolding node_ok_def Let_def by (simp add: nth_append cong: conj_cong)

lemma push_node_ok:
  assumes "tree_ok g" "find_node g (header_hash header) = None" "length work = 32"
    and "if is_genesis_parent (previous_block_hash header) then height = 0
      else \<exists>p. find_node g (previous_block_hash header) = Some p \<and> height = nd_height (m_nodes g ! p) + 1"
  shows "tree_ok (push_node header work height g)"
proof -
  let ?n = "length (m_nodes g)" and ?g = "push_node header work height g"
  have fresh: "header_hash header \<notin> nd_hash ` set (m_nodes g)"
    using assms(2) find_node_None [OF assms(1), of "header_hash header"] by (auto simp: in_set_conv_nth)
  then have "map_of (m_node_by_hash g) (header_hash header) = None"
    using assms(1) by (simp add: tree_ok_def map_of_zip_is_None)
  then have index: "m_node_by_hash ?g = m_node_by_hash g @ [(header_hash header, ?n)]"
    by (simp add: push_node_def emplace_def)
  have old: "node_ok (m_nodes ?g) i" if "i < ?n" for i
    using node_okD [OF assms(1) that] that by (simp add: push_node_def node_ok_append)
  have new: "node_ok (m_nodes ?g) ?n"
  proof (cases "is_genesis_parent (previous_block_hash header)")
    case False
    then obtain p where "find_node g (previous_block_hash header) = Some p" "height = nd_height (m_nodes g ! p) + 1"
      using assms(4) by auto
    then have "p < ?n \<and> nd_hash (m_nodes g ! p) = previous_block_hash header \<and> height = nd_height (m_nodes g ! p) + 1"
      using find_node_iff [OF assms(1), of "previous_block_hash header" p] by simp
    then show ?thesis
      using assms(3) False unfolding node_ok_def Let_def push_node_def by (simp add: nth_append) blast
  qed (use assms(3,4) in \<open>simp add: node_ok_def Let_def push_node_def\<close>)
  have "m_node_by_hash ?g = zip (map nd_hash (m_nodes ?g)) (node_indices ?g)"
    using assms(1) by (simp add: index) (simp add: push_node_def tree_ok_def)
  moreover have "distinct (map nd_hash (m_nodes ?g))"
    using assms(1) fresh by (simp add: push_node_def tree_ok_def)
  moreover have "node_ok (m_nodes ?g) i" if "i < length (m_nodes ?g)" for i
    using that old new by (cases "i = ?n") (auto simp: push_node_def)
  ultimately show ?thesis by (simp add: tree_ok_def)
qed

lemma add_header_ok:
  assumes "graph_ok g" "length work = 32"
  shows "\<exists>r g'. add_header header work g = Some (r, g') \<and> graph_ok g' \<and> length (m_nodes g') \<le> Suc (length (m_nodes g))"
proof -
  have tree: "tree_ok g" using assms(1) by (simp add: graph_ok_def)
  have push: "\<exists>r g'. rebuilt (push_node header work height g) = Some (r, g') \<and> graph_ok g' \<and> length (m_nodes g') \<le> Suc (length (m_nodes g))"
    if "tree_ok (push_node header work height g)" for height
    using rebuilt_ok [OF that] by (auto simp: push_node_def)
  show ?thesis
    using push [OF push_node_ok [OF tree _ assms(2)]] assms(1) by (auto simp: add_header_def split: option.split)
qed

text \<open>Running through nodes and changing the flags of some of them.\<close>

definition marked :: "(nat \<Rightarrow> bool) \<Rightarrow> (graph_node \<Rightarrow> graph_node) \<Rightarrow> nat list \<Rightarrow> block_index_graph \<Rightarrow> block_index_graph" where
  "marked p f = fold (\<lambda>i g. if p i then update_node i f g else g)"

lemma length_update_node [simp]: "length (m_nodes (update_node i f g)) = length (m_nodes g)"
  by (simp add: update_node_def)

lemma marked_same:
  assumes "\<And>n. skeleton (f n) = skeleton n"
  shows "\<forall>i\<in>set is. i < length (m_nodes g) \<Longrightarrow> same_tree g (marked p f is g)"
proof (induction "is" arbitrary: g)
  case (Cons i "is")
  let ?g = "if p i then update_node i f g else g"
  have step: "same_tree g ?g" using same_tree_update [of i g f] assms Cons.prems by simp
  have "same_tree ?g (marked p f is ?g)" by (rule Cons.IH) (use Cons.prems in simp)
  from same_tree_trans [OF step this] show ?case by (simp add: marked_def)
qed (simp add: marked_def)

lemma marked_nth:
  "distinct is \<Longrightarrow> i < length (m_nodes g) \<Longrightarrow>
     m_nodes (marked p f is g) ! i = (if i \<in> set is \<and> p i then f (m_nodes g ! i) else m_nodes g ! i)"
proof (induction "is" arbitrary: g)
  case (Cons j "is")
  have "m_nodes (if p j then update_node j f g else g) ! i = (if i = j \<and> p j then f (m_nodes g ! i) else m_nodes g ! i)"
    using Cons.prems by (auto simp: update_node_def nth_list_update)
  with Cons.IH [of "if p j then update_node j f g else g"] Cons.prems show ?case by (auto simp: marked_def)
qed (simp add: marked_def)

lemma invalidate_loop_eq:
  assumes "tree_ok t" "k < length (m_nodes t)"
  shows "same_tree t g \<Longrightarrow> \<forall>i\<in>set is. i < length (m_nodes t) \<Longrightarrow> invalidate_loop (nd_hash (m_nodes t ! k)) is g =
    Some (marked (\<lambda>i. k \<noteq> i \<and> k \<in> set (branch t i)) (\<lambda>n. n\<lparr>nd_dirty := True\<rparr>) is g)"
proof (induction "is" arbitrary: g)
  case (Cons i "is")
  have "has_ancestor g (nd_hash (m_nodes g ! k)) i = Some (k \<noteq> i \<and> k \<in> set (branch g i))"
    by (rule has_ancestor_eq) (use Cons.prems assms in \<open>simp_all add: same_tree_ok [OF Cons.prems(1)] same_tree_nth(1) [OF Cons.prems(1)]\<close>)
  then have step: "has_ancestor g (nd_hash (m_nodes t ! k)) i = Some (k \<noteq> i \<and> k \<in> set (branch t i))"
    using Cons.prems assms by (simp add: same_tree_nth [OF Cons.prems(1)] same_tree_branch [OF Cons.prems(1)])
  have next_g: "same_tree t (update_node i (\<lambda>n. n\<lparr>nd_dirty := True\<rparr>) g)"
    by (rule same_tree_trans [OF Cons.prems(1) same_tree_update])
      (use Cons.prems in \<open>simp_all add: same_tree_nth(1) [OF Cons.prems(1)] skeleton_def\<close>)
  show ?case
    using Cons.IH [OF Cons.prems(1)] Cons.IH [OF next_g] Cons.prems(2) by (simp add: step marked_def)
qed (simp add: marked_def)

lemma reconsider_loop_eq:
  assumes "tree_ok t" "k < length (m_nodes t)"
  shows "same_tree t g \<Longrightarrow> \<forall>i\<in>set is. i < length (m_nodes t) \<Longrightarrow> reconsider_loop (nd_hash (m_nodes t ! k)) is g =
    Some (marked (\<lambda>i. k \<in> set (branch t i)) (\<lambda>n. n\<lparr>nd_failed := False, nd_dirty := True\<rparr>) is g)"
proof (induction "is" arbitrary: g)
  case (Cons i "is")
  have i: "i < length (m_nodes t)" using Cons.prems(2) by simp
  have "has_ancestor g (nd_hash (m_nodes g ! k)) i = Some (k \<noteq> i \<and> k \<in> set (branch g i))"
    by (rule has_ancestor_eq) (use i assms in \<open>simp_all add: same_tree_ok [OF Cons.prems(1)] same_tree_nth(1) [OF Cons.prems(1)]\<close>)
  then have anc: "has_ancestor g (nd_hash (m_nodes t ! k)) i = Some (k \<noteq> i \<and> k \<in> set (branch t i))"
    using i assms by (simp add: same_tree_nth [OF Cons.prems(1)] same_tree_branch [OF Cons.prems(1)])
  have "nd_hash (m_nodes g ! i) = nd_hash (m_nodes t ! k) \<longleftrightarrow> i = k"
    using find_node_nth [OF assms] find_node_nth [OF assms(1) i] i by (auto simp: same_tree_nth [OF Cons.prems(1)])
  then have step: "(if nd_hash (m_nodes g ! i) = nd_hash (m_nodes t ! k) then Some True else has_ancestor g (nd_hash (m_nodes t ! k)) i) =
      Some (k \<in> set (branch t i))"
    using anc branch_self [OF assms(1) i] by auto
  have next_g: "same_tree t (update_node i (\<lambda>n. n\<lparr>nd_failed := False, nd_dirty := True\<rparr>) g)"
    by (rule same_tree_trans [OF Cons.prems(1) same_tree_update])
      (use i in \<open>simp_all add: same_tree_nth(1) [OF Cons.prems(1)] skeleton_def\<close>)
  show ?case
    unfolding reconsider_loop.simps step
    using Cons.IH [OF Cons.prems(1)] Cons.IH [OF next_g] Cons.prems(2) by (simp add: marked_def)
qed (simp add: marked_def)

text \<open>What the operations do to the flags.\<close>

lemma flag_update_ok:
  assumes "graph_ok g" "k < length (m_nodes g)" "\<And>n. skeleton (f n) = skeleton n"
  shows "\<exists>g'. rebuilt (update_node k f g) = Some (applied, g') \<and> graph_ok g' \<and> m_nodes g' = (m_nodes g)[k := f (m_nodes g ! k)]"
proof -
  have "tree_ok (update_node k f g)"
    using same_tree_ok [OF same_tree_update [OF assms(2,3)]] assms(1) by (simp add: graph_ok_def)
  from rebuilt_ok [OF this] show ?thesis by (auto simp: update_node_def)
qed

theorem invalidate_flags:
  assumes "graph_ok g" "find_node g hash = Some k"
  shows "\<exists>g'. invalidate hash g = Some (applied, g') \<and> graph_ok g' \<and> same_tree g g' \<and>
    (\<forall>i<length (m_nodes g). m_nodes g' ! i = (m_nodes g ! i)
       \<lparr>nd_failed := nd_failed (m_nodes g ! i) \<or> i = k, nd_dirty := nd_dirty (m_nodes g ! i) \<or> k \<in> set (branch g i)\<rparr>)"
proof -
  let ?f = "\<lambda>n. n\<lparr>nd_failed := True, nd_dirty := True\<rparr>" and ?d = "\<lambda>n :: graph_node. n\<lparr>nd_dirty := True\<rparr>"
  let ?u = "update_node k ?f g" and ?p = "\<lambda>i. k \<noteq> i \<and> k \<in> set (branch g i)"
  let ?m = "marked ?p ?d (node_indices g) ?u"
  have tree: "tree_ok g" and k: "k < length (m_nodes g)" and hash: "nd_hash (m_nodes g ! k) = hash"
    using assms find_node_iff [of g hash k] by (auto simp: graph_ok_def)
  have u: "same_tree g ?u" by (rule same_tree_update [OF k]) (simp add: skeleton_def)
  have m: "same_tree g ?m" by (rule same_tree_trans [OF u marked_same]) (simp_all add: skeleton_def)
  have loop: "invalidate_loop hash (node_indices g) ?u = Some ?m"
    using invalidate_loop_eq [OF tree k u, of "node_indices g"] by (simp add: hash)
  obtain g' where g': "rebuilt ?m = Some (applied, g')" "graph_ok g'" "m_nodes g' = m_nodes ?m" "m_node_by_hash g' = m_node_by_hash ?m"
    using rebuilt_ok [OF same_tree_ok [OF m tree]] by blast
  have nodes: "m_nodes g' ! i = (m_nodes g ! i)
      \<lparr>nd_failed := nd_failed (m_nodes g ! i) \<or> i = k, nd_dirty := nd_dirty (m_nodes g ! i) \<or> k \<in> set (branch g i)\<rparr>"
    if "i < length (m_nodes g)" for i
    using that k branch_self [OF tree k] by (auto simp: g'(3) marked_nth) (auto simp: update_node_def nth_list_update)
  have "invalidate hash g = Some (applied, g')"
    using assms(2) g'(1) loop by (simp add: invalidate_def Let_def)
  moreover have "same_tree g g'" using m g' by (simp add: same_tree_def)
  ultimately show ?thesis using g'(2) nodes by blast
qed

theorem reconsider_flags:
  assumes "graph_ok g" "find_node g hash = Some k"
  shows "\<exists>g'. reconsider hash g = Some (applied, g') \<and> graph_ok g' \<and> same_tree g g' \<and>
    (\<forall>i<length (m_nodes g). m_nodes g' ! i = (m_nodes g ! i)
       \<lparr>nd_failed := nd_failed (m_nodes g ! i) \<and> k \<notin> set (branch g i), nd_dirty := nd_dirty (m_nodes g ! i) \<or> k \<in> set (branch g i)\<rparr>)"
proof -
  let ?m = "marked (\<lambda>i. k \<in> set (branch g i)) (\<lambda>n. n\<lparr>nd_failed := False, nd_dirty := True\<rparr>) (node_indices g) g"
  have tree: "tree_ok g" and k: "k < length (m_nodes g)" and hash: "nd_hash (m_nodes g ! k) = hash"
    using assms find_node_iff [of g hash k] by (auto simp: graph_ok_def)
  have m: "same_tree g ?m" by (rule marked_same) (simp_all add: skeleton_def)
  have loop: "reconsider_loop hash (node_indices g) g = Some ?m"
    using reconsider_loop_eq [OF tree k same_tree_refl, of "node_indices g"] by (simp add: hash)
  obtain g' where g': "rebuilt ?m = Some (applied, g')" "graph_ok g'" "m_nodes g' = m_nodes ?m" "m_node_by_hash g' = m_node_by_hash ?m"
    using rebuilt_ok [OF same_tree_ok [OF m tree]] by blast
  have nodes: "m_nodes g' ! i = (m_nodes g ! i)
      \<lparr>nd_failed := nd_failed (m_nodes g ! i) \<and> k \<notin> set (branch g i), nd_dirty := nd_dirty (m_nodes g ! i) \<or> k \<in> set (branch g i)\<rparr>"
    if "i < length (m_nodes g)" for i
    using that by (simp add: g'(3) marked_nth)
  have "reconsider hash g = Some (applied, g')"
    using assms(2) g'(1) loop by (simp add: reconsider_def)
  moreover have "same_tree g g'" using m g' by (simp add: same_tree_def)
  ultimately show ?thesis using g'(2) nodes by blast
qed

subsection \<open>Sequences of operations\<close>

datatype graph_op =
    Add_header block_header chain_work
  | Add_block_data block_hash
  | Mark_valid block_hash
  | Invalidate block_hash
  | Reconsider block_hash
  | Mark_clean block_hash

primrec run_op :: "graph_op \<Rightarrow> block_index_graph \<Rightarrow> (graph_update_result \<times> block_index_graph) option" where
  "run_op (Add_header header work) g = add_header header work g"
| "run_op (Add_block_data hash) g = add_block_data hash g"
| "run_op (Mark_valid hash) g = mark_valid hash g"
| "run_op (Invalidate hash) g = invalidate hash g"
| "run_op (Reconsider hash) g = reconsider hash g"
| "run_op (Mark_clean hash) g = mark_clean hash g"

fun run_ops :: "graph_op list \<Rightarrow> block_index_graph \<Rightarrow> block_index_graph option" where
  "run_ops [] g = Some g"
| "run_ops (op # ops) g = do { (result, g) \<leftarrow> run_op op g; run_ops ops g }"

text \<open>A value of work has 32 bytes.\<close>

fun graph_op_ok :: "graph_op \<Rightarrow> bool" where
  "graph_op_ok (Add_header header work) = (length work = 32)"
| "graph_op_ok _ = True"

lemma graph_ok_empty: "graph_ok empty_graph"
proof -
  have "tree_ok empty_graph" by (simp add: tree_ok_def empty_graph_def)
  from recompute_eq [OF this] show ?thesis
    using \<open>tree_ok empty_graph\<close>
    by (simp add: graph_ok_def recompute_dirty_def) (simp add: empty_graph_def hashes_of_def sort_by_def best_fold_def)
qed

lemma run_op_ok:
  assumes "graph_ok g" "graph_op_ok op"
  shows "\<exists>r g'. run_op op g = Some (r, g') \<and> graph_ok g' \<and> length (m_nodes g') \<le> Suc (length (m_nodes g))"
proof -
  have tree: "tree_ok g" using assms(1) by (simp add: graph_ok_def)
  have flags: "\<exists>r g'. (case find_node g hash of None \<Rightarrow> Some (missing_block, g) | Some i \<Rightarrow> rebuilt (update_node i f g)) = Some (r, g') \<and>
      graph_ok g' \<and> length (m_nodes g') \<le> Suc (length (m_nodes g))" if "\<And>n. skeleton (f n) = skeleton n" for hash f
  proof (cases "find_node g hash")
    case (Some i)
    then show ?thesis using flag_update_ok [OF assms(1) _ that] find_node_iff [OF tree, of hash i] by fastforce
  qed (use assms(1) in simp)
  show ?thesis
  proof (cases op)
    case (Add_header header work)
    then show ?thesis using add_header_ok [OF assms(1)] assms(2) by simp
  next
    case (Invalidate hash)
    then show ?thesis
      using invalidate_flags [OF assms(1), of hash] assms(1) same_tree_nth(1)
      by (cases "find_node g hash") (fastforce simp: invalidate_def)+
  next
    case (Reconsider hash)
    then show ?thesis
      using reconsider_flags [OF assms(1), of hash] assms(1) same_tree_nth(1)
      by (cases "find_node g hash") (fastforce simp: reconsider_def)+
  qed (use flags in \<open>simp_all add: add_block_data_def mark_valid_def mark_clean_def skeleton_def\<close>)
qed

theorem run_ops_ok:
  "graph_ok g \<Longrightarrow> list_all graph_op_ok ops \<Longrightarrow>
     \<exists>g'. run_ops ops g = Some g' \<and> graph_ok g' \<and> length (m_nodes g') \<le> length (m_nodes g) + length ops"
proof (induction ops arbitrary: g)
  case (Cons op ops)
  then obtain r g' where "run_op op g = Some (r, g')" "graph_ok g'" "length (m_nodes g') \<le> Suc (length (m_nodes g))"
    using run_op_ok [of g op] by auto
  with Cons.IH [of g'] Cons.prems(2) show ?case by fastforce
qed simp

end
