(* ===== verification/Graph_Plan.thy ===== *)
theory Graph_Plan
  imports Graph_Index Script_Core
begin

text \<open>
  The active chain and the plans to leave it. The tip of the active chain is the best block whose whole
  branch is usable, in a strict total order: more work, then greater height, then smaller hash. A plan
  lists the blocks to disconnect, tip first, and then those to connect, up to the target, around the last
  common block.
\<close>

subsection \<open>The order of tips\<close>

lemma digit_less:
  fixes v w B a b :: nat
  assumes "v < B" "w < B"
  shows "v + B * a < w + B * b \<longleftrightarrow> a < b \<or> a = b \<and> v < w"
proof -
  have "v + B * a < w + B * b" if "a < b" "v < B" for v w a b
  proof -
    have "v + B * a < B * Suc a" using that(2) by simp
    also have "\<dots> \<le> B * b" using that(1) by (intro mult_le_mono2) simp
    finally show ?thesis by simp
  qed
  from this [of a b v w] this [of b a w v] assms show ?thesis by (cases a b rule: linorder_cases) auto
qed

lemma work_greater_loop_val:
  "i \<le> length l \<Longrightarrow> i \<le> length r \<Longrightarrow> work_greater_loop l r i \<longleftrightarrow> bytes_val (take i r) < bytes_val (take i l)"
proof (induction i)
  case (Suc i)
  have "bytes_val (take i r) < 256 ^ i" "bytes_val (take i l) < 256 ^ i"
    using Suc.prems bytes_val_less [of "take i r"] bytes_val_less [of "take i l"] by simp_all
  from digit_less [OF this, of "unat (r ! i)" "unat (l ! i)"] show ?case
    using Suc by (auto simp: take_Suc_conv_app_nth bytes_val_append word_less_nat_alt word_unat_eq_iff)
qed simp

lemma work_greater_val: "length l = 32 \<Longrightarrow> length r = 32 \<Longrightarrow> work_greater l r \<longleftrightarrow> bytes_val r < bytes_val l"
  by (simp add: work_greater_def work_greater_loop_val)

lemma better_tip_iff:
  assumes "length (nd_work m) = 32" "length (nd_work n) = 32"
  shows "better_tip m n \<longleftrightarrow> bytes_val (nd_work n) < bytes_val (nd_work m) \<or>
    bytes_val (nd_work n) = bytes_val (nd_work m) \<and> (sint (nd_height n) < sint (nd_height m) \<or>
      sint (nd_height n) = sint (nd_height m) \<and> nd_hash m < nd_hash n)"
proof -
  have "nd_work m = nd_work n \<longleftrightarrow> bytes_val (nd_work m) = bytes_val (nd_work n)"
    using bytes_val_inj [of "nd_work m" "nd_work n"] assms by auto
  then show ?thesis
    using assms by (auto simp: better_tip_def work_greater_val word_sless_alt sint_inject)
qed

subsection \<open>Sorting\<close>

lemma set_insert_by [simp]: "set (insert_by before x ys) = insert x (set ys)"
  by (induction ys) auto

lemma set_sort_by [simp]: "set (sort_by before xs) = set xs"
  by (induction xs) (simp_all add: sort_by_def)

lemma insert_by_sorted:
  assumes "sorted_wrt before ys" "totalp_on (insert x (set ys)) before" "transp_on (insert x (set ys)) before" "x \<notin> set ys"
  shows "sorted_wrt before (insert_by before x ys)"
  using assms
proof (induction ys)
  case (Cons y ys)
  show ?case
  proof (cases "before y x")
    case True
    have "sorted_wrt before (insert_by before x ys)"
    proof (rule Cons.IH)
      show "totalp_on (insert x (set ys)) before" by (rule totalp_on_subset [OF Cons.prems(2)]) auto
      show "transp_on (insert x (set ys)) before" by (rule transp_on_subset [OF Cons.prems(3)]) auto
    qed (use Cons.prems in simp_all)
    with True Cons.prems(1) show ?thesis by simp
  next
    case False
    have xy: "before x y" using totalp_onD [OF Cons.prems(2), of x y] False Cons.prems(4) by simp
    have "before x z" if "z \<in> set ys" for z
      using transp_onD [OF Cons.prems(3), of x y z] that xy Cons.prems(1) by simp
    with False xy Cons.prems(1) show ?thesis by simp
  qed
qed simp

lemma sort_by_sorted:
  assumes "distinct xs" "totalp_on (set xs) before" "transp_on (set xs) before"
  shows "sorted_wrt before (sort_by before xs)"
  using assms
proof (induction xs)
  case (Cons x xs)
  have "sorted_wrt before (sort_by before xs)"
  proof (rule Cons.IH)
    show "totalp_on (set xs) before" by (rule totalp_on_subset [OF Cons.prems(2)]) auto
    show "transp_on (set xs) before" by (rule transp_on_subset [OF Cons.prems(3)]) auto
  qed (use Cons.prems in simp)
  then have "sorted_wrt before (insert_by before x (sort_by before xs))"
    by (rule insert_by_sorted) (use Cons.prems in simp_all)
  then show ?case by (simp add: sort_by_def)
qed (simp add: sort_by_def)

text \<open>In a graph the comparison of tips is a strict total order.\<close>

lemma tip_key_total:
  fixes w v :: nat and h k :: int and x y :: "byte list"
  assumes "x \<noteq> y"
  shows "(v < w \<or> v = w \<and> (k < h \<or> k = h \<and> x < y)) \<or> (w < v \<or> w = v \<and> (h < k \<or> h = k \<and> y < x))"
  using assms by (cases w v rule: linorder_cases; cases h k rule: linorder_cases; cases x y rule: linorder_cases; simp)

lemma tip_key_trans:
  fixes w v u :: nat and h k j :: int and x y z :: "byte list"
  assumes "v < w \<or> v = w \<and> (k < h \<or> k = h \<and> x < y)" "u < v \<or> u = v \<and> (j < k \<or> j = k \<and> y < z)"
  shows "u < w \<or> u = w \<and> (j < h \<or> j = h \<and> x < z)"
  using assms order.strict_trans [of x y z] by (elim disjE conjE; simp)

lemma tip_order:
  assumes "tree_ok g"
  shows "totalp_on {..<length (m_nodes g)} (tip_before g)" and "transp_on {..<length (m_nodes g)} (tip_before g)"
proof -
  have work: "length (nd_work (m_nodes g ! i)) = 32" if "i < length (m_nodes g)" for i
    using node_okD [OF assms that] by (simp add: node_ok_def Let_def)
  show "totalp_on {..<length (m_nodes g)} (tip_before g)"
  proof (rule totalp_onI)
    fix a b assume ab: "a \<in> {..<length (m_nodes g)}" "b \<in> {..<length (m_nodes g)}" "a \<noteq> b"
    then have "nd_hash (m_nodes g ! a) \<noteq> nd_hash (m_nodes g ! b)"
      using find_node_nth [OF assms, of a] find_node_nth [OF assms, of b] by auto
    then show "tip_before g a b \<or> tip_before g b a"
      using ab unfolding tip_before_def by (simp only: better_tip_iff work lessThan_iff) (rule tip_key_total)
  qed
  show "transp_on {..<length (m_nodes g)} (tip_before g)"
  proof (rule transp_onI)
    fix a b c
    assume "a \<in> {..<length (m_nodes g)}" "b \<in> {..<length (m_nodes g)}" "c \<in> {..<length (m_nodes g)}"
      and "tip_before g a b" "tip_before g b c"
    then show "tip_before g a c"
      unfolding tip_before_def by (simp only: better_tip_iff work lessThan_iff) (erule (1) tip_key_trans)
  qed
qed

subsection \<open>The active chain\<close>

lemma graph_ok_tree: "graph_ok g \<Longrightarrow> tree_ok g"
  by (simp add: graph_ok_def)

text \<open>The first candidate, when there is one.\<close>

definition active_tip :: "block_index_graph \<Rightarrow> nat \<Rightarrow> bool" where
  "active_tip g i \<longleftrightarrow> i < length (m_nodes g) \<and> usable_branch g i \<and>
     (\<forall>j<length (m_nodes g). usable_branch g j \<longrightarrow> j = i \<or> tip_before g i j)"

lemma first_candidate:
  assumes "graph_ok g"
  obtains "m_candidates g = []" "\<forall>j<length (m_nodes g). \<not> usable_branch g j"
  | i where "m_candidates g \<noteq> []" "find_node g (hd (m_candidates g)) = Some i" "active_tip g i"
proof -
  let ?u = "filter (usable_branch g) (node_indices g)"
  let ?s = "sort_by (tip_before g) ?u"
  note tree = graph_ok_tree [OF assms]
  have c: "m_candidates g = hashes_of g ?s"
    using assms recompute_eq(1) [OF tree] by (simp add: graph_ok_def)
  have sorted: "sorted_wrt (tip_before g) ?s"
  proof (rule sort_by_sorted)
    show "totalp_on (set ?u) (tip_before g)" by (rule totalp_on_subset [OF tip_order(1) [OF tree]]) auto
    show "transp_on (set ?u) (tip_before g)" by (rule transp_on_subset [OF tip_order(2) [OF tree]]) auto
  qed simp
  have set: "set ?s = {i. i < length (m_nodes g) \<and> usable_branch g i}" by auto
  show thesis
  proof (cases ?s)
    case Nil
    have "m_candidates g = []" using c unfolding Nil by (simp add: hashes_of_def)
    moreover have "\<forall>j<length (m_nodes g). \<not> usable_branch g j" using set unfolding Nil by auto
    ultimately show thesis by (rule that(1))
  next
    case (Cons i rest)
    have i: "i < length (m_nodes g)" "usable_branch g i" using set unfolding Cons by auto
    have head: "m_candidates g \<noteq> []" "hd (m_candidates g) = nd_hash (m_nodes g ! i)"
      using c unfolding Cons by (simp_all add: hashes_of_def)
    have "j = i \<or> tip_before g i j" if "j < length (m_nodes g)" "usable_branch g j" for j
      using set sorted that unfolding Cons by auto
    with i have "active_tip g i" by (simp add: active_tip_def)
    with head show thesis using find_node_nth [OF tree i(1)] by (intro that(2) [of i]) simp_all
  qed
qed

lemma active_eq:
  assumes "graph_ok g"
  obtains "active g = Some \<lparr>active_hashes = [], active_headers = []\<rparr>" "m_candidates g = []"
      "\<forall>j<length (m_nodes g). \<not> usable_branch g j"
  | i where "active_tip g i" "m_candidates g \<noteq> []" "find_node g (hd (m_candidates g)) = Some i"
      "active g = Some \<lparr>active_hashes = rev (hashes_of g (branch g i)),
         active_headers = rev (map (\<lambda>a. nd_header (m_nodes g ! a)) (branch g i))\<rparr>"
proof (cases rule: first_candidate [OF assms])
  case 1
  then show thesis using that(1) by (simp add: active_def)
next
  case (2 i)
  then have "i < length (m_nodes g)" by (simp add: active_tip_def)
  with 2 show thesis
    using that(2) [of i] active_loop_eq [OF graph_ok_tree [OF assms], of i] by (simp add: active_def)
qed

text \<open>
  The active chain is a linked chain of usable blocks from a root, and no eligible block is better than its
  tip. It is empty only if no block is eligible.
\<close>

theorem active_chain_best:
  assumes "graph_ok g"
  shows "\<exists>chain. active g = Some chain \<and> contiguous (active_headers chain) \<and>
    active_hashes chain = map header_hash (active_headers chain) \<and>
    (\<forall>hash\<in>set (active_hashes chain). \<exists>b. graph_find g hash = Some b \<and> nd_valid b \<and> nd_has_block_data b \<and> \<not> nd_failed b) \<and>
    (\<forall>j<length (m_nodes g). eligible_candidate g j = Some True \<longrightarrow>
       (\<exists>tip. active_hashes chain \<noteq> [] \<and> graph_find g (last (active_hashes chain)) = Some tip \<and>
          (tip = block_for (m_nodes g ! j) \<or> better_tip tip (m_nodes g ! j))))"
proof (cases rule: active_eq [OF assms])
  case 1
  then show ?thesis using eligible_candidate_eq [OF graph_ok_tree [OF assms]] by simp
next
  case (2 i)
  note tree = graph_ok_tree [OF assms]
  have i: "i < length (m_nodes g)" "usable_branch g i" using 2(1) by (simp_all add: active_tip_def)
  have find: "graph_find g (nd_hash (m_nodes g ! a)) = Some (block_for (m_nodes g ! a))" if "a < length (m_nodes g)" for a
    using find_node_nth [OF tree that] by (simp add: graph_find_def)
  have same: "block_for n = n" for n by (simp add: block_for_def)
  note br = branch_headers [OF tree i(1)]
  have hashes: "nd_hash (m_nodes g ! a) = header_hash (nd_header (m_nodes g ! a))" if "a \<in> set (branch g i)" for a
    using node_okD [OF tree, of a] br(5) that by (auto simp: node_ok_def Let_def)
  have tip: "last (rev (hashes_of g (branch g i))) = nd_hash (m_nodes g ! i)"
    using branch_rec [OF tree i(1)] by (simp add: hashes_of_def)
  have ne: "rev (hashes_of g (branch g i)) \<noteq> []" using br(3) by (simp add: hashes_of_def)
  have usable: "\<exists>b. graph_find g hash = Some b \<and> nd_valid b \<and> nd_has_block_data b \<and> \<not> nd_failed b"
    if hash: "hash \<in> set (hashes_of g (branch g i))" for hash
  proof -
    from hash obtain a where a: "a \<in> set (branch g i)" "hash = nd_hash (m_nodes g ! a)" by (auto simp: hashes_of_def)
    moreover have "a < length (m_nodes g)" using br(5) a(1) by auto
    ultimately show ?thesis
      using find [of a] i(2) by (intro exI [of _ "m_nodes g ! a"]) (simp add: usable_branch_def same)
  qed
  have best: "m_nodes g ! i = m_nodes g ! j \<or> better_tip (m_nodes g ! i) (m_nodes g ! j)"
    if j: "j < length (m_nodes g)" "eligible_candidate g j = Some True" for j
    using 2(1) j eligible_candidate_eq [OF tree j(1)] by (auto simp: active_tip_def tip_before_def)
  show ?thesis
    by (rule exI [of _ "\<lparr>active_hashes = rev (hashes_of g (branch g i)),
        active_headers = rev (map (\<lambda>a. nd_header (m_nodes g ! a)) (branch g i))\<rparr>"])
      (use 2(4) br(1) hashes find [OF i(1)] tip ne usable best in \<open>simp add: same\<close>, simp add: hashes_of_def rev_map)
qed

subsection \<open>Plans\<close>

text \<open>Two branches with a common block share the rest; the first common block divides them.\<close>

lemma branch_fork:
  assumes "tree_ok g" "i < length (m_nodes g)" "t < length (m_nodes g)"
    and "find (\<lambda>a. a \<in> set (branch g t)) (branch g i) = Some f"
  shows "\<exists>xs ys. branch g i = xs @ branch g f \<and> branch g t = ys @ branch g f \<and> f \<notin> set xs \<and> f \<notin> set ys \<and> set xs \<inter> set ys = {}"
proof -
  have "f \<in> set (branch g i)" "f \<in> set (branch g t)" using assms(4) by (auto simp: find_Some_iff)
  from branch_suffix [OF assms(1,2) this(1)] branch_suffix [OF assms(1,3) this(2)]
  obtain xs ys where xs: "branch g i = xs @ branch g f" "\<forall>x\<in>set xs. f < x" and ys: "branch g t = ys @ branch g f" "\<forall>y\<in>set ys. f < y"
    by blast
  have f: "f < length (m_nodes g)" using branch_headers(5) [OF assms(1,2)] \<open>f \<in> set (branch g i)\<close> by auto
  obtain k where k: "k < length (branch g i)" "branch g i ! k = f" "\<forall>j<k. branch g i ! j \<notin> set (branch g t)"
    using assms(4) by (auto simp: find_Some_iff)
  have "length xs \<le> k"
  proof (rule ccontr)
    assume "\<not> length xs \<le> k"
    then have "f = xs ! k" "k < length xs" using k(2) xs(1) by (simp_all add: nth_append)
    then have "f \<in> set xs" by simp
    with xs(2) show False by auto
  qed
  then have "x \<notin> set (branch g t)" if "x \<in> set xs" for x
    using that k(3) xs(1) by (metis in_set_conv_nth nth_append order.strict_trans2)
  with xs ys show ?thesis by (intro exI [of _ xs] exI [of _ ys]) auto
qed

lemma hash_inject:
  "tree_ok g \<Longrightarrow> a < length (m_nodes g) \<Longrightarrow> b < length (m_nodes g) \<Longrightarrow> nd_hash (m_nodes g ! a) = nd_hash (m_nodes g ! b) \<longleftrightarrow> a = b"
  by (metis find_node_nth option.inject)

text \<open>A plan leads from the active chain to the chain of the target, and disconnects no block it connects.\<close>

definition leads :: "reorg_plan \<Rightarrow> block_hash list \<Rightarrow> block_hash list \<Rightarrow> bool" where
  "leads plan from_chain to_chain \<longleftrightarrow>
     (\<exists>common. common \<noteq> [] \<and> from_chain = common @ rev (disconnects plan) \<and> to_chain = common @ connects plan \<and>
        set (disconnects plan) \<inter> set (connects plan) = {})"

lemma fork_plan:
  assumes "tree_ok g" "i < length (m_nodes g)" "t < length (m_nodes g)"
    and "find (\<lambda>a. a \<in> set (branch g t)) (branch g i) = Some f"
  defines "differs \<equiv> \<lambda>a. nd_hash (m_nodes g ! a) \<noteq> nd_hash (m_nodes g ! f)"
  shows "leads \<lparr>disconnects = hashes_of g (takeWhile differs (branch g i)), connects = rev (hashes_of g (takeWhile differs (branch g t)))\<rparr>
    (rev (hashes_of g (branch g i))) (rev (hashes_of g (branch g t)))"
proof -
  obtain xs ys where xs: "branch g i = xs @ branch g f" "f \<notin> set xs" and ys: "branch g t = ys @ branch g f" "f \<notin> set ys"
      and disjoint: "set xs \<inter> set ys = {}"
    using branch_fork [OF assms(1-4)] by blast
  have "f \<in> set (branch g i)" using assms(4) by (auto simp: find_Some_iff)
  then have f: "f < length (m_nodes g)" using branch_headers(5) [OF assms(1,2)] by auto
  have bounds: "set xs \<subseteq> {..<length (m_nodes g)}" "set ys \<subseteq> {..<length (m_nodes g)}"
    using branch_headers(5) [OF assms(1,2)] branch_headers(5) [OF assms(1,3)] xs(1) ys(1) by auto
  have stop: "takeWhile differs (branch g f) = []"
    using branch_rec [OF assms(1) f] by (simp add: differs_def)
  have "differs a" if "a \<in> set xs \<union> set ys" for a
  proof -
    have "a < length (m_nodes g)" "a \<noteq> f" using that bounds xs(2) ys(2) by auto
    then show ?thesis by (simp add: differs_def hash_inject [OF assms(1) _ f])
  qed
  then have "takeWhile differs (branch g i) = xs" "takeWhile differs (branch g t) = ys"
    using stop by (simp_all add: xs(1) ys(1) takeWhile_append2)
  moreover have "set (hashes_of g xs) \<inter> set (hashes_of g ys) = {}"
  proof -
    have "nd_hash (m_nodes g ! a) \<noteq> nd_hash (m_nodes g ! b)" if "a \<in> set xs" "b \<in> set ys" for a b
      using that disjoint bounds hash_inject [OF assms(1), of a b] by auto
    then show ?thesis by (auto simp: hashes_of_def)
  qed
  moreover have "rev (hashes_of g (branch g f)) \<noteq> []"
    using branch_rec [OF assms(1) f] by (simp add: hashes_of_def)
  ultimately show ?thesis
    unfolding leads_def by (intro exI [of _ "rev (hashes_of g (branch g f))"]) (simp add: xs(1) ys(1) hashes_of_def)
qed

theorem plan_reorg_to_result:
  assumes "graph_ok g"
  shows "\<exists>result chain. plan_reorg_to g target = Some result \<and> active g = Some chain \<and>
    (case result of
       planned plan \<Rightarrow> (\<exists>t path. find_node g target = Some t \<and> eligible_candidate g t = Some True \<and>
         path_to_root g t = Some path \<and> leads plan (active_hashes chain) (rev (hashes_of g path)))
     | plan_missing_block \<Rightarrow> find_node g target = None
     | ineligible_candidate \<Rightarrow> (\<exists>t path. find_node g target = Some t \<and> path_to_root g t = Some path \<and>
         (eligible_candidate g t = Some False \<or> set (active_hashes chain) \<inter> set (hashes_of g path) = {})))"
proof -
  note tree = graph_ok_tree [OF assms]
  show ?thesis
  proof (cases "find_node g target")
    case None
    then show ?thesis using active_chain_best [OF assms] by (auto simp: plan_reorg_to_def)
  next
    case (Some t)
    then have t: "t < length (m_nodes g)" using find_node_iff [OF tree] by blast
    note eqs = eligible_candidate_eq [OF tree t] path_to_root_branch [OF tree t]
    show ?thesis
    proof (cases "usable_branch g t")
      case False
      then show ?thesis using active_chain_best [OF assms] Some by (auto simp: plan_reorg_to_def eqs)
    next
      case usable: True
      show ?thesis
      proof (cases rule: active_eq [OF assms])
        case 1
        then show ?thesis using usable t by blast
      next
        case (2 i)
        have i: "i < length (m_nodes g)" using 2(1) by (simp add: active_tip_def)
        have mem: "nd_hash (m_nodes g ! a) \<in> set (hashes_of g (branch g t)) \<longleftrightarrow> a \<in> set (branch g t)" if "a \<in> set (branch g i)" for a
        proof -
          have "nd_hash (m_nodes g ! a) = nd_hash (m_nodes g ! b) \<longleftrightarrow> a = b" if "b \<in> set (branch g t)" for b
            using \<open>a \<in> set (branch g i)\<close> that branch_headers(5) [OF tree i] branch_headers(5) [OF tree t]
            by (intro hash_inject [OF tree]) auto
          then show ?thesis by (auto simp: hashes_of_def)
        qed
        then have find: "find (\<lambda>a. nd_hash (m_nodes g ! a) \<in> set (hashes_of g (branch g t))) (branch g i) =
            find (\<lambda>a. a \<in> set (branch g t)) (branch g i)"
          by (intro find_cong refl)
        show ?thesis
        proof (cases "find (\<lambda>a. a \<in> set (branch g t)) (branch g i)")
          case None
          then have "set (hashes_of g (branch g i)) \<inter> set (hashes_of g (branch g t)) = {}"
            using mem by (auto simp: find_None_iff hashes_of_def)
          with None show ?thesis
            using Some usable 2 by (simp add: plan_reorg_to_def eqs find path_to_root_branch [OF tree i])
        next
          case (Some f)
          from fork_plan [OF tree i t this] show ?thesis
            using \<open>find_node g target = Some t\<close> Some usable 2
            by (simp add: plan_reorg_to_def eqs find path_to_root_branch [OF tree i] Let_def)
        qed
      qed
    qed
  qed
qed

subsection \<open>The best header\<close>

lemma best_fold_best:
  assumes "tree_ok g"
  shows "set xs \<union> set_option best \<subseteq> {..<length (m_nodes g)} \<Longrightarrow>
    (case best_fold g xs best of
       None \<Rightarrow> xs = [] \<and> best = None
     | Some b \<Rightarrow> b \<in> set xs \<union> set_option best \<and> (\<forall>x\<in>set xs \<union> set_option best. x = b \<or> tip_before g b x))"
proof (induction xs arbitrary: best)
  case Nil
  then show ?case by (simp add: best_fold_def split: option.split)
next
  case (Cons i xs)
  let ?next = "case best of None \<Rightarrow> Some i | Some b \<Rightarrow> if tip_before g i b then Some i else best"
  have step: "best_fold g (i # xs) best = best_fold g xs ?next" by (simp add: best_fold_def)
  obtain n where n: "?next = Some n" by (cases best; cases "tip_before g i (the best)") auto
  have mem: "n \<in> insert i (set_option best)" using n by (cases best) (auto split: if_splits)
  have keep: "x = n \<or> tip_before g n x" if "x \<in> insert i (set_option best)" for x
    using n that totalp_onD [OF tip_order(1) [OF assms], of i "the best"] Cons.prems by (cases best) (auto split: if_splits)
  have "set xs \<union> set_option (Some n) \<subseteq> {..<length (m_nodes g)}" using Cons.prems mem by auto
  from Cons.IH [OF this] obtain b where b: "best_fold g xs (Some n) = Some b" "b \<in> insert n (set xs)"
      "\<And>x. x \<in> insert n (set xs) \<Longrightarrow> x = b \<or> tip_before g b x"
    by (auto split: option.splits)
  have "x = b \<or> tip_before g b x" if "x \<in> set (i # xs) \<union> set_option best" for x
  proof (cases "x \<in> set xs")
    case False
    then have "x \<in> insert i (set_option best)" using that by auto
    then show ?thesis
      using keep [of x] b(3) [of n] transp_onD [OF tip_order(2) [OF assms], of b n x] Cons.prems b(2) mem by auto
  qed (use b(3) in simp)
  then show ?case using b(1,2) mem by (simp add: step n) blast
qed

theorem best_header_best:
  assumes "graph_ok g"
  shows "case best_header g of
      None \<Rightarrow> \<forall>j<length (m_nodes g). branch_failed g j = Some True
    | Some b \<Rightarrow> \<exists>i<length (m_nodes g). b = m_nodes g ! i \<and> branch_failed g i = Some False \<and>
        (\<forall>j<length (m_nodes g). branch_failed g j = Some False \<longrightarrow> j = i \<or> better_tip b (m_nodes g ! j))"
proof -
  note tree = graph_ok_tree [OF assms]
  let ?xs = "filter (\<lambda>i. \<not> failed_branch g i) (node_indices g)"
  have same: "block_for n = n" for n by (simp add: block_for_def)
  have best: "m_has_best_header g = (best_fold g ?xs None \<noteq> None)"
      "best_fold g ?xs None = Some i \<Longrightarrow> m_best_header g = nd_hash (m_nodes g ! i)" for i
    using assms recompute_eq(4) [OF tree] by (auto simp: graph_ok_def same)
  have "set ?xs \<union> set_option None \<subseteq> {..<length (m_nodes g)}" by auto
  note fold = best_fold_best [OF tree this]
  show ?thesis
  proof (cases "best_fold g ?xs None")
    case None
    then have "?xs = []" using fold by simp
    then have "\<forall>j<length (m_nodes g). failed_branch g j" by (simp add: filter_empty_conv)
    with None show ?thesis by (simp add: best_header_def best(1) branch_failed_eq [OF tree])
  next
    case (Some i)
    then have i: "i \<in> set ?xs" "\<And>x. x \<in> set ?xs \<Longrightarrow> x = i \<or> tip_before g i x"
      using fold by auto
    then have "best_header g = Some (m_nodes g ! i)"
      using Some best(1) best(2) [OF Some] find_node_nth [OF tree, of i] by (simp add: best_header_def graph_find_def same)
    then show ?thesis
      using i by (simp add: branch_failed_eq [OF tree] tip_before_def) (intro exI [of _ i], simp add: branch_failed_eq [OF tree])
  qed
qed

subsection \<open>Invalidating and reconsidering\<close>

text \<open>
  Invalidating a block fails exactly its descendants, and reconsidering it undoes that, when no block below
  was failed before: the indexes are those of the graph at the start, but for the dirty blocks.
\<close>

lemma same_flags_indexes:
  assumes "graph_ok g" "graph_ok g'" "same_tree g g'"
    and "\<And>i. i < length (m_nodes g) \<Longrightarrow> (m_nodes g' ! i)\<lparr>nd_dirty := False\<rparr> = (m_nodes g ! i)\<lparr>nd_dirty := False\<rparr>"
  shows "m_candidates g' = m_candidates g" "m_unlinked g' = m_unlinked g" "m_failed g' = m_failed g"
proof -
  note tree = graph_ok_tree [OF assms(1)] and tree' = graph_ok_tree [OF assms(2)]
  have flags: "nd_failed (m_nodes g' ! i) = nd_failed (m_nodes g ! i)" "nd_valid (m_nodes g' ! i) = nd_valid (m_nodes g ! i)"
      "nd_has_block_data (m_nodes g' ! i) = nd_has_block_data (m_nodes g ! i)" if "i < length (m_nodes g)" for i
    using arg_cong [OF assms(4) [OF that], of nd_failed] arg_cong [OF assms(4) [OF that], of nd_valid]
      arg_cong [OF assms(4) [OF that], of nd_has_block_data] by simp_all
  have branch: "branch g' i = branch g i" "set (branch g i) \<subseteq> {..<length (m_nodes g)}" if "i < length (m_nodes g)" for i
    using same_tree_branch [OF assms(3) tree that] branch_headers(5) [OF tree that] by simp_all
  have f: "failed_branch g' i = failed_branch g i" "usable_branch g' i = usable_branch g i" if "i < length (m_nodes g)" for i
  proof -
    have a: "a < length (m_nodes g)" if "a \<in> set (branch g i)" for a using branch(2) [OF \<open>i < _\<close>] that by auto
    show "failed_branch g' i = failed_branch g i" "usable_branch g' i = usable_branch g i"
      unfolding failed_branch_def usable_branch_def branch(1) [OF that]
      by (intro bex_cong ball_cong refl, simp add: flags a)+
  qed
  then have u: "unlinked_branch g' i = unlinked_branch g i" if "i < length (m_nodes g)" for i
    using that flags by (simp add: unlinked_branch_def)
  have filters: "filter (failed_branch g') (node_indices g') = filter (failed_branch g) (node_indices g)"
    "filter (usable_branch g') (node_indices g') = filter (usable_branch g) (node_indices g)"
    "filter (unlinked_branch g') (node_indices g') = filter (unlinked_branch g) (node_indices g)"
    by (auto intro!: filter_cong simp: f u same_tree_nth(1) [OF assms(3)])
  have hashes: "hashes_of g' xs = hashes_of g xs" if "set xs \<subseteq> {..<length (m_nodes g)}" for xs
    using that by (auto simp: hashes_of_def same_tree_nth(2) [OF assms(3)])
  have tip: "tip_before g' a b = tip_before g a b" if "a < length (m_nodes g)" "b < length (m_nodes g)" for a b
    using that by (simp add: tip_before_def better_tip_def same_tree_nth [OF assms(3)])
  have insert: "insert_by (tip_before g') x ys = insert_by (tip_before g) x ys" if "x < length (m_nodes g)" "set ys \<subseteq> {..<length (m_nodes g)}" for x ys
    using that by (induction ys) (auto simp: tip)
  have sort: "sort_by (tip_before g') xs = sort_by (tip_before g) xs" if "set xs \<subseteq> {..<length (m_nodes g)}" for xs
    using that
  proof (induction xs)
    case (Cons x xs)
    then have "set (sort_by (tip_before g) xs) \<subseteq> {..<length (m_nodes g)}" by simp
    with Cons insert [of x "sort_by (tip_before g) xs"] show ?case by (simp add: sort_by_def)
  qed (simp add: sort_by_def)
  show "m_candidates g' = m_candidates g" "m_unlinked g' = m_unlinked g" "m_failed g' = m_failed g"
    using assms(1,2) recompute_eq [OF tree] recompute_eq [OF tree']
    by (simp_all add: graph_ok_def filters sort hashes subset_iff)
qed

theorem invalidate_fails:
  assumes "graph_ok g" "find_node g hash = Some k"
  shows "\<exists>g'. invalidate hash g = Some (applied, g') \<and> graph_ok g' \<and>
    (\<forall>i<length (m_nodes g). failed_branch g' i = (failed_branch g i \<or> k \<in> set (branch g i)) \<and>
       usable_branch g' i = (usable_branch g i \<and> k \<notin> set (branch g i)))"
proof -
  note tree = graph_ok_tree [OF assms(1)]
  obtain g' where g': "invalidate hash g = Some (applied, g')" "graph_ok g'" "same_tree g g'"
      "\<And>i. i < length (m_nodes g) \<Longrightarrow> m_nodes g' ! i = (m_nodes g ! i)
         \<lparr>nd_failed := nd_failed (m_nodes g ! i) \<or> i = k, nd_dirty := nd_dirty (m_nodes g ! i) \<or> k \<in> set (branch g i)\<rparr>"
    using invalidate_flags [OF assms] by blast
  have "failed_branch g' i = (failed_branch g i \<or> k \<in> set (branch g i)) \<and>
      usable_branch g' i = (usable_branch g i \<and> k \<notin> set (branch g i))" if i: "i < length (m_nodes g)" for i
  proof -
    have "m_nodes g' ! a = (m_nodes g ! a)\<lparr>nd_failed := nd_failed (m_nodes g ! a) \<or> a = k,
        nd_dirty := nd_dirty (m_nodes g ! a) \<or> k \<in> set (branch g a)\<rparr>" if "a \<in> set (branch g i)" for a
      using g'(4) [of a] branch_headers(5) [OF tree i] that by auto
    then show ?thesis
      unfolding failed_branch_def usable_branch_def same_tree_branch [OF g'(3) tree i] by auto
  qed
  with g'(1,2) show ?thesis by blast
qed

theorem reconsider_undoes_invalidate:
  assumes "graph_ok g" "find_node g hash = Some k"
    and "\<And>i. i < length (m_nodes g) \<Longrightarrow> k \<in> set (branch g i) \<Longrightarrow> \<not> nd_failed (m_nodes g ! i)"
  shows "\<exists>g1 g2. invalidate hash g = Some (applied, g1) \<and> reconsider hash g1 = Some (applied, g2) \<and>
    m_candidates g2 = m_candidates g \<and> m_unlinked g2 = m_unlinked g \<and> m_failed g2 = m_failed g"
proof -
  note tree = graph_ok_tree [OF assms(1)]
  obtain g1 where g1: "invalidate hash g = Some (applied, g1)" "graph_ok g1" "same_tree g g1"
      "\<And>i. i < length (m_nodes g) \<Longrightarrow> m_nodes g1 ! i = (m_nodes g ! i)
         \<lparr>nd_failed := nd_failed (m_nodes g ! i) \<or> i = k, nd_dirty := nd_dirty (m_nodes g ! i) \<or> k \<in> set (branch g i)\<rparr>"
    using invalidate_flags [OF assms(1,2)] by blast
  have k: "k < length (m_nodes g)" "nd_hash (m_nodes g ! k) = hash" using find_node_iff [OF tree, of hash k] assms(2) by simp_all
  then have "find_node g1 hash = Some k"
    using find_node_nth [OF graph_ok_tree [OF g1(2)], of k] by (simp add: same_tree_nth [OF g1(3)])
  then obtain g2 where g2: "reconsider hash g1 = Some (applied, g2)" "graph_ok g2" "same_tree g1 g2"
      "\<And>i. i < length (m_nodes g1) \<Longrightarrow> m_nodes g2 ! i = (m_nodes g1 ! i)
         \<lparr>nd_failed := nd_failed (m_nodes g1 ! i) \<and> k \<notin> set (branch g1 i), nd_dirty := nd_dirty (m_nodes g1 ! i) \<or> k \<in> set (branch g1 i)\<rparr>"
    using reconsider_flags [OF g1(2)] by blast
  have flags: "(m_nodes g2 ! i)\<lparr>nd_dirty := False\<rparr> = (m_nodes g ! i)\<lparr>nd_dirty := False\<rparr>" if i: "i < length (m_nodes g)" for i
  proof -
    have "m_nodes g2 ! i = (m_nodes g1 ! i)\<lparr>nd_failed := nd_failed (m_nodes g1 ! i) \<and> k \<notin> set (branch g i),
        nd_dirty := nd_dirty (m_nodes g1 ! i) \<or> k \<in> set (branch g i)\<rparr>"
      using g2(4) [of i] i by (simp add: same_tree_nth(1) [OF g1(3)] same_tree_branch [OF g1(3) tree])
    moreover have "((nd_failed (m_nodes g ! i) \<or> i = k) \<and> k \<notin> set (branch g i)) = nd_failed (m_nodes g ! i)"
      using assms(3) [OF i] branch_self [OF tree k(1)] by auto
    ultimately show ?thesis using g1(4) [OF i] by simp
  qed
  have "same_tree g g2" by (rule same_tree_trans [OF g1(3) g2(3)])
  from same_flags_indexes [OF assms(1) g2(2) this flags] g1(1) g2(1) show ?thesis by blast
qed

subsection \<open>Heights\<close>

lemma height_depth:
  assumes "tree_ok g" "i < length (m_nodes g)" "length (m_nodes g) < 2 ^ 31"
  shows "sint (nd_height (m_nodes g ! i)) = int (length (branch g i)) - 1"
proof -
  have "distinct (branch g i)" using assms(1,2)
  proof (induction i rule: tree_induct)
    case (node i)
    then show ?case
      using branch_rec [OF assms(1) node.hyps] branch_le [OF assms(1)] by (fastforce split: option.splits)
  qed
  then have "length (branch g i) \<le> length (m_nodes g)"
    using card_mono [OF _ branch_headers(5) [OF assms(1,2)]] by (simp add: distinct_card)
  moreover have "branch g i \<noteq> []" by (rule branch_headers(3) [OF assms(1,2)])
  ultimately have "length (branch g i) - 1 < 2 ^ 31" "int (length (branch g i) - 1) = int (length (branch g i)) - 1"
    using assms(3) by (simp_all add: of_nat_diff Suc_leI)
  moreover have "sint (of_nat n :: i32) = int n" if "n < 2 ^ 31" for n
    using that by (simp add: signed_of_nat signed_take_bit_int_eq_self)
  ultimately show ?thesis
    by (simp only: branch_headers(4) [OF assms(1,2)])
qed

end
