(* ===== verification/Graph_Samples.thy ===== *)
theory Graph_Samples
  imports Graph_Plan
begin

text \<open>A graph of one block, as an input for the theorems about block index graphs.\<close>

definition sample_ops :: "graph_op list" where
  "sample_ops = [Add_header default_block_header (replicate 32 0), Add_block_data (header_hash default_block_header),
     Mark_valid (header_hash default_block_header)]"

lemma sample_ops_ok: "list_all graph_op_ok sample_ops"
  by (simp add: sample_ops_def)

definition sample_node :: graph_node where
  "sample_node = \<lparr>nd_hash = header_hash default_block_header, nd_parent_hash = null_hash, nd_header = default_block_header,
     nd_height = 0, nd_work = replicate 32 0, nd_has_block_data = True, nd_valid = True, nd_failed = False, nd_dirty = True\<rparr>"

lemma sample_graph: "\<exists>g. run_ops sample_ops empty_graph = Some g \<and> graph_ok g \<and> m_nodes g = [sample_node]"
proof -
  let ?h = "header_hash default_block_header"
  let ?n = "sample_node\<lparr>nd_has_block_data := False, nd_valid := False\<rparr>"
  have tree: "tree_ok (push_node default_block_header (replicate 32 0) 0 empty_graph)"
    by (rule push_node_ok)
      (use graph_ok_tree [OF graph_ok_empty] in \<open>simp_all add: find_node_def empty_graph_def default_block_header_def is_genesis_parent_def hash_bool_def\<close>)
  obtain a where a: "add_header default_block_header (replicate 32 0) empty_graph = Some (applied, a)" "graph_ok a" "m_nodes a = [?n]"
    using rebuilt_ok [OF tree]
    by (auto simp: add_header_def push_node_def find_node_def empty_graph_def default_block_header_def is_genesis_parent_def hash_bool_def sample_node_def)
  have find: "find_node g ?h = Some 0" if "graph_ok g" "m_nodes g = [n]" "nd_hash n = ?h" for g n
    using that find_node_nth [OF graph_ok_tree, of g 0] by simp
  obtain b where b: "add_block_data ?h a = Some (applied, b)" "graph_ok b" "m_nodes b = [?n\<lparr>nd_has_block_data := True, nd_dirty := True\<rparr>]"
    using flag_update_ok [OF a(2), of 0 "\<lambda>n. n\<lparr>nd_has_block_data := True, nd_dirty := True\<rparr>"] find [OF a(2,3)] a(3)
    by (auto simp: add_block_data_def skeleton_def sample_node_def)
  obtain c where c: "mark_valid ?h b = Some (applied, c)" "graph_ok c" "m_nodes c = [sample_node]"
    using flag_update_ok [OF b(2), of 0 "\<lambda>n. n\<lparr>nd_valid := True, nd_dirty := True\<rparr>"] find [OF b(2,3)] b(3)
    by (auto simp: mark_valid_def skeleton_def sample_node_def)
  from a(1) b(1) c show ?thesis by (simp add: sample_ops_def)
qed

end
