(* ===== verification/Sha256_Eval.thy ===== *)
theory Sha256_Eval
  imports Sha256
begin

text \<open>
  Evaluation of SHA-256 on concrete messages by rewriting. The compression is repeated on natural
  numbers below \<open>2 ^ 32\<close>, where the simplifier computes with numerals.
\<close>

unbundle bit_operations_syntax

abbreviation u32_of :: "nat \<Rightarrow> u32" where "u32_of n \<equiv> of_nat n"

lemma bit_u32_of: "bit (u32_of n) i \<longleftrightarrow> i < 32 \<and> bit n i"
  by transfer (simp add: bit_simps)

lemma u32_of_bits: "u32_of (m AND n) = u32_of m AND u32_of n" "u32_of (m OR n) = u32_of m OR u32_of n" "u32_of (m XOR n) = u32_of m XOR u32_of n"
  by (rule bit_word_eqI; simp add: bit_u32_of bit_simps)+

lemma nat_bit_bound: "n < 2 ^ 32 \<Longrightarrow> bit (n :: nat) i \<Longrightarrow> i < 32"
  by (metis bit_take_bit_iff take_bit_nat_eq_self)

lemma u32_of_drop: "n < 2 ^ 32 \<Longrightarrow> u32_of (drop_bit k n) = drop_bit k (u32_of n)"
  by (rule bit_word_eqI) (auto simp add: bit_u32_of bit_simps dest: nat_bit_bound [simplified])

lemma u32_of_take: "u32_of (take_bit 32 n) = u32_of n"
  by (rule bit_word_eqI) (simp add: bit_u32_of bit_simps)

definition nat_rotr :: "nat \<Rightarrow> nat \<Rightarrow> nat \<Rightarrow> nat" where
  "nat_rotr n m x = drop_bit n x + push_bit m (take_bit n x)"

lemma nat_rotr_u32:
  assumes "x < 2 ^ 32" "n + m = 32"
  shows "u32_of (nat_rotr n m x) = drop_bit n (u32_of x) OR push_bit m (u32_of x)"
proof -
  have "nat_rotr n m x = drop_bit n x OR push_bit m (take_bit n x)"
    unfolding nat_rotr_def using nat_bit_bound [OF assms(1)] assms(2)
    by (intro disjunctive_add) (fastforce simp: bit_simps)
  moreover have "bit (u32_of (drop_bit n x OR push_bit m (take_bit n x))) i = bit (drop_bit n (u32_of x) OR push_bit m (u32_of x)) i" if "i < 32" for i
    using that nat_bit_bound [OF assms(1), of "n + i"] assms(2) by (auto simp: bit_u32_of bit_simps)
  ultimately show ?thesis by (intro bit_word_eqI) simp
qed

definition nat_Sigma0 :: "nat \<Rightarrow> nat" where
  "nat_Sigma0 x = nat_rotr 2 30 x XOR nat_rotr 13 19 x XOR nat_rotr 22 10 x"

definition nat_Sigma1 :: "nat \<Rightarrow> nat" where
  "nat_Sigma1 x = nat_rotr 6 26 x XOR nat_rotr 11 21 x XOR nat_rotr 25 7 x"

definition nat_sigma0 :: "nat \<Rightarrow> nat" where
  "nat_sigma0 x = nat_rotr 7 25 x XOR nat_rotr 18 14 x XOR drop_bit 3 x"

definition nat_sigma1 :: "nat \<Rightarrow> nat" where
  "nat_sigma1 x = nat_rotr 17 15 x XOR nat_rotr 19 13 x XOR drop_bit 10 x"

definition nat_Ch :: "nat \<Rightarrow> nat \<Rightarrow> nat \<Rightarrow> nat" where
  "nat_Ch x y z = z XOR (x AND (y XOR z))"

definition nat_Maj :: "nat \<Rightarrow> nat \<Rightarrow> nat \<Rightarrow> nat" where
  "nat_Maj x y z = (x AND y) OR (z AND (x OR y))"

type_synonym nat_regs = "nat \<times> nat \<times> nat \<times> nat \<times> nat \<times> nat \<times> nat \<times> nat"

fun u32_regs :: "nat_regs \<Rightarrow> sha_regs" where
  "u32_regs (a, b, c, d, e, f, g, h) = (u32_of a, u32_of b, u32_of c, u32_of d, u32_of e, u32_of f, u32_of g, u32_of h)"

fun regs_small :: "nat_regs \<Rightarrow> bool" where
  "regs_small (a, b, c, d, e, f, g, h) \<longleftrightarrow>
     a < 2 ^ 32 \<and> b < 2 ^ 32 \<and> c < 2 ^ 32 \<and> d < 2 ^ 32 \<and> e < 2 ^ 32 \<and> f < 2 ^ 32 \<and> g < 2 ^ 32 \<and> h < 2 ^ 32"

fun nat_update :: "nat_regs \<Rightarrow> nat \<Rightarrow> nat \<Rightarrow> nat_regs" where
  "nat_update (a, b, c, d, e, f, g, h) t1 t2 = (take_bit 32 (t1 + t2), a, b, c, take_bit 32 (d + t1), e, f, g)"

fun nat_Round :: "nat_regs \<Rightarrow> nat \<Rightarrow> nat_regs" where
  "nat_Round (a, b, c, d, e, f, g, h) k =
     nat_update (a, b, c, d, e, f, g, h) (h + nat_Sigma1 e + nat_Ch e f g + k) (nat_Sigma0 a + nat_Maj a b c)"

lemma u32_of_Sigma:
  assumes "x < 2 ^ 32"
  shows "u32_of (nat_Sigma0 x) = Sigma0 (u32_of x)" "u32_of (nat_Sigma1 x) = Sigma1 (u32_of x)"
    "u32_of (nat_sigma0 x) = sigma0 (u32_of x)" "u32_of (nat_sigma1 x) = sigma1 (u32_of x)"
  by (simp_all only: nat_Sigma0_def Sigma0_def nat_Sigma1_def Sigma1_def nat_sigma0_def sigma0_def
      nat_sigma1_def sigma1_def u32_of_bits u32_of_drop [OF assms]) (simp_all add: nat_rotr_u32 [OF assms])

lemma u32_of_Ch: "u32_of (nat_Ch x y z) = Ch (u32_of x) (u32_of y) (u32_of z)"
  by (simp only: nat_Ch_def Ch_def u32_of_bits)

lemma u32_of_Maj: "u32_of (nat_Maj x y z) = Maj (u32_of x) (u32_of y) (u32_of z)"
  by (simp only: nat_Maj_def Maj_def u32_of_bits)

lemma nat_Round_small: "regs_small s \<Longrightarrow> regs_small (nat_Round s k)"
  by (cases s rule: regs_small.cases) (simp add: take_bit_nat_less_exp [where n = 32, simplified])

lemma nat_Round_u32: "regs_small s \<Longrightarrow> u32_regs (nat_Round s k) = Round (u32_regs s) (u32_of k)"
  by (cases s rule: regs_small.cases) (simp add: Round_def Round_update_def u32_of_take u32_of_Sigma u32_of_Ch u32_of_Maj)

subsection \<open>The compression on natural numbers\<close>

definition nat_K_first :: "nat list" where
  "nat_K_first = map unat K_first"

definition nat_K_later :: "nat list" where
  "nat_K_later = map unat K_later"

fun nat_rounds :: "nat list \<Rightarrow> nat list \<Rightarrow> nat_regs \<Rightarrow> nat_regs" where
  "nat_rounds (k # ks) (w # ws) s = nat_rounds ks ws (nat_Round s (k + w))"
| "nat_rounds ks ws s = s"

definition nat_slide :: "nat list \<Rightarrow> nat list" where
  "nat_slide ws = tl ws @ [take_bit 32 (hd ws + (nat_sigma1 (ws ! 14) + ws ! 9 + nat_sigma0 (ws ! 1)))]"

definition nat_ring_step ::
  "(nat list \<Rightarrow> nat_regs \<Rightarrow> nat_regs) \<Rightarrow> nat \<Rightarrow> nat list \<Rightarrow> nat_regs \<Rightarrow> nat_regs" where
  "nat_ring_step later k ws s = later ws (nat_Round s (k + last ws))"

primrec nat_ring :: "nat list \<Rightarrow> nat list \<Rightarrow> nat_regs \<Rightarrow> nat_regs" where
  "nat_ring [] ws s = s"
| "nat_ring (k # ks) ws s = nat_ring_step (nat_ring ks) k (nat_slide ws) s"

fun nat_add_regs :: "nat_regs \<Rightarrow> nat_regs \<Rightarrow> nat_regs" where
  "nat_add_regs (a, b, c, d, e, f, g, h) (a', b', c', d', e', f', g', h') =
     (take_bit 32 (a + a'), take_bit 32 (b + b'), take_bit 32 (c + c'), take_bit 32 (d + d'),
      take_bit 32 (e + e'), take_bit 32 (f + f'), take_bit 32 (g + g'), take_bit 32 (h + h'))"

definition nat_compress :: "nat_regs \<Rightarrow> nat list \<Rightarrow> nat_regs" where
  "nat_compress s ws = nat_add_regs s (nat_ring nat_K_later ws (nat_rounds nat_K_first ws s))"

lemma nat_rounds_small: "regs_small s \<Longrightarrow> regs_small (nat_rounds ks ws s)"
  by (induction ks ws s rule: nat_rounds.induct) (simp_all add: nat_Round_small)

lemma nat_rounds_u32:
  "regs_small s \<Longrightarrow> u32_regs (nat_rounds ks ws s) = rounds (map of_nat ks) (map of_nat ws) (u32_regs s)"
  by (induction ks ws s rule: nat_rounds.induct) (simp_all add: nat_Round_small nat_Round_u32)

lemma nat_slide_u32:
  assumes "length ws = 16" and small: "list_all (\<lambda>w. w < 2 ^ 32) ws"
  shows "map of_nat (nat_slide ws) = slide (map of_nat ws)"
    and "length (nat_slide ws) = 16" and "list_all (\<lambda>w. w < 2 ^ 32) (nat_slide ws)"
proof -
  have "ws ! i < 2 ^ 32" if "i < 16" for i using assms that by (simp add: list_all_length)
  from u32_of_Sigma [OF this, of 14] u32_of_Sigma [OF this, of 1]
  show "map of_nat (nat_slide ws) = slide (map of_nat ws)"
    using assms(1) by (cases ws) (simp_all add: nat_slide_def slide_def u32_of_take)
  show "length (nat_slide ws) = 16" using assms(1) by (simp add: nat_slide_def)
  have "list_all (\<lambda>w. w < 2 ^ 32) (tl ws)" using small by (cases ws) simp_all
  then show "list_all (\<lambda>w. w < 2 ^ 32) (nat_slide ws)"
    by (simp add: nat_slide_def take_bit_nat_less_exp [where n = 32, simplified])
qed

lemma nat_ring_u32:
  assumes "regs_small s" "length ws = 16" "list_all (\<lambda>w. w < 2 ^ 32) ws"
  shows "regs_small (nat_ring ks ws s)
    \<and> u32_regs (nat_ring ks ws s) = ring_rounds (map of_nat ks) (map of_nat ws) (u32_regs s)"
  using assms
proof (induction ks arbitrary: ws s)
  case (Cons k ks)
  note slide = nat_slide_u32 [OF Cons.prems(2,3)]
  let ?s = "nat_Round s (k + last (nat_slide ws))"
  have "nat_slide ws \<noteq> []" using slide(2) by auto
  then have "u32_regs ?s = Round (u32_regs s) (u32_of k + last (slide (map of_nat ws)))"
    using Cons.prems(1) by (simp add: nat_Round_u32 last_map slide(1) [symmetric])
  with Cons.IH [of ?s "nat_slide ws"] show ?case
    using slide nat_Round_small [OF Cons.prems(1)] by (simp add: nat_ring_step_def ring_step_def)
qed simp

lemma nat_add_regs_u32:
  "u32_regs (nat_add_regs s t) = add_regs (u32_regs s) (u32_regs t)" "regs_small (nat_add_regs s t)"
  by (cases s rule: regs_small.cases, cases t rule: regs_small.cases,
      simp add: add_regs_def u32_of_take take_bit_nat_less_exp [where n = 32, simplified])+

lemma map_u32_unat: "map of_nat (map unat (ks :: u32 list)) = ks"
  by (simp add: comp_def)

lemma nat_compress_u32:
  assumes "regs_small s" "length ws = 16" "list_all (\<lambda>w. w < 2 ^ 32) ws" "chunk_words chunk = map of_nat ws"
  shows "Transform_chunk (u32_regs s) chunk = u32_regs (nat_compress s ws)"
  using nat_ring_u32 [OF nat_rounds_small [OF assms(1)] assms(2,3), of nat_K_later nat_K_first ws]
  by (simp add: Transform_chunk_def nat_compress_def nat_add_regs_u32 nat_rounds_u32 [OF assms(1)] assms(4)
      nat_K_first_def nat_K_later_def map_u32_unat del: map_map)

lemma nat_compress_small: "regs_small (nat_compress s ws)"
  by (simp add: nat_compress_def nat_add_regs_u32)


lemma nat_slide_eval:
  "nat_slide [a, b, c, d, e, f, g, h, i, j, k, l, m, n, p, q] =
     [b, c, d, e, f, g, h, i, j, k, l, m, n, p, q, take_bit 32 (a + (nat_sigma1 p + j + nat_sigma0 b))]"
  by (simp add: nat_slide_def)

lemma nat_ring_step_eval:
  "nat_ring_step later r [a, b, c, d, e, f, g, h, i, j, k, l, m, n, p, q] s =
     later [a, b, c, d, e, f, g, h, i, j, k, l, m, n, p, q] (nat_Round s (r + q))"
  by (simp add: nat_ring_step_def)

lemmas sha_eval = nat_compress_def nat_K_first_def nat_K_later_def K_first_def K_later_def nat_slide_eval nat_ring_step_eval
  nat_rotr_def nat_Sigma0_def nat_Sigma1_def nat_sigma0_def nat_sigma1_def nat_Ch_def nat_Maj_def

subsection \<open>Messages as big-endian words\<close>

definition nat_bytes :: "nat \<Rightarrow> nat list" where
  "nat_bytes w = [drop_bit 24 w, take_bit 8 (drop_bit 16 w), take_bit 8 (drop_bit 8 w), take_bit 8 w]"

definition be_bytes :: "nat list \<Rightarrow> byte list" where
  "be_bytes ws = map of_nat (concat (map nat_bytes ws))"

lemma be_bytes_simps [simp]: "be_bytes [] = []" "be_bytes (w # ws) = map of_nat (nat_bytes w) @ be_bytes ws"
  by (simp_all add: be_bytes_def)

lemma be_bytes_append: "be_bytes (us @ vs) = be_bytes us @ be_bytes vs"
  by (simp add: be_bytes_def)

lemma length_be_bytes [simp]: "length (be_bytes ws) = 4 * length ws"
  by (induction ws) (simp_all add: nat_bytes_def)

lemma byte_of_nat_bits: "bit (of_nat n :: byte) i \<longleftrightarrow> i < 8 \<and> bit n i"
  by transfer (simp add: bit_simps)

lemma nat_bytes_write: "w < 2 ^ 32 \<Longrightarrow> map of_nat (nat_bytes w) = WriteBE32 (u32_of w)"
  by (auto simp: nat_bytes_def WriteBE32_def bit_simps byte_of_nat_bits bit_u32_of
      intro!: bit_word_eqI)

lemma read_write_be32: "ReadBE32 (WriteBE32 w @ rest) = w"
proof (rule bit_word_eqI)
  fix n assume "n < LENGTH(32)"
  then consider "n < 8" | "8 \<le> n" "n < 16" | "16 \<le> n" "n < 24" | "24 \<le> n" "n < 32" by fastforce
  then show "bit (ReadBE32 (WriteBE32 w @ rest)) n = bit w n"
    by cases (auto simp: ReadBE32_def WriteBE32_def bit_simps)
qed

lemma chunk_words_be:
  assumes "length ws = 16" "list_all (\<lambda>w. w < 2 ^ 32) ws"
  shows "chunk_words (be_bytes ws) = map of_nat ws"
proof (rule nth_equalityI)
  fix i assume i: "i < length (chunk_words (be_bytes ws))"
  then have ws: "ws = take i ws @ ws ! i # drop (Suc i) ws" using assms(1) by (simp add: id_take_nth_drop)
  have "drop (4 * i) (be_bytes ws) = be_bytes (ws ! i # drop (Suc i) ws)"
    using i assms(1) by (subst ws) (simp only: be_bytes_append, simp)
  moreover have "ws ! i < 2 ^ 32" using i assms by (simp add: list_all_length)
  ultimately show "chunk_words (be_bytes ws) ! i = map of_nat ws ! i"
    using i assms(1) by (simp add: chunk_words_def nat_bytes_write read_write_be32)
qed (simp add: assms(1))

primrec nat_blocks :: "nat_regs \<Rightarrow> nat list list \<Rightarrow> nat_regs" where
  "nat_blocks s [] = s"
| "nat_blocks s (ws # blocks) = nat_blocks (nat_compress s ws) blocks"

definition block_words :: "nat list \<Rightarrow> bool" where
  "block_words ws \<longleftrightarrow> length ws = 16 \<and> list_all (\<lambda>w. w < 2 ^ 32) ws"

lemma Transform_be:
  "regs_small s \<Longrightarrow> list_all block_words blocks \<Longrightarrow>
   Transform (u32_regs s) (be_bytes (concat blocks)) (length blocks) = u32_regs (nat_blocks s blocks)"
proof (induction blocks arbitrary: s)
  case (Cons ws blocks)
  from Cons.prems have ws: "length ws = 16" "list_all (\<lambda>w. w < 2 ^ 32) ws" by (simp_all add: block_words_def)
  have "Transform_chunk (u32_regs s) (be_bytes ws) = u32_regs (nat_compress s ws)"
    using nat_compress_u32 [OF Cons.prems(1) ws chunk_words_be [OF ws]] .
  with Cons ws(1) show ?case by (simp add: be_bytes_append nat_compress_small)
qed simp

definition nat_init :: nat_regs where
  "nat_init = (0x6a09e667, 0xbb67ae85, 0x3c6ef372, 0xa54ff53a, 0x510e527f, 0x9b05688c, 0x1f83d9ab, 0x5be0cd19)"

lemma nat_init_u32: "u32_regs nat_init = Initialize" "regs_small nat_init"
  by (simp_all add: nat_init_def Initialize_def)

fun regs_list :: "nat_regs \<Rightarrow> nat list" where
  "regs_list (a, b, c, d, e, f, g, h) = [a, b, c, d, e, f, g, h]"

lemma regs_list_facts: "length (regs_list s) = 8" "list_all (\<lambda>w. w < 2 ^ 32) (regs_list s) \<longleftrightarrow> regs_small s"
  by (cases s rule: regs_small.cases; simp)+

lemma output_regs_be: "regs_small s \<Longrightarrow> output_regs (u32_regs s) = be_bytes (regs_list s)"
  by (cases s rule: regs_small.cases) (simp add: output_regs_def nat_bytes_write)

lemma nat_blocks_small: "regs_small s \<Longrightarrow> regs_small (nat_blocks s blocks)"
  by (induction blocks arbitrary: s) (simp_all add: nat_compress_small)

lemma sha256_be:
  assumes "xs @ padding xs = be_bytes (concat blocks)" and "list_all block_words blocks"
  shows "sha256 xs = be_bytes (regs_list (nat_blocks nat_init blocks))"
proof -
  have "length (concat blocks) = 16 * length blocks"
    using assms(2) by (induction blocks) (simp_all add: block_words_def)
  then have "length (xs @ padding xs) div 64 = length blocks" unfolding assms(1) by simp
  moreover have "Transform Initialize (be_bytes (concat blocks)) (length blocks) = u32_regs (nat_blocks nat_init blocks)"
    using Transform_be [OF nat_init_u32(2) assms(2)] by (simp only: nat_init_u32(1))
  ultimately have "sha256 xs = output_regs (u32_regs (nat_blocks nat_init blocks))"
    unfolding sha256_def assms(1) by simp
  then show ?thesis using output_regs_be [OF nat_blocks_small [OF nat_init_u32(2)]] by simp
qed

definition digest_padding :: "nat list" where
  "digest_padding = [0x80000000, 0, 0, 0, 0, 0, 0, 256]"

lemma replicate_eval: "replicate (numeral k) x = x # replicate (pred_numeral k) x"
  by (simp add: numeral_eq_Suc)

lemma padding_digest: "length xs = 32 \<Longrightarrow> padding xs = be_bytes digest_padding"
proof -
  assume "length xs = 32"
  then show ?thesis by (simp add: padding_def digest_padding_def nat_bytes_def WriteBE64_def replicate_eval)
qed

theorem double_sha256_be:
  assumes "xs @ padding xs = be_bytes (concat blocks)" and "list_all block_words blocks"
    and first: "nat_blocks nat_init blocks = s"
    and second: "nat_compress nat_init (regs_list s @ digest_padding) = t"
  shows "double_sha256 xs = be_bytes (regs_list t)"
proof -
  have s: "sha256 xs = be_bytes (regs_list s)" using sha256_be [OF assms(1,2)] first by simp
  have "regs_small s" using nat_blocks_small [OF nat_init_u32(2), of blocks] first by simp
  then have "list_all block_words [regs_list s @ digest_padding]"
    by (simp add: block_words_def regs_list_facts [simplified]) (simp add: digest_padding_def)
  moreover have "sha256 xs @ padding (sha256 xs) = be_bytes (concat [regs_list s @ digest_padding])"
    by (simp add: padding_digest) (simp add: s be_bytes_append)
  ultimately have "sha256 (sha256 xs) = be_bytes (regs_list (nat_blocks nat_init [regs_list s @ digest_padding]))"
    by (intro sha256_be)
  then show ?thesis by (simp add: double_sha256_def second)
qed

end
