(* ===== verification/Hash_Samples.thy ===== *)
theory Hash_Samples
  imports Codec_Write Sha256_Eval
begin

text \<open>
  The first two blocks of the main network, as values of the model, with the hashes of their headers
  and of their coinbase transactions computed by rewriting. Each compression of a 64-byte chunk is a
  lemma of its own; the identifiers follow from them with \<open>double_sha256_be\<close>.
\<close>

unbundle bit_operations_syntax

lemma write_eval:
  "write_little_endian v 4 = [ucast (v AND 0xff), ucast (drop_bit 8 v AND 0xff), ucast (drop_bit 16 v AND 0xff),
     ucast (drop_bit 24 v AND 0xff)]"
  "write_little_endian v 8 = [ucast (v AND 0xff), ucast (drop_bit 8 v AND 0xff), ucast (drop_bit 16 v AND 0xff),
     ucast (drop_bit 24 v AND 0xff), ucast (drop_bit 32 v AND 0xff), ucast (drop_bit 40 v AND 0xff),
     ucast (drop_bit 48 v AND 0xff), ucast (drop_bit 56 v AND 0xff)]"
  by (simp_all add: write_little_endian_def upt_rec)

definition sample_coinbase0 :: transaction where
  "sample_coinbase0 =
     \<lparr>tx_version = 1,
      tx_inputs = [\<lparr>previous_output = outpoint_null, input_script = [
       0x04, 0xff, 0xff, 0x00, 0x1d, 0x01, 0x04, 0x45, 0x54, 0x68, 0x65, 0x20, 0x54, 0x69, 0x6d,
       0x65, 0x73, 0x20, 0x30, 0x33, 0x2f, 0x4a, 0x61, 0x6e, 0x2f, 0x32, 0x30, 0x30, 0x39, 0x20,
       0x43, 0x68, 0x61, 0x6e, 0x63, 0x65, 0x6c, 0x6c, 0x6f, 0x72, 0x20, 0x6f, 0x6e, 0x20, 0x62,
       0x72, 0x69, 0x6e, 0x6b, 0x20, 0x6f, 0x66, 0x20, 0x73, 0x65, 0x63, 0x6f, 0x6e, 0x64, 0x20,
       0x62, 0x61, 0x69, 0x6c, 0x6f, 0x75, 0x74, 0x20, 0x66, 0x6f, 0x72, 0x20, 0x62, 0x61, 0x6e,
       0x6b, 0x73],
        input_sequence = 0xffffffff, input_witness = []\<rparr>],
      tx_outputs = [\<lparr>output_value = 5000000000, output_script = [
       0x41, 0x04, 0x67, 0x8a, 0xfd, 0xb0, 0xfe, 0x55, 0x48, 0x27, 0x19, 0x67, 0xf1, 0xa6, 0x71,
       0x30, 0xb7, 0x10, 0x5c, 0xd6, 0xa8, 0x28, 0xe0, 0x39, 0x09, 0xa6, 0x79, 0x62, 0xe0, 0xea,
       0x1f, 0x61, 0xde, 0xb6, 0x49, 0xf6, 0xbc, 0x3f, 0x4c, 0xef, 0x38, 0xc4, 0xf3, 0x55, 0x04,
       0xe5, 0x1e, 0xc1, 0x12, 0xde, 0x5c, 0x38, 0x4d, 0xf7, 0xba, 0x0b, 0x8d, 0x57, 0x8a, 0x4c,
       0x70, 0x2b, 0x6b, 0xf1, 0x1d, 0x5f, 0xac]\<rparr>],
      tx_locktime = 0\<rparr>"

definition sample_coinbase1 :: transaction where
  "sample_coinbase1 =
     \<lparr>tx_version = 1,
      tx_inputs = [\<lparr>previous_output = outpoint_null, input_script = [
       0x04, 0xff, 0xff, 0x00, 0x1d, 0x01, 0x04],
        input_sequence = 0xffffffff, input_witness = []\<rparr>],
      tx_outputs = [\<lparr>output_value = 5000000000, output_script = [
       0x41, 0x04, 0x96, 0xb5, 0x38, 0xe8, 0x53, 0x51, 0x9c, 0x72, 0x6a, 0x2c, 0x91, 0xe6, 0x1e,
       0xc1, 0x16, 0x00, 0xae, 0x13, 0x90, 0x81, 0x3a, 0x62, 0x7c, 0x66, 0xfb, 0x8b, 0xe7, 0x94,
       0x7b, 0xe6, 0x3c, 0x52, 0xda, 0x75, 0x89, 0x37, 0x95, 0x15, 0xd4, 0xe0, 0xa6, 0x04, 0xf8,
       0x14, 0x17, 0x81, 0xe6, 0x22, 0x94, 0x72, 0x11, 0x66, 0xbf, 0x62, 0x1e, 0x73, 0xa8, 0x2c,
       0xbf, 0x23, 0x42, 0xc8, 0x58, 0xee, 0xac]\<rparr>],
      tx_locktime = 0\<rparr>"

definition sample_header0 :: block_header where
  "sample_header0 =
     \<lparr>hdr_version = 1, previous_block_hash = null_hash,
      hdr_merkle_root = [
       0x3b, 0xa3, 0xed, 0xfd, 0x7a, 0x7b, 0x12, 0xb2, 0x7a, 0xc7, 0x2c, 0x3e, 0x67, 0x76, 0x8f,
       0x61, 0x7f, 0xc8, 0x1b, 0xc3, 0x88, 0x8a, 0x51, 0x32, 0x3a, 0x9f, 0xb8, 0xaa, 0x4b, 0x1e,
       0x5e, 0x4a],
      hdr_time = 1231006505, hdr_bits = 0x1d00ffff, hdr_nonce = 2083236893\<rparr>"

definition sample_header1 :: block_header where
  "sample_header1 =
     \<lparr>hdr_version = 1, previous_block_hash = [
       0x6f, 0xe2, 0x8c, 0x0a, 0xb6, 0xf1, 0xb3, 0x72, 0xc1, 0xa6, 0xa2, 0x46, 0xae, 0x63, 0xf7,
       0x4f, 0x93, 0x1e, 0x83, 0x65, 0xe1, 0x5a, 0x08, 0x9c, 0x68, 0xd6, 0x19, 0x00, 0x00, 0x00,
       0x00, 0x00],
      hdr_merkle_root = [
       0x98, 0x20, 0x51, 0xfd, 0x1e, 0x4b, 0xa7, 0x44, 0xbb, 0xbe, 0x68, 0x0e, 0x1f, 0xee, 0x14,
       0x67, 0x7b, 0xa1, 0xa3, 0xc3, 0x54, 0x0b, 0xf7, 0xb1, 0xcd, 0xb6, 0x06, 0xe8, 0x57, 0x23,
       0x3e, 0x0e],
      hdr_time = 1231469665, hdr_bits = 0x1d00ffff, hdr_nonce = 2573394689\<rparr>"

lemma sample_id0_chunk0:
  "nat_compress nat_init [
       0x01000000, 0x01000000, 0x00000000, 0x00000000, 0x00000000, 0x00000000, 0x00000000,
       0x00000000, 0x00000000, 0x00ffffff, 0xff4d04ff, 0xff001d01, 0x04455468, 0x65205469,
       0x6d657320, 0x30332f4a] =
     (
     0x784bb286, 0x13f4405f, 0x91469755, 0x6fc80954, 0x6128c369, 0x0f10baa9, 0x8e6db556,
     0xfc6c2c8f)"
  by (simp add: sha_eval nat_init_def)

lemma sample_id0_chunk1:
  "nat_compress (
     0x784bb286, 0x13f4405f, 0x91469755, 0x6fc80954, 0x6128c369, 0x0f10baa9, 0x8e6db556,
     0xfc6c2c8f) [
       0x616e2f32, 0x30303920, 0x4368616e, 0x63656c6c, 0x6f72206f, 0x6e206272, 0x696e6b20,
       0x6f662073, 0x65636f6e, 0x64206261, 0x696c6f75, 0x7420666f, 0x72206261, 0x6e6b73ff,
       0xffffff01, 0x00f2052a] =
     (
     0x8f400688, 0x5739742f, 0xe3f272b0, 0x93682f9a, 0x986081f3, 0x020f01c2, 0x3c7c6636,
     0x517f57ae)"
  by (simp add: sha_eval)

lemma sample_id0_chunk2:
  "nat_compress (
     0x8f400688, 0x5739742f, 0xe3f272b0, 0x93682f9a, 0x986081f3, 0x020f01c2, 0x3c7c6636,
     0x517f57ae) [
       0x01000000, 0x43410467, 0x8afdb0fe, 0x55482719, 0x67f1a671, 0x30b7105c, 0xd6a828e0,
       0x3909a679, 0x62e0ea1f, 0x61deb649, 0xf6bc3f4c, 0xef38c4f3, 0x5504e51e, 0xc112de5c,
       0x384df7ba, 0x0b8d578a] =
     (
     0xdc93e08a, 0x63d00ba1, 0x0d08f9f2, 0x502cbc11, 0x2789c50f, 0x733a67e2, 0x689d1d46,
     0x51b48f2e)"
  by (simp add: sha_eval)

lemma sample_id0_chunk3:
  "nat_compress (
     0xdc93e08a, 0x63d00ba1, 0x0d08f9f2, 0x502cbc11, 0x2789c50f, 0x733a67e2, 0x689d1d46,
     0x51b48f2e) [
       0x4c702b6b, 0xf11d5fac, 0x00000000, 0x80000000, 0x00000000, 0x00000000, 0x00000000,
       0x00000000, 0x00000000, 0x00000000, 0x00000000, 0x00000000, 0x00000000, 0x00000000,
       0x00000000, 0x00000660] =
     (
     0x27362e66, 0xe032c731, 0xc1c8519f, 0x43063fe0, 0xe5d070db, 0x1c0c3552, 0xbb04afa1,
     0x8a31c6bf)"
  by (simp add: sha_eval)

lemma sample_id0_second:
  "nat_compress nat_init [
       0x27362e66, 0xe032c731, 0xc1c8519f, 0x43063fe0, 0xe5d070db, 0x1c0c3552, 0xbb04afa1,
       0x8a31c6bf, 0x80000000, 0x00000000, 0x00000000, 0x00000000, 0x00000000, 0x00000000,
       0x00000000, 0x00000100] =
     (
     0x3ba3edfd, 0x7a7b12b2, 0x7ac72c3e, 0x67768f61, 0x7fc81bc3, 0x888a5132, 0x3a9fb8aa,
     0x4b1e5e4a)"
  by (simp add: sha_eval nat_init_def)

lemma sample_id0_message:
  "transaction_bytes False sample_coinbase0 @ padding (transaction_bytes False sample_coinbase0) = be_bytes (concat [[
       0x01000000, 0x01000000, 0x00000000, 0x00000000, 0x00000000, 0x00000000, 0x00000000,
       0x00000000, 0x00000000, 0x00ffffff, 0xff4d04ff, 0xff001d01, 0x04455468, 0x65205469,
       0x6d657320, 0x30332f4a],
     [
       0x616e2f32, 0x30303920, 0x4368616e, 0x63656c6c, 0x6f72206f, 0x6e206272, 0x696e6b20,
       0x6f662073, 0x65636f6e, 0x64206261, 0x696c6f75, 0x7420666f, 0x72206261, 0x6e6b73ff,
       0xffffff01, 0x00f2052a],
     [
       0x01000000, 0x43410467, 0x8afdb0fe, 0x55482719, 0x67f1a671, 0x30b7105c, 0xd6a828e0,
       0x3909a679, 0x62e0ea1f, 0x61deb649, 0xf6bc3f4c, 0xef38c4f3, 0x5504e51e, 0xc112de5c,
       0x384df7ba, 0x0b8d578a],
     [
       0x4c702b6b, 0xf11d5fac, 0x00000000, 0x80000000, 0x00000000, 0x00000000, 0x00000000,
       0x00000000, 0x00000000, 0x00000000, 0x00000000, 0x00000000, 0x00000000, 0x00000000,
       0x00000000, 0x00000660]])"
  by (simp add: padding_def WriteBE64_def nat_bytes_def replicate_eval write_eval transaction_bytes_def vector_bytes_def input_bytes_def output_bytes_def var_bytes_def compact_size_bytes_def outpoint_null_def null_hash_def sample_coinbase0_def)

lemma sample_id0:
  "transaction_id sample_coinbase0 = [
       0x3b, 0xa3, 0xed, 0xfd, 0x7a, 0x7b, 0x12, 0xb2, 0x7a, 0xc7, 0x2c, 0x3e, 0x67, 0x76, 0x8f,
       0x61, 0x7f, 0xc8, 0x1b, 0xc3, 0x88, 0x8a, 0x51, 0x32, 0x3a, 0x9f, 0xb8, 0xaa, 0x4b, 0x1e,
       0x5e, 0x4a]"
proof -
  have "double_sha256 (transaction_bytes False sample_coinbase0) = be_bytes (regs_list (
     0x3ba3edfd, 0x7a7b12b2, 0x7ac72c3e, 0x67768f61, 0x7fc81bc3, 0x888a5132, 0x3a9fb8aa,
     0x4b1e5e4a))"
    by (rule double_sha256_be [OF sample_id0_message], simp add: block_words_def, simp add: sample_id0_chunk0 sample_id0_chunk1 sample_id0_chunk2 sample_id0_chunk3,
      simp add: digest_padding_def sample_id0_second)
  then show ?thesis by (simp add: nat_bytes_def transaction_id_bytes)
qed

lemma sample_hash0_chunk0:
  "nat_compress nat_init [
       0x01000000, 0x00000000, 0x00000000, 0x00000000, 0x00000000, 0x00000000, 0x00000000,
       0x00000000, 0x00000000, 0x3ba3edfd, 0x7a7b12b2, 0x7ac72c3e, 0x67768f61, 0x7fc81bc3,
       0x888a5132, 0x3a9fb8aa] =
     (
     0xbc909a33, 0x6358bff0, 0x90ccac7d, 0x1e59caa8, 0xc3c8d8e9, 0x4f0103c8, 0x96b18736,
     0x4719f91b)"
  by (simp add: sha_eval nat_init_def)

lemma sample_hash0_chunk1:
  "nat_compress (
     0xbc909a33, 0x6358bff0, 0x90ccac7d, 0x1e59caa8, 0xc3c8d8e9, 0x4f0103c8, 0x96b18736,
     0x4719f91b) [
       0x4b1e5e4a, 0x29ab5f49, 0xffff001d, 0x1dac2b7c, 0x80000000, 0x00000000, 0x00000000,
       0x00000000, 0x00000000, 0x00000000, 0x00000000, 0x00000000, 0x00000000, 0x00000000,
       0x00000000, 0x00000280] =
     (
     0xaf42031e, 0x805ff493, 0xa07341e2, 0xf74ff581, 0x49d22ab9, 0xba19f613, 0x43e2c86c,
     0x71c5d66d)"
  by (simp add: sha_eval)

lemma sample_hash0_second:
  "nat_compress nat_init [
       0xaf42031e, 0x805ff493, 0xa07341e2, 0xf74ff581, 0x49d22ab9, 0xba19f613, 0x43e2c86c,
       0x71c5d66d, 0x80000000, 0x00000000, 0x00000000, 0x00000000, 0x00000000, 0x00000000,
       0x00000000, 0x00000100] =
     (
     0x6fe28c0a, 0xb6f1b372, 0xc1a6a246, 0xae63f74f, 0x931e8365, 0xe15a089c, 0x68d61900,
     0x00000000)"
  by (simp add: sha_eval nat_init_def)

lemma sample_hash0_message:
  "header_bytes sample_header0 @ padding (header_bytes sample_header0) = be_bytes (concat [[
       0x01000000, 0x00000000, 0x00000000, 0x00000000, 0x00000000, 0x00000000, 0x00000000,
       0x00000000, 0x00000000, 0x3ba3edfd, 0x7a7b12b2, 0x7ac72c3e, 0x67768f61, 0x7fc81bc3,
       0x888a5132, 0x3a9fb8aa],
     [
       0x4b1e5e4a, 0x29ab5f49, 0xffff001d, 0x1dac2b7c, 0x80000000, 0x00000000, 0x00000000,
       0x00000000, 0x00000000, 0x00000000, 0x00000000, 0x00000000, 0x00000000, 0x00000000,
       0x00000000, 0x00000280]])"
  by (simp add: padding_def WriteBE64_def nat_bytes_def replicate_eval write_eval header_bytes_def sample_header0_def null_hash_def)

lemma sample_hash0:
  "header_hash sample_header0 = [
       0x6f, 0xe2, 0x8c, 0x0a, 0xb6, 0xf1, 0xb3, 0x72, 0xc1, 0xa6, 0xa2, 0x46, 0xae, 0x63, 0xf7,
       0x4f, 0x93, 0x1e, 0x83, 0x65, 0xe1, 0x5a, 0x08, 0x9c, 0x68, 0xd6, 0x19, 0x00, 0x00, 0x00,
       0x00, 0x00]"
proof -
  have "double_sha256 (header_bytes sample_header0) = be_bytes (regs_list (
     0x6fe28c0a, 0xb6f1b372, 0xc1a6a246, 0xae63f74f, 0x931e8365, 0xe15a089c, 0x68d61900,
     0x00000000))"
    by (rule double_sha256_be [OF sample_hash0_message], simp add: block_words_def, simp add: sample_hash0_chunk0 sample_hash0_chunk1,
      simp add: digest_padding_def sample_hash0_second)
  then show ?thesis by (simp add: nat_bytes_def header_hash_bytes)
qed

lemma sample_id1_chunk0:
  "nat_compress nat_init [
       0x01000000, 0x01000000, 0x00000000, 0x00000000, 0x00000000, 0x00000000, 0x00000000,
       0x00000000, 0x00000000, 0x00ffffff, 0xff0704ff, 0xff001d01, 0x04ffffff, 0xff0100f2,
       0x052a0100, 0x00004341] =
     (
     0x28f00844, 0x2c18cb0f, 0x27a48fa1, 0xae6faa14, 0x04881963, 0xd0a4b130, 0xa05978f3,
     0x66922f64)"
  by (simp add: sha_eval nat_init_def)

lemma sample_id1_chunk1:
  "nat_compress (
     0x28f00844, 0x2c18cb0f, 0x27a48fa1, 0xae6faa14, 0x04881963, 0xd0a4b130, 0xa05978f3,
     0x66922f64) [
       0x0496b538, 0xe853519c, 0x726a2c91, 0xe61ec116, 0x00ae1390, 0x813a627c, 0x66fb8be7,
       0x947be63c, 0x52da7589, 0x379515d4, 0xe0a604f8, 0x141781e6, 0x22947211, 0x66bf621e,
       0x73a82cbf, 0x2342c858] =
     (
     0x0a066beb, 0xb4720ae5, 0x34b68492, 0x09f878ed, 0xd4ff18e0, 0x0c2a3404, 0x94d672b4,
     0x20907ac5)"
  by (simp add: sha_eval)

lemma sample_id1_chunk2:
  "nat_compress (
     0x0a066beb, 0xb4720ae5, 0x34b68492, 0x09f878ed, 0xd4ff18e0, 0x0c2a3404, 0x94d672b4,
     0x20907ac5) [
       0xeeac0000, 0x00008000, 0x00000000, 0x00000000, 0x00000000, 0x00000000, 0x00000000,
       0x00000000, 0x00000000, 0x00000000, 0x00000000, 0x00000000, 0x00000000, 0x00000000,
       0x00000000, 0x00000430] =
     (
     0x1e120c45, 0x18057868, 0x8c4aa403, 0xb2e1e303, 0x20baede0, 0x1c402078, 0xcce5d42c,
     0xa1446ca6)"
  by (simp add: sha_eval)

lemma sample_id1_second:
  "nat_compress nat_init [
       0x1e120c45, 0x18057868, 0x8c4aa403, 0xb2e1e303, 0x20baede0, 0x1c402078, 0xcce5d42c,
       0xa1446ca6, 0x80000000, 0x00000000, 0x00000000, 0x00000000, 0x00000000, 0x00000000,
       0x00000000, 0x00000100] =
     (
     0x982051fd, 0x1e4ba744, 0xbbbe680e, 0x1fee1467, 0x7ba1a3c3, 0x540bf7b1, 0xcdb606e8,
     0x57233e0e)"
  by (simp add: sha_eval nat_init_def)

lemma sample_id1_message:
  "transaction_bytes False sample_coinbase1 @ padding (transaction_bytes False sample_coinbase1) = be_bytes (concat [[
       0x01000000, 0x01000000, 0x00000000, 0x00000000, 0x00000000, 0x00000000, 0x00000000,
       0x00000000, 0x00000000, 0x00ffffff, 0xff0704ff, 0xff001d01, 0x04ffffff, 0xff0100f2,
       0x052a0100, 0x00004341],
     [
       0x0496b538, 0xe853519c, 0x726a2c91, 0xe61ec116, 0x00ae1390, 0x813a627c, 0x66fb8be7,
       0x947be63c, 0x52da7589, 0x379515d4, 0xe0a604f8, 0x141781e6, 0x22947211, 0x66bf621e,
       0x73a82cbf, 0x2342c858],
     [
       0xeeac0000, 0x00008000, 0x00000000, 0x00000000, 0x00000000, 0x00000000, 0x00000000,
       0x00000000, 0x00000000, 0x00000000, 0x00000000, 0x00000000, 0x00000000, 0x00000000,
       0x00000000, 0x00000430]])"
  by (simp add: padding_def WriteBE64_def nat_bytes_def replicate_eval write_eval transaction_bytes_def vector_bytes_def input_bytes_def output_bytes_def var_bytes_def compact_size_bytes_def outpoint_null_def null_hash_def sample_coinbase1_def)

lemma sample_id1:
  "transaction_id sample_coinbase1 = [
       0x98, 0x20, 0x51, 0xfd, 0x1e, 0x4b, 0xa7, 0x44, 0xbb, 0xbe, 0x68, 0x0e, 0x1f, 0xee, 0x14,
       0x67, 0x7b, 0xa1, 0xa3, 0xc3, 0x54, 0x0b, 0xf7, 0xb1, 0xcd, 0xb6, 0x06, 0xe8, 0x57, 0x23,
       0x3e, 0x0e]"
proof -
  have "double_sha256 (transaction_bytes False sample_coinbase1) = be_bytes (regs_list (
     0x982051fd, 0x1e4ba744, 0xbbbe680e, 0x1fee1467, 0x7ba1a3c3, 0x540bf7b1, 0xcdb606e8,
     0x57233e0e))"
    by (rule double_sha256_be [OF sample_id1_message], simp add: block_words_def, simp add: sample_id1_chunk0 sample_id1_chunk1 sample_id1_chunk2,
      simp add: digest_padding_def sample_id1_second)
  then show ?thesis by (simp add: nat_bytes_def transaction_id_bytes)
qed

lemma sample_hash1_chunk0:
  "nat_compress nat_init [
       0x01000000, 0x6fe28c0a, 0xb6f1b372, 0xc1a6a246, 0xae63f74f, 0x931e8365, 0xe15a089c,
       0x68d61900, 0x00000000, 0x982051fd, 0x1e4ba744, 0xbbbe680e, 0x1fee1467, 0x7ba1a3c3,
       0x540bf7b1, 0xcdb606e8] =
     (
     0xa9f61323, 0x7fbb2a30, 0x066ca2d4, 0x7d617869, 0xccbd0ee0, 0x28757b75, 0x5ff2646f,
     0x0e7501ac)"
  by (simp add: sha_eval nat_init_def)

lemma sample_hash1_chunk1:
  "nat_compress (
     0xa9f61323, 0x7fbb2a30, 0x066ca2d4, 0x7d617869, 0xccbd0ee0, 0x28757b75, 0x5ff2646f,
     0x0e7501ac) [
       0x57233e0e, 0x61bc6649, 0xffff001d, 0x01e36299, 0x80000000, 0x00000000, 0x00000000,
       0x00000000, 0x00000000, 0x00000000, 0x00000000, 0x00000000, 0x00000000, 0x00000000,
       0x00000000, 0x00000280] =
     (
     0xa76dd737, 0x90def7b5, 0x7776f22f, 0xa211d19c, 0xf43121a7, 0x09a37eae, 0xda17230e,
     0xaac258f5)"
  by (simp add: sha_eval)

lemma sample_hash1_second:
  "nat_compress nat_init [
       0xa76dd737, 0x90def7b5, 0x7776f22f, 0xa211d19c, 0xf43121a7, 0x09a37eae, 0xda17230e,
       0xaac258f5, 0x80000000, 0x00000000, 0x00000000, 0x00000000, 0x00000000, 0x00000000,
       0x00000000, 0x00000100] =
     (
     0x4860eb18, 0xbf1b1620, 0xe37e9490, 0xfc8a4275, 0x14416fd7, 0x5159ab86, 0x688e9a83,
     0x00000000)"
  by (simp add: sha_eval nat_init_def)

lemma sample_hash1_message:
  "header_bytes sample_header1 @ padding (header_bytes sample_header1) = be_bytes (concat [[
       0x01000000, 0x6fe28c0a, 0xb6f1b372, 0xc1a6a246, 0xae63f74f, 0x931e8365, 0xe15a089c,
       0x68d61900, 0x00000000, 0x982051fd, 0x1e4ba744, 0xbbbe680e, 0x1fee1467, 0x7ba1a3c3,
       0x540bf7b1, 0xcdb606e8],
     [
       0x57233e0e, 0x61bc6649, 0xffff001d, 0x01e36299, 0x80000000, 0x00000000, 0x00000000,
       0x00000000, 0x00000000, 0x00000000, 0x00000000, 0x00000000, 0x00000000, 0x00000000,
       0x00000000, 0x00000280]])"
  by (simp add: padding_def WriteBE64_def nat_bytes_def replicate_eval write_eval header_bytes_def sample_header1_def)

lemma sample_hash1:
  "header_hash sample_header1 = [
       0x48, 0x60, 0xeb, 0x18, 0xbf, 0x1b, 0x16, 0x20, 0xe3, 0x7e, 0x94, 0x90, 0xfc, 0x8a, 0x42,
       0x75, 0x14, 0x41, 0x6f, 0xd7, 0x51, 0x59, 0xab, 0x86, 0x68, 0x8e, 0x9a, 0x83, 0x00, 0x00,
       0x00, 0x00]"
proof -
  have "double_sha256 (header_bytes sample_header1) = be_bytes (regs_list (
     0x4860eb18, 0xbf1b1620, 0xe37e9490, 0xfc8a4275, 0x14416fd7, 0x5159ab86, 0x688e9a83,
     0x00000000))"
    by (rule double_sha256_be [OF sample_hash1_message], simp add: block_words_def, simp add: sample_hash1_chunk0 sample_hash1_chunk1,
      simp add: digest_padding_def sample_hash1_second)
  then show ?thesis by (simp add: nat_bytes_def header_hash_bytes)
qed

text \<open>The digest of the three bytes the standard gives as its first example.\<close>

lemma sample_abc_chunk:
  "nat_compress nat_init [
       0x61626380, 0x00000000, 0x00000000, 0x00000000, 0x00000000, 0x00000000, 0x00000000,
       0x00000000, 0x00000000, 0x00000000, 0x00000000, 0x00000000, 0x00000000, 0x00000000,
       0x00000000, 0x00000018] =
     (
     0xba7816bf, 0x8f01cfea, 0x414140de, 0x5dae2223, 0xb00361a3, 0x96177a9c, 0xb410ff61,
     0xf20015ad)"
  by (simp add: sha_eval nat_init_def)

lemma sample_abc:
  "sha256 [0x61, 0x62, 0x63] = [
       0xba, 0x78, 0x16, 0xbf, 0x8f, 0x01, 0xcf, 0xea, 0x41, 0x41, 0x40, 0xde, 0x5d, 0xae, 0x22,
       0x23, 0xb0, 0x03, 0x61, 0xa3, 0x96, 0x17, 0x7a, 0x9c, 0xb4, 0x10, 0xff, 0x61, 0xf2, 0x00,
       0x15, 0xad]"
proof -
  have "[0x61, 0x62, 0x63] @ padding [0x61, 0x62, 0x63] = be_bytes (concat [[
       0x61626380, 0x00000000, 0x00000000, 0x00000000, 0x00000000, 0x00000000, 0x00000000,
       0x00000000, 0x00000000, 0x00000000, 0x00000000, 0x00000000, 0x00000000, 0x00000000,
       0x00000000, 0x00000018]])"
    by (simp add: padding_def WriteBE64_def nat_bytes_def replicate_eval)
  from sha256_be [OF this] show ?thesis
    by (simp add: block_words_def sample_abc_chunk nat_bytes_def)
qed

end
