(* ===== verification/Chain_Samples.thy ===== *)
theory Chain_Samples
  imports Verify_Block Hash_Samples
begin

text \<open>
  The first two blocks of the main network are accepted by the composed verification under the
  parameters of that network, and leave a ledger of two coins. The blocks hold nothing but a coinbase
  with one output, so the acceptance of such blocks is proved once.
\<close>

definition sample_mainnet :: consensus_params where
  "sample_mainnet = \<lparr>pow_limit = replicate 28 0xff @ replicate 4 0, target_spacing = 600,
     target_timespan = 1209600, max_timewarp = 600, allow_min_difficulty_blocks = False,
     no_retargeting = False, enforce_bip94 = False, minimum_block_version = 1\<rparr>"

definition sample_rules :: block_validation_context where
  "sample_rules = \<lparr>bv_consensus = sample_mainnet, bv_limits = default_block_limits,
     bv_deployments = \<lparr>segwit_active = False, height_in_coinbase_active = False\<rparr>,
     bv_spend_deployments = \<lparr>enforce_bip30 = True\<rparr>, bv_locktime = 0, bv_flags = 0,
     bv_subsidy = 5000000000, bv_coinbase_maturity = 100, bv_max_sigop_cost = 80000\<rparr>"

definition sample_block0 :: block where
  "sample_block0 = \<lparr>blk_header = sample_header0, blk_transactions = [sample_coinbase0]\<rparr>"

definition sample_block1 :: block where
  "sample_block1 = \<lparr>blk_header = sample_header1, blk_transactions = [sample_coinbase1]\<rparr>"

subsection \<open>Blocks that hold a coinbase with one output\<close>

definition plain_coinbase :: "transaction \<Rightarrow> bool" where
  "plain_coinbase cb \<longleftrightarrow>
     (\<exists>inp out. tx_inputs cb = [inp] \<and> tx_outputs cb = [out] \<and> tx_locktime cb = 0 \<and>
        previous_output inp = outpoint_null \<and> input_witness inp = [] \<and>
        2 \<le> length (input_script inp) \<and> length (input_script inp) \<le> 100 \<and>
        length (output_script out) \<le> 100 \<and> output_value out = 5000000000)"

lemma plain_coinbaseE:
  assumes "plain_coinbase cb"
  obtains inp out where "tx_inputs cb = [inp]" "tx_outputs cb = [out]" "tx_locktime cb = 0"
    "previous_output inp = outpoint_null" "input_witness inp = []"
    "2 \<le> length (input_script inp)" "length (input_script inp) \<le> 100"
    "length (output_script out) \<le> 100" "output_value out = 5000000000"
  using assms by (auto simp: plain_coinbase_def)

lemma plain_is_coinbase: "plain_coinbase cb \<Longrightarrow> is_coinbase cb"
  by (auto simp: plain_coinbase_def is_coinbase_def is_null_def)

lemma plain_no_witness: "plain_coinbase cb \<Longrightarrow> \<not> has_witness cb"
  by (auto simp: plain_coinbase_def has_witness_def)

lemma length_compact_le: "length (compact_size_bytes v) \<le> 9"
  by (simp add: length_compact_size_bytes compact_size_size_def)

lemma plain_size:
  assumes "plain_coinbase cb"
  shows "length (transaction_bytes False cb) \<le> 300"
proof -
  from assms obtain inp out where cb: "tx_inputs cb = [inp]" "tx_outputs cb = [out]"
    "previous_output inp = outpoint_null" "length (input_script inp) \<le> 100" "length (output_script out) \<le> 100"
    by (rule plain_coinbaseE)
  show ?thesis
    using cb(4,5) length_compact_le [of 1] length_compact_le [of "of_nat (length (input_script inp))"]
      length_compact_le [of "of_nat (length (output_script out))"]
    by (simp add: transaction_bytes_def vector_bytes_def input_bytes_def output_bytes_def var_bytes_def
        length_write_little_endian outpoint_null_def null_hash_def cb(1-3))
qed

lemma plain_sigops:
  assumes "plain_coinbase cb"
  shows "legacy_sigop_count cb \<le> 4000"
proof -
  from assms obtain inp out where cb: "tx_inputs cb = [inp]" "tx_outputs cb = [out]"
    "length (input_script inp) \<le> 100" "length (output_script out) \<le> 100"
    by (rule plain_coinbaseE)
  have count: "legacy_sigop_count_script bs \<le> 20 * length bs" for bs
    by (simp add: legacy_sigop_count_script_def sigop_count_bound)
  let ?i = "legacy_sigop_count_script (input_script inp)" and ?o = "legacy_sigop_count_script (output_script out)"
  have "legacy_sigop_count cb = size_wrap (size_wrap ?i + ?o)" by (simp add: legacy_sigop_count_def cb(1,2))
  also have "\<dots> \<le> size_wrap ?i + ?o" by (rule size_wrap_le)
  also have "\<dots> \<le> ?i + ?o" using size_wrap_le [of ?i] by simp
  finally show ?thesis using count [of "input_script inp"] count [of "output_script out"] cb(3,4) by simp
qed

lemma plain_tx_ok:
  assumes "plain_coinbase cb"
  shows "tx_intrinsic_ok cb default_transaction_limits"
proof -
  have "stripped_serialized_size cb \<le> 300"
    unfolding stripped_serialized_size_bytes using plain_size [OF assms] size_wrap_le order_trans by blast
  with assms show ?thesis
    by (auto elim!: plain_coinbaseE simp: tx_intrinsic_ok_def coinbase_script_size_valid_def
        default_transaction_limits_def outputs_non_negative_def outputs_total_def plain_is_coinbase)
qed

lemma plain_block_size:
  assumes "plain_coinbase cb" and "blk_transactions b = [cb]" and "hash_ok (previous_block_hash (blk_header b))"
    and "hash_ok (hdr_merkle_root (blk_header b))"
  shows "length (block_bytes w b) \<le> 400"
proof -
  have "transaction_bytes w cb = transaction_bytes False cb"
    using plain_no_witness [OF assms(1)] by (simp add: transaction_bytes_def)
  then show ?thesis
    using plain_size [OF assms(1)] length_compact_le [of 1] assms(3,4)
    by (simp add: block_bytes_def header_bytes_def vector_bytes_def assms(2) hash_ok_def length_write_little_endian)
qed

lemma plain_block_intrinsic:
  assumes "plain_coinbase cb" and "blk_transactions b = [cb]" and "hash_ok (previous_block_hash (blk_header b))"
    and "hdr_merkle_root (blk_header b) = transaction_id cb"
  shows "block_intrinsic_ok b default_block_local_context"
proof -
  have "block_stripped_serialized_size b \<le> 400"
    unfolding block_stripped_serialized_size_bytes
    using plain_block_size [OF assms(1-3), of False] assms(4) size_wrap_le order_trans by fastforce
  moreover have "block_sigops b \<le> 4000"
    using plain_sigops [OF assms(1)] size_wrap_le [of "legacy_sigop_count cb"]
    by (simp add: block_sigops_def assms(2))
  ultimately show ?thesis
    using plain_tx_ok [OF assms(1)] plain_is_coinbase [OF assms(1)] assms(2,4)
    by (simp add: block_intrinsic_ok_def default_block_local_context_def default_block_limits_def
        merkle_root_def merkle_root_of_def)
qed

lemma plain_block_contextual:
  assumes "plain_coinbase cb" and "blk_transactions b = [cb]" and "hash_ok (previous_block_hash (blk_header b))"
    and "hdr_merkle_root (blk_header b) = transaction_id cb"
  shows "\<exists>facts. assess_block_contextual b (contextual_context_of hctx cutoff sample_rules) =
    op_ok (decision_valid facts)"
proof -
  have merkle: "hash_ok (hdr_merkle_root (blk_header b))" by (simp add: assms(4))
  have "weight b \<le> 3 * 400 + 400"
    using plain_block_size [OF assms(1-3) merkle, of True] plain_block_size [OF assms(1-3) merkle, of False]
    by (simp add: weight_def block_stripped_serialized_size_bytes block_serialized_size_bytes size_wrap_def)
  moreover have "\<not> block_has_witness [cb]" "tx_locktime cb = 0"
    using assms(1) by (auto elim!: plain_coinbaseE simp: block_has_witness_def transaction_has_witness_def)
  ultimately have "block_contextual_ok b (contextual_context_of hctx cutoff sample_rules)"
    by (simp add: block_contextual_ok_def contextual_context_of_def sample_rules_def default_block_limits_def
        final_under_locktime_def assms(2))
  moreover have "cc_local (contextual_context_of hctx cutoff sample_rules) = default_block_local_context"
    by (simp add: contextual_context_of_def sample_rules_def default_block_local_context_def)
  ultimately show ?thesis
    using plain_block_intrinsic [OF assms] block_facts_exist [OF plain_block_intrinsic [OF assms]]
    by (simp add: block_contextual_accepts)
qed

definition minted :: "header_context \<Rightarrow> transaction \<Rightarrow> coin" where
  "minted hctx cb = \<lparr>coin_output = hd (tx_outputs cb), coin_height = hc_height hctx, coin_coinbase = True,
     coin_previous_mtp = hc_previous_median_time_past hctx\<rparr>"

lemma plain_block_spends:
  assumes "plain_coinbase cb" and "blk_transactions b = [cb]" and "hash_ok (previous_block_hash (blk_header b))"
    and "hdr_merkle_root (blk_header b) = transaction_id cb" and fresh: "m (Outpoint (transaction_id cb) 0) = None"
  obtains facts where
    "assess_block_spends V b (spend_context_of hctx sample_rules) (Pure_index (\<lambda>p. Return (m p))) =
       Some (op_ok (decision_valid facts))"
    "ledger_run V (spend_context_of hctx sample_rules) m (zip (blk_transactions b) (bf_transactions facts)) [[]]
       (m(Outpoint (transaction_id cb) 0 \<mapsto> minted hctx cb))"
proof -
  let ?ctx = "spend_context_of hctx sample_rules" and ?lookup = "lookup_coin (Pure_index (\<lambda>p. Return (m p)))"
  note intrinsic = plain_block_intrinsic [OF assms(1-4)]
  from block_facts_exist [OF intrinsic] obtain lf where lf: "block_facts_of b lf" by blast
  then have local: "assess_block_intrinsic b default_block_local_context = op_ok (decision_valid lf)"
    by (simp add: block_intrinsic_accepts intrinsic)
  have bs: "bs_local ?ctx = default_block_local_context"
    by (simp add: spend_context_of_def sample_rules_def default_block_local_context_def)
  have ctx: "bs_flags ?ctx = 0" "bs_max_sigop_cost ?ctx = 80000" "enforce_bip30 (bs_deployments ?ctx)"
    by (simp_all add: spend_context_of_def sample_rules_def)
  from lf obtain tf where tf: "bf_transactions lf = [tf]" "tx_facts_of cb tf"
    by (auto simp: block_facts_of_def assms(2) list_all2_Cons1)
  from assms(1) obtain inp out where cb: "tx_outputs cb = [out]" "output_value out = 5000000000"
    by (rule plain_coinbaseE)
  have kind: "tf_kind tf = coinbase" and id: "tf_id tf = transaction_id cb"
    and amount: "sint (tf_output_value tf) = sint (5000000000 :: i64)"
    using tf(2) plain_is_coinbase [OF assms(1)]
    by (simp_all add: tx_facts_of_def outputs_total_def transaction_id_bytes cb)
  have paid: "tf_output_value tf = 5000000000" using amount by (simp only: sint_inject)
  have cost: "transaction_sigop_cost cb [] 0 \<le> 80000"
    using plain_sigops [OF assms(1)] plain_is_coinbase [OF assms(1)]
      size_wrap_le [of "legacy_sigop_count cb * witness_scale_factor"]
    by (simp add: transaction_sigop_cost_def witness_scale_factor_def)
  have created: "tx_created_outputs ?ctx cb tf = [created_at ?ctx cb tf 0]" by (simp add: tx_created_outputs_def cb)
  have point: "co_point (created_at ?ctx cb tf 0) = Outpoint (transaction_id cb) 0" by (simp add: created_at_def id)
  have lookup: "?lookup (Outpoint (transaction_id cb) 0) = op_ok None"
    using fresh by (simp add: map_call_def coin_lookup_boundary_def)
  obtain st where st: "spend_transaction V ?ctx ?lookup cb tf initial_spend_state = Some (op_ok (decision_valid st))"
    "ss_total_fees st = 0"
    using cost kind lookup
    by (simp add: spend_transaction_def spend_inputs_def add_sigop_cost_def created point bip30_check_def
        add_created_def contains_created_def empty_tracker_def initial_spend_state_def ctx del: lookup_coin.simps)
  from st(2) obtain facts where facts: "coinbase_rules ?ctx lf st = op_ok (decision_valid facts)"
    "bf_transactions facts = [tf]"
    by (simp add: coinbase_rules_def spend_context_of_def sample_rules_def default_block_limits_def
        default_transaction_limits_def tf(1) paid)
  show ?thesis
  proof (rule that)
    show "assess_block_spends V b ?ctx (Pure_index (\<lambda>p. Return (m p))) = Some (op_ok (decision_valid facts))"
      using st(1) facts(1)
      by (simp add: assess_block_spends_def assess_block_spends_with_callbacks_def block_spend_rules_def bs local
          tf(1) assms(2) del: lookup_coin.simps)
    have "created_coin (created_at ?ctx cb tf 0) = minted hctx cb"
      by (simp add: created_coin_def created_at_def minted_def kind cb spend_context_of_def)
    then have "m ++ created_map (tx_created_outputs ?ctx cb tf) = m(Outpoint (transaction_id cb) 0 \<mapsto> minted hctx cb)"
      by (simp add: created point)
    with ledger_run.mint [OF kind, of V ?ctx m cb "[]" "[]", OF ledger_run.finish]
    show "ledger_run V ?ctx m (zip (blk_transactions b) (bf_transactions facts)) [[]]
        (m(Outpoint (transaction_id cb) 0 \<mapsto> minted hctx cb))"
      by (simp add: assms(2) facts(2))
  qed
qed

lemma plain_block_connects:
  assumes "plain_coinbase cb" and "blk_transactions b = [cb]" and "hash_ok (previous_block_hash (blk_header b))"
    and "hdr_merkle_root (blk_header b) = transaction_id cb" and "m (Outpoint (transaction_id cb) 0) = None"
    and hctx: "validate_header_context hs sample_mainnet = context_valid hctx"
    and rules: "header_rules (blk_header b) hctx time sample_mainnet"
    and cutoff: "locktime_cutoff (hc_previous_median_time_past hctx) = op_ok cutoff"
  obtains facts where
    "verify_block_on_chain V b hs time sample_rules (Pure_index (\<lambda>p. Return (m p))) =
       Some (evidence_checked (decision_valid facts))"
    "ledger_run V (spend_context_of hctx sample_rules) m (zip (blk_transactions b) (bf_transactions facts)) [[]]
       (m(Outpoint (transaction_id cb) 0 \<mapsto> minted hctx cb))"
proof -
  from plain_block_spends [where m = m, OF assms(1-5)] obtain facts where facts:
    "assess_block_spends V b (spend_context_of hctx sample_rules) (Pure_index (\<lambda>p. Return (m p))) =
       Some (op_ok (decision_valid facts))"
    "ledger_run V (spend_context_of hctx sample_rules) m (zip (blk_transactions b) (bf_transactions facts)) [[]]
       (m(Outpoint (transaction_id cb) 0 \<mapsto> minted hctx cb))" .
  have mainnet: "bv_consensus sample_rules = sample_mainnet" "length (pow_limit (bv_consensus sample_rules)) = 32"
    by (simp_all add: sample_rules_def sample_mainnet_def)
  show ?thesis
  proof (rule that)
    from plain_block_contextual [OF assms(1-4)] facts(1) hctx rules cutoff
    show "verify_block_on_chain V b hs time sample_rules (Pure_index (\<lambda>p. Return (m p))) =
       Some (evidence_checked (decision_valid facts))"
      unfolding verify_block_on_chain_accepts [OF mainnet(2)] mainnet(1) by blast
  qed (rule facts(2))
qed

subsection \<open>The first two blocks\<close>

lemma sample_coinbases_plain: "plain_coinbase sample_coinbase0" "plain_coinbase sample_coinbase1"
  by (simp_all add: plain_coinbase_def sample_coinbase0_def sample_coinbase1_def)


lemma sample_limit_bits: "compact_work_limit (pow_limit sample_mainnet) = 0x1d00ffff"
  by code_simp

lemma sample_interval: "difficulty_adjustment_interval sample_mainnet = op_ok 2016"
  by code_simp

lemma validate_header_context_target:
  assumes "validate_header_context hs params = context_valid ctx" and "hs \<noteq> []"
  shows "parent_target ctx = hdr_bits (last hs)"
  using assms
  by (auto simp: validate_header_context_def header_context_boundary_def header_context_of_def Let_def
      with_parent_def with_last_non_min_def with_first_period_block_def split: if_splits option.splits)

lemma sample_target: "target_well_formed 0x1d00ffff (pow_limit sample_mainnet)"
  "compact_target 0x1d00ffff = 0xffff * 256 ^ 26"
proof -
  show t: "compact_target 0x1d00ffff = 0xffff * 256 ^ 26"
    by (simp add: compact_target_def compact_size_byte_def compact_word_def)
  have "bytes_val (pow_limit sample_mainnet) = 2 ^ 224 - 1" by (simp add: sample_mainnet_def replicate_eval)
  then show "target_well_formed 0x1d00ffff (pow_limit sample_mainnet)"
    by (simp add: target_well_formed_def t compact_negative_def compact_overflows_def compact_size_byte_def
        compact_word_def)
qed

lemma sample_linked: "contiguous [sample_header0, sample_header1]"
  by (simp add: sample_hash0) (simp add: sample_header1_def)

lemma sample_work:
  "bytes_val (header_hash sample_header0) \<le> compact_target 0x1d00ffff"
  "bytes_val (header_hash sample_header1) \<le> compact_target 0x1d00ffff"
  by (simp_all add: sample_hash0 sample_hash1 sample_target)

lemma sample_context0:
  obtains hctx where "validate_header_context [] sample_mainnet = context_valid hctx"
    "header_rules sample_header0 hctx 1231006505 sample_mainnet" "hc_previous_median_time_past hctx = 0"
proof -
  obtain hctx where hctx: "validate_header_context [] sample_mainnet = context_valid hctx"
    using validate_header_context_valid [of "[]" sample_mainnet] by (auto simp: chain_well_formed_def)
  note ctx = validate_header_context_parent [OF hctx]
  have "hc_previous_median_time_past hctx = 0" using ctx(4) by (simp add: previous_median_time_past_def)
  moreover have "header_rules sample_header0 hctx 1231006505 sample_mainnet"
    using ctx(1,3) sample_target(1) sample_work(1)
    by (simp add: header_rules_def expected_difficulty_bits_def violates_timewarp_def sample_limit_bits)
      (simp add: sample_header0_def sample_mainnet_def)
  ultimately show ?thesis using hctx that by blast
qed

lemma sample_context1:
  obtains hctx where "validate_header_context [sample_header0] sample_mainnet = context_valid hctx"
    "header_rules sample_header1 hctx 1231469665 sample_mainnet" "hc_previous_median_time_past hctx = 1231006505"
proof -
  obtain hctx where hctx: "validate_header_context [sample_header0] sample_mainnet = context_valid hctx"
    using validate_header_context_valid [of "[sample_header0]" sample_mainnet]
    by (auto simp: chain_well_formed_def sample_header0_def)
  note ctx = validate_header_context_parent [OF hctx] validate_header_context_target [OF hctx]
  have mtp: "hc_previous_median_time_past hctx = 1231006505"
    using ctx(4) by (simp add: previous_median_time_past_def sample_header0_def)
  have "previous_block_hash sample_header1 = header_hash sample_header0" using sample_linked by simp
  moreover have "(1 :: int) smod 2016 \<noteq> 0" by (simp add: signed_modulo_int_def)
  moreover have "\<not> allow_min_difficulty_blocks sample_mainnet" "\<not> enforce_bip94 sample_mainnet"
    "minimum_block_version sample_mainnet = 1" by (simp_all add: sample_mainnet_def)
  moreover have "hdr_version sample_header1 = 1" "hdr_bits sample_header1 = 0x1d00ffff"
    "hdr_bits sample_header0 = 0x1d00ffff" "hdr_time sample_header1 = 1231469665"
    by (simp_all add: sample_header0_def sample_header1_def)
  ultimately have "header_rules sample_header1 hctx 1231469665 sample_mainnet"
    using ctx(1,2,3,5) sample_target(1) sample_work(2) mtp
    by (simp add: header_rules_def expected_difficulty_bits_def violates_timewarp_def sample_interval
        non_boundary_bits_def)
  then show ?thesis using hctx mtp that by blast
qed

lemma sample_accepted_headers: "accepted_chain sample_mainnet [sample_header0, sample_header1]"
proof -
  have limit: "length (pow_limit sample_mainnet) = 32" by (simp add: sample_mainnet_def)
  note accepts = verify_header_on_chain_accepts [OF limit]
  obtain c0 c1 where "validate_header_context [] sample_mainnet = context_valid c0"
    "header_rules sample_header0 c0 1231006505 sample_mainnet"
    "validate_header_context [sample_header0] sample_mainnet = context_valid c1"
    "header_rules sample_header1 c1 1231469665 sample_mainnet"
    using sample_context0 sample_context1 by metis
  then have "verify_header_on_chain sample_header0 [] 1231006505 sample_mainnet =
      evidence_checked (decision_valid \<lparr>hf_hash = header_hash sample_header0\<rparr>)"
    "verify_header_on_chain sample_header1 [sample_header0] 1231469665 sample_mainnet =
      evidence_checked (decision_valid \<lparr>hf_hash = header_hash sample_header1\<rparr>)"
    unfolding accepts by blast+
  from accepted_chain.extend [OF accepted_chain.extend [OF accepted_chain.genesis _ this(1)] _, simplified, OF this(2)]
  show ?thesis by simp
qed

definition sample_ledger :: ledger where
  "sample_ledger =
     [Outpoint (transaction_id sample_coinbase0) 0 \<mapsto>
        \<lparr>coin_output = hd (tx_outputs sample_coinbase0), coin_height = 0, coin_coinbase = True, coin_previous_mtp = 0\<rparr>,
      Outpoint (transaction_id sample_coinbase1) 0 \<mapsto>
        \<lparr>coin_output = hd (tx_outputs sample_coinbase1), coin_height = 1, coin_coinbase = True,
         coin_previous_mtp = 1231006505\<rparr>]"

lemma sample_accepted_blocks:
  "ledger_chain V [sample_header0, sample_header1] sample_ledger 10000000000"
proof -
  have valid: "hash_ok (previous_block_hash (blk_header sample_block0))" "hash_ok (previous_block_hash (blk_header sample_block1))"
    "hdr_merkle_root (blk_header sample_block0) = transaction_id sample_coinbase0"
    "hdr_merkle_root (blk_header sample_block1) = transaction_id sample_coinbase1"
    by (simp_all add: sample_block0_def sample_block1_def sample_id0 sample_id1 hash_ok_def)
      (simp_all add: sample_header0_def sample_header1_def null_hash_def)
  have txs: "blk_transactions sample_block0 = [sample_coinbase0]" "blk_transactions sample_block1 = [sample_coinbase1]"
    "blk_header sample_block0 = sample_header0" "blk_header sample_block1 = sample_header1"
    by (simp_all add: sample_block0_def sample_block1_def)
  have rules: "bv_consensus sample_rules = sample_mainnet" "sint (bv_subsidy sample_rules) = 5000000000"
    by (simp_all add: sample_rules_def)
  obtain c0 where c0: "validate_header_context [] sample_mainnet = context_valid c0"
    "header_rules (blk_header sample_block0) c0 1231006505 sample_mainnet" "hc_previous_median_time_past c0 = 0"
    using sample_context0 unfolding txs by metis
  have cut0: "locktime_cutoff (hc_previous_median_time_past c0) = op_ok 0" by (simp add: locktime_cutoff_def c0(3) word_sless_alt)
  have fresh0: "Map.empty (Outpoint (transaction_id sample_coinbase0) 0) = None" by simp
  let ?m = "Map.empty(Outpoint (transaction_id sample_coinbase0) 0 \<mapsto> minted c0 sample_coinbase0)"
  have first: "ledger_chain V ([] @ [blk_header sample_block0]) ?m (0 + sint (bv_subsidy sample_rules))"
    by (rule plain_block_connects [where V = V and m = Map.empty, OF sample_coinbases_plain(1) txs(1) valid(1,3) fresh0 c0(1,2) cut0],
        rule ledger_chain.connect [OF ledger_chain.empty _ _]) (auto simp: rules c0(1))
  obtain c1 where c1: "validate_header_context [sample_header0] sample_mainnet = context_valid c1"
    "header_rules (blk_header sample_block1) c1 1231469665 sample_mainnet" "hc_previous_median_time_past c1 = 1231006505"
    using sample_context1 unfolding txs by metis
  have cut1: "locktime_cutoff (hc_previous_median_time_past c1) = op_ok 1231006505" by (simp add: locktime_cutoff_def c1(3) word_sless_alt)
  have fresh1: "?m (Outpoint (transaction_id sample_coinbase1) 0) = None" by (simp add: sample_id0 sample_id1)
  have second: "ledger_chain V ([sample_header0] @ [blk_header sample_block1])
      (?m(Outpoint (transaction_id sample_coinbase1) 0 \<mapsto> minted c1 sample_coinbase1)) (5000000000 + sint (bv_subsidy sample_rules))"
    by (rule plain_block_connects [where V = V and m = ?m, OF sample_coinbases_plain(2) txs(2) valid(2,4) fresh1 c1(1,2) cut1],
        rule ledger_chain.connect [OF first [simplified rules txs append_Nil add_0] _ _]) (auto simp: rules c1(1))
  have "?m(Outpoint (transaction_id sample_coinbase1) 0 \<mapsto> minted c1 sample_coinbase1) = sample_ledger"
    using validate_header_context_parent(3) [OF c0(1)] validate_header_context_parent(3) [OF c1(1)]
    by (simp add: sample_ledger_def minted_def c0(3) c1(3))
  with second show ?thesis by (simp add: rules txs)
qed

lemma sample_ledger_supply: "coin_supply sample_ledger = 10000000000"
proof -
  have "transaction_id sample_coinbase0 \<noteq> transaction_id sample_coinbase1" by (simp add: sample_id0 sample_id1)
  then have "coin_supply sample_ledger = coin_value (the (sample_ledger (Outpoint (transaction_id sample_coinbase0) 0))) +
      coin_value (the (sample_ledger (Outpoint (transaction_id sample_coinbase1) 0)))"
    by (simp add: coin_supply_def sample_ledger_def)
  then show ?thesis
    using \<open>transaction_id sample_coinbase0 \<noteq> transaction_id sample_coinbase1\<close>
    by (simp add: sample_ledger_def coin_value_def) (simp add: sample_coinbase0_def sample_coinbase1_def)
qed

lemma sample_block0_valid:
  "\<exists>hctx cutoff local_facts facts. validate_header_context [] (bv_consensus sample_rules) = context_valid hctx \<and>
     header_rules (blk_header sample_block0) hctx 1231006505 (bv_consensus sample_rules) \<and>
     locktime_cutoff (hc_previous_median_time_past hctx) = op_ok cutoff \<and>
     assess_block_contextual sample_block0 (contextual_context_of hctx cutoff sample_rules) =
       op_ok (decision_valid local_facts) \<and>
     assess_block_spends V sample_block0 (spend_context_of hctx sample_rules) (Pure_index (\<lambda>_. Return None)) =
       Some (op_ok (decision_valid facts))"
proof -
  have b: "blk_transactions sample_block0 = [sample_coinbase0]"
    "hash_ok (previous_block_hash (blk_header sample_block0))"
    "hdr_merkle_root (blk_header sample_block0) = transaction_id sample_coinbase0"
    by (simp_all add: sample_block0_def sample_id0 hash_ok_def) (simp_all add: sample_header0_def null_hash_def)
  obtain hctx where hctx: "validate_header_context [] sample_mainnet = context_valid hctx"
    "header_rules sample_header0 hctx 1231006505 sample_mainnet" "hc_previous_median_time_past hctx = 0"
    using sample_context0 by metis
  have "locktime_cutoff (hc_previous_median_time_past hctx) = op_ok 0"
    by (simp add: locktime_cutoff_def hctx(3) word_sless_alt)
  moreover have "\<exists>facts. assess_block_spends V sample_block0 (spend_context_of hctx sample_rules)
      (Pure_index (\<lambda>_. Return None)) = Some (op_ok (decision_valid facts))"
    using plain_block_spends [where m = Map.empty, OF sample_coinbases_plain(1) b] by (metis (no_types))
  ultimately show ?thesis
    using hctx(1,2) plain_block_contextual [OF sample_coinbases_plain(1) b, of hctx 0]
    by (auto simp: sample_rules_def sample_block0_def)
qed

end
