(* ===== verification/Sha256_Fips.thy ===== *)
theory Sha256_Fips
  imports Complex_Main Sha256
begin

text \<open>
  SHA-256 as the standard FIPS 180-4 defines it, written without reference to the code: its logical
  functions on rotations and shifts, its constants as the leading fraction bits of square and cube
  roots of primes, the parsing and padding of the message, the recursive message schedule and the 64
  rounds. The hasher of \<open>Sha256\<close> computes it (\<open>hasher_fips\<close>).
\<close>

unbundle bit_operations_syntax

subsection \<open>The standard\<close>

definition fips_Ch :: "u32 \<Rightarrow> u32 \<Rightarrow> u32 \<Rightarrow> u32" where
  "fips_Ch x y z = (x AND y) XOR (NOT x AND z)"

definition fips_Maj :: "u32 \<Rightarrow> u32 \<Rightarrow> u32 \<Rightarrow> u32" where
  "fips_Maj x y z = (x AND y) XOR (x AND z) XOR (y AND z)"

definition fips_Sigma0 :: "u32 \<Rightarrow> u32" where
  "fips_Sigma0 x = word_rotr 2 x XOR word_rotr 13 x XOR word_rotr 22 x"

definition fips_Sigma1 :: "u32 \<Rightarrow> u32" where
  "fips_Sigma1 x = word_rotr 6 x XOR word_rotr 11 x XOR word_rotr 25 x"

definition fips_sigma0 :: "u32 \<Rightarrow> u32" where
  "fips_sigma0 x = word_rotr 7 x XOR word_rotr 18 x XOR drop_bit 3 x"

definition fips_sigma1 :: "u32 \<Rightarrow> u32" where
  "fips_sigma1 x = word_rotr 17 x XOR word_rotr 19 x XOR drop_bit 10 x"

text \<open>The constants: 32 bits of the fraction of the roots of the first primes.\<close>

definition fips_prime :: "nat \<Rightarrow> bool" where
  "fips_prime p \<longleftrightarrow> 1 < p \<and> (\<forall>d. d dvd p \<longrightarrow> d = 1 \<or> d = p)"

definition fips_primes :: "nat list" where
  "fips_primes = filter fips_prime [0..<312]"

definition fraction_bits :: "real \<Rightarrow> u32" where
  "fraction_bits x = of_int \<lfloor>frac x * 2 ^ 32\<rfloor>"

definition fips_K :: "nat \<Rightarrow> u32" where
  "fips_K t = fraction_bits (root 3 (real (fips_primes ! t)))"

definition fips_H :: "nat \<Rightarrow> u32" where
  "fips_H j = fraction_bits (sqrt (real (fips_primes ! j)))"

text \<open>Words and lengths as big-endian bytes.\<close>

definition fips_word :: "byte list \<Rightarrow> u32" where
  "fips_word bs = of_nat (foldl (\<lambda>v b. 256 * v + unat b) 0 bs)"

definition fips_bytes :: "nat \<Rightarrow> nat \<Rightarrow> byte list" where
  "fips_bytes n v = map (\<lambda>i. of_nat (v div 256 ^ (n - 1 - i))) [0..<n]"

function fips_W :: "byte list \<Rightarrow> nat \<Rightarrow> u32" where
  "fips_W block t =
     (if t < 16 then fips_word (take 4 (drop (4 * t) block))
      else fips_sigma1 (fips_W block (t - 2)) + fips_W block (t - 7) +
        fips_sigma0 (fips_W block (t - 15)) + fips_W block (t - 16))"
  by auto
termination by (relation "measure snd") auto

declare fips_W.simps [simp del]

fun fips_round :: "byte list \<Rightarrow> nat \<Rightarrow> sha_regs \<Rightarrow> sha_regs" where
  "fips_round block t (a, b, c, d, e, f, g, h) =
     (let T1 = h + fips_Sigma1 e + fips_Ch e f g + fips_K t + fips_W block t;
          T2 = fips_Sigma0 a + fips_Maj a b c
      in (T1 + T2, a, b, c, d + T1, e, f, g))"

fun fips_add :: "sha_regs \<Rightarrow> sha_regs \<Rightarrow> sha_regs" where
  "fips_add (a, b, c, d, e, f, g, h) (H0, H1, H2, H3, H4, H5, H6, H7) =
     (a + H0, b + H1, c + H2, d + H3, e + H4, f + H5, g + H6, h + H7)"

definition fips_block :: "byte list \<Rightarrow> sha_regs \<Rightarrow> sha_regs" where
  "fips_block block H = fips_add (fold (fips_round block) [0..<64] H) H"

text \<open>
  The padding of a message of \<open>l\<close> bits: a one, the least number of zeros that leaves 64 bits of the
  last block, and the length. The message is made of bytes, so the one and seven of the zeros are a byte.
\<close>

definition fips_zeros :: "nat \<Rightarrow> nat" where
  "fips_zeros l = (LEAST k. (l + 1 + k) mod 512 = 448)"

definition fips_pad :: "byte list \<Rightarrow> byte list" where
  "fips_pad msg = msg @ 0x80 # replicate ((fips_zeros (8 * length msg) - 7) div 8) 0 @
     fips_bytes 8 (8 * length msg)"

fun fips_digest :: "sha_regs \<Rightarrow> byte list" where
  "fips_digest (a, b, c, d, e, f, g, h) = concat (map (fips_bytes 4 \<circ> unat) [a, b, c, d, e, f, g, h])"

definition fips_sha256 :: "byte list \<Rightarrow> byte list" where
  "fips_sha256 msg =
     fips_digest (fold (\<lambda>i. fips_block (take 64 (drop (64 * i) (fips_pad msg))))
       [0..<length (fips_pad msg) div 64]
       (fips_H 0, fips_H 1, fips_H 2, fips_H 3, fips_H 4, fips_H 5, fips_H 6, fips_H 7))"

subsection \<open>The logical functions of the code\<close>

lemma word_rotr_shifts:
  fixes x :: u32
  assumes "0 < n" "n < 32" "m = 32 - n"
  shows "drop_bit n x OR push_bit m x = word_rotr n x"
proof (rule bit_word_eqI)
  fix i assume i: "i < LENGTH(32)"
  show "bit (drop_bit n x OR push_bit m x) i = bit (word_rotr n x) i"
  proof (cases "n + i < 32")
    case True
    then show ?thesis using i assms by (auto simp: bit_simps add.commute)
  next
    case False
    then have "(i + n) mod 32 = i - m" using i assms by (simp add: mod_if)
    with False show ?thesis using i assms bit_imp_le_length [of x "n + i"] by (auto simp: bit_simps)
  qed
qed

lemma logical_fips:
  "Ch = fips_Ch" "Maj = fips_Maj" "Sigma0 = fips_Sigma0" "Sigma1 = fips_Sigma1"
  "sigma0 = fips_sigma0" "sigma1 = fips_sigma1"
  by (auto simp: fun_eq_iff Ch_def fips_Ch_def Maj_def fips_Maj_def bit_simps intro!: bit_word_eqI)
    (simp_all add: fun_eq_iff Sigma0_def fips_Sigma0_def Sigma1_def fips_Sigma1_def sigma0_def
      fips_sigma0_def sigma1_def fips_sigma1_def word_rotr_shifts)

subsection \<open>The constants of the code\<close>

lemma fips_prime_small:
  assumes "p < 361"
  shows "fips_prime p \<longleftrightarrow> 1 < p \<and> (\<forall>d\<in>{2..18}. p mod d \<noteq> 0 \<or> p = d)"
proof
  assume prime: "fips_prime p"
  have "p mod d \<noteq> 0 \<or> p = d" if "d \<in> {2..18}" for d
  proof -
    have "d \<noteq> 1" using that by simp
    with prime show ?thesis by (auto simp: fips_prime_def mod_eq_0_iff_dvd)
  qed
  with prime show "1 < p \<and> (\<forall>d\<in>{2..18}. p mod d \<noteq> 0 \<or> p = d)" by (simp add: fips_prime_def)
next
  assume small: "1 < p \<and> (\<forall>d\<in>{2..18}. p mod d \<noteq> 0 \<or> p = d)"
  have "d = 1 \<or> d = p" if dvd: "d dvd p" for d
  proof (rule ccontr)
    assume neq: "\<not> (d = 1 \<or> d = p)"
    obtain e where e: "p = d * e" using dvd by (rule dvdE)
    have "d \<noteq> 0" "e \<noteq> 0" "e \<noteq> 1" using small neq e by (auto intro: gr0I)
    then have "1 < d" "1 < e" using neq by linarith+
    then have de: "1 < d" "1 < e" "d < p" "e < p" using e by simp_all
    have "d < 19 \<or> e < 19"
    proof (rule ccontr)
      assume "\<not> (d < 19 \<or> e < 19)"
      then have "19 * 19 \<le> d * e" by (intro mult_le_mono) auto
      with e assms show False by simp
    qed
    then show False
    proof
      assume "d < 19"
      then have "d \<in> {2..18}" "p mod d = 0" "p \<noteq> d" using de e by simp_all
      with small show False by metis
    next
      assume "e < 19"
      then have "e \<in> {2..18}" "p mod e = 0" "p \<noteq> e" using de e by simp_all
      with small show False by metis
    qed
  qed
  with small show "fips_prime p" by (simp add: fips_prime_def)
qed

definition small_prime :: "nat \<Rightarrow> bool" where
  "small_prime p \<longleftrightarrow> 1 < p \<and> list_all (\<lambda>d. p mod d \<noteq> 0 \<or> p = d) [2..<19]"

lemma small_prime_fips: "p < 361 \<Longrightarrow> fips_prime p = small_prime p"
proof -
  assume "p < 361"
  moreover have "set [2..<19] = {2..18 :: nat}" by (rule set_eqI) (simp only: set_upt, simp, arith)
  ultimately show ?thesis by (simp only: fips_prime_small small_prime_def list_all_iff)
qed

lemma fips_primes_eval: "fips_primes =
     [2, 3, 5, 7, 11, 13, 17, 19, 23, 29, 31, 37, 41, 43, 47, 53, 59, 61, 67, 71, 73, 79, 83,
      89, 97, 101, 103, 107, 109, 113, 127, 131, 137, 139, 149, 151, 157, 163, 167, 173, 179,
      181, 191, 193, 197, 199, 211, 223, 227, 229, 233, 239, 241, 251, 257, 263, 269, 271, 277,
      281, 283, 293, 307, 311]"
proof -
  have p0: "filter small_prime [0..<39] = [2, 3, 5, 7, 11, 13, 17, 19, 23, 29, 31, 37]"
    by (simp add: upt_rec small_prime_def)
  have p1: "filter small_prime [39..<78] = [41, 43, 47, 53, 59, 61, 67, 71, 73]"
    by (simp add: upt_rec small_prime_def)
  have p2: "filter small_prime [78..<117] = [79, 83, 89, 97, 101, 103, 107, 109, 113]"
    by (simp add: upt_rec small_prime_def)
  have p3: "filter small_prime [117..<156] = [127, 131, 137, 139, 149, 151]"
    by (simp add: upt_rec small_prime_def)
  have p4: "filter small_prime [156..<195] = [157, 163, 167, 173, 179, 181, 191, 193]"
    by (simp add: upt_rec small_prime_def)
  have p5: "filter small_prime [195..<234] = [197, 199, 211, 223, 227, 229, 233]"
    by (simp add: upt_rec small_prime_def)
  have p6: "filter small_prime [234..<273] = [239, 241, 251, 257, 263, 269, 271]"
    by (simp add: upt_rec small_prime_def)
  have p7: "filter small_prime [273..<312] = [277, 281, 283, 293, 307, 311]"
    by (simp add: upt_rec small_prime_def)
  have "fips_primes = filter small_prime [0..<312]"
    unfolding fips_primes_def by (rule filter_cong) (simp_all add: small_prime_fips)
  moreover have "[0..<312] = [0..<39] @ [39..<78] @ [78..<117] @ [117..<156] @ [156..<195] @ [195..<234] @ [234..<273] @ [273..<312]"
    by (simp add: upt_rec)
  ultimately show ?thesis by (simp only: filter_append p0 p1 p2 p3 p4 p5 p6 p7 append_Cons append_Nil)
qed

lemma fraction_bits_floor:
  "fraction_bits x = of_int \<lfloor>x * 2 ^ 32\<rfloor>"
proof -
  have "frac x * 2 ^ 32 = x * 2 ^ 32 - of_int (\<lfloor>x\<rfloor> * 2 ^ 32)" by (simp add: frac_def algebra_simps)
  then have "\<lfloor>frac x * 2 ^ 32\<rfloor> = \<lfloor>x * 2 ^ 32\<rfloor> - \<lfloor>x\<rfloor> * 2 ^ 32" by (simp only: floor_diff_of_int)
  moreover have zero: "of_int (2 ^ 32) = (0 :: u32)" by simp
  have "of_int (\<lfloor>x\<rfloor> * 2 ^ 32) = (0 :: u32)" by (simp only: of_int_mult zero mult_zero_right)
  ultimately show ?thesis by (simp only: fraction_bits_def of_int_diff) simp
qed

lemma fraction_bits_root:
  assumes "n ^ 3 \<le> p * 2 ^ 96" and "p * 2 ^ 96 < (n + 1) ^ 3"
  shows "fraction_bits (root 3 (real p)) = of_nat n"
proof -
  let ?r = "root 3 (real p) * 2 ^ 32"
  have cube: "?r ^ 3 = real (p * 2 ^ 96)" by (simp add: power_mult_distrib)
  have "real n ^ 3 \<le> ?r ^ 3" unfolding cube of_nat_power [symmetric] using assms(1) by (simp only: of_nat_le_iff)
  moreover have "?r ^ 3 < real (n + 1) ^ 3"
    unfolding cube of_nat_power [symmetric] using assms(2) by (simp only: of_nat_less_iff)
  ultimately have "real n \<le> ?r" "?r < real (n + 1)"
    by (auto intro: power_le_imp_le_base [where n = 2, simplified] power_less_imp_less_base [where n = 3])
  then have "\<lfloor>?r\<rfloor> = int n" by (intro floor_unique) simp_all
  then show ?thesis by (simp only: fraction_bits_floor of_int_of_nat_eq)
qed

lemma fraction_bits_sqrt:
  assumes "n ^ 2 \<le> p * 2 ^ 64" and "p * 2 ^ 64 < (n + 1) ^ 2"
  shows "fraction_bits (sqrt (real p)) = of_nat n"
proof -
  let ?r = "sqrt (real p) * 2 ^ 32"
  have square: "?r ^ 2 = real (p * 2 ^ 64)" by (simp add: power_mult_distrib)
  have "real n ^ 2 \<le> ?r ^ 2" unfolding square of_nat_power [symmetric] using assms(1) by (simp only: of_nat_le_iff)
  moreover have "?r ^ 2 < real (n + 1) ^ 2"
    unfolding square of_nat_power [symmetric] using assms(2) by (simp only: of_nat_less_iff)
  ultimately have "real n \<le> ?r" "?r < real (n + 1)"
    by (auto intro: power2_le_imp_le power_less_imp_less_base [where n = 2])
  then have "\<lfloor>?r\<rfloor> = int n" by (intro floor_unique) simp_all
  then show ?thesis by (simp only: fraction_bits_floor of_int_of_nat_eq)
qed

lemma cube_roots:
  "map (\<lambda>p. fraction_bits (root 3 (real p))) fips_primes = K_first @ K_later"
proof -
  let ?n = "[0x1428a2f98, 0x171374491, 0x1b5c0fbcf, 0x1e9b5dba5, 0x23956c25b, 0x259f111f1, 0x2923f82a4,
      0x2ab1c5ed5, 0x2d807aa98, 0x312835b01, 0x3243185be, 0x3550c7dc3, 0x372be5d74, 0x380deb1fe,
      0x39bdc06a7, 0x3c19bf174, 0x3e49b69c1, 0x3efbe4786, 0x40fc19dc6, 0x4240ca1cc, 0x42de92c6f,
      0x44a7484aa, 0x45cb0a9dc, 0x476f988da, 0x4983e5152, 0x4a831c66d, 0x4b00327c8, 0x4bf597fc7,
      0x4c6e00bf3, 0x4d5a79147, 0x506ca6351, 0x514292967, 0x527b70a85, 0x52e1b2138, 0x54d2c6dfc,
      0x553380d13, 0x5650a7354, 0x5766a0abb, 0x581c2c92e, 0x592722c85, 0x5a2bfe8a1, 0x5a81a664b,
      0x5c24b8b70, 0x5c76c51a3, 0x5d192e819, 0x5d6990624, 0x5f40e3585, 0x6106aa070, 0x619a4c116,
      0x61e376c08, 0x62748774c, 0x634b0bcb5, 0x6391c0cb3, 0x64ed8aa4a, 0x65b9cca4f, 0x6682e6ff3,
      0x6748f82ee, 0x678a5636f, 0x684c87814, 0x68cc70208, 0x690befffa, 0x6a4506ceb, 0x6bef9a3f7,
      0x6c67178f2] :: nat list"
  have "list_all2 (\<lambda>p n. n ^ 3 \<le> p * 2 ^ 96 \<and> p * 2 ^ 96 < (n + 1) ^ 3) fips_primes ?n"
    by (simp add: fips_primes_eval)
  then have "map (\<lambda>p. fraction_bits (root 3 (real p))) fips_primes = map of_nat ?n"
    by (induction rule: list_all2_induct) (simp_all add: fraction_bits_root)
  then show ?thesis by (simp add: K_first_def K_later_def)
qed

lemma square_roots:
  "map (\<lambda>p. fraction_bits (sqrt (real p))) (take 8 fips_primes) =
     (case Initialize of (a, b, c, d, e, f, g, h) \<Rightarrow> [a, b, c, d, e, f, g, h])"
proof -
  let ?n = "[0x16a09e667, 0x1bb67ae85, 0x23c6ef372, 0x2a54ff53a, 0x3510e527f, 0x39b05688c, 0x41f83d9ab,
      0x45be0cd19] :: nat list"
  have "list_all2 (\<lambda>p n. n ^ 2 \<le> p * 2 ^ 64 \<and> p * 2 ^ 64 < (n + 1) ^ 2) (take 8 fips_primes) ?n"
    by (simp add: fips_primes_eval)
  then have "map (\<lambda>p. fraction_bits (sqrt (real p))) (take 8 fips_primes) = map of_nat ?n"
    by (induction rule: list_all2_induct) (simp_all add: fraction_bits_sqrt)
  then show ?thesis by (simp add: Initialize_def)
qed

lemma length_fips_primes: "length fips_primes = 64"
  by (simp add: fips_primes_eval)

lemma K_fips: "t < 64 \<Longrightarrow> (K_first @ K_later) ! t = fips_K t"
  unfolding cube_roots [symmetric] fips_K_def by (simp add: length_fips_primes)

lemma Initialize_fips:
  "Initialize = (fips_H 0, fips_H 1, fips_H 2, fips_H 3, fips_H 4, fips_H 5, fips_H 6, fips_H 7)"
proof -
  have "fips_H j = map (\<lambda>p. fraction_bits (sqrt (real p))) (take 8 fips_primes) ! j" if "j < 8" for j
    using that by (simp add: fips_H_def length_fips_primes)
  from this [of 0] this [of 1] this [of 2] this [of 3] this [of 4] this [of 5] this [of 6] this [of 7]
  show ?thesis unfolding square_roots by (simp add: Initialize_def)
qed

subsection \<open>Words and bytes of the code\<close>

lemma of_nat_byte_step: "of_nat (256 * v + unat b) = (push_bit 8 (of_nat v) OR ucast (b :: byte) :: u32)"
proof -
  have "of_nat (256 * v + unat b) = (push_bit 8 (of_nat v) + ucast b :: u32)"
    by (simp add: push_bit_eq_mult mult.commute)
  also have "\<dots> = push_bit 8 (of_nat v) OR ucast b"
    by (rule disjunctive_add) (auto simp: bit_simps dest: bit_imp_le_length)
  finally show ?thesis .
qed

lemma ReadBE32_fips: "ReadBE32 [a, b, c, d] = fips_word [a, b, c, d]"
proof -
  have "fips_word [a, b, c, d] = push_bit 8 (push_bit 8 (push_bit 8 (push_bit 8 0 OR ucast a) OR ucast b) OR ucast c) OR ucast d"
    unfolding fips_word_def foldl.simps of_nat_byte_step by simp
  also have "\<dots> = ReadBE32 [a, b, c, d]" by (simp add: ReadBE32_def push_bit_or or.assoc)
  finally show ?thesis by simp
qed

lemma chunk_words_fips:
  "length chunk = 64 \<Longrightarrow> t < 16 \<Longrightarrow> chunk_words chunk ! t = fips_W chunk t"
proof -
  assume len: "length chunk = 64" and t: "t < 16"
  obtain a b c d rest where drop: "drop (4 * t) chunk = a # b # c # d # rest"
  proof -
    have "4 \<le> length (drop (4 * t) chunk)" using len t by simp
    then show ?thesis
      by (cases "drop (4 * t) chunk" rule: remdups_adj.cases; cases "drop 2 (drop (4 * t) chunk)" rule: remdups_adj.cases)
        (use that in auto)
  qed
  have "ReadBE32 (a # b # c # d # rest) = ReadBE32 [a, b, c, d]" by (simp add: ReadBE32_def)
  then show ?thesis using t by (simp add: chunk_words_def fips_W.simps [of chunk t] drop ReadBE32_fips)
qed

lemma word_schedule_fips:
  assumes "16 \<le> length V" and "\<forall>t<length V. V ! t = fips_W chunk t"
  shows "t < length V + n \<Longrightarrow> word_schedule n V ! t = fips_W chunk t"
  using assms
proof (induction n arbitrary: V t)
  case (Suc n)
  let ?w = "sigma1 (V ! (length V - 2)) + V ! (length V - 7) + sigma0 (V ! (length V - 15)) + V ! (length V - 16)"
  have "?w = fips_W chunk (length V)"
    using Suc.prems(2,3) fips_W.simps [of chunk "length V"] by (simp add: logical_fips)
  then have "\<forall>t<length (V @ [?w]). (V @ [?w]) ! t = fips_W chunk t"
    using Suc.prems(3) by (auto simp: nth_append less_Suc_eq)
  with Suc.IH [of t "V @ [?w]"] Suc.prems(1,2) show ?case by simp
qed simp

lemma Round_fips: "w = fips_W chunk t \<Longrightarrow> Round s (fips_K t + w) = fips_round chunk t s"
  by (cases s) (simp add: Round_def Round_update_def logical_fips Let_def split: prod.splits)

lemma rounds_fold:
  assumes "length ks = length ws" and "n \<le> length ks"
  shows "rounds (take n ks) (take n ws) s = fold (\<lambda>t s. Round s (ks ! t + ws ! t)) [0..<n] s"
  using assms(2)
proof (induction n)
  case (Suc n)
  then show ?case using assms(1) rounds_append [of "take n ks" "take n ws" "[ks ! n]" "[ws ! n]" s]
    by (simp add: take_Suc_conv_app_nth)
qed simp

lemma add_regs_fips: "add_regs s t = fips_add t s"
  by (cases s; cases t) (simp add: add_regs_def add.commute split: prod.splits)

theorem Transform_chunk_fips:
  assumes "length chunk = 64"
  shows "Transform_chunk s chunk = fips_block chunk s"
proof -
  let ?ks = "K_first @ K_later" and ?ws = "word_schedule 48 (chunk_words chunk)"
  obtain V where V: "?ws = chunk_words chunk @ V" "length V = 48" using word_schedule_prefix by blast
  have ws: "?ws ! t = fips_W chunk t" if "t < 64" for t
    using that word_schedule_fips [of "chunk_words chunk" chunk t 48] chunk_words_fips [OF assms] by simp
  have "rounds ?ks ?ws s = fold (\<lambda>t s. Round s (?ks ! t + ?ws ! t)) [0..<64] s"
    using rounds_fold [of ?ks ?ws 64 s] V by simp
  also have "\<dots> = fold (fips_round chunk) [0..<64] s"
    by (rule fold_cong) (auto simp: fun_eq_iff K_fips ws Round_fips)
  finally show ?thesis
    by (simp add: transform_block_schedule schedule_chunk_def fips_block_def add_regs_fips)
qed

lemma Transform_fold:
  "Transform s xs n = fold (\<lambda>i s. Transform_chunk s (take 64 (drop (64 * i) xs))) [0..<n] s"
proof (induction n)
  case (Suc n)
  then show ?case using Transform_add [of s xs n 1] by simp
qed simp

subsection \<open>Padding and output of the code\<close>

lemma fips_zeros_bytes: "fips_zeros (8 * n) = 8 * ((119 - n mod 64) mod 64) + 7"
proof -
  define r where "r = n mod 64"
  have r: "r < 64" "8 * n = 512 * (n div 64) + 8 * r"
    unfolding r_def using div_mult_mod_eq [of n 64] by (simp, linarith)
  have same: "(8 * n + 1 + k) mod 512 = (8 * r + 1 + k) mod 512" for k
    unfolding r(2) add.assoc by (simp only: mod_mult_self4)
  define z where "z = (119 - r) mod 64"
  have z: "z = (if r \<le> 55 then 55 - r else 119 - r)" unfolding z_def using r(1) by (simp add: mod_if)
  show ?thesis
    unfolding fips_zeros_def same r_def [symmetric] z_def [symmetric]
  proof (rule Least_equality)
    show "(8 * r + 1 + (8 * z + 7)) mod 512 = 448" using r(1) unfolding z by (auto simp: mod_if)
    fix k assume k: "(8 * r + 1 + k) mod 512 = 448"
    show "8 * z + 7 \<le> k"
    proof (rule ccontr)
      assume "\<not> 8 * z + 7 \<le> k"
      with k r(1) show False unfolding z by (auto simp: mod_if split: if_splits)
    qed
  qed
qed

lemma bit_of_nat_byte: "bit (of_nat n :: byte) i \<longleftrightarrow> i < 8 \<and> bit n i"
  by transfer (simp add: bit_simps)

lemma byte_of_word: "of_nat (unat (w :: 'a::len word) div 2 ^ k) = (ucast (drop_bit k w) :: byte)"
  by (rule bit_word_eqI) (simp add: drop_bit_eq_div [symmetric] bit_of_nat_byte bit_simps)

lemma WriteBE32_fips: "WriteBE32 w = fips_bytes 4 (unat w)"
  using byte_of_word [of w 0] byte_of_word [of w 8] byte_of_word [of w 16] byte_of_word [of w 24]
  by (simp add: WriteBE32_def fips_bytes_def upt_rec)

lemma WriteBE64_fips: "n < 2 ^ 64 \<Longrightarrow> WriteBE64 (of_nat n) = fips_bytes 8 n"
proof -
  assume "n < 2 ^ 64"
  then have n: "unat (of_nat n :: u64) = n" by (simp add: unat_of_nat take_bit_nat_eq_self)
  show ?thesis
    using byte_of_word [of "of_nat n :: u64" 0] byte_of_word [of "of_nat n :: u64" 8]
      byte_of_word [of "of_nat n :: u64" 16] byte_of_word [of "of_nat n :: u64" 24]
      byte_of_word [of "of_nat n :: u64" 32] byte_of_word [of "of_nat n :: u64" 40]
      byte_of_word [of "of_nat n :: u64" 48] byte_of_word [of "of_nat n :: u64" 56]
    by (simp add: WriteBE64_def fips_bytes_def upt_rec n)
qed

lemma output_regs_fips: "output_regs s = fips_digest s"
  by (cases s) (simp add: output_regs_def WriteBE32_fips split: prod.splits)

lemma fips_pad_eq:
  assumes "length msg < 2 ^ 61"
  shows "msg @ padding msg = fips_pad msg"
proof -
  have "push_bit 3 (of_nat (length msg) :: u64) = of_nat (8 * length msg)"
    by (simp add: push_bit_eq_mult)
  then show ?thesis
    using assms WriteBE64_fips [of "8 * length msg"] by (simp add: padding_def fips_pad_def fips_zeros_bytes)
qed

theorem sha256_fips:
  assumes "length msg < 2 ^ 61"
  shows "sha256 msg = fips_sha256 msg"
proof -
  have chunk: "Transform_chunk s (take 64 (drop (64 * i) xs)) = fips_block (take 64 (drop (64 * i) xs)) s"
    if "i < length xs div 64" for i s and xs :: "byte list"
    using that by (intro Transform_chunk_fips) simp
  show ?thesis
    unfolding sha256_def fips_sha256_def fips_pad_eq [OF assms] output_regs_fips Initialize_fips Transform_fold
    by (rule arg_cong [where f = fips_digest], rule fold_cong) (auto simp: fun_eq_iff chunk)
qed

theorem hasher_fips:
  assumes "sha_written c msg" and "length msg < 2 ^ 61"
  shows "Finalize c = fips_sha256 msg"
  using sha256_stream [OF assms(1)] sha256_fips [OF assms(2)] by simp

end
