(* ===== verification/Spec2Isabelle.thy ===== *)
theory Spec2Isabelle
  imports Script_Samples Graph_Samples Chain_Samples Sha256_Fips
begin

text \<open>
  Champy is a fork of Bitcoin Core whose consensus rules are being moved into a library of values and
  pure functions: \<^verbatim>\<open>src/bitcoin/protocol\<close> (protocol values and their wire codec),
  \<^verbatim>\<open>src/bitcoin/validation\<close> (header, transaction, spend, script and block rules) and
  \<^verbatim>\<open>src/bitcoin/chain_graph\<close> (the tree of known blocks). This development models
  that library, function by function, with what it calls of the rest of the tree: the hash functions
  (\<^verbatim>\<open>src/crypto\<close>) and the script interpreter (\<^verbatim>\<open>src/script\<close>, \<^verbatim>\<open>src/hash.h\<close>, \<^verbatim>\<open>src/pubkey.cpp\<close>). It proves what
  the rules mean.

  \<^bold>\<open>How the parts fit.\<close> Bytes from the network or from disk are parsed by the codec into
  transactions, headers and blocks; identifiers are double SHA-256 hashes of their serialisation. A
  candidate block is verified on a chain of ancestor headers: \<open>validate_header_context\<close> turns the
  chain into a header context, \<open>assess_header_with_context\<close> applies the header rules,
  \<open>assess_block_contextual\<close> the rules about the block's own contents, and \<open>assess_block_spends\<close> the
  rules about the coins it spends, looked up in a coin source; \<open>verify\<close> composes the three. The scripts of
  an input are checked by \<open>verify_script\<close>, which converts the transaction and calls \<open>VerifyScript\<close>.

  \<^bold>\<open>The theories and the code they model.\<close>

subsection \<open>Properties\<close>
  \<^item> \<open>Prelude\<close>: shared lemmas on lists, words and signed arithmetic; \<open>size_wrap\<close> is the wrap-around of
    \<open>size_t\<close>. Endian: \<^verbatim>\<open>protocol/detail/endian.h\<close>.
  \<^item> \<open>Protocol_Types\<close>: the value types of \<^verbatim>\<open>protocol/*.h\<close> as records over machine words.
  \<^item> \<open>Byte_Reader\<close>, \<open>Wire_Formats\<close>: \<^verbatim>\<open>protocol/detail/byte_reader.h\<close> and \<^verbatim>\<open>compact_size.h\<close>. The locale
    \<open>wire_format\<close> is the contract between a reader and the bytes of a value; it is interpreted for
    every reader of the codec, up to whole blocks.
  \<^item> \<open>Codec_Write\<close>, \<open>Codec_Read\<close>: \<^verbatim>\<open>protocol/codec.cpp\<close>. A serialiser is a function of its sink; the
    locale \<open>byte_sink\<close> is interpreted for the vector, counting and hashing sinks of the code.
  \<^item> \<open>Sha256\<close>: the portable transform and the buffering class \<open>CSHA256\<close>. Sha256_Fips: the standard FIPS 180-4,
    written independently of the code, its constants from the roots of primes, and that the hasher computes it.
    Sha256_Eval: the compression on natural numbers, to evaluate hashes of concrete messages by rewriting.
  \<^item> \<open>Validation_Results\<close>: \<^verbatim>\<open>validation/rules.h\<close>, \<^verbatim>\<open>result.h\<close> and \<^verbatim>\<open>context.h\<close>. A rejection, an operation
    error and an accepted value are three different results; a user callback may throw, and the
    exception boundaries turn that into an operation error.
  \<^item> \<open>Pow_Number\<close>, \<open>Header_Validation\<close>: the 256-bit arithmetic of \<^verbatim>\<open>validation/header.cpp\<close> on its eight
    32-bit limbs, targets, retargeting, median time past, the header rules and the chain evidence.
  \<^item> \<open>Tx_Validation\<close>, \<open>Spend_Validation\<close>: \<^verbatim>\<open>validation/transaction.cpp\<close>, \<^verbatim>\<open>spend.cpp\<close> and
    \<^verbatim>\<open>protocol/coin_index.h\<close>.
  \<^item> \<open>Script_Validation\<close>: \<^verbatim>\<open>validation/script.cpp\<close>, which converts a transaction and its previous outputs
    to the interpreter's types and runs every input script. The interpreter is an argument of these
    definitions, and nothing is assumed of it; \<open>core_interpreter\<close> of \<open>Script_Check\<close> is the one of the code.
  \<^item> \<open>Merkle\<close>, \<open>Script_Scan\<close>, \<open>Block_Validation\<close>, \<open>Block_Spend\<close>: \<^verbatim>\<open>validation/block.cpp\<close>, in that order
    the Merkle trees, the script scanner behind the signature operation counts, the block rules, and
    the overlay that tracks what a block spends and creates.
  \<^item> \<open>Verify_Block\<close>: \<^verbatim>\<open>validation/verify.h\<close>, the composition. Samples: inputs for the witnesses.
    Hash_Samples, Chain_Samples: the first two blocks of the main network, with their hashes computed, are accepted
    and leave a ledger of two coins.
  \<^item> \<open>Script_Core\<close>: \<^verbatim>\<open>script/script.h\<close> and \<^verbatim>\<open>script.cpp\<close>, the opcode reader, script numbers, pushes and
    counters. Hash_Buffer, Ripemd160, Sha1: \<^verbatim>\<open>crypto/ripemd160.cpp\<close> and \<^verbatim>\<open>crypto/sha1.cpp\<close>. Hash_Writer:
    \<^verbatim>\<open>hash.h\<close>. Script_Flags: \<^verbatim>\<open>script/verify_flags.h\<close> and the errors.
  \<^item> \<open>Pubkey\<close>: \<^verbatim>\<open>pubkey.h\<close> and \<^verbatim>\<open>pubkey.cpp\<close>, with the permissive signature parser. The library
    libsecp256k1 is not part of the repository; its functions are the fields of the record \<open>secp256k1\<close>, an
    argument of every definition that calls them. No theorem assumes anything about them.
  \<^item> \<open>Script_Encoding\<close>, \<open>Eval_Script\<close>: \<open>EvalScript\<close> of \<^verbatim>\<open>script/interpreter.cpp\<close>, one definition per group of
    opcodes. An \<open>exec\<close> value is a result, a script error, an escaping exception or a failed assertion. The
    checker is the record \<open>BaseSignatureChecker\<close> of the class's virtual functions. Eval_Loop has the loop
    as a while loop.
  \<^item> \<open>Sighash\<close>: serialisation for signatures, \<open>PrecomputedTransactionData\<close>, the three signature hashes, the
    midstate cache and \<open>TransactionSignatureChecker\<close>. Verify_Script: \<open>VerifyScript\<close> with witness programs,
    taproot and pay-to-script-hash, and \<open>CountWitnessSigOps\<close>.
  \<^item> \<open>Eval_Safety\<close>, \<open>Verify_Safety\<close>: the locale \<open>safe_checker\<close> is what the interpreter needs of a checker;
    under it no assertion fails and the limits hold. Eval_Refine, Sighash_Cache: the locale
    \<open>checker_refinement\<close> relates two checkers, and is interpreted for the caching checker and one without a
    cache. Sighash_Preimage: the bytes the signature hashes are taken of.
  \<^item> \<open>Chain_Graph\<close>: \<^verbatim>\<open>bitcoin/chain_graph/chain_graph.cpp\<close>, the block tree with its flags and indexes; its loops
    are partial functions, where \<^term>\<open>None\<close> is a loop that does not end. Graph_Tree, Graph_Index, Graph_Plan: what
    the loops compute, that the operations end and keep the indexes, and the active chain and reorganisation plans.
  \<^item> \<open>Script_Check\<close>: the interpreter as \<^verbatim>\<open>validation/script.cpp\<close> calls it. Witness_Spend: a run of the whole
    interpreter, for outputs locked to a key hash. Script_Samples, Graph_Samples: inputs for the witnesses.

  \<^bold>\<open>What the lemmas show.\<close> The codec is canonical: parsing accepts exactly the serialisations of
  representable values and inverts them. The hash pipeline computes the standard's function however
  the input is split. Each rule set accepts exactly the values described by a declarative predicate,
  and the reported facts are determined by the value; machine arithmetic never wraps on an accepted
  path. Retargeting and compact targets equal their integer formulas. An accepted chain of headers
  has linked, increasing work. The Merkle root binds the transaction list up to a hash collision, and
  the known duplication is always flagged. The spend overlay refines a ledger of unspent outputs, no
  assertion in it can fail, no block creates value beyond the subsidy, and along any chain of
  accepted blocks the ledger holds at most the subsidies paid. A script check always ends with a
  verdict; the signature hashes are hashes of explicit messages, with or without the cache; and an output
  locked to a key hash is spent exactly by a signature of that key for its message. Every sequence of
  operations on the block tree returns and leaves indexes that pass the code's own check; the active chain
  is the best usable one, and a reorganisation plan leads from it to the chain of its target.

  \<^bold>\<open>Conventions.\<close> Signed 64- and 32-bit integers are words read with \<^const>\<open>sint\<close>; sizes are natural
  numbers reduced by \<open>size_wrap\<close> where the code adds or multiplies them. The stack of the interpreter is a
  list with the top first. Named constants of the source keep their names. Allocation failure inside
  the library is not modelled, except at the boundaries where the code catches it. Loops are
  structural, have a termination proof, or are partial functions shown to return, so no fuel is used; \<^term>\<open>None\<close> as the result of a block
  assessment stands for a failed assertion.

  \<^bold>\<open>Not modelled.\<close> The vector transforms selected at run time (\<^verbatim>\<open>sha256_avx2.cpp\<close> and its siblings)
  compute the same function by intrinsics; the portable transform is the one modelled. The type-erased
  views of \<^verbatim>\<open>protocol/chain_view.h\<close> forward to the underlying range, which is a list here. The
  node runtime, networking, storage, process control and test code are outside the library; the
  manifest lists them with the reason for each.
\<close>

text \<open>
  C1. Along any chain of blocks accepted by the composed verification, each against the ledger
  its predecessors left, the value held by the ledger never exceeds the sum of the subsidies
  paid, and no coin has a negative value.
\<close>

theorem ledger_supply_bound:
  assumes "ledger_chain V hs m paid"
  shows "coin_supply m \<le> paid \<and> (\<forall>c\<in>ran m. 0 \<le> coin_value c)"
  using ledger_chain_supply [OF assms] by (simp add: ledger_ok_def)

theorem ledger_supply_bound_witness:
  "ledger_chain (\<lambda>_ _ _ _ _ _ _ _. Return True) [sample_header0, sample_header1] sample_ledger 10000000000 \<and>
   coin_supply sample_ledger = 10000000000 \<and> coin_supply sample_ledger \<le> 10000000000"
  using ledger_supply_bound [OF sample_accepted_blocks] sample_accepted_blocks sample_ledger_supply by blast

text \<open>
  C2. Who can spend an output locked to the hash of a key by a version 0 witness program, where
  the witness or the taproot rules are active: the script check of the library accepts exactly
  when the input script is empty, the hash is not a false stack value, the witness is a
  signature and a key, the key has the hash, both fit the element limit, the signature is
  strictly encoded where that rule is active, the key is well formed, the amount is not
  negative, and libsecp256k1 accepts the signature for the message of BIP 143. The statement
  runs through the whole interpreter, with its cache.
\<close>

theorem keyhash_spend:
  assumes "length h = 20" "input_index < length (tx_inputs tx)" "length outs = length (tx_inputs tx)"
    and "length (tx_inputs tx) < 2 ^ 32" "outs ! input_index = \<lparr>output_value = amount, output_script = keyhash_program h\<rparr>"
    and "flags_contains flags witness_mask \<or> flags_contains flags taproot_mask"
  shows "verify_script (core_interpreter secp) (keyhash_program h) amount tx input_index flags outs = script_valid \<longleftrightarrow>
    input_script (tx_inputs tx ! input_index) = [] \<and> CastToBool h \<and>
    (\<exists>sig key. input_witness (tx_inputs tx ! input_index) = [sig, key] \<and>
       keyhash_authorised secp flags h (to_core_transaction tx) input_index amount sig key)"
  using assms by (rule verify_script_keyhash)

theorem keyhash_spend_witness:
  "verify_script (core_interpreter sample_secp) (keyhash_program sample_keyhash) 1 sample_witness_tx 0 known_mask
     [\<lparr>output_value = 1, output_script = keyhash_program sample_keyhash\<rparr>] = script_valid \<longleftrightarrow> CastToBool sample_keyhash"
  using keyhash_spend [of sample_keyhash 0 sample_witness_tx "[\<lparr>output_value = 1, output_script = keyhash_program sample_keyhash\<rparr>]"
      1 known_mask sample_secp] sample_authorised sample_flags
  by (simp add: sample_witness_tx_def)

text \<open>
  C3. Every well-formed request to check a script ends with a verdict on it, valid or rejected,
  whatever the scripts, the witness, the transaction and the signature library are: no assertion
  of the interpreter fails, no exception reaches the boundary and no loop runs on.
\<close>

theorem script_check_verdict:
  assumes "input_index < length (tx_inputs tx)" "length outs = length (tx_inputs tx)" "length (tx_inputs tx) < 2 ^ 32"
    and "outs ! input_index = \<lparr>output_value = spent_amount, output_script = previous_script\<rparr>"
  shows "verify_script (core_interpreter secp) previous_script spent_amount tx input_index flags outs
    \<in> {script_valid, script_rejected}"
  using assms by (rule verify_script_verdict)

theorem script_check_verdict_witness:
  "verify_script (core_interpreter sample_secp) [0xba, 0xac] 1 sample_witness_tx 0 known_mask
     [\<lparr>output_value = 1, output_script = [0xba, 0xac]\<rparr>] \<in> {script_valid, script_rejected}"
  by (rule script_check_verdict) (simp_all add: sample_witness_tx_def)

text \<open>
  C4. Every sequence of operations on a block index graph, starting from the empty graph,
  returns: the loops that follow parents all end. The graph it leaves passes check_invariants,
  so the indexes are those of the blocks, and the height of every block is its distance from its
  root.
\<close>

theorem graph_operations:
  assumes "list_all graph_op_ok ops" "length ops < 2 ^ 31"
  shows "\<exists>g. run_ops ops empty_graph = Some g \<and> check_invariants g = Some inv_ok \<and>
    (\<forall>i<length (m_nodes g). \<exists>path. path_to_root g i = Some path \<and> sint (nd_height (m_nodes g ! i)) = int (length path) - 1)"
proof -
  obtain g where g: "run_ops ops empty_graph = Some g" "graph_ok g" "length (m_nodes g) \<le> length ops"
    using run_ops_ok [OF graph_ok_empty assms(1)] by (auto simp: empty_graph_def)
  have "length (m_nodes g) < 2 ^ 31" using g(3) assms(2) by simp
  with g(1,2) show ?thesis
    using graph_ok_check [OF g(2)] height_depth [OF graph_ok_tree [OF g(2)]] path_to_root_branch [OF graph_ok_tree [OF g(2)]] by simp
qed

theorem graph_operations_witness:
  "\<exists>g. run_ops sample_ops empty_graph = Some g \<and> check_invariants g = Some inv_ok"
  using graph_operations [OF sample_ops_ok] by (auto simp: sample_ops_def)

text \<open>
  C5. The spend overlay refines an unspent-output ledger: an accepted block is a run of the
  ledger in which every transaction consumes coins that are there and passes the spend and
  script rules, then adds its outputs; the coins reported spent are the consumed ones, without
  repetition, and the fees reported are exactly their surplus.
\<close>

theorem block_spend_refinement:
  assumes "assess_block_spends_with_callbacks V b ctx lookup = Some (op_ok (decision_valid facts))"
  shows "(\<exists>css m'. ledger_run V ctx (index_map lookup)
        (zip (blk_transactions b) (bf_transactions facts)) css m' \<and>
      map so_previous_coin (bf_spent_outputs facts) = concat css \<and>
      sint (bf_total_fees facts) = sum_list (map2 fee_paid (bf_transactions facts) css)) \<and>
    distinct (map so_point (bf_spent_outputs facts)) \<and> distinct (map co_point (bf_created_outputs facts))"
  using block_spends_ledger(1,2,4) [OF assms] by blast

theorem block_spend_refinement_witness:
  "\<exists>facts css m'. assess_block_spends_with_callbacks (\<lambda>_ _ _ _ _ _ _ _. Return True) sample_block sample_spend
      (\<lambda>_. op_ok None) = Some (op_ok (decision_valid facts)) \<and>
    ledger_run (\<lambda>_ _ _ _ _ _ _ _. Return True) sample_spend (index_map (\<lambda>_. op_ok None))
      (zip (blk_transactions sample_block) (bf_transactions facts)) css m'"
  using sample_accepted_spends [of "\<lambda>_ _ _ _ _ _ _ _. Return True"] block_spend_refinement by blast

text \<open>
  C6. In a block the spend rules accept, all outputs together are worth at most the coins the
  block spends plus the subsidy: no rule order, overlay spend or fee wrap-around mints money.
\<close>

theorem block_no_inflation:
  assumes "assess_block_spends_with_callbacks V b ctx lookup = Some (op_ok (decision_valid facts))"
  shows "(\<Sum>tx\<leftarrow>blk_transactions b. outputs_total (tx_outputs tx)) \<le>
    coins_total (map so_previous_coin (bf_spent_outputs facts)) + sint (bs_subsidy ctx)"
  using assms by (rule block_value_conserved)

theorem block_no_inflation_witness:
  "\<exists>facts. assess_block_spends_with_callbacks (\<lambda>_ _ _ _ _ _ _ _. Return True) sample_block sample_spend
      (\<lambda>_. op_ok None) = Some (op_ok (decision_valid facts)) \<and>
    (\<Sum>tx\<leftarrow>blk_transactions sample_block. outputs_total (tx_outputs tx)) \<le>
      coins_total (map so_previous_coin (bf_spent_outputs facts)) + sint (bs_subsidy sample_spend)"
  using sample_accepted_spends [of "\<lambda>_ _ _ _ _ _ _ _. Return True"] block_no_inflation by blast

text \<open>
  C7. The cache of signature-hash midstates, which does not distinguish legacy from witness
  signatures, never changes a verdict: VerifyScript with the caching checker and an empty cache
  gives the result, error included, that it gives with a checker that computes every hash
  afresh.
\<close>

theorem sighash_cache_transparent:
  "map_exec (\<lambda>_. ()) (VerifyScript (cached_env secp flags ck) scriptSig scriptPubKey witness new_sighash_cache) =
   map_exec (\<lambda>_. ()) (VerifyScript (plain_verify_env secp flags ck) scriptSig scriptPubKey witness new_sighash_cache)"
  by (rule VerifyScript_uncached)

text \<open>
  C8. Planning a reorganisation always returns. A plan leads from the active chain to the chain
  of the target: both share a non-empty common part, after which the active chain is the blocks
  to disconnect, in reverse, and the chain of the target is the blocks to connect; no block is
  in both lists. The target is reported missing only when it is not in the graph, and ineligible
  only when its branch is not usable or has no block in common with the active chain.
\<close>

theorem graph_reorg_plan:
  assumes "list_all graph_op_ok ops" "run_ops ops empty_graph = Some g"
  shows "\<exists>result chain. plan_reorg_to g target = Some result \<and> active g = Some chain \<and>
    (case result of
       planned plan \<Rightarrow> (\<exists>t path. find_node g target = Some t \<and> eligible_candidate g t = Some True \<and>
         path_to_root g t = Some path \<and> leads plan (active_hashes chain) (rev (hashes_of g path)))
     | plan_missing_block \<Rightarrow> find_node g target = None
     | ineligible_candidate \<Rightarrow> (\<exists>t path. find_node g target = Some t \<and> path_to_root g t = Some path \<and>
         (eligible_candidate g t = Some False \<or> set (active_hashes chain) \<inter> set (hashes_of g path) = {})))"
  using run_ops_ok [OF graph_ok_empty assms(1)] assms(2) by (intro plan_reorg_to_result) auto

theorem graph_reorg_plan_witness:
  "\<exists>g result. run_ops sample_ops empty_graph = Some g \<and> plan_reorg_to g (header_hash default_block_header) = Some result"
  using sample_graph graph_reorg_plan [OF sample_ops_ok] by blast

text \<open>
  C9. No assertion of the spend overlay can fail, whatever the block, the coin source and the
  interpreter answer: the assessment always returns a result.
\<close>

theorem block_spends_never_assert:
  "\<exists>result. assess_block_spends_with_callbacks V b ctx lookup = Some result"
  by (rule block_spends_total)

text \<open>
  C10. The composed verification accepts a block on an ancestor chain exactly when the chain
  evidence is valid, the header rules hold, the median time is representable, and the contextual
  and spend rules accept the block in the context derived from that chain.
\<close>

theorem block_acceptance:
  assumes "length (pow_limit (bv_consensus ctx)) = 32"
  shows "verify_block_on_chain V b hs time ctx coins = Some (evidence_checked (decision_valid facts)) \<longleftrightarrow>
    (\<exists>hctx cutoff local_facts. validate_header_context hs (bv_consensus ctx) = context_valid hctx \<and>
       header_rules (blk_header b) hctx time (bv_consensus ctx) \<and>
       locktime_cutoff (hc_previous_median_time_past hctx) = op_ok cutoff \<and>
       assess_block_contextual b (contextual_context_of hctx cutoff ctx) = op_ok (decision_valid local_facts) \<and>
       assess_block_spends V b (spend_context_of hctx ctx) coins = Some (op_ok (decision_valid facts)))"
  using assms by (rule verify_block_on_chain_accepts)

theorem block_acceptance_witness:
  "\<exists>facts. verify_block_on_chain (\<lambda>_ _ _ _ _ _ _ _. Return True) sample_block0 [] 1231006505 sample_rules
     (Pure_index (\<lambda>_. Return None)) = Some (evidence_checked (decision_valid facts))"
proof -
  have "length (pow_limit (bv_consensus sample_rules)) = 32" by (simp add: sample_rules_def sample_mainnet_def)
  from block_acceptance [OF this] sample_block0_valid show ?thesis by metis
qed

text \<open>
  C11. Parsing raw bytes as a block succeeds with value b exactly when b is representable on the
  wire and the raw bytes are its serialisation: parsing inverts serialisation and accepts no
  second encoding of a block.
\<close>

theorem parse_block_canonical:
  "parse_block raw = parsed b \<longleftrightarrow> block_wire_ok b \<and> raw = serialize_block append_sink_write b []"
  by (simp add: parse_block_def block_format.parse_exact_iff serialize_block_vector)

text \<open>
  C12. What a legacy signature commits to, for an input of the transaction and a script code
  that decodes to its end: the hash the streaming serialiser computes is the double SHA-256 of
  the wire serialisation of an explicit transaction, in which the scripts of the other inputs
  are blanked, the script code has its separators removed and inputs, sequences and outputs are
  cut down as the hash type says, followed by the hash type; for a single-output type without
  that output it is the number one. Script code, inputs and outputs number fewer than 2^32. A
  script code that ends in a truncated push is excluded: for it the serialiser writes fewer
  bytes than the size it announces, so no transaction has that serialisation.
\<close>

theorem legacy_signature_message:
  assumes "parses code 0" "length code < 2 ^ 32" "unat i < length (core_vin tx)"
    and "length (core_vin tx) < 2 ^ 32" "length (core_vout tx) < 2 ^ 32"
  shows "SignatureHash code tx i ht amount BASE d None =
    Ok (if ht AND 0x1f = SIGHASH_SINGLE \<and> length (core_vout tx) \<le> unat i then uint256_ONE
        else double_sha256 (transaction_bytes False (signing_transaction tx code (unat i) ht) @ write_little_endian ht 4), None)"
  using assms by (rule SignatureHash_base)

theorem legacy_signature_message_witness:
  "SignatureHash [OP_DUP, OP_CODESEPARATOR, OP_CHECKSIG] (to_core_transaction sample_witness_tx) 0 1 1 BASE None None =
    Ok (double_sha256 (transaction_bytes False
      (signing_transaction (to_core_transaction sample_witness_tx) [OP_DUP, OP_CODESEPARATOR, OP_CHECKSIG] 0 1) @
      write_little_endian (1 :: i32) 4), None)"
proof -
  have "parses [OP_DUP, OP_CODESEPARATOR, OP_CHECKSIG] 0" by code_simp
  then show ?thesis
    using legacy_signature_message [of "[OP_DUP, OP_CODESEPARATOR, OP_CHECKSIG]" 0 "to_core_transaction sample_witness_tx" 1 1 None]
    by simp
qed

text \<open>
  C13. The interpreter with the checker of a transaction, for an input that exists and with
  missing data treated as failure, never fails an assertion nor lets an exception escape, from
  any stack of elements within the size limit of 520 bytes, under every signature version but
  key-path taproot, and with the execution data initialised under tapscript. When it succeeds,
  every element of the resulting stack is within the limit; and if the script is not empty or
  the initial stack held at most a thousand elements, so does the resulting one (an empty script
  returns its stack unchecked).
\<close>

theorem interpreter_limits:
  assumes "env_checker env = transaction_signature_checker secp ck" "unat (ck_nIn ck) < length (core_vin (ck_txTo ck))"
    and "ck_mdb ck = FAIL" "env_sigversion env \<noteq> TAPROOT" "elements_ok stack"
    and "env_sigversion env = TAPSCRIPT \<longrightarrow>
      m_annex_init execdata \<and> m_tapleaf_hash_init execdata \<and> m_validation_weight_left_init execdata"
  shows "safe (EvalScript env stack execdata c) \<and>
    (\<forall>stack' execdata' c'. EvalScript env stack execdata c = Ok (stack', execdata', c') \<longrightarrow>
       elements_ok stack' \<and> (env_script env \<noteq> [] \<or> length stack \<le> 1000 \<longrightarrow> length stack' \<le> 1000))"
  using safe_checker.EvalScript_safe [OF transaction_checker_safe [OF assms(2,3)] assms(1,4,5)] assms(6)
  by (auto simp: script_limits)

theorem interpreter_limits_witness:
  "safe (EvalScript sample_env [sample_key, sample_signature] new_execdata new_sighash_cache)"
  using interpreter_limits [of sample_env sample_secp sample_checker "[sample_key, sample_signature]" new_execdata new_sighash_cache]
  by (simp add: sample_env_def script_env_def sample_checker_def elements_ok_def sample_key_def sample_signature_def script_limits)

text \<open>
  C14. The active chain of a graph built by its operations is a linked chain of headers, each
  block of it valid, with data and not failed; no block that is eligible is better than its tip,
  by work, then height, then hash, and it is empty only when no block is eligible.
\<close>

theorem graph_active_best:
  assumes "list_all graph_op_ok ops" "run_ops ops empty_graph = Some g"
  shows "\<exists>chain. active g = Some chain \<and> contiguous (active_headers chain) \<and>
    active_hashes chain = map header_hash (active_headers chain) \<and>
    (\<forall>hash\<in>set (active_hashes chain). \<exists>b. graph_find g hash = Some b \<and> nd_valid b \<and> nd_has_block_data b \<and> \<not> nd_failed b) \<and>
    (\<forall>j<length (m_nodes g). eligible_candidate g j = Some True \<longrightarrow>
       (\<exists>tip. active_hashes chain \<noteq> [] \<and> graph_find g (last (active_hashes chain)) = Some tip \<and>
          (tip = block_for (m_nodes g ! j) \<or> better_tip tip (m_nodes g ! j))))"
  using run_ops_ok [OF graph_ok_empty assms(1)] assms(2) by (intro active_chain_best) auto

theorem graph_active_best_witness:
  "\<exists>g chain. run_ops sample_ops empty_graph = Some g \<and> active g = Some chain \<and> contiguous (active_headers chain)"
  using sample_graph graph_active_best [OF sample_ops_ok] by blast

text \<open>
  C15. Parsing raw bytes as a transaction succeeds with value tx exactly when tx is
  representable (an input-less transaction has no outputs) and the raw bytes are its witness
  serialisation.
\<close>

theorem parse_transaction_canonical:
  "parse_transaction raw = parsed tx \<longleftrightarrow>
     tx_wire_ok tx \<and> raw = serialize_transaction append_sink_write True tx []"
  by (simp add: parse_transaction_def tx_format.parse_exact_iff serialize_transaction_vector)

text \<open>
  C16. Two non-empty unmutated lists of leaves of the same tree height with the same Merkle root
  are equal, unless two different hashed pairs collide under double SHA-256.
\<close>

theorem merkle_binding:
  assumes "xs \<noteq> []" and "ys \<noteq> []" and "merkle_depth (length xs) = merkle_depth (length ys)"
    and "\<not> mr_mutated (merkle_root_of xs)" and "\<not> mr_mutated (merkle_root_of ys)"
    and "mr_root (merkle_root_of xs) = mr_root (merkle_root_of ys)"
  shows "xs = ys \<or> merkle_collision xs ys"
  using assms by (rule merkle_root_binding)

theorem merkle_binding_witness:
  "\<not> mr_mutated (merkle_root_of [replicate 32 1, replicate 32 2]) \<and>
   ([replicate 32 1, replicate 32 2] = [replicate 32 1, replicate 32 2 :: byte list] \<or>
    merkle_collision [replicate 32 1, replicate 32 2] [replicate 32 1, replicate 32 2])"
proof -
  have "\<not> mr_mutated (merkle_root_of [replicate 32 1, replicate 32 2])"
    by (simp add: merkle_root_of_def)
  with merkle_binding [of "[replicate 32 1, replicate 32 2]" "[replicate 32 1, replicate 32 2]"]
  show ?thesis by simp
qed

text \<open>
  C17. A header is accepted in a context exactly when it names the parent, meets the minimum
  version, its compact target is well formed and equal to the expected bits, its hash is at most
  the target, it does not violate the timewarp rule, and its time is after the median time past
  and at most two hours ahead.
\<close>

theorem header_acceptance:
  assumes "length (pow_limit params) = 32"
  shows "assess_header_with_context h ctx time params = op_ok (decision_valid facts) \<longleftrightarrow>
    header_rules h ctx time params \<and> facts = \<lparr>hf_hash = header_hash h\<rparr>"
  using assms by (rule assess_header_accepts)

theorem header_acceptance_witness:
  "\<exists>ctx. validate_header_context [sample_header0] sample_mainnet = context_valid ctx \<and>
     assess_header_with_context sample_header1 ctx 1231469665 sample_mainnet =
       op_ok (decision_valid \<lparr>hf_hash = header_hash sample_header1\<rparr>)"
proof -
  have "length (pow_limit sample_mainnet) = 32" by (simp add: sample_mainnet_def)
  note accepts = header_acceptance [OF this]
  obtain ctx where "validate_header_context [sample_header0] sample_mainnet = context_valid ctx"
    "header_rules sample_header1 ctx 1231469665 sample_mainnet"
    using sample_context1 by metis
  then show ?thesis unfolding accepts by blast
qed

text \<open>
  C18. The retarget computation multiplies the target by the clamped timespan and divides by the
  nominal one over the integers, capped at the limit, and returns the limit whenever the 256-bit
  product overflows.
\<close>

theorem retarget_value:
  fixes actual timespan :: i64
  assumes "pow_ok target" and "pow_ok limit" and "0 < sint timespan"
    and "sint timespan \<le> sint (i64_div i64_max 4)"
    and "a = nat (max (sint timespan div 4) (min (sint actual) (4 * sint timespan)))"
  shows "pow_val (retarget target actual timespan limit) =
    (if 2 ^ 256 \<le> pow_val target * a then pow_val limit
     else min (pow_val target * a div nat (sint timespan)) (pow_val limit))"
  unfolding assms(5) using assms(1-4) by (rule retarget_val)

theorem retarget_value_witness:
  "pow_val (retarget [1000, 0, 0, 0, 0, 0, 0, 0] 0 1209600 [2000, 0, 0, 0, 0, 0, 0, 0]) = 250"
proof -
  have span: "sint (1209600 :: i64) = 1209600" by simp
  have "i64_div i64_max 4 = 2305843009213693951" by code_simp
  then have "sint (i64_div i64_max 4) = 2305843009213693951" by simp
  with retarget_value [of "[1000, 0, 0, 0, 0, 0, 0, 0]" "[2000, 0, 0, 0, 0, 0, 0, 0]" 1209600 302400 0]
  show ?thesis by (simp add: pow_ok_def span)
qed

text \<open>
  C19. The loop of the interpreter, written as the while loop of the source, ends on every
  script from every state, and what it ends with is the value of the recursive definition the
  other results are about: every round moves the read position forward.
\<close>

theorem interpreter_loop_terminates:
  "\<exists>x. eval_while env pc st = Some x \<and> exec_bind x (\<lambda>(pc, st). Ok st) = eval_loop env pc st"
  by (rule eval_while_terminates)

text \<open>
  C20. Feeding the hasher a message in two arbitrary pieces and finalising gives the padded one-
  shot digest: buffering never loses, repeats or reorders bytes.
\<close>

theorem sha256_write_split:
  assumes "length garbage = 64"
  shows "Finalize (sha_Write (sha_Write (CSHA256 garbage) xs) ys) = sha256 (xs @ ys)"
  using sha256_stream [OF sha_Write_written [OF sha_Write_written [OF sha_written_new [OF assms]]]] by simp

theorem sha256_write_split_witness:
  "length (replicate 64 (7 :: byte)) = 64 \<and>
   Finalize (sha_Write (sha_Write (CSHA256 (replicate 64 7)) [1, 2]) [3]) = sha256 [1, 2, 3]"
  using sha256_write_split [of "replicate 64 7" "[1, 2]" "[3]"] by simp

text \<open>
  C21. The hasher of the code computes the hash of the standard: fed a message of fewer than
  2^61 bytes and finalised, from whatever its uninitialised buffer held, it gives SHA-256 as
  FIPS 180-4 defines it, with its own logical functions over rotations, round constants and
  initial value from the fractions of the cube and square roots of the first primes, recursive
  message schedule, 64 rounds and padding.
\<close>

theorem sha256_fips_standard:
  assumes "length garbage = 64" and "length msg < 2 ^ 61"
  shows "Finalize (sha_Write (CSHA256 garbage) msg) = fips_sha256 msg"
  using hasher_fips [OF sha_Write_written [OF sha_written_new [OF assms(1)], of msg]] assms(2) by simp

theorem sha256_fips_standard_witness:
  "Finalize (sha_Write (CSHA256 (replicate 64 7)) [0x61, 0x62, 0x63]) = fips_sha256 [0x61, 0x62, 0x63] \<and>
   fips_sha256 [0x61, 0x62, 0x63] =
     [0xba, 0x78, 0x16, 0xbf, 0x8f, 0x01, 0xcf, 0xea, 0x41, 0x41, 0x40, 0xde, 0x5d, 0xae, 0x22, 0x23,
      0xb0, 0x03, 0x61, 0xa3, 0x96, 0x17, 0x7a, 0x9c, 0xb4, 0x10, 0xff, 0x61, 0xf2, 0x00, 0x15, 0xad]"
proof -
  let ?hash = "Finalize (sha_Write (CSHA256 (replicate 64 7)) [0x61, 0x62, 0x63])"
  have fips: "?hash = fips_sha256 [0x61, 0x62, 0x63]" by (rule sha256_fips_standard) simp_all
  have "?hash = sha256 [0x61, 0x62, 0x63]" by (rule hash_sink_any_buffer) simp
  with fips have "fips_sha256 [0x61, 0x62, 0x63] = sha256 [0x61, 0x62, 0x63]" by (simp only:)
  with fips show ?thesis by (simp only: sample_abc)
qed

text \<open>
  C22. Every chain grown from nothing by accepted headers is contiguous from a null genesis
  parent, each header meets its own well-formed target, and each header is later than the median
  time of the chain below it.
\<close>

theorem accepted_chain_work:
  assumes "accepted_chain params hs" and "length (pow_limit params) = 32"
  shows "chain_well_formed hs \<and>
    (\<forall>h\<in>set hs. target_well_formed (hdr_bits h) (pow_limit params) \<and>
       bytes_val (header_hash h) \<le> compact_target (hdr_bits h)) \<and>
    (\<forall>i. 0 < i \<and> i < length hs \<longrightarrow>
       sint (previous_median_time_past (take i hs)) < int (unat (hdr_time (hs ! i))))"
  using assms by (rule accepted_chain_invariant)

theorem accepted_chain_work_witness:
  "accepted_chain sample_mainnet [sample_header0, sample_header1] \<and>
   chain_well_formed [sample_header0, sample_header1] \<and>
   bytes_val (header_hash sample_header1) \<le> compact_target (hdr_bits sample_header1) \<and>
   sint (previous_median_time_past [sample_header0]) < int (unat (hdr_time sample_header1))"
proof -
  have "length (pow_limit sample_mainnet) = 32" by (simp add: sample_mainnet_def)
  note work = accepted_chain_work [OF sample_accepted_headers this]
  then have "(0 :: nat) < 1 \<and> 1 < length [sample_header0, sample_header1] \<longrightarrow>
      sint (previous_median_time_past (take 1 [sample_header0, sample_header1])) <
      int (unat (hdr_time ([sample_header0, sample_header1] ! 1)))" by blast
  with work sample_accepted_headers show ?thesis by simp
qed

text \<open>
  C23. The contextual block rules accept exactly the intrinsically valid blocks within the
  weight limit whose transactions are final, whose coinbase carries the height when required,
  and whose witness data is absent before segwit and committed to after.
\<close>

theorem block_contextual_acceptance:
  "assess_block_contextual b ctx = op_ok (decision_valid facts) \<longleftrightarrow>
     block_intrinsic_ok b (cc_local ctx) \<and> block_facts_of b facts \<and> block_contextual_ok b ctx"
  by (rule block_contextual_accepts)


text \<open>
  C25. A transaction spends validly against a coin source exactly when it passes the context-
  free rules and, unless it is a coinbase, every input coin is found, mature and in the money
  range, the inputs cover the outputs and the relative locks are satisfied; the fee reported is
  inputs minus outputs.
\<close>

theorem transaction_spend_acceptance:
  "assess_transaction_spends tx ctx index = op_ok (decision_valid sf) \<longleftrightarrow>
     tx_intrinsic_ok tx (sc_limits ctx) \<and>
     (\<exists>tx_facts. tx_facts_of tx tx_facts \<and>
       (if is_coinbase tx
        then sf = \<lparr>sf_input_value = 0, sf_output_value = tf_output_value tx_facts, sf_fee = 0\<rparr>
        else \<exists>cs. map (\<lambda>i. lookup_coin index (previous_output i)) (tx_inputs tx) = map (\<lambda>c. op_ok (Some c)) cs \<and>
          spend_ok tx tx_facts ctx cs \<and> spend_facts_of tx_facts cs sf))"
  by (rule spends_accept)

text \<open>
  C26. A transaction passes the context-free rules exactly when it has inputs and outputs, its
  stripped size (the code looks at no other size, although rule L09 of the inventory also names
  the full size) is within a quarter of the weight limit, its outputs are non-negative and sum
  within the money range (over the integers, no wrap-around), its inputs are distinct, and the
  coinbase script size or non-null prevout rule holds; the facts returned are its ids, output
  sum, kind and weight.
\<close>

theorem transaction_intrinsic_acceptance:
  "assess_transaction_intrinsic tx limits = op_ok (decision_valid facts) \<longleftrightarrow>
     tx_intrinsic_ok tx limits \<and> tx_facts_of tx facts"
  by (rule tx_intrinsic_accepts)

text \<open>
  C27. Script verification accepts a transaction exactly when the intrinsic and spend rules do
  and, for every input, the interpreter called with that input, its own previous output, the
  mapped flags and all previous outputs returns true; a coinbase is accepted with a zero fee and
  no script is run.
\<close>

theorem transaction_script_acceptance:
  "verify_transaction_scripts V tx spend flags cs = op_ok (decision_valid sf) \<longleftrightarrow>
     tx_intrinsic_ok tx (sc_limits spend) \<and>
     (\<exists>tf. tx_facts_of tx tf \<and>
       (if is_coinbase tx
        then sf = \<lparr>sf_input_value = 0, sf_output_value = tf_output_value tf, sf_fee = 0\<rparr>
        else assess_transaction_spends_with_coins tx tf spend cs = op_ok (decision_valid sf) \<and>
          (\<forall>i<length (tx_inputs tx). i < 2 ^ 32 \<and> input_script_ok V tx flags (map coin_output cs) i)))"
  by (rule transaction_scripts_accept)

theorem transaction_script_acceptance_witness:
  "\<exists>sf. verify_transaction_scripts (\<lambda>_ _ _ _ _ _ _ _. Return False) sample_coinbase (bs_spend sample_spend) 0 [] =
    op_ok (decision_valid sf)"
proof -
  obtain tf where "tx_facts_of sample_coinbase tf" using tx_facts_exist [OF sample_tx_ok] by blast
  moreover have "sc_limits (bs_spend sample_spend) = default_transaction_limits" by (simp add: sample_spend_def)
  ultimately show ?thesis
    using transaction_script_acceptance [of "\<lambda>_ _ _ _ _ _ _ _. Return False" sample_coinbase
        "bs_spend sample_spend" 0 "[]"] sample_tx_ok by auto
qed

text \<open>
  C28. With segwit active, an accepted block with witness data has a coinbase output that
  commits, with the 32-byte nonce of the coinbase witness, to the witness Merkle root of the
  block.
\<close>

theorem segwit_commitment_present:
  assumes "assess_block_contextual b ctx = op_ok (decision_valid facts)"
    and "segwit_active (cc_deployments ctx)" and "block_has_witness (blk_transactions b)"
  shows "\<exists>cb rest out nonce. blk_transactions b = cb # rest \<and> out \<in> set (tx_outputs cb) \<and>
    has_witness_commitment_prefix (output_script out) \<and>
    input_witness (hd (tx_inputs cb)) = [nonce] \<and> length nonce = 32 \<and>
    take 32 (drop 6 (output_script out)) = double_sha256 (witness_merkle_root (blk_transactions b) @ nonce)"
  using assms by (rule segwit_commitment)

theorem segwit_commitment_present_witness:
  "\<exists>facts. assess_block_contextual sample_block sample_contextual = op_ok (decision_valid facts) \<and>
    (\<exists>out\<in>set (tx_outputs sample_coinbase). has_witness_commitment_prefix (output_script out) \<and>
       take 32 (drop 6 (output_script out)) =
         double_sha256 (witness_merkle_root (blk_transactions sample_block) @ replicate 32 0))"
proof -
  have "segwit_active (cc_deployments sample_contextual)" by (simp add: sample_contextual_def)
  moreover have "block_has_witness (blk_transactions sample_block)"
    by (simp add: block_has_witness_def sample_block_def transaction_has_witness_def sample_coinbase_def)
  ultimately show ?thesis
    using sample_accepted_contextual segwit_commitment_present [of sample_block sample_contextual]
    by (fastforce simp: sample_block_def sample_coinbase_def)
qed

text \<open>
  C29. Relative lock times hold exactly when they are not enforced, the version is below two, or
  every input that does not disable its lock is old enough in blocks or in units of 512 seconds
  of median time.
\<close>

theorem sequence_lock_acceptance:
  assumes "\<forall>c\<in>set cs. 0 \<le> sint (coin_previous_mtp c) \<and> sint (coin_previous_mtp c) < 2 ^ 62"
    and "0 \<le> sint (sc_height ctx)" and "0 \<le> sint (sc_previous_median_time_past ctx)"
  shows "sequence_locks_satisfied tx ctx cs \<longleftrightarrow>
    \<not> verify_sequence (sc_locktime ctx) \<or> sint (tx_version tx) < 2 \<or>
    list_all (lock_expired ctx) (zip (tx_inputs tx) cs)"
  using assms by (rule sequence_locks_satisfied_iff)

theorem sequence_lock_acceptance_witness:
  "\<not> sequence_locks_satisfied
     \<lparr>tx_version = 2, tx_inputs = [\<lparr>previous_output = Outpoint null_hash 0, input_script = [],
        input_sequence = 10, input_witness = []\<rparr>], tx_outputs = [], tx_locktime = 0\<rparr>
     \<lparr>sc_height = 109, sc_previous_median_time_past = 0, sc_limits = default_transaction_limits,
      sc_locktime = 1, coinbase_maturity = 100\<rparr>
     [\<lparr>coin_output = \<lparr>output_value = 0, output_script = []\<rparr>, coin_height = 100, coin_coinbase = False,
       coin_previous_mtp = 0\<rparr>]"
  by (subst sequence_lock_acceptance)
    (simp_all add: verify_sequence_def lock_expired_def lock_disabled_def lock_by_time_def
      relative_lock_def sequence_disable_flag_def sequence_type_flag_def sequence_locktime_mask_def)

text \<open>
  C30. Repeating the last leaf of a list of odd length greater than one keeps the Merkle root
  and raises the mutation flag: the duplicate-transaction malleation is detected. A single leaf
  is not such a list, since its repetition changes the root.
\<close>

theorem merkle_mutation_detected:
  assumes "odd (length xs)" and "1 < length xs"
  shows "mr_root (merkle_root_of (xs @ [last xs])) = mr_root (merkle_root_of xs) \<and>
    mr_mutated (merkle_root_of (xs @ [last xs]))"
  using merkle_root_duplicate_tail [OF assms] by blast

theorem merkle_mutation_detected_witness:
  "mr_mutated (merkle_root_of [replicate 32 1, replicate 32 2, replicate 32 3, replicate 32 3])"
  using merkle_mutation_detected [of "[replicate 32 1, replicate 32 2, replicate 32 3]"] by simp

text \<open>
  C31. The streaming hash of a serialisation is the double SHA-256 of the bytes: transaction ids
  hash the stripped layout, witness ids the full layout, block hashes the header layout,
  whatever bytes the two uninitialised hash buffers held; the identifiers the rest of the
  development computes, with buffers of zeros, are the same.
\<close>

theorem identifier_hashes:
  assumes "length garbage = 64" and "length garbage' = 64"
  shows "transaction_id_with garbage garbage' tx = double_sha256 (transaction_bytes False tx) \<and>
   witness_id_with garbage garbage' tx = double_sha256 (transaction_bytes True tx) \<and>
   header_hash_with garbage garbage' h = double_sha256 (header_bytes h) \<and>
   transaction_id tx = transaction_id_with garbage garbage' tx \<and>
   witness_id tx = witness_id_with garbage garbage' tx \<and> header_hash h = header_hash_with garbage garbage' h"
  by (simp add: id_any_buffer [OF assms] transaction_id_bytes witness_id_bytes header_hash_bytes)

theorem identifier_hashes_witness:
  "transaction_id_with (replicate 64 7) (replicate 64 9) sample_coinbase0 = hdr_merkle_root sample_header0 \<and>
   header_hash_with (replicate 64 7) (replicate 64 9) sample_header0 = previous_block_hash sample_header1"
proof -
  have "transaction_id sample_coinbase0 = hdr_merkle_root sample_header0"
    "header_hash sample_header0 = previous_block_hash sample_header1"
    by (simp add: sample_id0, simp add: sample_header0_def) (simp add: sample_hash0, simp add: sample_header1_def)
  with identifier_hashes [of "replicate 64 7" "replicate 64 9" sample_coinbase0 sample_header0] show ?thesis by simp
qed

text \<open>
  C32. Reconsidering a block undoes its invalidation: when no block at or below it was marked as
  failed before, the candidates, the unlinked and the failed blocks are again what they were.
\<close>

theorem graph_reconsider_undoes:
  assumes "list_all graph_op_ok ops" "run_ops ops empty_graph = Some g" "find_node g hash = Some k"
    and "\<And>i path. i < length (m_nodes g) \<Longrightarrow> path_to_root g i = Some path \<Longrightarrow> k \<in> set path \<Longrightarrow> \<not> nd_failed (m_nodes g ! i)"
  shows "\<exists>g1 g2. invalidate hash g = Some (applied, g1) \<and> reconsider hash g1 = Some (applied, g2) \<and>
    m_candidates g2 = m_candidates g \<and> m_unlinked g2 = m_unlinked g \<and> m_failed g2 = m_failed g"
proof -
  have g: "graph_ok g" using run_ops_ok [OF graph_ok_empty assms(1)] assms(2) by auto
  show ?thesis
    by (rule reconsider_undoes_invalidate [OF g assms(3)])
      (rule assms(4) [OF _ path_to_root_branch [OF graph_ok_tree [OF g]]])
qed

theorem graph_reconsider_undoes_witness:
  "\<exists>g g1 g2. run_ops sample_ops empty_graph = Some g \<and> invalidate (header_hash default_block_header) g = Some (applied, g1) \<and>
    reconsider (header_hash default_block_header) g1 = Some (applied, g2) \<and> m_candidates g2 = m_candidates g"
proof -
  obtain g where g: "run_ops sample_ops empty_graph = Some g" "graph_ok g" "m_nodes g = [sample_node]" using sample_graph by blast
  have "find_node g (header_hash default_block_header) = Some 0"
    using find_node_nth [OF graph_ok_tree [OF g(2)], of 0] g(3) by (simp add: sample_node_def)
  from graph_reconsider_undoes [OF sample_ops_ok g(1) this] g show ?thesis by (auto simp: sample_node_def)
qed



text \<open>
  C34. The median time past of a non-empty chain is the time of one of its last eleven blocks:
  fewer than half of them are later, and at least half are not earlier.
\<close>

theorem median_time_past_value:
  assumes "ancestors \<noteq> []" and "window = map hdr_time (take 11 (rev ancestors))"
  shows "\<exists>t\<in>set window. previous_median_time_past ancestors = ucast t \<and>
    length window < 2 * length (filter (\<lambda>x. x \<le> t) window) \<and>
    length window \<le> 2 * length (filter (\<lambda>x. t \<le> x) window)"
  unfolding assms(2) using assms(1) by (rule previous_median_time_past_median)

theorem median_time_past_value_witness:
  "\<exists>t. t = 7 \<and> previous_median_time_past
     [default_block_header\<lparr>hdr_time := 9\<rparr>, default_block_header\<lparr>hdr_time := 7\<rparr>,
      default_block_header\<lparr>hdr_time := 5\<rparr>] = ucast (t :: u32)"
  using median_time_past_value [of "[default_block_header\<lparr>hdr_time := 9\<rparr>,
      default_block_header\<lparr>hdr_time := 7\<rparr>, default_block_header\<lparr>hdr_time := 5\<rparr>]", OF _ refl]
  by auto

text \<open>
  C35. When every earlier input of an ordinary transaction was found, the first coin lookup that
  fails is returned as the operation error, and the first that finds no coin as a rejection
  under rule S02: a storage failure never turns into a verdict.
\<close>

theorem first_lookup_failure:
  assumes "tx_intrinsic_ok tx (sc_limits ctx)" and "\<not> is_coinbase tx" and "tx_inputs tx = found @ i # rest"
    and "\<forall>j\<in>set found. \<exists>c. lookup_coin coins (previous_output j) = op_ok (Some c)"
    and "\<nexists>c. lookup_coin coins (previous_output i) = op_ok (Some c)"
  shows "assess_transaction_spends tx ctx coins =
    (case lookup_coin coins (previous_output i) of
       op_failed e \<Rightarrow> op_failed e
     | op_ok _ \<Rightarrow> op_ok (decision_invalid (Rejection rule_violation s02_prevouts_unspent
         ''transaction input prevout is not present'')))"
  using assms by (rule spends_first_failure)

theorem first_lookup_failure_witness:
  "assess_transaction_spends sample_spending (bs_spend sample_spend) (Fallible_source (\<lambda>_. Throw)) =
     op_failed (Operation_error callback_failure ''coin index lookup threw an exception'')"
proof -
  have size: "stripped_serialized_size sample_spending \<le> 1000000"
    by (simp add: stripped_serialized_size_bytes transaction_bytes_def vector_bytes_def input_bytes_def
        output_bytes_def var_bytes_def compact_size_bytes_def sample_spending_def null_hash_def
        length_write_little_endian size_wrap_def)
  have "\<not> is_coinbase sample_spending"
    by (simp add: is_coinbase_def is_null_def outpoint_null_def sample_spending_def)
  moreover have "tx_intrinsic_ok sample_spending (sc_limits (bs_spend sample_spend))"
    using size calculation
    by (simp add: tx_intrinsic_ok_def sample_spend_def default_transaction_limits_def outputs_non_negative_def
        outputs_total_def) (simp add: sample_spending_def outpoint_null_def)
  moreover have "tx_inputs sample_spending = [] @ hd (tx_inputs sample_spending) # []"
    by (simp add: sample_spending_def)
  ultimately show ?thesis
    using first_lookup_failure [of sample_spending "bs_spend sample_spend" "[]" "hd (tx_inputs sample_spending)" "[]"
        "Fallible_source (\<lambda>_. Throw)"]
    by (simp add: map_call_def coin_lookup_boundary_def)
qed

text \<open>
  C36. A coinbase script commits to at most one non-negative block height: the height prefixes
  are prefix-free.
\<close>

theorem coinbase_height_unique:
  assumes "0 \<le> sint h" and "0 \<le> sint k"
    and "starts_with bytes (coinbase_height_prefix h)" and "starts_with bytes (coinbase_height_prefix k)"
  shows "h = k"
  using assms by (rule coinbase_height_prefix_unique)

theorem coinbase_height_unique_witness:
  "coinbase_height_prefix 227931 = [0x03, 0x5b, 0x7a, 0x03] \<and>
   starts_with [0x03, 0x5b, 0x7a, 0x03, 0xff] (coinbase_height_prefix 227931) \<and> (227931 :: i32) = 227931"
proof -
  have p: "coinbase_height_prefix 227931 = [0x03, 0x5b, 0x7a, 0x03]" by code_simp
  then have s: "starts_with [0x03, 0x5b, 0x7a, 0x03, 0xff] (coinbase_height_prefix 227931)"
    by (simp add: starts_with_def)
  have "0 \<le> sint (227931 :: i32)" by simp
  from coinbase_height_unique [OF this this s s] p s show ?thesis by blast
qed

text \<open>
  C37. A rejected block reports a failure offset inside the input.
\<close>

theorem parse_block_failure_offset:
  "parse_block raw = malformed m \<Longrightarrow> mp_offset m \<le> length raw"
  by (simp add: parse_block_def block_format.parse_exact_failure_offset)

theorem parse_block_failure_offset_witness:
  "parse_block [1, 2, 3] = malformed (Malformed_parse truncated 0) \<and>
   mp_offset (Malformed_parse truncated 0) \<le> length [1, 2, 3 :: byte]"
proof
  show "parse_block [1, 2, 3] = malformed (Malformed_parse truncated 0)"
    by code_simp
  then show "mp_offset (Malformed_parse truncated 0) \<le> length [1, 2, 3 :: byte]"
    by (rule parse_block_failure_offset)
qed

text \<open>
  C38. What a version 0 witness signature of an existing input commits to: the double SHA-256 of
  the message of BIP 143, whether the hashes of the inputs and outputs were precomputed for the
  transaction, with one spent output per input, or not.
\<close>

theorem witness_signature_message:
  assumes "unat i < length (core_vin tx)" "length spent_outputs = length (core_vin tx)" "Init new_txdata tx spent_outputs force = Ok d"
    and "cache = None \<or> cache = Some d"
  shows "SignatureHash code tx i ht amount WITNESS_V0 cache None =
    Ok (double_sha256 (bip143_message code tx (unat i) ht amount), None)"
  using assms Init_precomputed [OF assms(2), of force] by (intro SignatureHash_witness_v0) auto

theorem witness_signature_message_witness:
  "SignatureHash [OP_CHECKSIG] (to_core_transaction sample_witness_tx) 0 3 1 WITNESS_V0 None None =
    Ok (double_sha256 (bip143_message [OP_CHECKSIG] (to_core_transaction sample_witness_tx) 0 3 1), None)"
proof -
  obtain d where "Init new_txdata (to_core_transaction sample_witness_tx) [CTxOut_null] False = Ok d"
    using Init_precomputed [of "[CTxOut_null]" "to_core_transaction sample_witness_tx"] by auto
  from witness_signature_message [OF _ _ this, of 0 None "[OP_CHECKSIG]" 3 1] show ?thesis by simp
qed

text \<open>
  C39. CScriptNum with minimal encoding required accepts a byte string of at most n bytes (n up
  to eight) exactly when it is what CScriptNum::serialize writes for the resulting value:
  reading and writing numbers are inverse and no value has two accepted encodings.
\<close>

theorem script_number_canonical:
  assumes "n \<le> 8"
  shows "script_num vch True n = Some v \<longleftrightarrow> length vch \<le> n \<and> vch = serialize_num v"
  using assms by (rule script_num_canonical)

theorem script_number_canonical_witness:
  "script_num [0xff, 0x80] True 4 = Some (- 255) \<and> script_num [0x01, 0x00] True 4 \<noteq> Some 1"
proof
  have "serialize_num (- 255) = [0xff, 0x80]"
    by (simp add: serialize_num_def serialize_loop.simps word_sless_alt)
  then show "script_num [0xff, 0x80] True 4 = Some (- 255)"
    using script_number_canonical [of 4 "[0xff, 0x80]" "- 255"] by simp
  have "serialize_num 1 = [0x01]" by (simp add: serialize_num_def serialize_loop.simps word_sless_alt)
  then show "script_num [0x01, 0x00] True 4 \<noteq> Some 1"
    using script_number_canonical [of 4 "[0x01, 0x00]" 1] by simp
qed

text \<open>
  C40. The signature operation counter of block validation and CScript::GetSigOpCount, which
  reads scripts with a different opcode reader, count the same operations in every script of
  fewer than 2^32 bytes, up to the 32-bit width of the latter.
\<close>

theorem sigop_counters_agree:
  assumes "length bytes < 2 ^ 32"
  shows "unat (GetSigOpCount bytes accurate) = sigop_count bytes accurate mod 2 ^ 32"
  using assms by (rule sigop_count_agrees)

theorem sigop_counters_agree_witness:
  "unat (GetSigOpCount [0x52, 0x4c, 0x01, 0xac, 0xae, 0xac] True) = sigop_count [0x52, 0x4c, 0x01, 0xac, 0xae, 0xac] True mod 2 ^ 32"
  using sigop_counters_agree [of "[0x52, 0x4c, 0x01, 0xac, 0xae, 0xac]" True] by simp

subsection \<open>Further facts\<close>

text \<open>
  Parsing raw bytes as a block header succeeds exactly on the 80-byte serialisations of headers.
\<close>

theorem parse_header_canonical:
  "parse_block_header raw = parsed h \<longleftrightarrow> header_ok h \<and> raw = serialize_header append_sink_write h []"
  by (simp add: parse_block_header_def header_format.parse_exact_iff serialize_header_vector)

text \<open>
  A script counts at most twenty signature operations per byte, so the size_t counter of a
  script that fits in memory never wraps.
\<close>

theorem sigop_count_bounded: "sigop_count bytes accurate \<le> 20 * length bytes"
  by (rule sigop_count_bound)

text \<open>
  When taproot is requested, the interpreter flags contain the P2SH, witness and taproot bits
  together, the combination the interpreter asserts.
\<close>

theorem taproot_flags:
  assumes "flags_contains flags taproot_mask"
  shows "flag_set (to_core_flags flags) SCRIPT_VERIFY_P2SH \<and> flag_set (to_core_flags flags) SCRIPT_VERIFY_WITNESS \<and>
    flag_set (to_core_flags flags) SCRIPT_VERIFY_TAPROOT"
  using assms by (rule taproot_implies_witness_and_p2sh)

end
